(* ===== verification/Polaris_Prelude.thy ===== *)
theory Polaris_Prelude
  imports Complex_Main "HOL-Library.List_Lexorder" "HOL-Library.Char_ord"
    "HOL-Library.Product_Lexorder"
begin

text \<open>
  Shared vocabulary of the development: Python exceptions as values of a sum type, the
  string operations of the Python standard library that the modelled modules call, Python's
  stable sort, and the generic lemmas the component theories use.

  A Python \<open>str\<close> is a \<^typ>\<open>string\<close>, that is, a list of code points below 256. The
  character classes (white space, digits, case mapping) are those of Python restricted to
  that range. Time stamps are \<^typ>\<open>real\<close> numbers: binary rounding is not modelled.
\<close>

section \<open>Exceptions and results\<close>

datatype py_error =
    ValueError string
  | KeyError string
  | TypeError string
  | RuntimeError string
  | OSError string
  | PermissionError string
  | OverflowError string
  | DatabaseError string

type_synonym 'a py_result = "py_error + 'a"

fun bind_res :: "'e + 'a \<Rightarrow> ('a \<Rightarrow> 'e + 'b) \<Rightarrow> 'e + 'b" where
  "bind_res (Inl e) f = Inl e"
| "bind_res (Inr x) f = f x"

fun map_res :: "('a \<Rightarrow> 'e + 'b) \<Rightarrow> 'a list \<Rightarrow> 'e + 'b list" where
  "map_res f [] = Inr []"
| "map_res f (x # xs) = bind_res (f x) (\<lambda>y. bind_res (map_res f xs) (\<lambda>ys. Inr (y # ys)))"

text \<open>Python's \<open>any\<close> and \<open>all\<close> over a generator whose body may raise: short-circuit.\<close>

fun any_res :: "('a \<Rightarrow> 'e + bool) \<Rightarrow> 'a list \<Rightarrow> 'e + bool" where
  "any_res f [] = Inr False"
| "any_res f (x # xs) = bind_res (f x) (\<lambda>b. if b then Inr True else any_res f xs)"

fun all_res :: "('a \<Rightarrow> 'e + bool) \<Rightarrow> 'a list \<Rightarrow> 'e + bool" where
  "all_res f [] = Inr True"
| "all_res f (x # xs) = bind_res (f x) (\<lambda>b. if b then all_res f xs else Inr False)"

text \<open>\<open>next((x for x in xs if f x), None)\<close> over a test that may raise.\<close>

fun find_res :: "('a \<Rightarrow> 'e + bool) \<Rightarrow> 'a list \<Rightarrow> 'e + 'a option" where
  "find_res f [] = Inr None"
| "find_res f (x # xs) = bind_res (f x) (\<lambda>b. if b then Inr (Some x) else find_res f xs)"

lemma bind_res_Inr_iff: "bind_res m f = Inr y \<longleftrightarrow> (\<exists>x. m = Inr x \<and> f x = Inr y)"
  by (cases m) auto

lemma bind_res_Inl_iff: "bind_res m f = Inl e \<longleftrightarrow> m = Inl e \<or> (\<exists>x. m = Inr x \<and> f x = Inl e)"
  by (cases m) auto

lemma all_res_True_iff: "all_res f xs = Inr True \<longleftrightarrow> (\<forall>x\<in>set xs. f x = Inr True)"
  by (induction xs) (auto simp: bind_res_Inr_iff)

lemma any_res_False_iff: "any_res f xs = Inr False \<longleftrightarrow> (\<forall>x\<in>set xs. f x = Inr False)"
  by (induction xs) (auto simp: bind_res_Inr_iff)

lemma any_res_TrueD: "any_res f xs = Inr True \<Longrightarrow> \<exists>x\<in>set xs. f x = Inr True"
  by (induction xs) (auto simp: bind_res_Inr_iff split: if_splits)

lemma find_res_SomeD: "find_res f xs = Inr (Some x) \<Longrightarrow> x \<in> set xs \<and> f x = Inr True"
  by (induction xs) (auto simp: bind_res_Inr_iff split: if_splits)

lemma find_res_None_iff: "find_res f xs = Inr None \<longleftrightarrow> (\<forall>x\<in>set xs. f x = Inr False)"
  by (induction xs) (auto simp: bind_res_Inr_iff)

lemma bind_option_Inr_iff:
  "bind_res m (case_option f g) = Inr r \<longleftrightarrow> (m = Inr None \<and> f = Inr r) \<or> (\<exists>y. m = Inr (Some y) \<and> g y = Inr r)"
proof (cases m)
  case (Inr x)
  then show ?thesis by (cases x) auto
qed auto

lemma map_res_Inl:
  "x \<in> set xs \<Longrightarrow> f x = Inl e \<Longrightarrow> \<exists>y\<in>set xs. \<exists>e'. f y = Inl e' \<and> map_res f xs = Inl e'"
proof (induction xs)
  case (Cons y ys)
  then show ?case by (cases "f y") (auto simp: bind_res_Inl_iff)
qed simp

lemma find_SomeD2: "find p xs = Some x \<Longrightarrow> x \<in> set xs \<and> p x"
  by (induction xs) (auto split: if_splits)

lemma map_res_Inr_length: "map_res f xs = Inr ys \<Longrightarrow> length ys = length xs"
  by (induction xs arbitrary: ys) (auto simp: bind_res_Inr_iff)

section \<open>Characters\<close>

definition is_space :: "char \<Rightarrow> bool" where
  "is_space c \<longleftrightarrow> c \<in> set [CHR '' '', CHR 0x0A, CHR 0x09, CHR 0x0D, CHR 0x0B, CHR 0x0C,
     CHR 0x1C, CHR 0x1D, CHR 0x1E, CHR 0x1F, CHR 0x85, CHR 0xA0]"

definition is_decimal :: "char \<Rightarrow> bool" where
  "is_decimal c \<longleftrightarrow> c \<in> set ''0123456789''"

definition is_alpha_ascii :: "char \<Rightarrow> bool" where
  "is_alpha_ascii c \<longleftrightarrow> c \<in> set ''abcdefghijklmnopqrstuvwxyzABCDEFGHIJKLMNOPQRSTUVWXYZ''"

definition is_alnum_ascii :: "char \<Rightarrow> bool" where
  "is_alnum_ascii c \<longleftrightarrow> is_decimal c \<or> is_alpha_ascii c"

text \<open>\<open>str.isdigit\<close> also holds of the superscripts one, two and three.\<close>

definition py_isdigit :: "string \<Rightarrow> bool" where
  "py_isdigit s \<longleftrightarrow> s \<noteq> [] \<and> list_all (\<lambda>c. is_decimal c \<or> c \<in> set [CHR 0xB2, CHR 0xB3, CHR 0xB9]) s"

definition digit_value :: "char \<Rightarrow> nat" where
  "digit_value c = of_char c - 48"

text \<open>\<open>str.lower\<close> on one character: ASCII letters and the Latin-1 capitals.\<close>

definition lower_char :: "char \<Rightarrow> char" where
  "lower_char c =
     (let n = (of_char c :: nat)
      in if (65 \<le> n \<and> n \<le> 90) \<or> (192 \<le> n \<and> n \<le> 222 \<and> n \<noteq> 215) then char_of (n + 32) else c)"

definition py_lower :: "string \<Rightarrow> string" where
  "py_lower s = map lower_char s"

text \<open>\<open>str.casefold\<close>: as \<open>lower\<close>, and the sharp s becomes two letters. (The micro sign
  folds to a code point outside the modelled range and is left as it is.)\<close>

definition py_casefold :: "string \<Rightarrow> string" where
  "py_casefold s = concat (map (\<lambda>c. if c = CHR 0xDF then ''ss'' else [lower_char c]) s)"

section \<open>Strings\<close>

definition lstrip_chars :: "(char \<Rightarrow> bool) \<Rightarrow> string \<Rightarrow> string" where
  "lstrip_chars p s = dropWhile p s"

definition rstrip_chars :: "(char \<Rightarrow> bool) \<Rightarrow> string \<Rightarrow> string" where
  "rstrip_chars p s = rev (dropWhile p (rev s))"

definition strip_chars :: "(char \<Rightarrow> bool) \<Rightarrow> string \<Rightarrow> string" where
  "strip_chars p s = rstrip_chars p (lstrip_chars p s)"

definition py_strip :: "string \<Rightarrow> string" where
  "py_strip s = strip_chars is_space s"

definition startswith :: "string \<Rightarrow> string \<Rightarrow> bool" where
  "startswith s p \<longleftrightarrow> take (length p) s = p"

definition endswith :: "string \<Rightarrow> string \<Rightarrow> bool" where
  "endswith s p \<longleftrightarrow> startswith (rev s) (rev p)"

fun contains_str :: "string \<Rightarrow> string \<Rightarrow> bool" where
  "contains_str [] p = (p = [])"
| "contains_str (c # s) p = (startswith (c # s) p \<or> contains_str s p)"

text \<open>\<open>s.split(c)\<close> for one separator character: always at least one piece.\<close>

fun split_char :: "char \<Rightarrow> string \<Rightarrow> string list" where
  "split_char c [] = [[]]"
| "split_char c (x # xs) =
     (if x = c then [] # split_char c xs
      else (case split_char c xs of [] \<Rightarrow> [[x]] | p # ps \<Rightarrow> (x # p) # ps))"

text \<open>\<open>s.partition(c)\<close>: the text before the first separator, whether it was found, the rest.\<close>

fun partition_char :: "char \<Rightarrow> string \<Rightarrow> string \<times> bool \<times> string" where
  "partition_char c [] = ([], False, [])"
| "partition_char c (x # xs) =
     (if x = c then ([], True, xs)
      else (case partition_char c xs of (a, f, b) \<Rightarrow> (x # a, f, b)))"

text \<open>\<open>s.split(sep)\<close> for a separator of two characters.\<close>

fun split_pair_acc :: "char \<Rightarrow> char \<Rightarrow> string \<Rightarrow> string \<Rightarrow> string list" where
  "split_pair_acc a b acc (x # y # s) =
     (if x = a \<and> y = b then rev acc # split_pair_acc a b [] s
      else split_pair_acc a b (x # acc) (y # s))"
| "split_pair_acc a b acc [x] = [rev (x # acc)]"
| "split_pair_acc a b acc [] = [rev acc]"

definition split_pair :: "char \<Rightarrow> char \<Rightarrow> string \<Rightarrow> string list" where
  "split_pair a b s = split_pair_acc a b [] s"

text \<open>\<open>s.split()\<close>: the maximal runs of characters that are not white space.\<close>

fun split_by_acc :: "(char \<Rightarrow> bool) \<Rightarrow> string \<Rightarrow> string \<Rightarrow> string list" where
  "split_by_acc p acc [] = (if acc = [] then [] else [rev acc])"
| "split_by_acc p acc (c # s) =
     (if p c then (if acc = [] then split_by_acc p [] s else rev acc # split_by_acc p [] s)
      else split_by_acc p (c # acc) s)"

definition py_split :: "string \<Rightarrow> string list" where
  "py_split s = split_by_acc is_space [] s"

fun join_str :: "string \<Rightarrow> string list \<Rightarrow> string" where
  "join_str sep [] = []"
| "join_str sep [x] = x"
| "join_str sep (x # y # ys) = x @ sep @ join_str sep (y # ys)"

definition replace_char :: "char \<Rightarrow> char \<Rightarrow> string \<Rightarrow> string" where
  "replace_char a b s = map (\<lambda>c. if c = a then b else c) s"

text \<open>\<open>str.splitlines()\<close>, without the line ends.\<close>

definition is_line_end :: "char \<Rightarrow> bool" where
  "is_line_end c \<longleftrightarrow> c \<in> set [CHR 0x0A, CHR 0x0D, CHR 0x0B, CHR 0x0C, CHR 0x1C, CHR 0x1D,
     CHR 0x1E, CHR 0x85]"

fun splitlines_acc :: "string \<Rightarrow> string \<Rightarrow> string list" where
  "splitlines_acc acc [] = (if acc = [] then [] else [rev acc])"
| "splitlines_acc acc (c # s) =
     (if c = CHR 0x0D \<and> (case s of [] \<Rightarrow> False | d # _ \<Rightarrow> d = CHR 0x0A)
      then splitlines_acc acc s
      else if is_line_end c then rev acc # splitlines_acc [] s
      else splitlines_acc (c # acc) s)"

definition splitlines :: "string \<Rightarrow> string list" where
  "splitlines s = splitlines_acc [] s"

section \<open>Decimal numbers\<close>

definition digits_value :: "string \<Rightarrow> nat" where
  "digits_value s = fold (\<lambda>c n. 10 * n + digit_value c) s 0"

text \<open>The digits of \<open>int(s)\<close>: decimal digits with single underscores between digits.\<close>

fun int_body :: "bool \<Rightarrow> string \<Rightarrow> bool" where
  "int_body prev [] = prev"
| "int_body prev (c # s) =
     (if is_decimal c then int_body True s
      else if c = CHR ''_'' \<and> prev then (case s of [] \<Rightarrow> False | d # _ \<Rightarrow> is_decimal d \<and> int_body False s)
      else False)"

definition py_int :: "string \<Rightarrow> int py_result" where
  "py_int s =
     (let t = py_strip s;
          neg = startswith t ''-'';
          body = (if neg \<or> startswith t ''+'' then tl t else t)
      in if int_body False body
         then (let n = int (digits_value (filter is_decimal body)) in Inr (if neg then - n else n))
         else Inl (ValueError ''invalid literal for int() with base 10''))"

fun nat_str :: "nat \<Rightarrow> string" where
  "nat_str n = (if n < 10 then [char_of (48 + n)] else nat_str (n div 10) @ [char_of (48 + n mod 10)])"

declare nat_str.simps [simp del]

definition int_str :: "int \<Rightarrow> string" where
  "int_str i = (if i < 0 then CHR ''-'' # nat_str (nat (- i)) else nat_str (nat i))"

section \<open>Sorting and searching\<close>

text \<open>\<open>sorted(xs, key=f, reverse=True)\<close>: descending and stable.\<close>

definition sort_key_rev :: "('a \<Rightarrow> 'k::linorder) \<Rightarrow> 'a list \<Rightarrow> 'a list" where
  "sort_key_rev f xs = rev (sort_key f (rev xs))"

lemma set_sort_key_rev [simp]: "set (sort_key_rev f xs) = set xs"
  by (simp add: sort_key_rev_def)

lemma length_sort_key_rev [simp]: "length (sort_key_rev f xs) = length xs"
  by (simp add: sort_key_rev_def)

lemma sort_key_rev_eq_Nil [simp]: "sort_key_rev f xs = [] \<longleftrightarrow> xs = []"
  by (metis length_sort_key_rev length_0_conv)

section \<open>Lemmas on strings\<close>

lemma startswith_append [simp]: "startswith (p @ s) p"
  by (simp add: startswith_def)

lemma startswith_iff: "startswith s p \<longleftrightarrow> (\<exists>t. s = p @ t)"
  unfolding startswith_def by (metis append_eq_conv_conj append_take_drop_id)

lemma endswith_iff: "endswith s p \<longleftrightarrow> (\<exists>t. s = t @ p)"
  unfolding endswith_def startswith_iff by (metis rev_append rev_rev_ident)

lemma split_char_not_Nil [simp]: "split_char c s \<noteq> []"
  by (induction s) (auto split: list.splits)

lemma split_char_no_sep: "c \<notin> set s \<Longrightarrow> split_char c s = [s]"
  by (induction s) auto

lemma split_char_append_sep: "split_char c (a @ c # b) = split_char c a @ split_char c b"
  by (induction a) (auto split: list.splits)

lemma join_split_char: "join_str [c] (split_char c s) = s"
proof (induction s)
  case (Cons x xs)
  then show ?case
    by (cases "split_char c xs"; cases "tl (split_char c xs)") (auto split: list.splits)
qed simp

lemma split_char_pieces: "p \<in> set (split_char c s) \<Longrightarrow> c \<notin> set p"
  by (induction s arbitrary: p) (auto split: list.splits if_splits)

lemma set_split_char: "p \<in> set (split_char c s) \<Longrightarrow> set p \<subseteq> set s"
proof (induction s arbitrary: p)
  case (Cons x xs)
  then show ?case by (cases "split_char c xs") (fastforce split: if_splits)+
qed simp

lemma split_join_char:
  "ps \<noteq> [] \<Longrightarrow> \<forall>p\<in>set ps. c \<notin> set p \<Longrightarrow> split_char c (join_str [c] ps) = ps"
proof (induction ps rule: induct_list012)
  case (3 x y zs)
  then show ?case by (simp add: split_char_append_sep split_char_no_sep)
qed (simp_all add: split_char_no_sep)

lemma partition_char_no_sep: "c \<notin> set s \<Longrightarrow> partition_char c s = (s, False, [])"
  by (induction s) auto

lemma partition_char_sep: "c \<notin> set a \<Longrightarrow> partition_char c (a @ c # b) = (a, True, b)"
  by (induction a) auto

lemma partition_char_before: "partition_char c s = (a, f, b) \<Longrightarrow> c \<notin> set a"
  by (induction s arbitrary: a) (auto split: if_splits prod.splits)

lemma partition_char_found: "partition_char c s = (a, True, b) \<Longrightarrow> s = a @ c # b"
  by (induction s arbitrary: a) (auto split: if_splits prod.splits)

lemma hd_dropWhile_eq: "dropWhile p s \<noteq> [] \<Longrightarrow> \<not> p (hd (dropWhile p s))"
  by (induction s) auto

lemma lstrip_id: "s = [] \<or> \<not> p (hd s) \<Longrightarrow> lstrip_chars p s = s"
  by (cases s) (auto simp: lstrip_chars_def)

lemma rstrip_id: "s = [] \<or> \<not> p (last s) \<Longrightarrow> rstrip_chars p s = s"
  by (cases s rule: rev_cases) (auto simp: rstrip_chars_def)

lemma py_strip_id: "s = [] \<or> (\<not> is_space (hd s) \<and> \<not> is_space (last s)) \<Longrightarrow> py_strip s = s"
  by (auto simp: py_strip_def strip_chars_def lstrip_id rstrip_id)

lemma set_py_strip: "set (py_strip s) \<subseteq> set s"
  unfolding py_strip_def strip_chars_def rstrip_chars_def lstrip_chars_def
  by (metis set_dropWhileD set_rev subsetI)

lemma last_rstrip: "rstrip_chars p s \<noteq> [] \<Longrightarrow> \<not> p (last (rstrip_chars p s))"
  unfolding rstrip_chars_def by (metis hd_dropWhile_eq last_rev rev_is_Nil_conv)

lemma hd_rstrip: "rstrip_chars p s \<noteq> [] \<Longrightarrow> hd (rstrip_chars p s) = hd s"
proof -
  assume a: "rstrip_chars p s \<noteq> []"
  have "rev s = takeWhile p (rev s) @ dropWhile p (rev s)" by simp
  then have "s = rstrip_chars p s @ rev (takeWhile p (rev s))"
    unfolding rstrip_chars_def by (metis rev_append rev_rev_ident)
  with a show ?thesis by (metis hd_append2)
qed

lemma py_strip_ends:
  assumes "py_strip s \<noteq> []"
  shows "\<not> is_space (hd (py_strip s))" and "\<not> is_space (last (py_strip s))"
  using assms unfolding py_strip_def strip_chars_def lstrip_chars_def
  by (metis hd_rstrip hd_dropWhile_eq rstrip_chars_def dropWhile.simps(1) rev.simps(1))
    (use assms in \<open>metis last_rstrip lstrip_chars_def py_strip_def strip_chars_def\<close>)

lemma py_strip_idem [simp]: "py_strip (py_strip s) = py_strip s"
  using py_strip_ends py_strip_id by metis

section \<open>Python values\<close>

text \<open>
  The values a JSON argument dictionary can hold. A float is kept as the text of its
  \<open>repr\<close>, the only thing the modelled code asks of it. A dictionary is an association
  list in insertion order.
\<close>

datatype pyval =
    PNone
  | PBool bool
  | PInt int
  | PFloat string
  | PStr string
  | PList "pyval list"
  | PDict "(string \<times> pyval) list"

type_synonym pydict = "(string \<times> pyval) list"

definition dict_get :: "pydict \<Rightarrow> string \<Rightarrow> pyval \<Rightarrow> pyval" where
  "dict_get d k dflt = (case map_of d k of None \<Rightarrow> dflt | Some v \<Rightarrow> v)"

fun py_truthy :: "pyval \<Rightarrow> bool" where
  "py_truthy PNone = False"
| "py_truthy (PBool b) = b"
| "py_truthy (PInt i) = (i \<noteq> 0)"
| "py_truthy (PFloat r) = (r \<noteq> ''0.0'' \<and> r \<noteq> ''-0.0'')"
| "py_truthy (PStr s) = (s \<noteq> [])"
| "py_truthy (PList xs) = (xs \<noteq> [])"
| "py_truthy (PDict d) = (d \<noteq> [])"

definition hex_digit :: "nat \<Rightarrow> char" where
  "hex_digit n = ''0123456789abcdef'' ! n"

definition repr_char :: "char \<Rightarrow> char \<Rightarrow> string" where
  "repr_char q c =
     (let n = (of_char c :: nat)
      in if c = q \<or> c = CHR 0x5C then [CHR 0x5C, c]
         else if c = CHR 0x0A then [CHR 0x5C, CHR ''n'']
         else if c = CHR 0x0D then [CHR 0x5C, CHR ''r'']
         else if c = CHR 0x09 then [CHR 0x5C, CHR ''t'']
         else if n < 32 \<or> (127 \<le> n \<and> n < 161) \<or> n = 173
              then [CHR 0x5C, CHR ''x'', hex_digit (n div 16), hex_digit (n mod 16)]
         else [c])"

definition repr_str :: "string \<Rightarrow> string" where
  "repr_str s =
     (let q = (if CHR 0x27 \<in> set s \<and> CHR 0x22 \<notin> set s then CHR 0x22 else CHR 0x27)
      in [q] @ concat (map (repr_char q) s) @ [q])"

fun py_repr :: "pyval \<Rightarrow> string" where
  "py_repr PNone = ''None''"
| "py_repr (PBool b) = (if b then ''True'' else ''False'')"
| "py_repr (PInt i) = int_str i"
| "py_repr (PFloat r) = r"
| "py_repr (PStr s) = repr_str s"
| "py_repr (PList xs) = ''['' @ join_str '', '' (map py_repr xs) @ '']''"
| "py_repr (PDict d) =
     ''{'' @ join_str '', '' (map (\<lambda>kv. repr_str (fst kv) @ '': '' @ py_repr (snd kv)) d) @ ''}''"

fun py_str :: "pyval \<Rightarrow> string" where
  "py_str (PStr s) = s"
| "py_str v = py_repr v"

section \<open>Rows with a key\<close>

text \<open>Rewriting the one row with a given key changes the number of rows with a property by
  what happens to that row.\<close>

lemma length_filter_update:
  assumes "distinct (map key xs)" "x \<in> set xs"
  shows "length (filter P (map (\<lambda>y. if key y = key x then f y else y) xs)) + of_bool (P x) =
         length (filter P xs) + of_bool (P (f x))"
  using assms
proof (induction xs)
  case (Cons y ys)
  show ?case
  proof (cases "y = x")
    case True
    then have "map (\<lambda>y. if key y = key x then f y else y) ys = ys"
      using Cons.prems(1) by (intro map_idI) (auto simp: image_iff)
    with True show ?thesis by simp
  next
    case False
    then have "key y \<noteq> key x" using Cons.prems by (auto simp: image_iff)
    with False Cons show ?thesis by simp
  qed
qed simp

section \<open>Invariants of transition systems\<close>

text \<open>A component with an initial state, a step relation and an invariant that every step keeps:
  the invariant holds in every reachable state.\<close>

locale invariant_system =
  fixes init :: "'s \<Rightarrow> bool" and step :: "'s \<Rightarrow> 's \<Rightarrow> bool" and inv :: "'s \<Rightarrow> bool"
  assumes init_inv: "init s \<Longrightarrow> inv s"
    and step_inv: "inv s \<Longrightarrow> step s t \<Longrightarrow> inv t"
begin

lemma steps_inv: "step\<^sup>*\<^sup>* s t \<Longrightarrow> inv s \<Longrightarrow> inv t"
  by (induction rule: rtranclp_induct) (auto intro: step_inv)

lemma reachable_inv: "init s \<Longrightarrow> step\<^sup>*\<^sup>* s t \<Longrightarrow> inv t"
  by (blast intro: steps_inv init_inv)

end

end
