(* ===== verification/Semver.thy ===== *)
theory Semver
  imports Polaris_Prelude
begin

text \<open>
  \<^verbatim>\<open>agent_core/semver.py\<close>: parsing, comparing and range-testing plugin versions. The
  regular expressions of the source are deterministic on every input (no character that can
  follow a repetition belongs to it), so they are written as parsers that consume the text
  from left to right.
\<close>

section \<open>Versions\<close>

record version =
  major :: nat
  minor :: nat
  patch :: nat
  prerelease :: "string list"

definition Version :: "nat \<Rightarrow> nat \<Rightarrow> nat \<Rightarrow> version" where
  "Version a b c = \<lparr>major = a, minor = b, patch = c, prerelease = []\<rparr>"

text \<open>\<open>int\<close> of a text of digits: Python refuses more than 4300 of them.\<close>

definition py_int :: "string \<Rightarrow> nat py_result" where
  "py_int s =
     (if 4300 < int (length s) then Inl (ValueError ''Exceeds the limit (4300 digits) for integer string conversion'')
      else Inr (digits_value s))"

text \<open>\<open>(0|[1-9]\d*)\<close>: one number without leading zeros, as its text.\<close>

fun take_number :: "string \<Rightarrow> (string \<times> string) option" where
  "take_number [] = None"
| "take_number (c # s) =
     (if c = CHR ''0'' then Some (''0'', s)
      else if is_decimal c then Some (c # takeWhile is_decimal s, dropWhile is_decimal s)
      else None)"

text \<open>\<open>(?:\.(0|[1-9]\d*))?\<close>: absent, or a dot and a number; a dot alone makes the match fail.\<close>

definition take_dot_number :: "string \<Rightarrow> (string option \<times> string) option" where
  "take_dot_number s =
     (if startswith s ''.''
      then (case take_number (tl s) of None \<Rightarrow> None | Some (n, r) \<Rightarrow> Some (Some n, r))
      else Some (None, s))"

definition ident_char :: "char \<Rightarrow> bool" where
  "ident_char c \<longleftrightarrow> is_alnum_ascii c \<or> c = CHR ''.'' \<or> c = CHR ''-''"

text \<open>An optional suffix: the lead character and a non-empty run of identifier characters.\<close>

definition take_suffix :: "char \<Rightarrow> string \<Rightarrow> (string \<times> string) option" where
  "take_suffix lead s =
     (if startswith s [lead]
      then (let run = takeWhile ident_char (tl s)
            in if run = [] then None else Some (run, dropWhile ident_char (tl s)))
      else Some ([], s))"

text \<open>The groups of the match: three numbers, the last two optional, and the pre-release part.\<close>

definition version_groups :: "string \<Rightarrow> (string \<times> string option \<times> string option \<times> string) option" where
  "version_groups s =
     (case take_number (dropWhile (\<lambda>c. c = CHR ''v'' \<or> c = CHR ''='' \<or> is_space c) s) of
        None \<Rightarrow> None
      | Some (a, r1) \<Rightarrow>
     (case take_dot_number r1 of
        None \<Rightarrow> None
      | Some (b, r2) \<Rightarrow>
     (case (if b = None then Some (None, r2) else take_dot_number r2) of
        None \<Rightarrow> None
      | Some (c, r3) \<Rightarrow>
     (case take_suffix (CHR ''-'') r3 of
        None \<Rightarrow> None
      | Some (pre, r4) \<Rightarrow>
     (case take_suffix (CHR ''+'') r4 of
        None \<Rightarrow> None
      | Some (_, r5) \<Rightarrow> if list_all is_space r5 then Some (a, b, c, pre) else None)))))"

definition parse_version :: "string \<Rightarrow> version py_result" where
  "parse_version s =
     (case version_groups s of
        None \<Rightarrow> Inl (ValueError (''invalid semantic version: '' @ s))
      | Some (a, b, c, pre) \<Rightarrow>
          bind_res (py_int a) (\<lambda>x. bind_res (case b of None \<Rightarrow> Inr 0 | Some t \<Rightarrow> py_int t) (\<lambda>y.
          bind_res (case c of None \<Rightarrow> Inr 0 | Some t \<Rightarrow> py_int t) (\<lambda>z.
            Inr \<lparr>major = x, minor = y, patch = z,
                 prerelease = (if pre = [] then [] else split_char (CHR ''.'') pre)\<rparr>))))"

section \<open>Comparison\<close>

fun cmp_prerelease :: "string list \<Rightarrow> string list \<Rightarrow> int py_result" where
  "cmp_prerelease (l # ls) (r # rs) =
     (if l = r then cmp_prerelease ls rs
      else if py_isdigit l \<and> py_isdigit r
      then bind_res (py_int l) (\<lambda>a. bind_res (py_int r) (\<lambda>b. Inr (if a < b then -1 else 1)))
      else if py_isdigit l \<noteq> py_isdigit r then Inr (if py_isdigit l then -1 else 1)
      else Inr (if l < r then -1 else 1))"
| "cmp_prerelease [] [] = Inr 0"
| "cmp_prerelease [] (r # rs) = Inr (-1)"
| "cmp_prerelease (l # ls) [] = Inr 1"

definition cmp_triple :: "version \<Rightarrow> version \<Rightarrow> int" where
  "cmp_triple v w =
     (if major v \<noteq> major w then (if major v < major w then -1 else 1)
      else if minor v \<noteq> minor w then (if minor v < minor w then -1 else 1)
      else if patch v \<noteq> patch w then (if patch v < patch w then -1 else 1) else 0)"

definition version_cmp :: "version \<Rightarrow> version \<Rightarrow> int py_result" where
  "version_cmp v w =
     (if cmp_triple v w \<noteq> 0 then Inr (cmp_triple v w)
      else if prerelease v = [] \<and> prerelease w = [] then Inr 0
      else if prerelease v = [] then Inr 1
      else if prerelease w = [] then Inr (-1)
      else cmp_prerelease (prerelease v) (prerelease w))"

definition version_lt :: "version \<Rightarrow> version \<Rightarrow> bool py_result" where
  "version_lt v w = bind_res (version_cmp v w) (\<lambda>c. Inr (c < 0))"

definition compare_op :: "version \<Rightarrow> string \<Rightarrow> version \<Rightarrow> bool py_result" where
  "compare_op v opr w =
     bind_res (version_cmp v w) (\<lambda>c.
         if opr = '''' \<or> opr = ''='' \<or> opr = ''=='' then Inr (c = 0)
         else if opr = ''>'' then Inr (c > 0)
         else if opr = ''>='' then Inr (c \<ge> 0)
         else if opr = ''<'' then Inr (c < 0)
         else if opr = ''<='' then Inr (c \<le> 0)
         else Inl (KeyError opr))"

definition upper_caret :: "version \<Rightarrow> version" where
  "upper_caret v =
     (if major v \<noteq> 0 then Version (major v + 1) 0 0
      else if minor v \<noteq> 0 then Version 0 (minor v + 1) 0
      else Version 0 0 (patch v + 1))"

section \<open>Range expressions\<close>

text \<open>The comparator pattern of a token: the first operator, in the source's order of
  alternatives, that leaves at least one character for the version.\<close>

definition token_operator :: "string \<Rightarrow> string \<times> string" where
  "token_operator tok =
     (case find (\<lambda>opr. startswith tok opr \<and> length opr < length tok)
             [''<='', ''>='', ''<'', ''>'', ''='', ''=='', ''^'', ''~''] of
        Some opr \<Rightarrow> (opr, drop (length opr) tok)
      | None \<Rightarrow> ('''', tok))"

definition both_res :: "bool py_result \<Rightarrow> bool py_result \<Rightarrow> bool py_result" where
  "both_res a b = bind_res a (\<lambda>x. if x then b else Inr False)"

definition wildcard_test :: "version \<Rightarrow> string \<Rightarrow> bool py_result" where
  "wildcard_test v raw =
     (let concrete = filter (\<lambda>p. p \<notin> set [''x'', ''X'', ''*'']) (split_char (CHR ''.'') raw)
      in bind_res (parse_version (if concrete = [] then ''0'' else join_str ''.'' concrete)) (\<lambda>lower.
           both_res (compare_op v ''>='' lower)
             (if concrete = [] then Inr True
              else compare_op v ''<''
                     (if length concrete = 1 then Version (major lower + 1) 0 0
                      else Version (major lower) (minor lower + 1) 0))))"

definition token_test :: "version \<Rightarrow> string \<Rightarrow> bool py_result" where
  "token_test v tok =
     (let (opr, r) = token_operator tok;
          raw = lstrip_chars (\<lambda>c. c = CHR ''v'' \<or> c = CHR ''V'') r
      in if list_ex (\<lambda>c. c \<in> set ''xX*'') raw then wildcard_test v raw
         else bind_res (parse_version raw) (\<lambda>target.
           if opr = ''^'' then
             both_res (compare_op v ''>='' target) (compare_op v ''<'' (upper_caret target))
           else if opr = ''~'' then
             (let pieces = split_char (CHR ''.'') (fst (partition_char (CHR ''-'') raw))
              in both_res (compare_op v ''>='' target)
                   (compare_op v ''<'' (if length pieces = 1 then Version (major target + 1) 0 0
                                        else Version (major target) (minor target + 1) 0)))
           else compare_op v opr target))"

definition test_set :: "version \<Rightarrow> string \<Rightarrow> bool py_result" where
  "test_set v raw_expression =
     (let expression = py_strip raw_expression
      in if expression = [] \<or> expression = ''*'' \<or> expression = ''latest''
         then Inr (prerelease v = [])
         else (let words = py_split expression
           in if length words = 3 \<and> words ! 1 = ''-''
              then bind_res (parse_version (words ! 0)) (\<lambda>lo. bind_res (compare_op v ''>='' lo) (\<lambda>ge.
                     if ge then bind_res (parse_version (words ! 2)) (\<lambda>hi. compare_op v ''<='' hi)
                     else Inr False))
              else (let tokens = py_split (replace_char (CHR '','') (CHR '' '') expression)
                    in if prerelease v \<noteq> [] \<and> \<not> list_ex (\<lambda>t. CHR ''-'' \<in> set t) tokens
                       then Inr False
                       else all_res (token_test v) tokens)))"

definition satisfies :: "version \<Rightarrow> string \<Rightarrow> bool py_result" where
  "satisfies v range_expression =
     any_res (test_set v) (split_pair (CHR ''|'') (CHR ''|'') range_expression)"

text \<open>One version string of the loop in \<open>select_highest\<close>: a candidate, nothing (a failed
  constraint or a \<open>ValueError\<close>), or an exception that is not a \<open>ValueError\<close>.\<close>

definition select_candidate :: "string list \<Rightarrow> string \<Rightarrow> (version \<times> string) option py_result" where
  "select_candidate constraints raw =
     (case bind_res (parse_version raw) (\<lambda>v.
             bind_res (all_res (satisfies v) constraints) (\<lambda>ok.
               Inr (if ok then Some (v, raw) else None))) of
        Inl (ValueError _) \<Rightarrow> Inr None
      | res \<Rightarrow> res)"

text \<open>Python's \<open>max(candidates, key=...)\<close>: the first candidate that no later one exceeds.\<close>

fun max_by :: "('a \<Rightarrow> 'a \<Rightarrow> bool py_result) \<Rightarrow> 'a \<Rightarrow> 'a list \<Rightarrow> 'a py_result" where
  "max_by lt best [] = Inr best"
| "max_by lt best (x # xs) = bind_res (lt best x) (\<lambda>b. max_by lt (if b then x else best) xs)"

definition select_highest :: "string list \<Rightarrow> string list \<Rightarrow> string option py_result" where
  "select_highest versions ranges =
     (let constraints = filter (\<lambda>r. py_strip r \<noteq> []) ranges
      in bind_res (map_res (select_candidate constraints) versions) (\<lambda>found.
           case List.map_filter id found of
             [] \<Rightarrow> Inr None
           | c # cs \<Rightarrow> bind_res (max_by (\<lambda>a b. version_lt (fst a) (fst b)) c cs) (\<lambda>m. Inr (Some (snd m)))))"

section \<open>The order of versions\<close>

text \<open>The same comparison and the same scan, where no identifier is too long to be converted.\<close>

fun rank_prerelease :: "string list \<Rightarrow> string list \<Rightarrow> int" where
  "rank_prerelease (l # ls) (r # rs) =
     (if l = r then rank_prerelease ls rs
      else if py_isdigit l \<and> py_isdigit r then (if digits_value l < digits_value r then -1 else 1)
      else if py_isdigit l \<noteq> py_isdigit r then (if py_isdigit l then -1 else 1)
      else if l < r then -1 else 1)"
| "rank_prerelease [] [] = 0"
| "rank_prerelease [] (r # rs) = -1"
| "rank_prerelease (l # ls) [] = 1"

definition version_rank :: "version \<Rightarrow> version \<Rightarrow> int" where
  "version_rank v w =
     (if cmp_triple v w \<noteq> 0 then cmp_triple v w
      else if prerelease v = [] \<and> prerelease w = [] then 0
      else if prerelease v = [] then 1
      else if prerelease w = [] then -1
      else rank_prerelease (prerelease v) (prerelease w))"

fun best_by :: "('a \<Rightarrow> 'a \<Rightarrow> bool) \<Rightarrow> 'a \<Rightarrow> 'a list \<Rightarrow> 'a" where
  "best_by lt best [] = best"
| "best_by lt best (x # xs) = best_by lt (if lt best x then x else best) xs"

lemma max_by_best:
  "(\<And>x y. x \<in> insert b (set xs) \<Longrightarrow> y \<in> insert b (set xs) \<Longrightarrow> lt x y = Inr (p x y)) \<Longrightarrow> max_by lt b xs = Inr (best_by p b xs)"
proof (induction xs arbitrary: b)
  case (Cons x xs)
  have "max_by lt (if p b x then x else b) xs = Inr (best_by p (if p b x then x else b) xs)"
    by (rule Cons.IH) (rule Cons.prems, auto split: if_splits)
  then show ?case using Cons.prems [of b x] by simp
qed simp

text \<open>
  A comparison function with an explicit domain, and what a linear scan for a maximum may
  rely on. \<open>select_highest\<close> is the client; versions are the provider.
\<close>

locale comparison =
  fixes cmp :: "'a \<Rightarrow> 'a \<Rightarrow> int" and ok :: "'a \<Rightarrow> bool"
  assumes cmp_zero: "ok a \<Longrightarrow> ok b \<Longrightarrow> cmp a b = 0 \<longleftrightarrow> a = b"
    and cmp_anti: "ok a \<Longrightarrow> ok b \<Longrightarrow> cmp b a = - cmp a b"
    and cmp_trans: "ok a \<Longrightarrow> ok b \<Longrightarrow> ok c \<Longrightarrow> cmp a b < 0 \<Longrightarrow> cmp b c < 0 \<Longrightarrow> cmp a c < 0"
begin

lemma cmp_le_less_trans:
  assumes "ok a" "ok b" "ok c" "cmp a b \<le> 0" "cmp b c < 0"
  shows "cmp a c < 0"
  using assms cmp_zero [of a b] cmp_trans [of a b c] by fastforce

lemma cmp_le_trans:
  assumes "ok a" "ok b" "ok c" "cmp a b \<le> 0" "cmp b c \<le> 0"
  shows "cmp a c \<le> 0"
  using assms cmp_zero [of b c] cmp_le_less_trans [of a b c] by fastforce

lemma best_by_mem: "best_by lt b xs \<in> insert b (set xs)"
proof (induction xs arbitrary: b)
  case (Cons x xs)
  show ?case using Cons.IH [of "if lt b x then x else b"] by (auto split: if_splits)
qed simp

lemma best_by_upper:
  assumes "\<forall>x\<in>insert b (set xs). ok (f x)" and "y \<in> insert b (set xs)"
  shows "cmp (f y) (f (best_by (\<lambda>p q. cmp (f p) (f q) < 0) b xs)) \<le> 0"
  using assms
proof (induction xs arbitrary: b y)
  case Nil
  then show ?case using cmp_zero [of "f b" "f b"] by simp
next
  case (Cons x xs)
  let ?lt = "\<lambda>p q. cmp (f p) (f q) < 0"
  let ?c = "if ?lt b x then x else b"
  let ?m = "best_by ?lt ?c xs"
  have oks: "\<forall>z\<in>insert ?c (set xs). ok (f z)" using Cons.prems(1) by auto
  have c: "cmp (f ?c) (f ?m) \<le> 0" by (rule Cons.IH [OF oks]) simp
  have okm: "ok (f ?m)" using oks best_by_mem [of ?lt ?c xs] by blast
  have bx: "cmp (f b) (f ?c) \<le> 0" "cmp (f x) (f ?c) \<le> 0"
    using Cons.prems(1) cmp_anti [of "f b" "f x"] cmp_zero [of "f b" "f b"] cmp_zero [of "f x" "f x"]
    by (auto split: if_splits)
  show ?case
  proof (cases "y \<in> set xs")
    case True
    then show ?thesis using Cons.IH [OF oks, of y] by simp
  next
    case False
    then have "y = b \<or> y = x" using Cons.prems(2) by auto
    then have "cmp (f y) (f ?c) \<le> 0" using bx by blast
    moreover have "ok (f y)" "ok (f ?c)" using Cons.prems(1) \<open>y = b \<or> y = x\<close> by auto
    ultimately show ?thesis using cmp_le_trans [of "f y" "f ?c" "f ?m"] c okm by simp
  qed
qed

end

text \<open>The versions on which the comparison is an order: numeric identifiers without
  superfluous leading zeros, as the semantic versioning standard demands, and short enough for \<open>int\<close>.\<close>

definition canonical_ident :: "string \<Rightarrow> bool" where
  "canonical_ident p \<longleftrightarrow> (py_isdigit p \<longrightarrow> list_all is_decimal p \<and> (p = ''0'' \<or> hd p \<noteq> CHR ''0'') \<and> int (length p) \<le> 4300)"

definition canonical_version :: "version \<Rightarrow> bool" where
  "canonical_version v \<longleftrightarrow> list_all canonical_ident (prerelease v)"

lemma digit_value_bounds: "is_decimal c \<Longrightarrow> digit_value c < 10"
  by (auto simp: is_decimal_def digit_value_def)

lemma digit_value_inj: "is_decimal c \<Longrightarrow> is_decimal d \<Longrightarrow> digit_value c = digit_value d \<Longrightarrow> c = d"
  by (auto simp: is_decimal_def digit_value_def)

lemma digit_value_pos: "is_decimal c \<Longrightarrow> c \<noteq> CHR ''0'' \<Longrightarrow> 0 < digit_value c"
  by (auto simp: is_decimal_def digit_value_def)

lemma digits_value_snoc: "digits_value (s @ [c]) = 10 * digits_value s + digit_value c"
  by (simp add: digits_value_def)

lemma digits_value_upper: "list_all is_decimal s \<Longrightarrow> digits_value s < 10 ^ length s"
proof (induction s rule: rev_induct)
  case (snoc c s)
  then have "digits_value s < 10 ^ length s" "digit_value c < 10"
    by (auto simp: digit_value_bounds)
  then show ?case by (simp add: digits_value_snoc)
qed (simp add: digits_value_def)

lemma digits_value_lower:
  "list_all is_decimal (c # s) \<Longrightarrow> c \<noteq> CHR ''0'' \<Longrightarrow> 10 ^ length s \<le> digits_value (c # s)"
proof (induction s rule: rev_induct)
  case Nil
  then show ?case using digit_value_pos [of c] by (simp add: digits_value_def)
next
  case (snoc d s)
  then show ?case using digits_value_snoc [of "c # s" d] by simp
qed

lemma digits_value_inj_len:
  "length s = length t \<Longrightarrow> list_all is_decimal s \<Longrightarrow> list_all is_decimal t \<Longrightarrow>
     digits_value s = digits_value t \<Longrightarrow> s = t"
proof (induction s arbitrary: t rule: rev_induct)
  case (snoc c s)
  then obtain d u where t: "t = u @ [d]" by (metis append_butlast_last_id length_0_conv snoc_eq_iff_butlast)
  have lt: "digit_value c < 10" "digit_value d < 10" using snoc.prems t by (auto simp: digit_value_bounds)
  have eq: "10 * digits_value s + digit_value c = 10 * digits_value u + digit_value d"
    using snoc.prems t by (simp add: digits_value_snoc)
  then have "digits_value s = digits_value u" "digit_value c = digit_value d"
    using lt by presburger+
  then show ?case using snoc t by (auto intro: digit_value_inj)
qed simp

lemma canonical_digits_inj:
  assumes "canonical_ident p" "canonical_ident q" "py_isdigit p" "py_isdigit q"
    and "digits_value p = digits_value q"
  shows "p = q"
proof -
  have pq: "list_all is_decimal p" "list_all is_decimal q" "p \<noteq> []" "q \<noteq> []"
    using assms by (auto simp: canonical_ident_def py_isdigit_def)
  have zero: "r = ''0'' \<or> 10 ^ (length r - 1) \<le> digits_value r"
    if "canonical_ident r" "py_isdigit r" for r
    using that digits_value_lower [of "hd r" "tl r"]
    by (cases r) (auto simp: canonical_ident_def py_isdigit_def)
  have len: "r = ''0'' \<or> length r \<le> length t"
    if "canonical_ident r" "py_isdigit r" "list_all is_decimal t" "t \<noteq> []"
      "digits_value r = digits_value t" for r t
  proof -
    have "r = ''0'' \<or> (10::nat) ^ (length r - 1) < 10 ^ length t"
      using zero [OF that(1,2)] digits_value_upper [OF that(3)] that(5) by fastforce
    then show ?thesis using power_less_imp_less_exp [of "10::nat" "length r - 1" "length t"] by auto
  qed
  have "digits_value ''0'' = 0" by (simp add: digits_value_def digit_value_def)
  then have "r = ''0'' \<longleftrightarrow> digits_value r = 0" if "canonical_ident r" "py_isdigit r" for r
    using zero [OF that] by (metis le_zero_eq power_eq_0_iff zero_neq_numeral)
  then have "p = ''0'' \<longleftrightarrow> q = ''0''" using assms by metis
  moreover have "p \<noteq> ''0'' \<Longrightarrow> q \<noteq> ''0'' \<Longrightarrow> length p = length q"
    using len [of p q] len [of q p] assms pq by simp
  ultimately show ?thesis using digits_value_inj_len [of p q] assms(5) pq(1,2) by blast
qed

definition ident_less :: "string \<Rightarrow> string \<Rightarrow> bool" where
  "ident_less l r \<longleftrightarrow>
     (if py_isdigit l \<and> py_isdigit r then digits_value l < digits_value r
      else if py_isdigit l \<noteq> py_isdigit r then py_isdigit l else l < r)"

lemma rank_prerelease_Cons:
  "rank_prerelease (l # ls) (r # rs) =
     (if l = r then rank_prerelease ls rs else if ident_less l r then -1 else 1)"
  by (simp add: ident_less_def)

lemma ident_less_trans: "ident_less a b \<Longrightarrow> ident_less b c \<Longrightarrow> ident_less a c"
  by (auto simp: ident_less_def split: if_splits)

lemma ident_less_irrefl: "\<not> ident_less a a"
  by (simp add: ident_less_def)

lemma ident_less_total:
  "canonical_ident a \<Longrightarrow> canonical_ident b \<Longrightarrow> a \<noteq> b \<Longrightarrow> ident_less a b \<or> ident_less b a"
  using canonical_digits_inj [of a b] by (auto simp: ident_less_def not_less_iff_gr_or_eq)

lemma rank_prerelease_anti:
  "list_all canonical_ident ls \<Longrightarrow> list_all canonical_ident rs \<Longrightarrow>
     rank_prerelease rs ls = - rank_prerelease ls rs"
proof (induction ls rs rule: rank_prerelease.induct)
  case (1 l ls r rs)
  then show ?case
    using ident_less_total [of l r] ident_less_trans [of l r l] ident_less_irrefl [of l]
    unfolding rank_prerelease_Cons by auto
qed simp_all

lemma rank_prerelease_zero: "rank_prerelease ls rs = 0 \<longleftrightarrow> ls = rs"
  by (induction ls rs rule: rank_prerelease.induct) auto

lemma rank_prerelease_trans:
  "rank_prerelease as bs < 0 \<Longrightarrow> rank_prerelease bs cs < 0 \<Longrightarrow> rank_prerelease as cs < 0"
proof (induction as bs arbitrary: cs rule: rank_prerelease.induct)
  case (1 a as b bs)
  then obtain c cs' where cs: "cs = c # cs'" by (cases cs) auto
  from 1 show ?case unfolding cs rank_prerelease_Cons
    by (auto split: if_splits dest: ident_less_trans simp: ident_less_irrefl)
next
  case (3 r rs)
  then show ?case by (cases cs) auto
qed simp_all

lemma cmp_triple_zero:
  "cmp_triple v w = 0 \<longleftrightarrow> major v = major w \<and> minor v = minor w \<and> patch v = patch w"
  by (auto simp: cmp_triple_def)

lemma cmp_triple_anti: "cmp_triple w v = - cmp_triple v w"
  by (auto simp: cmp_triple_def)

lemma cmp_triple_trans:
  "cmp_triple u v \<le> 0 \<Longrightarrow> cmp_triple v w \<le> 0 \<Longrightarrow>
     cmp_triple u w \<le> 0 \<and> (cmp_triple u w = 0 \<longrightarrow> cmp_triple u v = 0 \<and> cmp_triple v w = 0)"
  by (auto simp: cmp_triple_def split: if_splits)

interpretation version_order: comparison version_rank canonical_version
proof
  fix a b c :: version
  assume "canonical_version a" "canonical_version b"
  then show "version_rank b a = - version_rank a b"
    using cmp_triple_anti [of a b] rank_prerelease_anti [of "prerelease a" "prerelease b"]
    by (simp add: version_rank_def canonical_version_def)
next
  fix a b :: version
  show "version_rank a b = 0 \<longleftrightarrow> a = b"
    by (auto simp: version_rank_def cmp_triple_zero rank_prerelease_zero)
next
  fix a b c :: version
  assume lt: "version_rank a b < 0" "version_rank b c < 0"
  then have "cmp_triple a b \<le> 0" "cmp_triple b c \<le> 0"
    by (auto simp: version_rank_def split: if_splits)
  with cmp_triple_trans have t: "cmp_triple a c \<le> 0"
    "cmp_triple a c = 0 \<longrightarrow> cmp_triple a b = 0 \<and> cmp_triple b c = 0" by blast+
  show "version_rank a c < 0"
  proof (cases "cmp_triple a c = 0")
    case True
    with t lt show ?thesis
      using rank_prerelease_trans [of "prerelease a" "prerelease b" "prerelease c"]
      by (auto simp: version_rank_def split: if_splits)
  next
    case False
    with t show ?thesis by (simp add: version_rank_def)
  qed
qed

text \<open>On these versions the comparison of the code raises nothing and is that order.\<close>

lemma cmp_prerelease_rank:
  "list_all canonical_ident ls \<Longrightarrow> list_all canonical_ident rs \<Longrightarrow> cmp_prerelease ls rs = Inr (rank_prerelease ls rs)"
  by (induction ls rs rule: cmp_prerelease.induct) (auto simp: py_int_def canonical_ident_def)

lemma version_cmp_rank: "canonical_version v \<Longrightarrow> canonical_version w \<Longrightarrow> version_cmp v w = Inr (version_rank v w)"
  by (simp add: version_cmp_def version_rank_def canonical_version_def cmp_prerelease_rank)

section \<open>Selecting a version\<close>

lemma token_operator_mem:
  "fst (token_operator tok) \<in> set ['''', ''<='', ''>='', ''<'', ''>'', ''='', ''=='', ''^'', ''~'']"
  by (auto simp: token_operator_def split: option.splits)

text \<open>Every exception of a range test is a \<open>ValueError\<close>, which \<open>select_highest\<close> catches.\<close>

definition value_errors_only :: "'a py_result \<Rightarrow> bool" where
  "value_errors_only r \<longleftrightarrow> (\<forall>e. r = Inl e \<longrightarrow> (\<exists>m. e = ValueError m))"

lemma value_errors_only_bind:
  "value_errors_only a \<Longrightarrow> (\<And>x. a = Inr x \<Longrightarrow> value_errors_only (f x)) \<Longrightarrow> value_errors_only (bind_res a f)"
  by (cases a) (auto simp: value_errors_only_def)

lemma value_errors_only_Inr [simp]: "value_errors_only (Inr x)"
  by (simp add: value_errors_only_def)

lemma value_errors_only_error [simp]: "value_errors_only (Inl (ValueError m))"
  by (simp add: value_errors_only_def)

lemma value_errors_only_int [simp]: "value_errors_only (py_int s)"
  by (simp add: py_int_def)

lemma value_errors_only_parse [simp]: "value_errors_only (parse_version s)"
  unfolding parse_version_def by (auto intro!: value_errors_only_bind split: option.split)

lemma value_errors_only_cmp: "value_errors_only (version_cmp v w)"
proof -
  have "value_errors_only (cmp_prerelease ls rs)" for ls rs
    by (induction ls rs rule: cmp_prerelease.induct) (auto intro!: value_errors_only_bind)
  then show ?thesis by (simp add: version_cmp_def)
qed

lemma value_errors_only_compare [simp]:
  "opr \<in> set ['''', ''='', ''=='', ''>'', ''>='', ''<'', ''<=''] \<Longrightarrow> value_errors_only (compare_op v opr w)"
  unfolding compare_op_def by (rule value_errors_only_bind [OF value_errors_only_cmp]) auto

lemma value_errors_only_both:
  "value_errors_only a \<Longrightarrow> value_errors_only b \<Longrightarrow> value_errors_only (both_res a b)"
  unfolding both_res_def by (rule value_errors_only_bind) auto

lemma value_errors_only_wildcard: "value_errors_only (wildcard_test v raw)"
  unfolding wildcard_test_def Let_def
  by (intro value_errors_only_bind value_errors_only_both) auto

lemma value_errors_only_token: "value_errors_only (token_test v tok)"
proof -
  obtain opr r where o: "token_operator tok = (opr, r)" by fastforce
  have "value_errors_only (compare_op v opr w)" if "opr \<noteq> ''^''" "opr \<noteq> ''~''" for w
    using that token_operator_mem [of tok] o by (intro value_errors_only_compare) auto
  then show ?thesis
    by (auto simp: token_test_def o Let_def value_errors_only_wildcard
        intro!: value_errors_only_bind value_errors_only_both)
qed

lemma value_errors_only_all:
  "(\<And>x. value_errors_only (f x)) \<Longrightarrow> value_errors_only (all_res f xs)"
  by (induction xs) (auto intro!: value_errors_only_bind)

lemma value_errors_only_any:
  "(\<And>x. value_errors_only (f x)) \<Longrightarrow> value_errors_only (any_res f xs)"
  by (induction xs) (auto intro!: value_errors_only_bind)

lemma value_errors_only_test_set: "value_errors_only (test_set v e)"
  unfolding test_set_def Let_def
  by (auto simp: value_errors_only_token
      intro!: value_errors_only_bind value_errors_only_all)

lemma value_errors_only_satisfies: "value_errors_only (satisfies v e)"
  unfolding satisfies_def by (intro value_errors_only_any value_errors_only_test_set)

text \<open>What a version string must do to be selectable, and the candidate list of the loop.\<close>

definition qualifies :: "string list \<Rightarrow> string \<Rightarrow> version \<Rightarrow> bool" where
  "qualifies ranges raw v \<longleftrightarrow>
     parse_version raw = Inr v \<and> (\<forall>r\<in>set ranges. py_strip r \<noteq> [] \<longrightarrow> satisfies v r = Inr True)"

definition candidate_of :: "string list \<Rightarrow> string \<Rightarrow> (version \<times> string) option" where
  "candidate_of ranges raw =
     (case parse_version raw of
        Inl _ \<Rightarrow> None
      | Inr v \<Rightarrow> if qualifies ranges raw v then Some (v, raw) else None)"

lemma candidate_of_Some: "candidate_of ranges raw = Some c \<longleftrightarrow> qualifies ranges raw (fst c) \<and> snd c = raw"
  by (cases c) (auto simp: candidate_of_def qualifies_def split: sum.splits)

lemma select_candidate_eq:
  "select_candidate (filter (\<lambda>r. py_strip r \<noteq> []) ranges) raw = Inr (candidate_of ranges raw)"
proof (cases "parse_version raw")
  case (Inl e)
  then obtain m where "e = ValueError m" using value_errors_only_parse [of raw] by (auto simp: value_errors_only_def)
  with Inl show ?thesis by (simp add: select_candidate_def candidate_of_def)
next
  case (Inr v)
  let ?cs = "filter (\<lambda>r. py_strip r \<noteq> []) ranges"
  have q: "qualifies ranges raw v \<longleftrightarrow> all_res (satisfies v) ?cs = Inr True"
    using Inr by (auto simp: qualifies_def all_res_True_iff)
  have "value_errors_only (all_res (satisfies v) ?cs)"
    by (intro value_errors_only_all value_errors_only_satisfies)
  then show ?thesis
    by (cases "all_res (satisfies v) ?cs")
      (auto simp: select_candidate_def candidate_of_def Inr q value_errors_only_def)
qed

lemma map_res_Inr_all: "(\<And>x. f x = Inr (g x)) \<Longrightarrow> map_res f xs = Inr (map g xs)"
  by (induction xs) simp_all

lemma map_filter_mem: "c \<in> set (List.map_filter f xs) \<longleftrightarrow> (\<exists>x\<in>set xs. f x = Some c)"
  by (force simp: List.map_filter_def)

lemma select_highest_eq:
  "select_highest versions ranges =
     (case List.map_filter (candidate_of ranges) versions of [] \<Rightarrow> Inr None
      | c # cs \<Rightarrow> bind_res (max_by (\<lambda>a b. version_lt (fst a) (fst b)) c cs) (\<lambda>m. Inr (Some (snd m))))"
  unfolding select_highest_def Let_def map_res_Inr_all [OF select_candidate_eq]
  by (simp add: List.map_filter_def comp_def filter_map)

text \<open>C34. \<open>select_highest\<close> does not raise, and returns nothing exactly when no given version
  string parses and satisfies every non-blank range; otherwise it returns one of the given
  strings, which satisfies every range and which no other qualifying string exceeds. The
  hypothesis is that numeric pre-release identifiers carry no superfluous leading zeros,
  without which the comparison is not an order, and at most 4300 digits, beyond which \<open>int\<close> raises
  inside \<open>max\<close>.\<close>

theorem select_highest_correct:
  assumes "\<forall>raw\<in>set versions. \<forall>v. parse_version raw = Inr v \<longrightarrow> canonical_version v"
  shows "\<exists>res. select_highest versions ranges = Inr res \<and>
    (case res of
       None \<Rightarrow> \<not> (\<exists>raw\<in>set versions. \<exists>v. qualifies ranges raw v)
     | Some best \<Rightarrow> best \<in> set versions \<and>
         (\<exists>v. qualifies ranges best v \<and>
            (\<forall>raw\<in>set versions. \<forall>w. qualifies ranges raw w \<longrightarrow> (\<exists>c. version_cmp w v = Inr c \<and> c \<le> 0))))"
proof (cases "List.map_filter (candidate_of ranges) versions")
  case Nil
  have "\<not> qualifies ranges raw v" if "raw \<in> set versions" for raw v
    using map_filter_mem [of "(v, raw)" "candidate_of ranges" versions] Nil that
    by (auto simp: candidate_of_Some)
  then show ?thesis using Nil by (auto simp: select_highest_eq)
next
  case (Cons c cs)
  let ?m = "best_by (\<lambda>a b. version_rank (fst a) (fst b) < 0) c cs"
  have mem: "x \<in> insert c (set cs) \<longleftrightarrow> snd x \<in> set versions \<and> qualifies ranges (snd x) (fst x)" for x
    using map_filter_mem [of x "candidate_of ranges" versions] Cons by (auto simp: candidate_of_Some)
  then have ok: "\<forall>x\<in>insert c (set cs). canonical_version (fst x)"
    using assms unfolding qualifies_def by blast
  have max: "max_by (\<lambda>a b. version_lt (fst a) (fst b)) c cs = Inr ?m"
  proof (rule max_by_best)
    fix x y assume "x \<in> insert c (set cs)" "y \<in> insert c (set cs)"
    with ok have "canonical_version (fst x)" "canonical_version (fst y)" by blast+
    then show "version_lt (fst x) (fst y) = Inr (version_rank (fst x) (fst y) < 0)"
      by (simp add: version_lt_def version_cmp_rank)
  qed
  have m: "snd ?m \<in> set versions" "qualifies ranges (snd ?m) (fst ?m)" "canonical_version (fst ?m)"
    using mem ok version_order.best_by_mem [of _ c cs] by blast+
  have "version_cmp w (fst ?m) = Inr (version_rank w (fst ?m)) \<and> version_rank w (fst ?m) \<le> 0"
    if "raw \<in> set versions" "qualifies ranges raw w" for raw w
  proof -
    have w: "(w, raw) \<in> insert c (set cs)" using mem [of "(w, raw)"] that by simp
    with ok have "canonical_version w" by fastforce
    with version_order.best_by_upper [OF ok w] m(3) show ?thesis by (simp add: version_cmp_rank)
  qed
  with m show ?thesis unfolding select_highest_eq Cons list.case max by auto
qed

theorem select_highest_correct_witness:
  "select_highest [''1.2.0'', ''1.10.0-rc.1'', ''1.9.3''] [''^1.2''] = Inr (Some ''1.9.3'') \<and>
   (\<exists>v. qualifies [''^1.2''] ''1.9.3'' v \<and> (\<exists>c. version_cmp (Version 1 2 0) v = Inr c \<and> c \<le> 0))"
proof -
  have eval: "select_highest [''1.2.0'', ''1.10.0-rc.1'', ''1.9.3''] [''^1.2''] = Inr (Some ''1.9.3'')"
    by code_simp
  have parsed: "map parse_version [''1.2.0'', ''1.10.0-rc.1'', ''1.9.3''] =
      [Inr (Version 1 2 0), Inr \<lparr>major = 1, minor = 10, patch = 0, prerelease = [''rc'', ''1'']\<rparr>,
       Inr (Version 1 9 3)]"
    by code_simp
  have ok: "\<forall>raw\<in>set [''1.2.0'', ''1.10.0-rc.1'', ''1.9.3'']. \<forall>v. parse_version raw = Inr v \<longrightarrow> canonical_version v"
    using parsed by (auto simp: canonical_version_def Version_def canonical_ident_def is_decimal_def py_isdigit_def)
  have "satisfies (Version 1 2 0) ''^1.2'' = Inr True" by code_simp
  then have "qualifies [''^1.2''] ''1.2.0'' (Version 1 2 0)" using parsed by (simp add: qualifies_def)
  then show ?thesis using select_highest_correct [OF ok, of "[''^1.2'']"] eval by fastforce
qed

text \<open>A stable version is accepted by a caret range \<open>^a.b.c\<close> with \<open>a > 0\<close> exactly
  when it has the same major number and is at least \<open>a.b.c\<close> in the remaining two.\<close>

theorem caret_range_stable:
  assumes "prerelease v = []" and "parse_version raw = Inr t" and "prerelease t = []" and "major t > 0"
    and "raw \<noteq> []" and "\<forall>c\<in>set raw. c \<notin> set ''xX*''" and "hd raw \<notin> set ''vV''"
  shows "token_test v (CHR ''^'' # raw) =
    Inr (major v = major t \<and> (minor t < minor v \<or> minor t = minor v \<and> patch t \<le> patch v))"
proof -
  have "token_operator (CHR ''^'' # raw) = (''^'', raw)"
    using assms(5) by (cases raw) (simp_all add: token_operator_def startswith_def)
  moreover have "lstrip_chars (\<lambda>c. c = CHR ''v'' \<or> c = CHR ''V'') raw = raw"
    using assms(5,7) by (intro lstrip_id) auto
  ultimately show ?thesis using assms
    by (auto simp: token_test_def both_res_def compare_op_def upper_caret_def Version_def
        version_cmp_def cmp_triple_def list_ex_iff)
qed

theorem caret_range_stable_witness:
  "token_test (Version 1 9 3) ''^1.2.0'' = Inr True \<and> token_test (Version 2 0 0) ''^1.2.0'' = Inr False"
proof -
  have p: "parse_version ''1.2.0'' = Inr (Version 1 2 0)" by code_simp
  show ?thesis
    using caret_range_stable [of "Version 1 9 3" "''1.2.0''" "Version 1 2 0"]
      caret_range_stable [of "Version 2 0 0" "''1.2.0''" "Version 1 2 0"] p
    by (simp add: Version_def)
qed

text \<open>Without that restriction the comparison is not antisymmetric: the parser accepts
  the identifiers \<open>01\<close> and \<open>1\<close>, and each of the two versions compares greater than the
  other, so \<open>select_highest\<close> depends on the order of its input.\<close>

theorem leading_zero_not_antisymmetric:
  "\<exists>v w. parse_version ''1.0.0-01'' = Inr v \<and> parse_version ''1.0.0-1'' = Inr w \<and>
     version_cmp v w = Inr 1 \<and> version_cmp w v = Inr 1 \<and>
     select_highest [''1.0.0-01'', ''1.0.0-1''] [] = Inr (Some ''1.0.0-01'') \<and>
     select_highest [''1.0.0-1'', ''1.0.0-01''] [] = Inr (Some ''1.0.0-1'')"
proof -
  let ?v = "\<lparr>major = 1, minor = 0, patch = 0, prerelease = [''01'']\<rparr>"
  let ?w = "\<lparr>major = 1, minor = 0, patch = 0, prerelease = [''1'']\<rparr>"
  have "parse_version ''1.0.0-01'' = Inr ?v" "parse_version ''1.0.0-1'' = Inr ?w"
    "version_cmp ?v ?w = Inr 1" "version_cmp ?w ?v = Inr 1"
    "select_highest [''1.0.0-01'', ''1.0.0-1''] [] = Inr (Some ''1.0.0-01'')"
    "select_highest [''1.0.0-1'', ''1.0.0-01''] [] = Inr (Some ''1.0.0-1'')"
    by code_simp+
  then show ?thesis by blast
qed

end
