(* ===== verification/Permission_Types.thy ===== *)
theory Permission_Types
  imports Polaris_Prelude
begin

text \<open>
  \<^verbatim>\<open>agent_core/permission_types.py\<close>: the data the permission engine works on. Enumerations
  are datatypes (with a prefix per enumeration, since several share member names), frozen
  data classes are records, and the class methods of \<open>PermissionResult\<close> are constructor
  functions. The lookups with aliases of \<open>PermissionMode\<close> and the one state-free helper of
  \<^verbatim>\<open>permissions.py\<close> on modes are here too.
\<close>

section \<open>Enumerations\<close>

datatype permission_mode =
  PM_DEFAULT | PM_ACCEPTEDITS | PM_PLAN | PM_AUTO | PM_DONTASK | PM_BYPASS

datatype permission_behavior = PB_ALLOW | PB_ASK | PB_DENY | PB_PASSTHROUGH

datatype decision_source =
  DS_SCHEMA | DS_MANAGED | DS_RULE | DS_CENTRAL_SAFETY | DS_TOOL | DS_SANDBOX | DS_MODE
| DS_RISK_FALLBACK | DS_CLASSIFIER | DS_HOOK | DS_USER

datatype permission_rule_source =
  RS_MANAGED | RS_USER | RS_PROJECT | RS_LOCAL | RS_CLI | RS_SESSION

datatype permission_destination = PD_SESSION | PD_LOCAL | PD_PROJECT | PD_USER

datatype tool_call_source =
  TS_MODEL | TS_API | TS_SLASH | TS_HOOK | TS_SUBAGENT | TS_TEAM | TS_SKILL

datatype tool_risk = READ | WRITE | DANGEROUS

fun mode_value :: "permission_mode \<Rightarrow> string" where
  "mode_value PM_DEFAULT = ''default''"
| "mode_value PM_ACCEPTEDITS = ''acceptedits''"
| "mode_value PM_PLAN = ''plan''"
| "mode_value PM_AUTO = ''auto''"
| "mode_value PM_DONTASK = ''dontask''"
| "mode_value PM_BYPASS = ''bypass''"

fun risk_value :: "tool_risk \<Rightarrow> string" where
  "risk_value READ = ''read''"
| "risk_value WRITE = ''write''"
| "risk_value DANGEROUS = ''dangerous''"

definition permission_mode_aliases :: "(string \<times> permission_mode) list" where
  "permission_mode_aliases =
     [(''default'', PM_DEFAULT), (''acceptedits'', PM_ACCEPTEDITS), (''plan'', PM_PLAN),
      (''auto'', PM_AUTO), (''dontask'', PM_DONTASK), (''bypass'', PM_BYPASS),
      (''bypasspermissions'', PM_BYPASS)]"

definition parse_permission_mode :: "string \<Rightarrow> permission_mode py_result" where
  "parse_permission_mode s =
     (case find (\<lambda>m. mode_value m = s)
             [PM_DEFAULT, PM_ACCEPTEDITS, PM_PLAN, PM_AUTO, PM_DONTASK, PM_BYPASS] of
        Some m \<Rightarrow> Inr m
      | None \<Rightarrow>
          (case map_of permission_mode_aliases (py_casefold (py_strip s)) of
             Some m \<Rightarrow> Inr m
           | None \<Rightarrow> Inl (ValueError (repr_str s @ '' is not a valid PermissionMode''))))"

definition permission_mode_label :: "permission_mode \<Rightarrow> string" where
  "permission_mode_label m =
     (case m of
        PM_DEFAULT \<Rightarrow> ''manual mode on''
      | PM_ACCEPTEDITS \<Rightarrow> ''accept edits on''
      | PM_PLAN \<Rightarrow> ''plan mode on''
      | PM_AUTO \<Rightarrow> ''auto mode on''
      | PM_DONTASK \<Rightarrow> ''don'' @ [CHR 0x27] @ ''t ask mode on''
      | PM_BYPASS \<Rightarrow> ''bypass permissions on'')"

definition shift_tab_permission_modes :: "permission_mode list" where
  "shift_tab_permission_modes = [PM_DEFAULT, PM_ACCEPTEDITS, PM_PLAN, PM_AUTO]"

definition next_shift_tab_permission_mode :: "permission_mode \<Rightarrow> permission_mode" where
  "next_shift_tab_permission_mode current =
     (if current \<notin> set shift_tab_permission_modes then PM_DEFAULT
      else (let index = length (takeWhile (\<lambda>m. m \<noteq> current) shift_tab_permission_modes)
            in shift_tab_permission_modes ! ((index + 1) mod length shift_tab_permission_modes)))"

section \<open>Data classes\<close>

record permission_suggestion =
  sug_rule :: string
  sug_reason :: string
  sug_destination :: permission_destination

record permission_update =
  upd_behavior :: permission_behavior
  upd_rule :: string
  upd_destination :: permission_destination

record permission_request =
  req_tool_name :: string
  req_risk :: string
  req_arguments :: pydict
  req_reason :: string
  req_suggestions :: "permission_suggestion list"
  req_persistent_grants_disabled :: bool
  req_session_grants_disabled :: bool

record permission_response =
  resp_allow :: bool
  resp_updates :: "permission_update list"
  resp_reason :: string
  resp_updated_arguments :: "pydict option"

record permission_rule =
  rule_source :: permission_rule_source
  rule_behavior :: permission_behavior
  rule_tool_name :: string
  rule_content :: "string option"
  rule_raw :: string

record sandbox_state =
  sb_enabled :: bool
  sb_backend :: string
  sb_will_sandbox :: bool
  sb_excluded :: bool
  sb_auto_allow_enabled :: bool

definition default_sandbox_state :: sandbox_state where
  "default_sandbox_state =
     \<lparr>sb_enabled = False, sb_backend = ''noop'', sb_will_sandbox = False, sb_excluded = False,
      sb_auto_allow_enabled = False\<rparr>"

record session_view =
  view_tool_names :: "string list"
  view_command_fingerprints :: "string list"

record web_domain_policy =
  allowed_domains :: "string list"
  blocked_domains :: "string list"
  web_unattended :: bool

record managed_snapshot =
  forbidden_modes :: "permission_mode list"
  require_sandbox_for_unattended :: bool
  allow_managed_rules_only :: bool
  disable_persistent_grants :: bool
  policy_digest :: string

record plan_state_snapshot =
  plan_active :: bool
  plan_previous_mode :: "permission_mode option"
  plan_artifact_path :: "string option"

record permission_result =
  behavior :: permission_behavior
  reason :: string
  decision_source :: decision_source
  updated_arguments :: "pydict option"
  metadata :: "pydict option"
  matched_rule :: "permission_rule option"
  classifier_approvable :: bool
  bypass_immune :: bool
  suggestions :: "permission_suggestion list"

section \<open>Constructors of results\<close>

definition result_allow ::
  "string \<Rightarrow> decision_source \<Rightarrow> pydict option \<Rightarrow> permission_rule option \<Rightarrow> permission_result" where
  "result_allow r src updated rule =
     \<lparr>behavior = PB_ALLOW, reason = r, decision_source = src, updated_arguments = updated,
      metadata = None, matched_rule = rule, classifier_approvable = False,
      bypass_immune = False, suggestions = []\<rparr>"

definition result_ask ::
  "string \<Rightarrow> decision_source \<Rightarrow> pydict option \<Rightarrow> pydict option \<Rightarrow> permission_rule option \<Rightarrow>
   bool \<Rightarrow> bool \<Rightarrow> permission_suggestion list \<Rightarrow> permission_result" where
  "result_ask r src updated meta rule approvable immune sugs =
     \<lparr>behavior = PB_ASK, reason = r, decision_source = src, updated_arguments = updated,
      metadata = meta, matched_rule = rule, classifier_approvable = approvable,
      bypass_immune = immune, suggestions = sugs\<rparr>"

definition result_deny ::
  "string \<Rightarrow> decision_source \<Rightarrow> pydict option \<Rightarrow> pydict option \<Rightarrow> permission_rule option \<Rightarrow>
   permission_result" where
  "result_deny r src updated meta rule =
     \<lparr>behavior = PB_DENY, reason = r, decision_source = src, updated_arguments = updated,
      metadata = meta, matched_rule = rule, classifier_approvable = False,
      bypass_immune = True, suggestions = []\<rparr>"

definition result_passthrough :: "string \<Rightarrow> pydict option \<Rightarrow> permission_result" where
  "result_passthrough r updated =
     \<lparr>behavior = PB_PASSTHROUGH, reason = r, decision_source = DS_TOOL, updated_arguments = updated,
      metadata = None, matched_rule = None, classifier_approvable = False,
      bypass_immune = False, suggestions = []\<rparr>"

lemmas result_defs = result_allow_def result_ask_def result_deny_def result_passthrough_def

lemma behavior_result [simp]:
  "behavior (result_allow r src u m) = PB_ALLOW"
  "behavior (result_ask r src u me m ca bi sg) = PB_ASK"
  "behavior (result_deny r src u me m) = PB_DENY"
  "behavior (result_passthrough r u) = PB_PASSTHROUGH"
  by (simp_all add: result_defs)

section \<open>Properties of modes\<close>

lemma mode_value_inj: "mode_value m = mode_value n \<longleftrightarrow> m = n"
  by (cases m; cases n) simp_all

lemma parse_mode_value: "parse_permission_mode (mode_value m) = Inr m"
  by (cases m) (simp_all add: parse_permission_mode_def)

lemma next_shift_tab_eqs:
  "next_shift_tab_permission_mode PM_DEFAULT = PM_ACCEPTEDITS"
  "next_shift_tab_permission_mode PM_ACCEPTEDITS = PM_PLAN"
  "next_shift_tab_permission_mode PM_PLAN = PM_AUTO"
  "next_shift_tab_permission_mode PM_AUTO = PM_DEFAULT"
  "next_shift_tab_permission_mode PM_DONTASK = PM_DEFAULT"
  "next_shift_tab_permission_mode PM_BYPASS = PM_DEFAULT"
  by code_simp+

text \<open>Shift+Tab reaches every interactive mode and never an unattended one: from any mode
  the next mode is one of the four of the cycle, four presses return to the start inside
  the cycle, and no press leads to \<open>dontask\<close> or \<open>bypass\<close>.\<close>

theorem shift_tab_cycle:
  "next_shift_tab_permission_mode m \<in> {PM_DEFAULT, PM_ACCEPTEDITS, PM_PLAN, PM_AUTO} \<and>
   (next_shift_tab_permission_mode (next_shift_tab_permission_mode
     (next_shift_tab_permission_mode (next_shift_tab_permission_mode m))) = m
     \<longleftrightarrow> m \<noteq> PM_DONTASK \<and> m \<noteq> PM_BYPASS)"
  by (cases m) (simp_all add: next_shift_tab_eqs)

end
