(* ===== verification/Permission_Rules.thy ===== *)
theory Permission_Rules
  imports Permission_Types
begin

text \<open>
  \<^verbatim>\<open>agent_core/permission_rules.py\<close>: parsing \<open>Tool(content)\<close> rules and matching a tool call
  against the allow, deny and ask lists. Regular expressions built by the source are written
  as token lists with a matcher; \<open>shlex.split\<close> is the POSIX reader of the Python standard
  library with comments off. \<open>urllib.parse\<close> differs between the supported interpreter
  versions and is a parameter: it yields the scheme and the host name of a URL, or raises.
\<close>

type_synonym url_parser = "string \<Rightarrow> (string \<times> string option) py_result"

section \<open>Rules and rule sets\<close>

record parsed_rule =
  pr_tool_name :: string
  pr_content :: "string option"
  pr_source :: permission_rule_source

definition shell_command_tools :: "(string \<times> string) list" where
  "shell_command_tools = [(''bash'', ''command''), (''powershell'', ''command'')]"

definition candidate_keys :: "string list" where
  "candidate_keys = [''path'', ''file_path'', ''url'', ''target'', ''pattern'']"

definition parse_rule :: "string \<Rightarrow> permission_rule_source \<Rightarrow> parsed_rule option" where
  "parse_rule raw src =
     (let text = py_strip raw
      in if text = [] then None
         else (case partition_char (CHR ''('') text of
           (before, found, after) \<Rightarrow>
             if \<not> found then Some \<lparr>pr_tool_name = text, pr_content = None, pr_source = src\<rparr>
             else if \<not> endswith text '')'' then None
             else (let tool = py_strip before; content = py_strip (butlast after)
                   in if tool = [] then None
                      else Some \<lparr>pr_tool_name = tool,
                                 pr_content = (if content = [] then None else Some content),
                                 pr_source = src\<rparr>)))"

record rule_set =
  rs_allow :: "parsed_rule list"
  rs_deny :: "parsed_rule list"
  rs_ask :: "parsed_rule list"

definition empty_rules :: rule_set where
  "empty_rules = \<lparr>rs_allow = [], rs_deny = [], rs_ask = []\<rparr>"

definition from_lists ::
  "string list \<Rightarrow> string list \<Rightarrow> string list \<Rightarrow> permission_rule_source \<Rightarrow> rule_set" where
  "from_lists allow deny ask src =
     (let parse = List.map_filter (\<lambda>item. parse_rule item src)
      in \<lparr>rs_allow = parse allow, rs_deny = parse deny, rs_ask = parse ask\<rparr>)"

definition merge_rules :: "rule_set \<Rightarrow> rule_set \<Rightarrow> rule_set" where
  "merge_rules a b =
     \<lparr>rs_allow = rs_allow a @ rs_allow b, rs_deny = rs_deny a @ rs_deny b,
      rs_ask = rs_ask a @ rs_ask b\<rparr>"

definition rules_is_empty :: "rule_set \<Rightarrow> bool" where
  "rules_is_empty rs \<longleftrightarrow> rs_allow rs = [] \<and> rs_deny rs = [] \<and> rs_ask rs = []"

fun source_authority :: "permission_rule_source \<Rightarrow> nat" where
  "source_authority RS_USER = 1"
| "source_authority RS_PROJECT = 2"
| "source_authority RS_LOCAL = 3"
| "source_authority RS_SESSION = 4"
| "source_authority RS_CLI = 5"
| "source_authority RS_MANAGED = 6"

definition rule_sort_key :: "parsed_rule \<Rightarrow> nat \<times> nat" where
  "rule_sort_key r =
     (case pr_content r of None \<Rightarrow> 0 | Some c \<Rightarrow> length c, source_authority (pr_source r))"

definition public_rule :: "parsed_rule \<Rightarrow> permission_behavior \<Rightarrow> permission_rule" where
  "public_rule r b =
     \<lparr>rule_source = pr_source r, rule_behavior = b, rule_tool_name = pr_tool_name r,
      rule_content = pr_content r,
      rule_raw = (case pr_content r of None \<Rightarrow> pr_tool_name r
                  | Some c \<Rightarrow> pr_tool_name r @ ''('' @ c @ '')'')\<rparr>"

section \<open>Scalar matching: paths, URLs and targets\<close>

fun candidate_string_from :: "string list \<Rightarrow> pydict \<Rightarrow> string option" where
  "candidate_string_from [] args = None"
| "candidate_string_from (k # ks) args =
     (case dict_get args k PNone of
        PStr s \<Rightarrow> (if s \<noteq> [] then Some s else candidate_string_from ks args)
      | _ \<Rightarrow> candidate_string_from ks args)"

definition candidate_string :: "pydict \<Rightarrow> string option" where
  "candidate_string args = candidate_string_from candidate_keys args"

definition match_domain :: "url_parser \<Rightarrow> string \<Rightarrow> string \<Rightarrow> bool py_result" where
  "match_domain urlparse candidate domain =
     bind_res (urlparse candidate) (\<lambda>parsed.
       (let host0 = (case snd parsed of Some h \<Rightarrow> (if h = [] then candidate else h) | None \<Rightarrow> candidate);
            host = rstrip_chars (\<lambda>c. c = CHR ''.'') (py_lower host0);
            dom = rstrip_chars (\<lambda>c. c = CHR ''.'') (py_lower domain)
        in if dom = [] then Inr False
           else Inr (host = dom \<or> endswith host (''.'' @ dom))))"

text \<open>The pieces of the regular expression that \<open>_glob_to_regex\<close> emits: \<open>.*\<close>,
  \<open>(?:.*/)?\<close>, the class of characters inside a path segment, starred or not, a literal.
  \<open>G_dir\<close> is the inside of the optional group.\<close>

datatype glob_token = G_any | G_opt_dir | G_dir | G_segment | G_one | G_lit char

fun glob_tokens :: "string \<Rightarrow> glob_token list" where
  "glob_tokens [] = []"
| "glob_tokens (c # s) =
     (if c = CHR ''*'' then
        (case s of
           [] \<Rightarrow> [G_segment]
         | d # s' \<Rightarrow>
             if d = CHR ''*'' then
               (case s' of
                  [] \<Rightarrow> [G_any]
                | e # s'' \<Rightarrow> if e = CHR ''/'' then G_any # G_opt_dir # glob_tokens s''
                            else G_any # glob_tokens s')
             else G_segment # glob_tokens s)
      else if c = CHR ''?'' then G_one # glob_tokens s
      else G_lit c # glob_tokens s)"

definition segment_char :: "char \<Rightarrow> bool" where
  "segment_char c \<longleftrightarrow> c \<noteq> CHR ''/'' \<and> c \<noteq> CHR 0x5C"

fun glob_weight :: "glob_token \<Rightarrow> nat" where
  "glob_weight G_opt_dir = 2"
| "glob_weight t = 1"

function glob_matches :: "glob_token list \<Rightarrow> string \<Rightarrow> bool" where
  "glob_matches [] s = (s = [])"
| "glob_matches (G_any # ts) s =
     (glob_matches ts s \<or>
      (case s of [] \<Rightarrow> False | c # s' \<Rightarrow> c \<noteq> CHR 0x0A \<and> glob_matches (G_any # ts) s'))"
| "glob_matches (G_opt_dir # ts) s = (glob_matches ts s \<or> glob_matches (G_dir # ts) s)"
| "glob_matches (G_dir # ts) s =
     (case s of [] \<Rightarrow> False
      | c # s' \<Rightarrow> (c = CHR ''/'' \<and> glob_matches ts s') \<or> (c \<noteq> CHR 0x0A \<and> glob_matches (G_dir # ts) s'))"
| "glob_matches (G_segment # ts) s =
     (glob_matches ts s \<or>
      (case s of [] \<Rightarrow> False | c # s' \<Rightarrow> segment_char c \<and> glob_matches (G_segment # ts) s'))"
| "glob_matches (G_one # ts) s =
     (case s of [] \<Rightarrow> False | c # s' \<Rightarrow> segment_char c \<and> glob_matches ts s')"
| "glob_matches (G_lit x # ts) s = (case s of [] \<Rightarrow> False | c # s' \<Rightarrow> c = x \<and> glob_matches ts s')"
  by pat_completeness auto
termination
  by (relation "measures [\<lambda>(ts, s). length s, \<lambda>(ts, s). sum_list (map glob_weight ts)]") auto

text \<open>The end anchor of Python's \<open>re\<close>: at the end, or before a final line feed.\<close>

definition dollar_match :: "(string \<Rightarrow> bool) \<Rightarrow> string \<Rightarrow> bool" where
  "dollar_match m s \<longleftrightarrow> m s \<or> (s \<noteq> [] \<and> last s = CHR 0x0A \<and> m (butlast s))"

definition glob_match :: "string \<Rightarrow> string \<Rightarrow> bool" where
  "glob_match pattern text = dollar_match (glob_matches (glob_tokens pattern)) text"

definition match_scalar :: "url_parser \<Rightarrow> string \<Rightarrow> string \<Rightarrow> bool py_result" where
  "match_scalar urlparse candidate pattern =
     (if startswith pattern ''domain:''
      then match_domain urlparse candidate (drop (length ''domain:'') pattern)
      else Inr (glob_match pattern candidate))"

section \<open>Splitting and normalising shell commands\<close>

definition is_quote :: "char \<Rightarrow> bool" where
  "is_quote c \<longleftrightarrow> c = CHR 0x27 \<or> c = CHR 0x22"

fun split_scan :: "char option \<Rightarrow> string \<Rightarrow> string \<Rightarrow> string list" where
  "split_scan q buf [] = [rev buf]"
| "split_scan (Some q) buf (c # s) = split_scan (if c = q then None else Some q) (c # buf) s"
| "split_scan None buf (c # s) =
     (if is_quote c then split_scan (Some c) (c # buf) s
      else if c = CHR ''&'' \<and> startswith s ''&'' then rev buf # split_scan None [] (tl s)
      else if c = CHR ''|'' \<and> startswith s ''|'' then rev buf # split_scan None [] (tl s)
      else if c = CHR ''|'' \<or> c = CHR '';'' \<or> c = CHR 0x0A then rev buf # split_scan None [] s
      else split_scan None (c # buf) s)"

definition split_subcommands :: "string \<Rightarrow> string list" where
  "split_subcommands command =
     map py_strip (filter (\<lambda>p. py_strip p \<noteq> []) (split_scan None [] command))"

text \<open>\<open>shlex.split(s, posix=True)\<close>: between words, inside a word, inside a quotation, and
  after a backslash (with the state to return to). The word being read is kept reversed;
  the flag records that it contained a quotation, so that an empty quoted word counts.\<close>

datatype shlex_state = Sh_space | Sh_word | Sh_quote char | Sh_escape "char option"

definition shlex_white :: "char \<Rightarrow> bool" where
  "shlex_white c \<longleftrightarrow> c \<in> set [CHR '' '', CHR 0x09, CHR 0x0D, CHR 0x0A]"

fun shlex_scan :: "shlex_state \<Rightarrow> string \<Rightarrow> bool \<Rightarrow> string \<Rightarrow> string list py_result" where
  "shlex_scan Sh_space tok quoted [] = Inr []"
| "shlex_scan Sh_word tok quoted [] = Inr (if tok \<noteq> [] \<or> quoted then [rev tok] else [])"
| "shlex_scan (Sh_quote q) tok quoted [] = Inl (ValueError ''No closing quotation'')"
| "shlex_scan (Sh_escape r) tok quoted [] = Inl (ValueError ''No escaped character'')"
| "shlex_scan Sh_space tok quoted (c # s) =
     (if shlex_white c then shlex_scan Sh_space tok quoted s
      else if c = CHR 0x5C then shlex_scan (Sh_escape None) [] False s
      else if is_quote c then shlex_scan (Sh_quote c) [] False s
      else shlex_scan Sh_word [c] False s)"
| "shlex_scan Sh_word tok quoted (c # s) =
     (if shlex_white c then
        (if tok \<noteq> [] \<or> quoted
         then bind_res (shlex_scan Sh_space [] False s) (\<lambda>ws. Inr (rev tok # ws))
         else shlex_scan Sh_space [] False s)
      else if is_quote c then shlex_scan (Sh_quote c) tok quoted s
      else if c = CHR 0x5C then shlex_scan (Sh_escape None) tok quoted s
      else shlex_scan Sh_word (c # tok) quoted s)"
| "shlex_scan (Sh_quote q) tok quoted (c # s) =
     (if c = q then shlex_scan Sh_word tok True s
      else if c = CHR 0x5C \<and> q = CHR 0x22 then shlex_scan (Sh_escape (Some q)) tok True s
      else shlex_scan (Sh_quote q) (c # tok) True s)"
| "shlex_scan (Sh_escape r) tok quoted (c # s) =
     (case r of
        None \<Rightarrow> shlex_scan Sh_word (c # tok) quoted s
      | Some q \<Rightarrow>
          shlex_scan (Sh_quote q)
            (if c \<noteq> CHR 0x5C \<and> c \<noteq> q then c # CHR 0x5C # tok else c # tok) quoted s)"

definition shlex_split :: "string \<Rightarrow> string list py_result" where
  "shlex_split s = shlex_scan Sh_space [] False s"

definition safe_env_vars :: "string list" where
  "safe_env_vars = [''LANG'', ''LC_ALL'', ''TERM'', ''TZ'', ''HOME'', ''USER'', ''PWD'',
     ''SHELL'', ''PYTHONUTF8'', ''PYTHONIOENCODING'']"

definition env_assign :: "string \<Rightarrow> bool" where
  "env_assign t =
     (case partition_char (CHR ''='') t of
        (name, found, _) \<Rightarrow> found \<and> name \<noteq> [] \<and> (is_alpha_ascii (hd name) \<or> hd name = CHR ''_'') \<and>
          list_all (\<lambda>c. is_alnum_ascii c \<or> c = CHR ''_'') name)"

definition binary_hijack_var :: "string \<Rightarrow> bool" where
  "binary_hijack_var name \<longleftrightarrow>
     startswith name ''LD_'' \<or> startswith name ''DYLD_'' \<or> dollar_match (\<lambda>s. s = ''PATH'') name"

fun strip_leading_env :: "string list \<Rightarrow> string list" where
  "strip_leading_env [] = []"
| "strip_leading_env (t # ts) =
     (if env_assign t then
        (let name = fst (partition_char (CHR ''='') t)
         in if binary_hijack_var name \<or> name \<notin> set safe_env_vars then t # ts
            else strip_leading_env ts)
      else t # ts)"

lemma length_strip_leading_env: "length (strip_leading_env ts) \<le> length ts"
  by (induction ts) (auto simp: Let_def)

definition safe_wrappers :: "string list" where
  "safe_wrappers = [''timeout'', ''nohup'', ''nice'', ''stdbuf'', ''ionice'']"

definition duration_arg :: "string \<Rightarrow> bool" where
  "duration_arg a \<longleftrightarrow>
     (let ds = takeWhile is_decimal a; r = dropWhile is_decimal a
      in ds \<noteq> [] \<and> (r = [] \<or> (length r = 1 \<and> hd r \<in> set ''smhd'')))
     \<or> py_isdigit a"

function strip_safe_wrappers :: "string list \<Rightarrow> string list" where
  "strip_safe_wrappers [] = []"
| "strip_safe_wrappers (head # rest) =
     (if head = ''nohup'' then strip_safe_wrappers rest
      else if head = ''env'' then
        (let r = strip_leading_env rest
         in if r \<noteq> rest then strip_safe_wrappers r
            else if rest \<noteq> [] \<and> \<not> startswith (hd rest) ''-'' then strip_safe_wrappers rest
            else head # rest)
      else if head \<in> set safe_wrappers \<and> rest \<noteq> [] then
        (if startswith (hd rest) ''-'' then head # rest
         else if duration_arg (hd rest) then strip_safe_wrappers (tl rest)
         else strip_safe_wrappers rest)
      else head # rest)"
  by pat_completeness auto
termination
  by (relation "measure length") (auto simp: less_Suc_eq_le length_strip_leading_env)

declare strip_safe_wrappers.simps(2) [simp del]

definition normalize_subcommand :: "string \<Rightarrow> string" where
  "normalize_subcommand sub =
     (let tokens = (case shlex_split sub of Inr ts \<Rightarrow> ts | Inl _ \<Rightarrow> py_split sub)
      in py_strip (join_str '' '' (strip_safe_wrappers (strip_leading_env tokens))))"

section \<open>Shell rule matching\<close>

datatype shell_pattern = Exact string | Prefix string | Wildcard string

definition parse_shell_pattern :: "string \<Rightarrow> shell_pattern" where
  "parse_shell_pattern p =
     (if endswith p '':*'' then Prefix (take (length p - 2) p)
      else if CHR ''*'' \<in> set p then Wildcard p
      else Exact p)"

text \<open>A pattern in which \<open>*\<close> stands for any text (\<open>.*\<close> with \<open>DOTALL\<close>).\<close>

fun star_match :: "string \<Rightarrow> string \<Rightarrow> bool" where
  "star_match [] s = (s = [])"
| "star_match (c # p) [] = (c = CHR ''*'' \<and> star_match p [])"
| "star_match (c # p) (d # s) =
     (if c = CHR ''*'' then star_match p (d # s) \<or> star_match (c # p) s
      else c = d \<and> star_match p s)"

definition shell_wildcard_match :: "string \<Rightarrow> string \<Rightarrow> bool" where
  "shell_wildcard_match pattern command =
     (if endswith pattern '' *''
      then (let body = take (length pattern - 2) pattern
            in dollar_match (\<lambda>s. s = body \<or> startswith s (body @ '' '')) command)
      else dollar_match (star_match pattern) command)"

definition match_shell_rule :: "string \<Rightarrow> string \<Rightarrow> bool" where
  "match_shell_rule pattern command =
     (case parse_shell_pattern pattern of
        Exact v \<Rightarrow> command = v
      | Prefix v \<Rightarrow> command = v \<or> startswith command (v @ '' '')
      | Wildcard v \<Rightarrow> shell_wildcard_match v command)"

definition match_shell_command :: "string \<Rightarrow> string list \<Rightarrow> permission_behavior \<Rightarrow> bool" where
  "match_shell_command command patterns b =
     (let subs = split_subcommands command
      in if subs = [] then False
         else if b = PB_ALLOW
         then list_all (\<lambda>sub. list_ex (\<lambda>p. match_shell_rule p (normalize_subcommand sub)) patterns) subs
         else list_ex (\<lambda>sub. list_ex (\<lambda>p. list_ex (match_shell_rule p)
                 (filter (\<lambda>form. form \<noteq> []) [py_strip sub, normalize_subcommand sub])) patterns) subs)"

section \<open>Matching a call against a list of rules\<close>

definition match_rules ::
  "url_parser \<Rightarrow> parsed_rule list \<Rightarrow> string \<Rightarrow> pydict \<Rightarrow> permission_behavior \<Rightarrow>
   permission_rule_source option \<Rightarrow> permission_rule option py_result" where
  "match_rules urlparse rules tool_name args b src =
     (let scoped = sort_key_rev rule_sort_key
            (filter (\<lambda>r. pr_tool_name r = tool_name \<and> (src = None \<or> src = Some (pr_source r))) rules)
      in if scoped = [] then Inr None
         else (case find (\<lambda>r. pr_content r = None) scoped of
           Some whole \<Rightarrow> Inr (Some (public_rule whole b))
         | None \<Rightarrow>
           (case map_of shell_command_tools tool_name of
              Some command_arg \<Rightarrow>
                Inr (if match_shell_command (py_str (dict_get args command_arg (PStr '''')))
                          (List.map_filter pr_content scoped) b
                     then Some (public_rule (hd scoped) b) else None)
            | None \<Rightarrow>
                (case candidate_string args of
                   None \<Rightarrow> Inr None
                 | Some candidate \<Rightarrow>
                     bind_res (find_res (\<lambda>r. case pr_content r of None \<Rightarrow> Inr False
                                 | Some c \<Rightarrow> match_scalar urlparse candidate c) scoped)
                       (\<lambda>m. Inr (map_option (\<lambda>r. public_rule r b) m))))))"

definition deny_match ::
  "url_parser \<Rightarrow> rule_set \<Rightarrow> string \<Rightarrow> pydict \<Rightarrow> permission_rule_source option \<Rightarrow>
   permission_rule option py_result" where
  "deny_match up rs tool args src = match_rules up (rs_deny rs) tool args PB_DENY src"

definition ask_match ::
  "url_parser \<Rightarrow> rule_set \<Rightarrow> string \<Rightarrow> pydict \<Rightarrow> permission_rule_source option \<Rightarrow>
   permission_rule option py_result" where
  "ask_match up rs tool args src = match_rules up (rs_ask rs) tool args PB_ASK src"

definition allow_match ::
  "url_parser \<Rightarrow> rule_set \<Rightarrow> string \<Rightarrow> pydict \<Rightarrow> permission_rule_source option \<Rightarrow>
   permission_rule option py_result" where
  "allow_match up rs tool args src = match_rules up (rs_allow rs) tool args PB_ALLOW src"

lemmas rule_query_defs = deny_match_def ask_match_def allow_match_def

section \<open>Parsing and printing rules\<close>

text \<open>The canonical text of any rule that was parsed parses back to the same rule, so a
  rule shown to the user or written to a configuration file denotes what was matched.\<close>

theorem parse_rule_roundtrip:
  assumes "parse_rule raw src = Some r"
  shows "parse_rule (rule_raw (public_rule r b)) src = Some r"
proof -
  obtain before found after where part: "partition_char (CHR ''('') (py_strip raw) = (before, found, after)"
    by (cases "partition_char (CHR ''('') (py_strip raw)") auto
  show ?thesis
  proof (cases found)
    case False
    then have "r = \<lparr>pr_tool_name = py_strip raw, pr_content = None, pr_source = src\<rparr>" "py_strip raw \<noteq> []"
      using assms part by (auto simp: parse_rule_def Let_def split: if_splits)
    then show ?thesis using part False by (simp add: parse_rule_def public_rule_def)
  next
    case True
    let ?tool = "py_strip before" and ?content = "py_strip (butlast after)"
    have r: "r = \<lparr>pr_tool_name = ?tool, pr_content = (if ?content = [] then None else Some ?content), pr_source = src\<rparr>"
      and tool: "?tool \<noteq> []"
      using assms part True by (auto simp: parse_rule_def Let_def split: if_splits)
    have nopar: "CHR ''('' \<notin> set ?tool"
      using partition_char_before [OF part] set_py_strip [of before] by blast
    show ?thesis
    proof (cases "?content = []")
      case True
      then show ?thesis using r tool partition_char_no_sep [OF nopar]
        by (simp add: parse_rule_def public_rule_def)
    next
      case False
      let ?raw = "?tool @ ''('' @ ?content @ '')''"
      have "py_strip ?raw = ?raw"
        using py_strip_ends(1) [OF tool] tool by (intro py_strip_id) (auto simp: is_space_def)
      moreover have "partition_char (CHR ''('') ?raw = (?tool, True, ?content @ '')'')"
        using partition_char_sep [OF nopar] by simp
      ultimately show ?thesis using r tool False
        by (simp add: parse_rule_def public_rule_def endswith_iff)
    qed
  qed
qed

theorem parse_rule_roundtrip_witness:
  "parse_rule ''bash( git * )'' RS_CLI = Some \<lparr>pr_tool_name = ''bash'', pr_content = Some ''git *'', pr_source = RS_CLI\<rparr> \<and>
   parse_rule (rule_raw (public_rule \<lparr>pr_tool_name = ''bash'', pr_content = Some ''git *'', pr_source = RS_CLI\<rparr> PB_ALLOW)) RS_CLI
     = Some \<lparr>pr_tool_name = ''bash'', pr_content = Some ''git *'', pr_source = RS_CLI\<rparr>"
proof -
  have "parse_rule ''bash( git * )'' RS_CLI = Some \<lparr>pr_tool_name = ''bash'', pr_content = Some ''git *'', pr_source = RS_CLI\<rparr>"
    by code_simp
  with parse_rule_roundtrip [OF this] show ?thesis by blast
qed

section \<open>Compound commands\<close>

text \<open>The quotation state after a text, which says when an operator is at top level.\<close>

fun quote_after :: "char option \<Rightarrow> string \<Rightarrow> char option" where
  "quote_after q [] = q"
| "quote_after (Some q) (c # s) = quote_after (if c = q then None else Some q) s"
| "quote_after None (c # s) = quote_after (if is_quote c then Some c else None) s"

lemma split_scan_append:
  "quote_after q a = None \<Longrightarrow> split_scan q buf (a @ CHR '';'' # b) = split_scan q buf a @ split_scan None [] b"
proof (induction q buf a rule: split_scan.induct)
  case (1 q buf)
  then show ?case by (simp add: is_quote_def startswith_def)
next
  case (3 buf c s)
  have amp: "startswith (s @ CHR '';'' # b) [x] = startswith s [x]" if "x \<noteq> CHR '';''" for x
    using that by (cases s) (auto simp: startswith_def)
  have tl: "tl (s @ CHR '';'' # b) = tl s @ CHR '';'' # b" if "startswith s [x]" for x
    using that by (cases s) (auto simp: startswith_def)
  have pair: "quote_after None (tl s) = None"
    if "startswith s [x]" "\<not> is_quote x" "quote_after None s = None" for x
    using that by (cases s) (auto simp: startswith_def)
  from 3 show ?case
    by (auto simp: amp tl pair is_quote_def)
qed auto

lemma split_subcommands_append:
  "quote_after None a = None \<Longrightarrow>
     split_subcommands (a @ CHR '';'' # b) = split_subcommands a @ split_subcommands b"
  by (simp add: split_subcommands_def split_scan_append)

text \<open>A deny or ask list is aggressive on compound commands: when the part before a
  top-level \<open>;\<close> has balanced quotes, the compound command is matched exactly when either
  part is.\<close>

theorem deny_compound:
  assumes "quote_after None a = None" and "b \<noteq> PB_ALLOW"
  shows "match_shell_command (a @ CHR '';'' # c) patterns b \<longleftrightarrow>
    match_shell_command a patterns b \<or> match_shell_command c patterns b"
  using assms by (auto simp: match_shell_command_def split_subcommands_append Let_def)

theorem deny_compound_witness:
  "match_shell_command ''echo hi; rm -rf x'' [''rm:*''] PB_DENY"
proof -
  have q: "quote_after None ''echo hi'' = None" by code_simp
  have m: "match_shell_command '' rm -rf x'' [''rm:*''] PB_DENY" by code_simp
  show ?thesis using deny_compound [OF q, of PB_DENY "'' rm -rf x''" "[''rm:*'']"] m by simp
qed

text \<open>An allow list is conservative on compound commands: the compound is allowed exactly
  when some part is a command at all and every part that is one is allowed by itself.\<close>

theorem allow_compound:
  assumes "quote_after None a = None"
  shows "match_shell_command (a @ CHR '';'' # c) patterns PB_ALLOW \<longleftrightarrow>
    (split_subcommands a \<noteq> [] \<or> split_subcommands c \<noteq> []) \<and>
    (split_subcommands a = [] \<or> match_shell_command a patterns PB_ALLOW) \<and>
    (split_subcommands c = [] \<or> match_shell_command c patterns PB_ALLOW)"
  using assms by (auto simp: match_shell_command_def split_subcommands_append Let_def)

theorem allow_compound_witness:
  "\<not> match_shell_command ''git status; rm -rf x'' [''git:*''] PB_ALLOW"
proof -
  have q: "quote_after None ''git status'' = None" by code_simp
  have m: "\<not> match_shell_command '' rm -rf x'' [''git:*''] PB_ALLOW" "split_subcommands '' rm -rf x'' \<noteq> []"
    by code_simp+
  show ?thesis using allow_compound [OF q, of "'' rm -rf x''" "[''git:*'']"] m by simp
qed

section \<open>Layering rule sources\<close>

lemma match_shell_command_mono:
  assumes "match_shell_command cmd ps b" and "set ps \<subseteq> set qs"
  shows "match_shell_command cmd qs b"
  using assms by (fastforce simp: match_shell_command_def Let_def list_all_iff list_ex_iff split: if_splits)

text \<open>The rules a query looks at, and when it finds nothing.\<close>

definition scoped_rules :: "parsed_rule list \<Rightarrow> string \<Rightarrow> permission_rule_source option \<Rightarrow> parsed_rule list" where
  "scoped_rules rules tool src =
     filter (\<lambda>r. pr_tool_name r = tool \<and> (src = None \<or> src = Some (pr_source r))) rules"

lemma match_rules_None_iff:
  "match_rules up rules tool args b src = Inr None \<longleftrightarrow>
    (let sc = scoped_rules rules tool src
     in (\<forall>r\<in>set sc. pr_content r \<noteq> None) \<and>
        (case map_of shell_command_tools tool of
           Some arg \<Rightarrow> sc = [] \<or> \<not> match_shell_command (py_str (dict_get args arg (PStr '''')))
                         (List.map_filter pr_content (sort_key_rev rule_sort_key sc)) b
         | None \<Rightarrow> (case candidate_string args of None \<Rightarrow> True
             | Some cand \<Rightarrow> \<forall>r\<in>set sc. match_scalar up cand (the (pr_content r)) = Inr False)))"
proof -
  let ?sc = "scoped_rules rules tool src" and ?so = "sort_key_rev rule_sort_key (scoped_rules rules tool src)"
  show ?thesis
  proof (cases "find (\<lambda>r. pr_content r = None) ?so")
    case None
    then have some: "\<forall>r\<in>set ?sc. pr_content r \<noteq> None" by (simp add: find_None_iff)
    let ?f = "\<lambda>cand r. case pr_content r of None \<Rightarrow> Inr False | Some c \<Rightarrow> match_scalar up cand c"
    have f: "?f cand r = match_scalar up cand (the (pr_content r))" if "r \<in> set ?sc" for r cand
      using some that by (cases "pr_content r") auto
    have scalar: "bind_res (find_res (?f cand) ?so) (\<lambda>m. Inr (map_option (\<lambda>r. public_rule r b) m)) = Inr None
        \<longleftrightarrow> (\<forall>r\<in>set ?sc. match_scalar up cand (the (pr_content r)) = Inr False)" for cand
      by (simp add: bind_res_Inr_iff find_res_None_iff f)
    show ?thesis
      unfolding match_rules_def scoped_rules_def [symmetric] Let_def None
      by (auto simp: scalar some split: option.splits)
  next
    case (Some r)
    then have r: "r \<in> set ?sc" "pr_content r = None" using find_SomeD2 [OF Some] by simp_all
    then have "?so \<noteq> []" by auto
    with Some have "match_rules up rules tool args b src = Inr (Some (public_rule r b))"
      unfolding match_rules_def scoped_rules_def [symmetric] Let_def by simp
    with r show ?thesis by (auto simp: Let_def)
  qed
qed

lemma match_rules_mono:
  assumes "set rules \<subseteq> set rules'" and "match_rules up rules' tool args b src = Inr None"
  shows "match_rules up rules tool args b src = Inr None"
proof -
  have sub: "set (scoped_rules rules tool src) \<subseteq> set (scoped_rules rules' tool src)"
    using assms(1) by (auto simp: scoped_rules_def)
  then have "set (List.map_filter pr_content (sort_key_rev rule_sort_key (scoped_rules rules tool src)))
     \<subseteq> set (List.map_filter pr_content (sort_key_rev rule_sort_key (scoped_rules rules' tool src)))"
    by (auto simp: List.map_filter_def)
  with sub assms(2) show ?thesis
    using match_shell_command_mono
    by (fastforce simp: match_rules_None_iff Let_def split: option.splits)
qed

text \<open>Layering rule sources never loses a deny or an ask: whatever set is merged in, on
  either side, a call that some deny (or ask) rule of the original set catches is still
  caught by the merged set (or the query raises), for every source filter.\<close>

theorem merge_keeps_deny_and_ask:
  assumes "rs_merged = merge_rules a b \<or> rs_merged = merge_rules b a"
  shows "(deny_match up a tool args src \<noteq> Inr None \<longrightarrow> deny_match up rs_merged tool args src \<noteq> Inr None) \<and>
         (ask_match up a tool args src \<noteq> Inr None \<longrightarrow> ask_match up rs_merged tool args src \<noteq> Inr None)"
proof -
  have "set (rs_deny a) \<subseteq> set (rs_deny rs_merged)" "set (rs_ask a) \<subseteq> set (rs_ask rs_merged)"
    using assms by (auto simp: merge_rules_def)
  then show ?thesis
    unfolding deny_match_def ask_match_def using match_rules_mono by blast
qed

theorem merge_keeps_deny_and_ask_witness:
  "deny_match (\<lambda>_. Inr ([], None))
     (merge_rules (from_lists [''bash''] [] [] RS_LOCAL) (from_lists [] [''bash(rm *)''] [] RS_PROJECT))
     ''bash'' [(''command'', PStr ''ls && rm -rf x'')] None \<noteq> Inr None"
proof -
  have "deny_match (\<lambda>_. Inr ([], None)) (from_lists [] [''bash(rm *)''] [] RS_PROJECT)
     ''bash'' [(''command'', PStr ''ls && rm -rf x'')] None \<noteq> Inr None"
    by code_simp
  then show ?thesis
    using merge_keeps_deny_and_ask [of "merge_rules (from_lists [''bash''] [] [] RS_LOCAL)
        (from_lists [] [''bash(rm *)''] [] RS_PROJECT)" "from_lists [] [''bash(rm *)''] [] RS_PROJECT"
        "from_lists [''bash''] [] [] RS_LOCAL"] by blast
qed

section \<open>Normalisation never hides a hijacked binary\<close>

lemma env_assign_not_wrapper: "env_assign t \<Longrightarrow> CHR ''='' \<in> set t"
  by (auto simp: env_assign_def split: prod.splits dest: partition_char_found)

lemma strip_env_assign_fixed:
  "env_assign t \<Longrightarrow> strip_safe_wrappers (t # ts) = t # ts"
proof -
  assume "env_assign t"
  then have "CHR ''='' \<in> set t" by (rule env_assign_not_wrapper)
  then have "t \<noteq> ''nohup''" "t \<noteq> ''env''" "t \<notin> set safe_wrappers"
    by (auto simp: safe_wrappers_def)
  then show ?thesis by (subst strip_safe_wrappers.simps(2)) simp
qed

text \<open>An assignment to a variable that can redirect which binary runs (\<open>PATH\<close>, \<open>LD_*\<close>,
  \<open>DYLD_*\<close>), or to any variable outside the safe list, is never stripped: with or without a
  leading \<open>env\<close> or \<open>nohup\<close>, it stays the first word of the normalised command.\<close>

theorem hijack_assignment_kept:
  assumes "env_assign t"
    and "binary_hijack_var (fst (partition_char (CHR ''='') t))
       \<or> fst (partition_char (CHR ''='') t) \<notin> set safe_env_vars"
    and "pre \<in> {[], [''env''], [''nohup''], [''nohup'', ''env'']}"
  shows "strip_safe_wrappers (strip_leading_env (pre @ t # ts)) = t # ts"
proof -
  have keep: "strip_leading_env (t # ts) = t # ts"
    using assms(1,2) by (auto simp: Let_def)
  have nodash: "\<not> startswith t ''-''"
    using assms(1) by (cases t) (auto simp: env_assign_def startswith_def is_alpha_ascii_def
        is_alnum_ascii_def is_decimal_def split: prod.splits if_splits)
  have env: "strip_safe_wrappers (''env'' # t # ts) = t # ts"
    using keep nodash strip_env_assign_fixed [OF assms(1)]
    by (simp add: strip_safe_wrappers.simps(2) [of "''env''"])
  have words: "\<not> env_assign ''env''" "\<not> env_assign ''nohup''" by code_simp+
  show ?thesis
    using assms(3) keep env strip_env_assign_fixed [OF assms(1)] words
    by (auto simp: strip_safe_wrappers.simps(2) [of "''nohup''"])
qed

theorem hijack_assignment_kept_witness:
  "strip_safe_wrappers (strip_leading_env [''env'', ''PATH=/tmp/evil'', ''git'', ''status''])
     = [''PATH=/tmp/evil'', ''git'', ''status'']"
proof -
  have "env_assign ''PATH=/tmp/evil''" "binary_hijack_var (fst (partition_char (CHR ''='') ''PATH=/tmp/evil''))"
    by code_simp+
  then show ?thesis
    using hijack_assignment_kept [of "''PATH=/tmp/evil''" "[''env'']" "[''git'', ''status'']"] by simp
qed

section \<open>Gaps in the matching of compound and wildcard commands\<close>

text \<open>A backslash-escaped quote opens a quotation for the splitter, and a single \<open>&\<close>
  is not a separator, so a deny rule for \<open>rm\<close> misses an \<open>rm\<close> that the shell does run.\<close>

theorem deny_evaded:
  "split_subcommands (''echo '' @ [CHR 0x5C, CHR 0x22] @ ''; rm -rf x'') =
     [''echo '' @ [CHR 0x5C, CHR 0x22] @ ''; rm -rf x''] \<and>
   \<not> match_shell_command (''echo '' @ [CHR 0x5C, CHR 0x22] @ ''; rm -rf x'') [''rm:*''] PB_DENY \<and>
   \<not> match_shell_command ''true & rm -rf x'' [''rm:*''] PB_DENY \<and>
   match_shell_command ''true; rm -rf x'' [''rm:*''] PB_DENY"
  by (intro conjI; code_simp)

text \<open>In a pattern that ends in a space and a star, every earlier star is taken
  literally: \<open>git * --force *\<close> does not match a forced push with a remote, while the same
  pattern without the last star matches a forced push without one.\<close>

theorem inner_star_literal:
  assumes "CHR ''*'' \<notin> set command" and "CHR ''*'' \<in> set body"
  shows "\<not> match_shell_rule (body @ '' *'') command"
proof -
  have "parse_shell_pattern (body @ '' *'') = Wildcard (body @ '' *'')"
    using assms by (auto simp: parse_shell_pattern_def endswith_def startswith_def)
  moreover have "endswith (body @ '' *'') '' *''" by (simp add: endswith_iff)
  moreover have "\<not> dollar_match (\<lambda>s. s = body \<or> startswith s (body @ '' '')) command"
    using assms by (auto simp: dollar_match_def startswith_iff dest: in_set_butlastD
        dest!: arg_cong [where f = set])
  ultimately show ?thesis by (simp add: match_shell_rule_def shell_wildcard_match_def)
qed

theorem inner_star_literal_witness:
  "\<not> match_shell_rule ''git * --force *'' ''git push --force origin'' \<and>
   match_shell_rule ''git * --force'' ''git push --force''"
proof -
  have "match_shell_rule ''git * --force'' ''git push --force''" by code_simp
  then show ?thesis
    using inner_star_literal [of "''git push --force origin''" "''git * --force''"] by simp
qed

end
