(* ===== verification/Unified_Diff.thy ===== *)
theory Unified_Diff
  imports Polaris_Prelude
begin

text \<open>
  \<^verbatim>\<open>agent_core/unified_diff.py\<close>: the parser that the permission engine and the edit tool
  share. A \<open>PatchError\<close> is its message. The nested loops of \<open>parse_unified_diff\<close> are three
  recursive functions: the lines of a hunk, the hunks of a file entry, the file entries.
  Path classification follows \<open>PurePosixPath\<close> and the \<open>PureWindowsPath\<close> of Python 3.12
  and later (a drive is any character followed by a colon).
\<close>

section \<open>Data\<close>

datatype patch_operation = CREATE | UPDATE | DELETE

record patch_hunk =
  old_lines :: "string list"
  new_lines :: "string list"
  old_start :: nat
  new_start :: nat
  old_no_newline :: bool
  new_no_newline :: bool
  new_sources :: "nat option list"

record patch_file =
  old_path :: "string option"
  new_path :: "string option"
  operation :: patch_operation
  hunks :: "patch_hunk list"

type_synonym patch_set = "patch_file list"
type_synonym 'a patch_result = "string + 'a"

definition patch_target :: "patch_file \<Rightarrow> string" where
  "patch_target f = (case (if operation f \<noteq> DELETE then new_path f else old_path f) of
      Some p \<Rightarrow> p | None \<Rightarrow> [])"

definition patch_targets :: "patch_set \<Rightarrow> string list" where
  "patch_targets fs = map patch_target fs"

section \<open>Paths\<close>

definition drop_ab_prefix :: "string \<Rightarrow> string" where
  "drop_ab_prefix p = (if startswith p ''a/'' \<or> startswith p ''b/'' then drop 2 p else p)"

definition normalize_path :: "string \<Rightarrow> string option patch_result" where
  "normalize_path raw =
     (let p0 = fst (partition_char (CHR 0x09) (py_strip raw))
      in if p0 = ''/dev/null'' then Inr None
         else (let p = replace_char (CHR 0x5C) (CHR ''/'') (drop_ab_prefix p0)
               in if p = [] then Inl ''patch path is empty''
                  else if startswith p ''/'' \<or> (2 \<le> length p \<and> p ! 1 = CHR '':'')
                       then Inl (''absolute patch path is not allowed: '' @ p)
                  else if list_ex (\<lambda>part. part \<in> set ['''', ''.'', ''..'']) (split_char (CHR ''/'') p)
                       then Inl (''patch path must stay inside the workspace: '' @ p)
                  else Inr (Some p)))"

section \<open>Hunk headers\<close>

definition take_digits :: "string \<Rightarrow> (nat \<times> string) option" where
  "take_digits s =
     (let ds = takeWhile is_decimal s
      in if ds = [] then None else Some (digits_value ds, dropWhile is_decimal s))"

text \<open>\<open>(\d+)(?:,(\d+))?\<close>: a start and an optional count, which is 1 when absent.\<close>

definition take_range :: "string \<Rightarrow> (nat \<times> nat \<times> string) option" where
  "take_range s =
     (case take_digits s of
        None \<Rightarrow> None
      | Some (a, r) \<Rightarrow>
          if startswith r '',''
          then (case take_digits (tl r) of None \<Rightarrow> None | Some (n, r') \<Rightarrow> Some (a, n, r'))
          else Some (a, 1, r))"

definition strip_prefix :: "string \<Rightarrow> string \<Rightarrow> string option" where
  "strip_prefix p s = (if startswith s p then Some (drop (length p) s) else None)"

definition parse_hunk_header :: "string \<Rightarrow> (nat \<times> nat \<times> nat \<times> nat) option" where
  "parse_hunk_header line =
     (case strip_prefix ''@@ -'' line of None \<Rightarrow> None
      | Some r1 \<Rightarrow> (case take_range r1 of None \<Rightarrow> None
      | Some (os, oc, r2) \<Rightarrow> (case strip_prefix '' +'' r2 of None \<Rightarrow> None
      | Some r3 \<Rightarrow> (case take_range r3 of None \<Rightarrow> None
      | Some (ns, nc, r4) \<Rightarrow>
          if startswith r4 '' @@'' then Some (os, oc, ns, nc) else None))))"

section \<open>Hunk bodies\<close>

record hunk_state =
  hs_old :: "string list"
  hs_new :: "string list"
  hs_sources :: "nat option list"
  hs_old_nn :: bool
  hs_new_nn :: bool
  hs_prev :: "char option"

definition init_hunk_state :: hunk_state where
  "init_hunk_state =
     \<lparr>hs_old = [], hs_new = [], hs_sources = [], hs_old_nn = False, hs_new_nn = False, hs_prev = None\<rparr>"

definition hunk_stop :: "string \<Rightarrow> bool" where
  "hunk_stop body \<longleftrightarrow> startswith body ''@@'' \<or> startswith body ''--- '' \<or> startswith body ''diff --git ''"

definition no_newline_text :: string where
  "no_newline_text = CHR 0x5C # '' No newline at end of file''"

text \<open>One line of a hunk: the new state, or the error.\<close>

definition hunk_line :: "nat \<Rightarrow> string \<Rightarrow> hunk_state \<Rightarrow> hunk_state patch_result" where
  "hunk_line number body st =
     (if startswith body no_newline_text then
        (case hs_prev st of
           None \<Rightarrow> Inl ''newline marker must follow a hunk line''
         | Some m \<Rightarrow> Inr (st\<lparr>hs_old_nn := hs_old_nn st \<or> m = CHR '' '' \<or> m = CHR ''-'',
                            hs_new_nn := hs_new_nn st \<or> m = CHR '' '' \<or> m = CHR ''+'',
                            hs_prev := None\<rparr>))
      else if body = [] \<or> hd body \<notin> set '' +-'' then Inl (''invalid hunk line at line '' @ nat_str number)
      else (let m = hd body; content = tl body;
                in_old = (m = CHR '' '' \<or> m = CHR ''-''); in_new = (m = CHR '' '' \<or> m = CHR ''+'')
            in if (hs_old_nn st \<and> in_old) \<or> (hs_new_nn st \<and> in_new)
               then Inl ''content follows an end-of-file newline marker''
               else Inr (st\<lparr>hs_old := (if in_old then hs_old st @ [content] else hs_old st),
                            hs_new := (if in_new then hs_new st @ [content] else hs_new st),
                            hs_sources := (if in_new then hs_sources st @
                               [if m = CHR '' '' then Some (length (hs_old st)) else None]
                               else hs_sources st),
                            hs_prev := Some m\<rparr>)))"

fun hunk_body :: "nat \<Rightarrow> string list \<Rightarrow> hunk_state \<Rightarrow> (hunk_state \<times> string list) patch_result" where
  "hunk_body number [] st = Inr (st, [])"
| "hunk_body number (body # rest) st =
     (if hunk_stop body then Inr (st, body # rest)
      else (case hunk_line number body st of
              Inl e \<Rightarrow> Inl e
            | Inr st' \<Rightarrow> hunk_body (Suc number) rest st'))"

lemma hunk_body_length: "hunk_body n ls st = Inr (st', rest) \<Longrightarrow> length rest \<le> length ls"
proof (induction n ls st rule: hunk_body.induct)
  case (2 number body rest st)
  then show ?case by (fastforce split: if_splits sum.splits)
qed simp

text \<open>One hunk: header, body, and the check of the counts. \<open>nlines\<close> is the number of lines of
  the patch, from which the line number of a message is recovered.\<close>

definition parse_hunk :: "nat \<Rightarrow> string \<Rightarrow> string list \<Rightarrow> (patch_hunk \<times> string list) patch_result" where
  "parse_hunk nlines header rest =
     (case parse_hunk_header header of
        None \<Rightarrow> Inl ''invalid hunk header''
      | Some (os, oc, ns, nc) \<Rightarrow>
          if (oc \<noteq> 0 \<and> os = 0) \<or> (nc \<noteq> 0 \<and> ns = 0)
          then Inl ''non-empty hunk ranges must start at line 1 or later''
          else (case hunk_body (nlines - length rest + 1) rest init_hunk_state of
                  Inl e \<Rightarrow> Inl e
                | Inr (st, rest') \<Rightarrow>
                    if length (hs_old st) \<noteq> oc \<or> length (hs_new st) \<noteq> nc
                    then Inl ''hunk line counts do not match its header''
                    else Inr (\<lparr>old_lines = hs_old st, new_lines = hs_new st, old_start = os,
                               new_start = ns, old_no_newline = hs_old_nn st,
                               new_no_newline = hs_new_nn st, new_sources = hs_sources st\<rparr>, rest')))"

lemma parse_hunk_length: "parse_hunk t h rest = Inr (hk, rest') \<Longrightarrow> length rest' \<le> length rest"
  by (auto simp: parse_hunk_def split: option.splits if_splits sum.splits prod.splits dest: hunk_body_length)

function parse_hunks :: "nat \<Rightarrow> string list \<Rightarrow> (patch_hunk list \<times> string list) patch_result" where
  "parse_hunks nlines [] = Inr ([], [])"
| "parse_hunks nlines (line # rest) =
     (if startswith line ''@@'' then
        (case parse_hunk nlines line rest of
           Inl e \<Rightarrow> Inl e
         | Inr (h, rest') \<Rightarrow>
             (case parse_hunks nlines rest' of
                Inl e \<Rightarrow> Inl e
              | Inr (hs, rest'') \<Rightarrow> Inr (h # hs, rest'')))
      else Inr ([], line # rest))"
  by pat_completeness auto
termination
  by (relation "measure (\<lambda>(t, ls). length ls)") (auto simp: less_Suc_eq_le dest: parse_hunk_length)

lemma parse_hunks_length: "parse_hunks t ls = Inr (hs, rest) \<Longrightarrow> length rest \<le> length ls"
proof (induction t ls arbitrary: hs rest rule: parse_hunks.induct)
  case (2 nlines line rest)
  then show ?case
    by (fastforce split: if_splits sum.splits prod.splits dest: parse_hunk_length)
qed simp

section \<open>File entries\<close>

definition entry_operation ::
  "string option \<Rightarrow> string option \<Rightarrow> patch_operation patch_result" where
  "entry_operation old new =
     (case (old, new) of
        (None, None) \<Rightarrow> Inl ''both patch paths are /dev/null''
      | (None, Some _) \<Rightarrow> Inr CREATE
      | (Some _, None) \<Rightarrow> Inr DELETE
      | (Some o', Some n) \<Rightarrow>
          if o' \<noteq> n then Inl ''renames are not supported; use delete plus create'' else Inr UPDATE)"

definition parse_entry ::
  "nat \<Rightarrow> string \<Rightarrow> string list \<Rightarrow> (patch_file \<times> string list) patch_result" where
  "parse_entry nlines header rest =
     (if rest = [] \<or> \<not> startswith (hd rest) ''+++ ''
      then Inl ''old-file header is not followed by a new-file header''
      else bind_res (normalize_path (drop 4 header)) (\<lambda>old.
           bind_res (normalize_path (drop 4 (hd rest))) (\<lambda>new.
           bind_res (entry_operation old new) (\<lambda>opn.
           bind_res (parse_hunks nlines (tl rest)) (\<lambda>res.
             if fst res = [] then Inl ''file entry contains no hunks''
             else Inr (\<lparr>old_path = old, new_path = new, operation = opn, hunks = fst res\<rparr>, snd res))))))"

lemma parse_entry_length: "parse_entry t h rest = Inr (f, rest') \<Longrightarrow> length rest' \<le> length rest"
proof -
  assume "parse_entry t h rest = Inr (f, rest')"
  then obtain hs where "parse_hunks t (tl rest) = Inr (hs, rest')"
    by (auto simp: parse_entry_def bind_res_Inr_iff split: if_splits)
  from parse_hunks_length [OF this] show ?thesis by simp
qed

function parse_files :: "nat \<Rightarrow> string list \<Rightarrow> string list \<Rightarrow> patch_file list patch_result" where
  "parse_files nlines seen [] = Inr []"
| "parse_files nlines seen (line # rest) =
     (if \<not> startswith line ''--- '' then parse_files nlines seen rest
      else (case parse_entry nlines line rest of
              Inl e \<Rightarrow> Inl e
            | Inr (f, rest') \<Rightarrow>
                if py_casefold (patch_target f) \<in> set seen
                then Inl (''duplicate patch target: '' @ patch_target f)
                else (case parse_files nlines (py_casefold (patch_target f) # seen) rest' of
                        Inl e \<Rightarrow> Inl e
                      | Inr fs \<Rightarrow> Inr (f # fs))))"
  by pat_completeness auto
termination
  by (relation "measure (\<lambda>(t, seen, ls). length ls)") (auto simp: less_Suc_eq_le dest: parse_entry_length)

definition parse_unified_diff :: "string \<Rightarrow> patch_set patch_result" where
  "parse_unified_diff patch_text =
     (if CHR 0x00 \<in> set patch_text then Inl ''patch contains a NUL byte''
      else (let ls = splitlines patch_text
            in (case parse_files (length ls) [] ls of
                  Inl e \<Rightarrow> Inl e
                | Inr files \<Rightarrow> if files = [] then Inl ''patch contained no file hunks'' else Inr files)))"

section \<open>Authorised targets are confined to the workspace\<close>

definition confined_path :: "string \<Rightarrow> bool" where
  "confined_path p \<longleftrightarrow>
     p \<noteq> [] \<and> \<not> startswith p ''/'' \<and> \<not> (2 \<le> length p \<and> p ! 1 = CHR '':'') \<and> CHR 0x5C \<notin> set p \<and>
     (\<forall>part\<in>set (split_char (CHR ''/'') p). part \<noteq> [] \<and> part \<noteq> ''.'' \<and> part \<noteq> ''..'')"

lemma normalize_path_confined: "normalize_path raw = Inr (Some p) \<Longrightarrow> confined_path p"
proof -
  assume a: "normalize_path raw = Inr (Some p)"
  let ?q = "replace_char (CHR 0x5C) (CHR ''/'') (drop_ab_prefix (fst (partition_char (CHR 0x09) (py_strip raw))))"
  have q: "p = ?q" "p \<noteq> []" "\<not> (startswith p ''/'' \<or> (2 \<le> length p \<and> p ! 1 = CHR '':''))"
    "\<not> list_ex (\<lambda>part. part \<in> set ['''', ''.'', ''..'']) (split_char (CHR ''/'') p)"
    using a unfolding normalize_path_def Let_def by (simp_all split: if_split_asm)
  have "CHR 0x5C \<notin> set p" unfolding q(1) replace_char_def by auto
  with q(2-4) show ?thesis by (auto simp: confined_path_def list_ex_iff)
qed

text \<open>What an accepted file entry looks like: a creation, an in-place update or a deletion,
  with at least one hunk and a confined target.\<close>

definition entry_ok :: "patch_file \<Rightarrow> bool" where
  "entry_ok f \<longleftrightarrow> hunks f \<noteq> [] \<and> confined_path (patch_target f) \<and>
     (case operation f of
        CREATE \<Rightarrow> old_path f = None \<and> new_path f = Some (patch_target f)
      | DELETE \<Rightarrow> old_path f = Some (patch_target f) \<and> new_path f = None
      | UPDATE \<Rightarrow> old_path f = Some (patch_target f) \<and> new_path f = Some (patch_target f))"

lemma parse_entry_ok: "parse_entry t h rest = Inr (f, rest') \<Longrightarrow> entry_ok f"
  by (auto simp: parse_entry_def bind_res_Inr_iff entry_operation_def entry_ok_def patch_target_def
      split: if_splits option.splits dest!: normalize_path_confined)

lemma parse_files_ok:
  "parse_files t seen ls = Inr fs \<Longrightarrow>
     (\<forall>f\<in>set fs. entry_ok f \<and> py_casefold (patch_target f) \<notin> set seen) \<and>
     distinct (map (\<lambda>f. py_casefold (patch_target f)) fs)"
proof (induction t seen ls arbitrary: fs rule: parse_files.induct)
  case (2 nlines seen line rest)
  then show ?case
    by (fastforce split: if_splits sum.splits prod.splits dest: parse_entry_ok)
qed simp

text \<open>C33. A patch is exposed only if it is safe as a whole: there is at least one file entry,
  every target is a non-empty relative path without drive, backslash, empty, \<open>.\<close> or \<open>..\<close>
  components, no entry renames a file, and no two targets are equal up to case.\<close>

theorem parsed_patch_confined:
  assumes "parse_unified_diff text = Inr files"
  shows "files \<noteq> [] \<and> (\<forall>f\<in>set files. entry_ok f) \<and> distinct (map py_casefold (patch_targets files))"
  using assms parse_files_ok [of "length (splitlines text)" "[]" "splitlines text" files]
  by (auto simp: parse_unified_diff_def Let_def patch_targets_def comp_def split: if_splits sum.splits)

definition example_patch :: string where
  "example_patch = join_str [CHR 0x0A]
     [''--- a/f.txt'', ''+++ b/f.txt'', ''@@ -1,2 +1,2 @@'', '' a'', ''-b'', ''+c'']"

definition example_hunk :: patch_hunk where
  "example_hunk = hd (hunks (hd (case parse_unified_diff example_patch of Inr fs \<Rightarrow> fs | Inl _ \<Rightarrow> [])))"

lemma example_patch_parses:
  "case parse_unified_diff example_patch of
     Inr fs \<Rightarrow> fs \<noteq> [] \<and> hunks (hd fs) \<noteq> [] | Inl _ \<Rightarrow> False"
  by code_simp

theorem parsed_patch_confined_witness:
  "\<exists>files. parse_unified_diff example_patch = Inr files \<and> entry_ok (hd files)"
  using example_patch_parses parsed_patch_confined [of example_patch]
  by (cases "parse_unified_diff example_patch") auto

section \<open>Hunks agree with their context\<close>

text \<open>Every new line that is context carries the index of an old line with the same text, and
  the indices increase.\<close>

definition sources_ok :: "string list \<Rightarrow> string list \<Rightarrow> nat option list \<Rightarrow> bool" where
  "sources_ok olds news srcs \<longleftrightarrow> length srcs = length news \<and>
     (\<forall>i<length srcs. \<forall>j. srcs ! i = Some j \<longrightarrow> j < length olds \<and> olds ! j = news ! i) \<and>
     sorted_wrt (<) (List.map_filter id srcs)"

definition hunk_ok :: "patch_hunk \<Rightarrow> bool" where
  "hunk_ok h \<longleftrightarrow> sources_ok (old_lines h) (new_lines h) (new_sources h)
     \<and> (old_lines h \<noteq> [] \<longrightarrow> old_start h > 0) \<and> (new_lines h \<noteq> [] \<longrightarrow> new_start h > 0)"

lemma sources_ok_old: "sources_ok os ns ss \<Longrightarrow> sources_ok (os @ [x]) ns ss"
  by (auto simp: sources_ok_def nth_append less_Suc_eq)

lemma sources_ok_new: "sources_ok os ns ss \<Longrightarrow> sources_ok os (ns @ [x]) (ss @ [None])"
  by (auto simp: sources_ok_def nth_append less_Suc_eq List.map_filter_def)

lemma sources_ok_context:
  assumes "sources_ok os ns ss"
  shows "sources_ok (os @ [x]) (ns @ [x]) (ss @ [Some (length os)])"
proof -
  have "j < length os" if "j \<in> set (List.map_filter id ss)" for j
    using that assms by (auto simp: sources_ok_def List.map_filter_def in_set_conv_nth)
  then show ?thesis using assms
    by (auto simp: sources_ok_def nth_append less_Suc_eq List.map_filter_def sorted_wrt_append)
qed

lemma hunk_line_sources:
  "hunk_line n body st = Inr st' \<Longrightarrow> sources_ok (hs_old st) (hs_new st) (hs_sources st) \<Longrightarrow>
     sources_ok (hs_old st') (hs_new st') (hs_sources st')"
  by (auto simp: hunk_line_def Let_def sources_ok_old sources_ok_new sources_ok_context
      split: if_splits option.splits)

lemma hunk_body_sources:
  "hunk_body n ls st = Inr (st', rest) \<Longrightarrow> sources_ok (hs_old st) (hs_new st) (hs_sources st) \<Longrightarrow>
     sources_ok (hs_old st') (hs_new st') (hs_sources st')"
proof (induction n ls st rule: hunk_body.induct)
  case (2 number body rest st)
  then show ?case by (auto split: if_splits sum.splits dest: hunk_line_sources)
qed simp

lemma parse_hunk_ok: "parse_hunk t h rest = Inr (hk, rest') \<Longrightarrow> hunk_ok hk"
  by (auto simp: parse_hunk_def hunk_ok_def init_hunk_state_def sources_ok_def [of "[]" "[]" "[]"]
      List.map_filter_def split: option.splits if_splits sum.splits prod.splits dest!: hunk_body_sources)

lemma parse_hunks_ok: "parse_hunks t ls = Inr (hs, rest) \<Longrightarrow> \<forall>h\<in>set hs. hunk_ok h"
proof (induction t ls arbitrary: hs rest rule: parse_hunks.induct)
  case (2 nlines line rest)
  then show ?case
    by (fastforce split: if_splits sum.splits prod.splits dest: parse_hunk_ok)
qed simp

lemma parse_files_hunks_ok: "parse_files t seen ls = Inr fs \<Longrightarrow> \<forall>f\<in>set fs. \<forall>h\<in>set (hunks f). hunk_ok h"
proof (induction t seen ls arbitrary: fs rule: parse_files.induct)
  case (2 nlines seen line rest)
  have "\<forall>h\<in>set (hunks f). hunk_ok h" if "parse_entry nlines line rest = Inr (f, r)" for f r
    using that by (auto simp: parse_entry_def bind_res_Inr_iff split: if_splits dest: parse_hunks_ok)
  with 2 show ?case by (fastforce split: if_splits sum.splits prod.splits)
qed simp

text \<open>In every hunk of an accepted patch each context line of the new text names an old
  line with the same content, in increasing order, and a non-empty side starts at line 1 or
  later.\<close>

theorem parsed_hunks_consistent:
  assumes "parse_unified_diff text = Inr files" and "f \<in> set files" and "h \<in> set (hunks f)"
  shows "hunk_ok h"
  using assms parse_files_hunks_ok [of "length (splitlines text)" "[]" "splitlines text" files]
  by (auto simp: parse_unified_diff_def Let_def split: if_splits sum.splits)

theorem parsed_hunks_consistent_witness:
  "hunk_ok example_hunk"
  using example_patch_parses
    parsed_hunks_consistent [of example_patch _ "hd (case parse_unified_diff example_patch of Inr fs \<Rightarrow> fs | Inl _ \<Rightarrow> [])"]
  by (cases "parse_unified_diff example_patch") (auto simp: example_hunk_def)

end
