(* ===== verification/Permission_Safety.thy ===== *)
theory Permission_Safety
  imports Permission_Rules Unified_Diff
begin

text \<open>
  \<^verbatim>\<open>agent_core/permission_safety.py\<close> and the policy file reader of
  \<^verbatim>\<open>agent_core/managed_policy.py\<close>: the central checks on paths and network targets that no
  tool and no mode can override. The platform is POSIX. What the operating system and the
  version-dependent library modules answer is the parameter \<open>platform\<close>: URL parsing, home
  directories, symbolic link resolution and the classification of IP literals. The theorems
  hold for every such platform.
\<close>

section \<open>The platform and the evaluation context\<close>

record ip_info =
  ip_text :: string
  is_loopback :: bool
  is_private :: bool
  is_link_local :: bool
  is_reserved :: bool
  is_multicast :: bool
  is_unspecified :: bool

record platform =
  pf_urlparse :: url_parser
  pf_expanduser :: "string \<Rightarrow> string py_result"
  pf_resolve :: "string \<Rightarrow> string py_result"
  pf_ip_address :: "string \<Rightarrow> ip_info option"

record permission_context =
  ctx_mode :: permission_mode
  ctx_workspace :: string
  ctx_interactive :: bool
  ctx_sandbox :: sandbox_state
  ctx_rules :: "rule_set option"
  ctx_session :: session_view
  ctx_is_subagent :: bool
  ctx_parent_mode :: "permission_mode option"
  ctx_parent_agent_id :: "string option"
  ctx_tool_source :: tool_call_source
  ctx_web_policy :: web_domain_policy
  ctx_managed :: managed_snapshot
  ctx_plan :: plan_state_snapshot

section \<open>Sensitive paths\<close>

definition path_parts :: "string \<Rightarrow> string list" where
  "path_parts p =
     (if startswith p ''/'' then [if startswith p ''//'' \<and> \<not> startswith p ''///'' then ''//'' else ''/''] else [])
     @ filter (\<lambda>c. c \<noteq> '''' \<and> c \<noteq> ''.'') (split_char (CHR ''/'') p)"

definition folded_parts :: "string \<Rightarrow> string list" where
  "folded_parts p = map py_casefold (path_parts (replace_char (CHR 0x5C) (CHR ''/'') p))"

definition secret_dirs :: "string list" where
  "secret_dirs = [''.ssh'', ''.aws'', ''.gnupg'', ''.kube'']"

definition secret_patterns :: "string list" where
  "secret_patterns = [''.env'', ''.env.*'', ''*.pem'', ''*.key'', ''*.p12'', ''*.pfx'', ''id_rsa*'',
     ''id_ed25519*'', ''credentials'', ''credentials.json'']"

definition protected_dirs :: "string list" where
  "protected_dirs = [''.git'', ''.polaris'', ''.claude'']"

definition protected_files :: "string list" where
  "protected_files = [''agent.toml'', ''settings.json'', ''settings.local.json'']"

definition is_secret_path :: "string \<Rightarrow> bool" where
  "is_secret_path p =
     (let parts = folded_parts p
      in list_ex (\<lambda>c. c \<in> set secret_dirs) parts \<or>
         (let basename = (if parts \<noteq> [] then last parts else '''')
          in list_ex (\<lambda>pattern. star_match pattern basename) secret_patterns))"

definition is_protected_path :: "string \<Rightarrow> bool" where
  "is_protected_path p =
     (let parts = folded_parts p
      in list_ex (\<lambda>c. c \<in> set protected_dirs) parts \<or>
         (parts \<noteq> [] \<and> last parts \<in> set protected_files))"

definition is_persistence_path :: "string \<Rightarrow> bool" where
  "is_persistence_path p \<longleftrightarrow> ''.git'' \<in> set (folded_parts p) \<and> ''hooks'' \<in> set (folded_parts p)"

section \<open>Path targets of a call\<close>

datatype path_operation = Op_read | Op_write

record path_target =
  pt_raw :: string
  pt_operation :: path_operation

definition read_path_tools :: "(string \<times> string \<times> string option) list" where
  "read_path_tools =
     [(''code_search'', ''path'', Some ''.''), (''code_relations'', ''path'', Some ''.''),
      (''code_context'', ''path'', None), (''list_dir'', ''path'', Some ''.''),
      (''search_text'', ''path'', Some ''.''), (''glob'', ''path'', Some ''.''),
      (''read_text_file'', ''path'', None), (''git_diff'', ''path'', Some ''.'')]"

definition write_path_tools :: "(string \<times> string) list" where
  "write_path_tools =
     [(''write_text_file'', ''path''), (''edit_file'', ''path''), (''multi_edit'', ''path'')]"

definition value_targets :: "pyval \<Rightarrow> path_operation \<Rightarrow> path_target list" where
  "value_targets v opn = (if v = PNone then [] else [\<lparr>pt_raw = py_str v, pt_operation = opn\<rparr>])"

definition extract_path_targets :: "string \<Rightarrow> pydict \<Rightarrow> path_target list" where
  "extract_path_targets tool_name args =
     (case map_of read_path_tools tool_name of
        Some (key, dflt) \<Rightarrow>
          value_targets (dict_get args key (case dflt of None \<Rightarrow> PNone | Some d \<Rightarrow> PStr d)) Op_read
      | None \<Rightarrow>
     (case map_of write_path_tools tool_name of
        Some key \<Rightarrow> value_targets (dict_get args key PNone) Op_write
      | None \<Rightarrow>
          if tool_name = ''apply_patch'' then
            (case parse_unified_diff (py_str (dict_get args ''patch'' (PStr ''''))) of
               Inl _ \<Rightarrow> []
             | Inr files \<Rightarrow> map (\<lambda>t. \<lparr>pt_raw = t, pt_operation = Op_write\<rparr>) (patch_targets files))
          else if tool_name = ''run_tests'' \<and> py_truthy (dict_get args ''target'' PNone) then
            (let target = hd (split_pair (CHR '':'') (CHR '':'') (py_str (dict_get args ''target'' PNone)))
             in if target \<noteq> [] \<and> \<not> startswith target ''-''
                then [\<lparr>pt_raw = target, pt_operation = Op_read\<rparr>] else [])
          else []))"

section \<open>Confinement to the workspace\<close>

definition path_components :: "string \<Rightarrow> string list" where
  "path_components p = filter (\<lambda>c. c \<noteq> '''' \<and> c \<noteq> ''.'') (split_char (CHR ''/'') p)"

fun common_prefix :: "'a list \<Rightarrow> 'a list \<Rightarrow> 'a list" where
  "common_prefix (x # xs) (y # ys) = (if x = y then x # common_prefix xs ys else [])"
| "common_prefix _ _ = []"

definition commonpath :: "string \<Rightarrow> string \<Rightarrow> string py_result" where
  "commonpath a b =
     (if startswith a ''/'' \<and> startswith b ''/''
      then Inr (''/'' @ join_str ''/'' (common_prefix (path_components a) (path_components b)))
      else Inl (ValueError ''mixed paths''))"

definition resolve_workspace_target :: "platform \<Rightarrow> string \<Rightarrow> string \<Rightarrow> string py_result" where
  "resolve_workspace_target pf workspace raw =
     (if CHR 0x00 \<in> set raw then Inl (ValueError ''path contains a NUL byte'')
      else bind_res (pf_expanduser pf raw) (\<lambda>candidate.
           bind_res (pf_resolve pf (if startswith candidate ''/'' then candidate
                                    else workspace @ ''/'' @ candidate)) (\<lambda>resolved.
           bind_res (pf_resolve pf workspace) (\<lambda>root.
             (case commonpath root resolved of
                Inl _ \<Rightarrow> Inl (ValueError (''path escapes workspace: '' @ raw))
              | Inr common \<Rightarrow>
                  if common \<noteq> root then Inl (ValueError (''path escapes workspace: '' @ raw))
                  else Inr resolved)))))"

fun error_text :: "py_error \<Rightarrow> string" where
  "error_text (ValueError m) = m"
| "error_text (KeyError m) = m"
| "error_text (RuntimeError m) = m"
| "error_text (OSError m) = m"
| "error_text (PermissionError m) = m"
| "error_text (OverflowError m) = m"
| "error_text (DatabaseError m) = m"

text \<open>\<open>except (OSError, ValueError)\<close>; \<open>PermissionError\<close> is an \<open>OSError\<close>.\<close>

fun os_or_value_error :: "py_error \<Rightarrow> bool" where
  "os_or_value_error (ValueError _) = True"
| "os_or_value_error (OSError _) = True"
| "os_or_value_error (PermissionError _) = True"
| "os_or_value_error _ = False"

definition path_meta :: "path_target \<Rightarrow> pydict option" where
  "path_meta t = Some [(''path'', PStr (pt_raw t)),
     (''operation'', PStr (if pt_operation t = Op_read then ''read'' else ''write''))]"

text \<open>The body of the loop over targets: a decision, or nothing and on to the next target.\<close>

definition inspect_target ::
  "platform \<Rightarrow> permission_context \<Rightarrow> path_target \<Rightarrow> permission_result option py_result" where
  "inspect_target pf ctx t =
     (let raw = pt_raw t; raw_secret = is_secret_path raw
      in case resolve_workspace_target pf (ctx_workspace ctx) raw of
           Inl e \<Rightarrow>
             if os_or_value_error e
             then Inr (Some (result_deny
                    (if raw_secret then ''secret-bearing path is not a permitted workspace target: '' @ raw
                     else error_text e)
                    DS_CENTRAL_SAFETY None (path_meta t) None))
             else Inl e
         | Inr resolved \<Rightarrow>
             (let secret = raw_secret \<or> is_secret_path resolved;
                  protected = is_protected_path raw \<or> is_protected_path resolved
              in if pt_operation t = Op_read \<and> secret
                 then Inr (Some (result_ask ''accessing a secret-bearing path requires explicit approval''
                        DS_CENTRAL_SAFETY None (path_meta t) None False True []))
                 else if pt_operation t = Op_write \<and> (is_persistence_path raw \<or> is_persistence_path resolved)
                 then Inr (Some (result_deny ''writing a persistence path is prohibited''
                        DS_CENTRAL_SAFETY None (path_meta t) None))
                 else if pt_operation t = Op_write \<and> (secret \<or> protected)
                 then Inr (Some (result_ask
                        ''writing a protected path or secret-bearing file requires explicit approval''
                        DS_CENTRAL_SAFETY None (path_meta t) None False True []))
                 else Inr None))"

text \<open>Run checks in order until one decides.\<close>

fun first_decision :: "('a option py_result) list \<Rightarrow> 'a option py_result" where
  "first_decision [] = Inr None"
| "first_decision (c # cs) =
     bind_res c (\<lambda>x. case x of Some r \<Rightarrow> Inr (Some r) | None \<Rightarrow> first_decision cs)"

definition inspect_paths ::
  "platform \<Rightarrow> string \<Rightarrow> pydict \<Rightarrow> permission_context \<Rightarrow> permission_result option py_result" where
  "inspect_paths pf tool_name args ctx =
     (let targets = extract_path_targets tool_name args
      in if tool_name = ''apply_patch'' \<and> py_strip (py_str (dict_get args ''patch'' (PStr ''''))) \<noteq> []
            \<and> targets = []
         then Inr (Some (result_deny ''patch targets could not be determined safely''
                DS_CENTRAL_SAFETY None None None))
         else first_decision (map (inspect_target pf ctx) targets))"

section \<open>Ordinary reads and writes\<close>

definition context_allow_match ::
  "platform \<Rightarrow> permission_context \<Rightarrow> string \<Rightarrow> pydict \<Rightarrow> permission_rule option py_result" where
  "context_allow_match pf ctx tool_name args =
     (case ctx_rules ctx of None \<Rightarrow> Inr None
      | Some rs \<Rightarrow> allow_match (pf_urlparse pf) rs tool_name args None)"

definition session_rule :: "string \<Rightarrow> permission_rule" where
  "session_rule tool_name =
     \<lparr>rule_source = RS_SESSION, rule_behavior = PB_ALLOW, rule_tool_name = tool_name,
      rule_content = None, rule_raw = tool_name\<rparr>"

definition ordinary_read_permission ::
  "platform \<Rightarrow> string \<Rightarrow> pydict \<Rightarrow> permission_context \<Rightarrow> permission_result py_result" where
  "ordinary_read_permission pf tool_name args ctx =
     bind_res (context_allow_match pf ctx tool_name args) (\<lambda>m.
       Inr (case m of
              Some r \<Rightarrow> result_allow ''read allowed by rule'' DS_RULE None (Some r)
            | None \<Rightarrow> result_allow ''ordinary workspace read'' DS_TOOL None None))"

definition ordinary_write_permission ::
  "platform \<Rightarrow> string \<Rightarrow> pydict \<Rightarrow> permission_context \<Rightarrow> permission_result py_result" where
  "ordinary_write_permission pf tool_name args ctx =
     bind_res (context_allow_match pf ctx tool_name args) (\<lambda>m.
       Inr (case m of
              Some r \<Rightarrow> result_allow ''edit allowed by rule'' DS_RULE None (Some r)
            | None \<Rightarrow>
                if tool_name \<in> set (view_tool_names (ctx_session ctx))
                then result_allow ''edit allowed for this session'' DS_RULE None (Some (session_rule tool_name))
                else if ctx_mode ctx = PM_ACCEPTEDITS \<or> ctx_mode ctx = PM_AUTO
                then result_allow ''mode allows an ordinary workspace file edit'' DS_TOOL None None
                else if ctx_mode ctx = PM_BYPASS
                then result_passthrough ''ordinary edit may be resolved by bypass mode'' None
                else if ctx_mode ctx = PM_PLAN
                then result_deny ''plan mode permits only the dedicated plan artifact''
                       DS_CENTRAL_SAFETY None None None
                else result_ask ''ordinary workspace file edit requires confirmation''
                       DS_TOOL None None None False False []))"

section \<open>Network targets\<close>

definition unsafe_ip :: "ip_info \<Rightarrow> bool" where
  "unsafe_ip ip \<longleftrightarrow> is_loopback ip \<or> is_private ip \<or> is_link_local ip \<or> is_reserved ip
     \<or> is_multicast ip \<or> is_unspecified ip"

definition check_web_endpoint ::
  "platform \<Rightarrow> string \<Rightarrow> permission_context \<Rightarrow> permission_result option py_result" where
  "check_web_endpoint pf url ctx =
     bind_res (pf_urlparse pf url) (\<lambda>parsed.
       if fst parsed \<noteq> [] \<and> fst parsed \<noteq> ''http'' \<and> fst parsed \<noteq> ''https''
       then Inr (Some (result_deny ''only http/https network targets are permitted''
              DS_CENTRAL_SAFETY None None None))
       else (let named = (case snd parsed of Some h \<Rightarrow> (if h = [] then url else h) | None \<Rightarrow> url);
                 host = rstrip_chars (\<lambda>c. c = CHR ''.'') (py_casefold (py_strip named))
             in if host = []
                then Inr (Some (result_deny ''network target has no host'' DS_CENTRAL_SAFETY None None None))
                else bind_res (any_res (match_domain (pf_urlparse pf) host) (blocked_domains (ctx_web_policy ctx)))
                  (\<lambda>blocked.
                   if blocked
                   then Inr (Some (result_deny (''domain '' @ repr_str host @ '' is blocked by policy'')
                          DS_CENTRAL_SAFETY None None None))
                   else bind_res (if web_unattended (ctx_web_policy ctx)
                          then any_res (match_domain (pf_urlparse pf) host) (allowed_domains (ctx_web_policy ctx))
                          else Inr True) (\<lambda>allowed.
                     if \<not> allowed
                     then Inr (Some (result_deny
                            (''unattended mode requires an allowlisted domain: '' @ repr_str host)
                            DS_CENTRAL_SAFETY None None None))
                     else (case pf_ip_address pf (strip_chars (\<lambda>c. c = CHR ''['' \<or> c = CHR '']'') host) of
                             None \<Rightarrow> Inr None
                           | Some ip \<Rightarrow>
                               if unsafe_ip ip
                               then Inr (Some (result_deny
                                      (''refusing internal/private network address '' @ ip_text ip)
                                      DS_CENTRAL_SAFETY None None None))
                               else Inr None)))))"

section \<open>Managed policy files\<close>

record managed_definition =
  md_allow :: "string list"
  md_deny :: "string list"
  md_ask :: "string list"
  md_forbidden_modes :: "permission_mode list"
  md_require_sandbox :: bool
  md_managed_only :: bool
  md_disable_persistent :: bool
  md_digest :: string

definition default_managed_definition :: managed_definition where
  "default_managed_definition =
     \<lparr>md_allow = [], md_deny = [], md_ask = [], md_forbidden_modes = [], md_require_sandbox = False,
      md_managed_only = False, md_disable_persistent = False, md_digest = []\<rparr>"

definition managed_rules :: "managed_definition \<Rightarrow> rule_set" where
  "managed_rules d = from_lists (md_allow d) (md_deny d) (md_ask d) RS_MANAGED"

definition managed_snapshot_of :: "managed_definition \<Rightarrow> managed_snapshot" where
  "managed_snapshot_of d =
     \<lparr>forbidden_modes = md_forbidden_modes d, require_sandbox_for_unattended = md_require_sandbox d,
      allow_managed_rules_only = md_managed_only d, disable_persistent_grants = md_disable_persistent d,
      policy_digest = md_digest d\<rparr>"

definition policy_strings :: "pydict \<Rightarrow> string \<Rightarrow> string list py_result" where
  "policy_strings table key =
     (case dict_get table key (PList []) of
        PList vs \<Rightarrow>
          if list_ex (\<lambda>v. case v of PStr _ \<Rightarrow> False | _ \<Rightarrow> True) vs
          then Inl (ValueError (''managed.permissions.'' @ key @ '' must be an array of strings''))
          else (let items = filter (\<lambda>s. s \<noteq> []) (map (\<lambda>v. py_strip (py_str v)) vs)
                in if key \<in> set [''allow'', ''deny'', ''ask'']
                   then (if list_ex (\<lambda>i. contains_str i ''run_command'') items
                         then Inl (ValueError (''managed.permissions.'' @ key @ '' contains legacy run_command rules''))
                         else if list_ex (\<lambda>i. parse_rule i RS_PROJECT = None) items
                         then Inl (ValueError (''managed.permissions.'' @ key @ '' contains invalid rule''))
                         else Inr items)
                   else Inr items)
      | _ \<Rightarrow> Inl (ValueError (''managed.permissions.'' @ key @ '' must be an array of strings'')))"

definition policy_boolean :: "pydict \<Rightarrow> string \<Rightarrow> bool py_result" where
  "policy_boolean table key =
     (case dict_get table key (PBool False) of
        PBool b \<Rightarrow> Inr b
      | _ \<Rightarrow> Inl (ValueError (''managed.permissions.'' @ key @ '' must be boolean'')))"

definition policy_mode :: "string \<Rightarrow> permission_mode py_result" where
  "policy_mode raw =
     (case parse_permission_mode raw of
        Inr m \<Rightarrow> Inr m
      | Inl _ \<Rightarrow> Inl (ValueError (''unknown forbidden permission mode: '' @ raw)))"

text \<open>\<open>FileManagedPolicyProvider.load\<close> from what the file system and the TOML reader gave:
  no file, an unreadable or malformed one, or a table and the digest of the bytes.\<close>

datatype policy_file = Policy_missing | Policy_invalid string | Policy_table pydict string

definition load_managed_policy :: "bool \<Rightarrow> policy_file \<Rightarrow> managed_definition py_result" where
  "load_managed_policy explicit f =
     (case f of
        Policy_missing \<Rightarrow>
          if explicit then Inl (ValueError ''managed policy file does not exist'')
          else Inr default_managed_definition
      | Policy_invalid m \<Rightarrow> Inl (ValueError (''invalid managed policy: '' @ m))
      | Policy_table raw digest \<Rightarrow>
          (let found = (case dict_get raw ''managed'' (PDict []) of
                   PDict t \<Rightarrow> dict_get t ''permissions'' (PDict []) | _ \<Rightarrow> PNone)
           in case found of
                PDict table \<Rightarrow>
                  bind_res (policy_strings table ''forbidden_modes'') (\<lambda>mode_names.
                  bind_res (map_res policy_mode mode_names) (\<lambda>modes.
                  bind_res (policy_strings table ''allow'') (\<lambda>allow.
                  bind_res (policy_strings table ''deny'') (\<lambda>deny.
                  bind_res (policy_strings table ''ask'') (\<lambda>ask.
                  bind_res (policy_boolean table ''require_sandbox_for_unattended'') (\<lambda>sandboxed.
                  bind_res (policy_boolean table ''allow_managed_rules_only'') (\<lambda>only.
                  bind_res (policy_boolean table ''disable_persistent_grants'') (\<lambda>nopersist.
                    Inr \<lparr>md_allow = allow, md_deny = deny, md_ask = ask, md_forbidden_modes = modes,
                         md_require_sandbox = sandboxed, md_managed_only = only,
                         md_disable_persistent = nopersist, md_digest = digest\<rparr>))))))))
              | _ \<Rightarrow> Inl (ValueError ''[managed.permissions] must be a TOML table'')))"

section \<open>Checks that only restrict\<close>

lemma first_decision_None_iff:
  "first_decision cs = Inr None \<longleftrightarrow> (\<forall>c\<in>set cs. c = Inr None)"
  by (induction cs) (auto simp: bind_res_Inr_iff split: option.splits)

lemma first_decision_SomeD:
  assumes "first_decision cs = Inr (Some r)"
  shows "\<exists>c\<in>set cs. c = Inr (Some r)"
  using assms
proof (induction cs)
  case (Cons c cs)
  show ?case
  proof (cases "c = Inr None")
    case True
    with Cons show ?thesis by simp
  next
    case False
    with Cons.prems have "c = Inr (Some r)"
      by (cases c) (simp_all split: option.split_asm)
    then show ?thesis by simp
  qed
qed simp

lemma first_decision_upto:
  assumes "first_decision (cs @ ds) = Inr p" and "c \<in> set cs" and "c \<noteq> Inr None"
  shows "\<exists>r. p = Some r \<and> (\<exists>d\<in>set cs. d = Inr (Some r))"
  using assms
proof (induction cs)
  case (Cons b cs)
  show ?case
  proof (cases "b = Inr None")
    case True
    with Cons show ?thesis by auto
  next
    case False
    with Cons.prems have "\<exists>r. p = Some r \<and> b = Inr (Some r)"
      by (cases b) (auto split: option.split_asm)
    then show ?thesis by auto
  qed
qed simp

text \<open>The contract of every central check: what it decides is a denial, or a question that
  neither bypass mode nor the classifier can answer.\<close>

definition restrictive :: "permission_result \<Rightarrow> bool" where
  "restrictive r \<longleftrightarrow> (behavior r = PB_DENY \<or>
     (behavior r = PB_ASK \<and> bypass_immune r \<and> \<not> classifier_approvable r)) \<and>
     dict_get (case metadata r of None \<Rightarrow> [] | Some d \<Rightarrow> d) ''automated_evaluation'' PNone = PNone"

lemma restrictive_result [simp]:
  "restrictive (result_deny m src u None rule)"
  "restrictive (result_ask m src u None rule False True sg)"
  "restrictive (result_deny m src u (path_meta t) rule)"
  "restrictive (result_ask m src u (path_meta t) rule False True sg)"
  by (simp_all add: restrictive_def result_defs path_meta_def dict_get_def)

locale central_check =
  fixes check :: "'i \<Rightarrow> permission_result option py_result"
  assumes check_restricts: "check i = Inr (Some r) \<Longrightarrow> restrictive r"
begin

lemma first_restricts: "first_decision (map check is) = Inr (Some r) \<Longrightarrow> restrictive r"
  using check_restricts by (force dest!: first_decision_SomeD)

lemma check_behavior: "check i = Inr (Some r) \<Longrightarrow> behavior r = PB_DENY \<or> behavior r = PB_ASK"
  using check_restricts by (auto simp: restrictive_def)

end

lemma inspect_target_restricts: "inspect_target pf ctx t = Inr (Some r) \<Longrightarrow> restrictive r"
  by (auto simp: inspect_target_def Let_def split: sum.splits if_splits)

interpretation path_check: central_check "inspect_target pf ctx" for pf ctx
  by unfold_locales (rule inspect_target_restricts)

lemma inspect_paths_restricts: "inspect_paths pf tool args ctx = Inr (Some r) \<Longrightarrow> restrictive r"
  by (auto simp: inspect_paths_def Let_def split: if_splits
      dest!: path_check.first_restricts)

lemma check_web_restricts: "check_web_endpoint pf url ctx = Inr (Some r) \<Longrightarrow> restrictive r"
  by (auto simp: check_web_endpoint_def bind_res_Inr_iff Let_def split: if_splits option.splits)

interpretation web_check: central_check "\<lambda>url. check_web_endpoint pf url ctx" for pf ctx
  by unfold_locales (rule check_web_restricts)

section \<open>Confinement of resolved paths\<close>

lemma common_prefix_prefix: "\<exists>rest. ys = common_prefix xs ys @ rest"
  by (induction xs ys rule: common_prefix.induct) auto

lemma common_prefix_set: "set (common_prefix xs ys) \<subseteq> set xs"
  by (induction xs ys rule: common_prefix.induct) auto

lemma path_components_root:
  assumes "\<forall>p\<in>set cs. CHR ''/'' \<notin> set p \<and> p \<noteq> [] \<and> p \<noteq> ''.''"
  shows "path_components (''/'' @ join_str ''/'' cs) = cs"
proof (cases "cs = []")
  case False
  have "split_char (CHR ''/'') (join_str ''/'' cs) = cs"
    by (rule split_join_char) (use False assms in auto)
  moreover have "filter (\<lambda>c. c \<noteq> [] \<and> c \<noteq> ''.'') cs = cs"
    using assms by (auto simp: filter_id_conv)
  ultimately show ?thesis by (simp add: path_components_def)
qed (simp add: path_components_def)

definition inside :: "string \<Rightarrow> string \<Rightarrow> bool" where
  "inside base p \<longleftrightarrow> (\<exists>rest. path_components p = path_components base @ rest)"

lemma commonpath_inside:
  assumes "commonpath base p = Inr base"
  shows "inside base p"
proof -
  let ?cp = "common_prefix (path_components base) (path_components p)"
  have base: "base = ''/'' @ join_str ''/'' ?cp"
    using assms by (auto simp: commonpath_def split: if_splits)
  have "\<forall>q\<in>set ?cp. CHR ''/'' \<notin> set q \<and> q \<noteq> [] \<and> q \<noteq> ''.''"
    using common_prefix_set [of "path_components base" "path_components p"]
    by (auto simp: path_components_def dest: split_char_pieces)
  then have "path_components base = ?cp"
    using path_components_root base by metis
  then show ?thesis
    using common_prefix_prefix [of "path_components p" "path_components base"]
    unfolding inside_def by metis
qed

lemma confine_InrD:
  "(case commonpath base p of Inl _ \<Rightarrow> Inl e
    | Inr common \<Rightarrow> if common \<noteq> base then Inl e else Inr p) = Inr q \<Longrightarrow> inside base q"
  by (auto intro: commonpath_inside split: sum.split_asm if_split_asm)

lemma resolve_workspace_target_inside:
  assumes "resolve_workspace_target pf ws raw = Inr resolved"
  obtains base where "pf_resolve pf ws = Inr base" "inside base resolved"
  using assms unfolding resolve_workspace_target_def
  by (simp add: bind_res_Inr_iff split del: if_split split: if_split_asm) (blast dest: confine_InrD)

text \<open>What a path target must satisfy for the central checks to stay silent.\<close>

definition target_clear :: "platform \<Rightarrow> permission_context \<Rightarrow> path_target \<Rightarrow> bool" where
  "target_clear pf ctx t \<longleftrightarrow>
     (\<exists>resolved base. resolve_workspace_target pf (ctx_workspace ctx) (pt_raw t) = Inr resolved \<and>
        pf_resolve pf (ctx_workspace ctx) = Inr base \<and> inside base resolved \<and>
        \<not> is_secret_path (pt_raw t) \<and> \<not> is_secret_path resolved \<and>
        (pt_operation t = Op_write \<longrightarrow>
           \<not> is_protected_path (pt_raw t) \<and> \<not> is_protected_path resolved \<and>
           \<not> is_persistence_path (pt_raw t) \<and> \<not> is_persistence_path resolved))"

lemma inspect_target_None:
  assumes "inspect_target pf ctx t = Inr None"
  shows "target_clear pf ctx t"
proof (cases "resolve_workspace_target pf (ctx_workspace ctx) (pt_raw t)")
  case (Inl e)
  with assms show ?thesis by (simp add: inspect_target_def Let_def split: if_splits)
next
  case (Inr resolved)
  obtain base where "pf_resolve pf (ctx_workspace ctx) = Inr base" "inside base resolved"
    using resolve_workspace_target_inside [OF Inr] .
  with assms Inr show ?thesis
    by (cases "pt_operation t") (simp_all add: inspect_target_def target_clear_def Let_def split: if_splits)
qed

lemma inspect_paths_None:
  "inspect_paths pf tool args ctx = Inr None \<Longrightarrow> t \<in> set (extract_path_targets tool args) \<Longrightarrow>
   target_clear pf ctx t"
  by (auto simp: inspect_paths_def Let_def first_decision_None_iff split: if_splits
      dest: inspect_target_None)

section \<open>What a permitted network target satisfies\<close>

text \<open>The host the engine looks at: the parsed host name, or the raw text without one.\<close>

definition web_host :: "string \<Rightarrow> string \<times> string option \<Rightarrow> string" where
  "web_host url parsed =
     rstrip_chars (\<lambda>c. c = CHR ''.'')
       (py_casefold (py_strip (case snd parsed of Some h \<Rightarrow> (if h = [] then url else h) | None \<Rightarrow> url)))"

definition endpoint_clear :: "platform \<Rightarrow> permission_context \<Rightarrow> string \<Rightarrow> bool" where
  "endpoint_clear pf ctx url \<longleftrightarrow>
     (\<exists>parsed. pf_urlparse pf url = Inr parsed \<and> fst parsed \<in> {[], ''http'', ''https''} \<and>
        web_host url parsed \<noteq> [] \<and>
        (\<forall>d\<in>set (blocked_domains (ctx_web_policy ctx)).
           match_domain (pf_urlparse pf) (web_host url parsed) d = Inr False) \<and>
        (web_unattended (ctx_web_policy ctx) \<longrightarrow>
           (\<exists>d\<in>set (allowed_domains (ctx_web_policy ctx)).
              match_domain (pf_urlparse pf) (web_host url parsed) d = Inr True)) \<and>
        (\<forall>ip. pf_ip_address pf (strip_chars (\<lambda>c. c = CHR ''['' \<or> c = CHR '']'') (web_host url parsed)) = Some ip
           \<longrightarrow> \<not> unsafe_ip ip))"

lemma check_web_endpoint_None:
  assumes "check_web_endpoint pf url ctx = Inr None"
  shows "endpoint_clear pf ctx url"
proof -
  obtain parsed where p: "pf_urlparse pf url = Inr parsed"
    using assms by (cases "pf_urlparse pf url") (auto simp: check_web_endpoint_def)
  let ?host = "web_host url parsed"
  have "fst parsed \<in> {[], ''http'', ''https''}" and "?host \<noteq> []"
    using assms p by (auto simp: check_web_endpoint_def web_host_def Let_def split: if_split_asm)
  then have rest: "any_res (match_domain (pf_urlparse pf) ?host) (blocked_domains (ctx_web_policy ctx)) = Inr False"
    "web_unattended (ctx_web_policy ctx) \<Longrightarrow>
     any_res (match_domain (pf_urlparse pf) ?host) (allowed_domains (ctx_web_policy ctx)) = Inr True"
    "\<And>ip. pf_ip_address pf (strip_chars (\<lambda>c. c = CHR ''['' \<or> c = CHR '']'') ?host) = Some ip \<Longrightarrow> \<not> unsafe_ip ip"
    using assms p
    by (auto simp: check_web_endpoint_def web_host_def Let_def bind_res_Inr_iff
        split: if_split_asm option.split_asm)
  show ?thesis
    unfolding endpoint_clear_def
    using p \<open>fst parsed \<in> _\<close> \<open>?host \<noteq> []\<close> rest
    by (intro exI [of _ parsed]) (auto simp: any_res_False_iff dest: any_res_TrueD)
qed

end
