(* ===== verification/Permission_Policy.thy ===== *)
theory Permission_Policy
  imports Permission_Safety
begin

text \<open>
  \<^verbatim>\<open>agent_core/permissions.py\<close>: the ordered permission engine. The object state of
  \<open>PermissionPolicy\<close> is a record; methods that mutate it return the new record. A tool is a
  record of the attributes the engine reads, with its own \<open>check_permissions\<close> as a function
  that may raise. JSON schema validation is a third-party library and a parameter. The cache
  of compiled validators has no influence on results and is left out.
\<close>

section \<open>Tools, sandbox and policy state\<close>

record tool =
  tool_name :: string
  tool_risk :: tool_risk
  tool_accept_edits_safe :: bool
  tool_requires_user_interaction :: bool
  tool_workspace :: "string option"
  tool_allowed_domains :: "string list"
  tool_blocked_domains :: "string list"
  tool_unattended :: bool
  check_permissions :: "pydict \<Rightarrow> permission_context \<Rightarrow> permission_result py_result"

record sandbox_manager =
  sm_is_enabled :: bool
  sm_backend_name :: string
  sm_should_sandbox :: "string option \<Rightarrow> bool"
  sm_auto_allow_command_if_sandboxed :: bool

record policy =
  pol_mode :: permission_mode
  pol_interactive :: bool
  pol_base_rules :: rule_set
  pol_session_rules :: rule_set
  pol_rules :: rule_set
  pol_sandbox :: "sandbox_manager option"
  pol_workspace :: "string option"
  pol_is_subagent :: bool
  pol_parent_mode :: "permission_mode option"
  pol_parent_agent_id :: "string option"
  pol_tool_source :: tool_call_source
  pol_managed_override :: "managed_snapshot option"
  pol_managed :: managed_snapshot
  pol_reload_error :: "string option"
  pol_plan :: plan_state_snapshot
  pol_allow_unsandboxed :: bool
  pol_session_allow :: "string list"
  pol_session_allow_commands :: "string list"
  pol_last_updates :: "permission_update list"

text \<open>What the engine asks of its surroundings during one evaluation: the platform, the schema
  validator (the location and message of the first violation), the current directory and the
  outcome of loading the managed policy.\<close>

record environment =
  env_platform :: platform
  env_validate :: "string \<Rightarrow> pydict \<Rightarrow> (string \<times> string) option"
  env_cwd :: string
  env_load_managed :: "managed_definition py_result"

abbreviation env_urlparse :: "environment \<Rightarrow> url_parser" where
  "env_urlparse env \<equiv> pf_urlparse (env_platform env)"

definition init_policy ::
  "managed_definition \<Rightarrow> permission_mode \<Rightarrow> bool \<Rightarrow> rule_set \<Rightarrow> sandbox_manager option \<Rightarrow>
   string option \<Rightarrow> bool \<Rightarrow> permission_mode option \<Rightarrow> managed_snapshot option \<Rightarrow> bool option \<Rightarrow>
   string option \<Rightarrow> policy" where
  "init_policy d mode interactive rules sandbox workspace is_sub parent managed unsandboxed opt_out =
     \<lparr>pol_mode = mode, pol_interactive = interactive, pol_base_rules = rules,
      pol_session_rules = empty_rules, pol_rules = merge_rules (managed_rules d) rules,
      pol_sandbox = sandbox, pol_workspace = workspace, pol_is_subagent = is_sub,
      pol_parent_mode = parent, pol_parent_agent_id = None, pol_tool_source = TS_MODEL,
      pol_managed_override = managed,
      pol_managed = (case managed of Some m \<Rightarrow> m | None \<Rightarrow> managed_snapshot_of d),
      pol_reload_error = None,
      pol_plan = \<lparr>plan_active = False, plan_previous_mode = None, plan_artifact_path = None\<rparr>,
      pol_allow_unsandboxed =
        (case unsandboxed of Some b \<Rightarrow> b
         | None \<Rightarrow> (case opt_out of None \<Rightarrow> False
              | Some v \<Rightarrow> py_casefold (py_strip v) \<in> set [''1'', ''true'', ''yes'', ''on''])),
      pol_session_allow = [], pol_session_allow_commands = [], pol_last_updates = []\<rparr>"

section \<open>Managed policy reload and contexts\<close>

fun error_name :: "py_error \<Rightarrow> string" where
  "error_name (ValueError _) = ''ValueError''"
| "error_name (KeyError _) = ''KeyError''"
| "error_name (RuntimeError _) = ''RuntimeError''"
| "error_name (OSError _) = ''OSError''"
| "error_name (PermissionError _) = ''PermissionError''"
| "error_name (OverflowError _) = ''OverflowError''"
| "error_name (DatabaseError _) = ''IntegrityError''"

definition refresh_managed_policy :: "environment \<Rightarrow> policy \<Rightarrow> policy \<times> string option" where
  "refresh_managed_policy env pol =
     (if pol_managed_override pol \<noteq> None then (pol, None)
      else (case env_load_managed env of
              Inl e \<Rightarrow> (let m = error_name e @ '': '' @ error_text e
                        in (pol\<lparr>pol_reload_error := Some m\<rparr>, Some m))
            | Inr d \<Rightarrow> (pol\<lparr>pol_managed := managed_snapshot_of d,
                          pol_rules := merge_rules (merge_rules (managed_rules d) (pol_base_rules pol))
                                         (pol_session_rules pol),
                          pol_reload_error := None\<rparr>, None)))"

definition sandbox_state_for :: "policy \<Rightarrow> string \<Rightarrow> pydict \<Rightarrow> sandbox_state" where
  "sandbox_state_for pol name args =
     (case pol_sandbox pol of
        None \<Rightarrow> default_sandbox_state
      | Some sm \<Rightarrow>
          (let shell = map_of shell_command_tools name
           in if shell = None \<and> name \<noteq> ''run_tests''
              then default_sandbox_state\<lparr>sb_enabled := sm_is_enabled sm, sb_backend := sm_backend_name sm\<rparr>
              else (let command = (case shell of Some a \<Rightarrow> Some (py_str (dict_get args a (PStr ''''))) | None \<Rightarrow> None);
                        will = sm_should_sandbox sm command
                    in \<lparr>sb_enabled = sm_is_enabled sm, sb_backend = sm_backend_name sm,
                        sb_will_sandbox = will, sb_excluded = sm_is_enabled sm \<and> \<not> will,
                        sb_auto_allow_enabled = sm_auto_allow_command_if_sandboxed sm\<rparr>)))"

definition sandbox_auto_allows :: "policy \<Rightarrow> string \<Rightarrow> pydict \<Rightarrow> bool" where
  "sandbox_auto_allows pol name args =
     (let st = sandbox_state_for pol name args
      in sb_auto_allow_enabled st \<and> sb_will_sandbox st \<and> \<not> sb_excluded st)"

definition build_context :: "environment \<Rightarrow> policy \<Rightarrow> tool \<Rightarrow> pydict \<Rightarrow> permission_context" where
  "build_context env pol t args =
     \<lparr>ctx_mode = pol_mode pol,
      ctx_workspace = (case pol_workspace pol of Some w \<Rightarrow> w
        | None \<Rightarrow> (case tool_workspace t of Some w \<Rightarrow> w | None \<Rightarrow> env_cwd env)),
      ctx_interactive = pol_interactive pol,
      ctx_sandbox = sandbox_state_for pol (tool_name t) args,
      ctx_rules = Some (pol_rules pol),
      ctx_session = \<lparr>view_tool_names = pol_session_allow pol,
                     view_command_fingerprints = pol_session_allow_commands pol\<rparr>,
      ctx_is_subagent = pol_is_subagent pol,
      ctx_parent_mode = pol_parent_mode pol,
      ctx_parent_agent_id = pol_parent_agent_id pol,
      ctx_tool_source = pol_tool_source pol,
      ctx_web_policy = \<lparr>allowed_domains = tool_allowed_domains t, blocked_domains = tool_blocked_domains t,
                        web_unattended = tool_unattended t\<rparr>,
      ctx_managed = pol_managed pol,
      ctx_plan = pol_plan pol\<rparr>"

section \<open>Preflight\<close>

definition validate_schema :: "environment \<Rightarrow> tool \<Rightarrow> pydict \<Rightarrow> permission_result option" where
  "validate_schema env t args =
     (case env_validate env (tool_name t) args of
        None \<Rightarrow> None
      | Some (path, message) \<Rightarrow>
          Some (result_deny (''tool input schema validation failed'' @
                  (if path \<noteq> [] then '' at '' @ path else []) @ '': '' @ message)
                DS_SCHEMA None (Some [(''validation_path'', PStr path)]) None))"

definition check_forbidden_mode :: "permission_context \<Rightarrow> permission_result option" where
  "check_forbidden_mode ctx =
     (if ctx_mode ctx \<in> set (forbidden_modes (ctx_managed ctx))
      then Some (result_deny (''permission mode '' @ repr_str (mode_value (ctx_mode ctx)) @
                   '' is forbidden by managed policy'') DS_MANAGED None None None)
      else None)"

definition check_managed_deny ::
  "environment \<Rightarrow> policy \<Rightarrow> tool \<Rightarrow> pydict \<Rightarrow> permission_result option py_result" where
  "check_managed_deny env pol t args =
     bind_res (deny_match (env_urlparse env) (pol_rules pol) (tool_name t) args (Some RS_MANAGED))
       (\<lambda>m. Inr (map_option (\<lambda>r. result_deny ''denied by managed policy'' DS_MANAGED None None (Some r)) m))"

definition check_deny_rule ::
  "environment \<Rightarrow> policy \<Rightarrow> tool \<Rightarrow> pydict \<Rightarrow> permission_result option py_result" where
  "check_deny_rule env pol t args =
     bind_res (deny_match (env_urlparse env) (pol_rules pol) (tool_name t) args None)
       (\<lambda>m. Inr (map_option (\<lambda>r. result_deny ''denied by rule'' DS_RULE None None (Some r)) m))"

definition check_unattended :: "policy \<Rightarrow> permission_context \<Rightarrow> permission_result option" where
  "check_unattended pol ctx =
     (if ctx_mode ctx \<in> {PM_AUTO, PM_DONTASK, PM_BYPASS} \<and> \<not> sb_enabled (ctx_sandbox ctx) then
        (if require_sandbox_for_unattended (ctx_managed ctx)
         then Some (result_deny ''managed policy requires a Sandbox for unattended permission modes''
                DS_MANAGED None None None)
         else if \<not> pol_allow_unsandboxed pol
         then Some (result_deny ''unattended permission modes require a Sandbox or an explicit opt-out''
                DS_CENTRAL_SAFETY None None None)
         else None)
      else None)"

fun allowed_child_modes :: "permission_mode \<Rightarrow> permission_mode list" where
  "allowed_child_modes PM_DEFAULT = [PM_DEFAULT]"
| "allowed_child_modes PM_ACCEPTEDITS = [PM_DEFAULT, PM_ACCEPTEDITS]"
| "allowed_child_modes PM_PLAN = [PM_PLAN]"
| "allowed_child_modes PM_AUTO = [PM_DEFAULT, PM_ACCEPTEDITS, PM_AUTO]"
| "allowed_child_modes PM_DONTASK = [PM_DEFAULT, PM_DONTASK]"
| "allowed_child_modes PM_BYPASS = [PM_DEFAULT, PM_ACCEPTEDITS, PM_DONTASK, PM_BYPASS]"

definition check_subagent :: "permission_context \<Rightarrow> permission_result option" where
  "check_subagent ctx =
     (case ctx_parent_mode ctx of
        Some parent \<Rightarrow>
          if ctx_is_subagent ctx \<and> ctx_mode ctx \<notin> set (allowed_child_modes parent)
          then Some (result_deny ''sub-agent permission mode exceeds its parent capability envelope''
                 DS_CENTRAL_SAFETY None None None)
          else None
      | None \<Rightarrow> None)"

definition plan_capabilities :: "string list" where
  "plan_capabilities = [''write_plan'', ''exit_plan'', ''update_todos'', ''task_create'', ''task_update'',
     ''team_create'', ''teammate_spawn'', ''team_message_send'', ''dispatch_agent'', ''skill'']"

definition check_plan :: "tool \<Rightarrow> permission_context \<Rightarrow> permission_result option" where
  "check_plan t ctx =
     (if ctx_mode ctx = PM_PLAN \<and> tool_risk t \<in> {WRITE, DANGEROUS} \<and> tool_name t \<notin> set plan_capabilities
      then Some (result_deny ''plan mode is read-only except for registered planning capabilities''
             DS_CENTRAL_SAFETY None None None)
      else None)"

definition check_web :: "environment \<Rightarrow> tool \<Rightarrow> pydict \<Rightarrow> permission_context \<Rightarrow> permission_result option py_result" where
  "check_web env t args ctx =
     (if tool_name t = ''web_fetch''
      then check_web_endpoint (env_platform env) (py_str (dict_get args ''url'' (PStr ''''))) ctx
      else Inr None)"

definition check_ask_rule ::
  "environment \<Rightarrow> policy \<Rightarrow> tool \<Rightarrow> pydict \<Rightarrow> permission_result option py_result" where
  "check_ask_rule env pol t args =
     bind_res (ask_match (env_urlparse env) (pol_rules pol) (tool_name t) args None)
       (\<lambda>m. Inr (map_option (\<lambda>r. result_ask
              (if rule_source r = RS_MANAGED then ''confirmation required by managed policy''
               else ''confirmation required by explicit ask rule'')
              (if rule_source r = RS_MANAGED then DS_MANAGED else DS_RULE)
              None None (Some r) False True []) m))"

definition preflight ::
  "environment \<Rightarrow> policy \<Rightarrow> tool \<Rightarrow> pydict \<Rightarrow> permission_context \<Rightarrow> permission_result option py_result" where
  "preflight env pol t args ctx = first_decision
     [Inr (validate_schema env t args),
      Inr (check_forbidden_mode ctx),
      check_managed_deny env pol t args,
      check_deny_rule env pol t args,
      Inr (check_unattended pol ctx),
      Inr (check_subagent ctx),
      Inr (check_plan t ctx),
      inspect_paths (env_platform env) (tool_name t) args ctx,
      check_web env t args ctx,
      check_ask_rule env pol t args]"

section \<open>Fallbacks and the final mode\<close>

definition risk_fallback :: "policy \<Rightarrow> tool \<Rightarrow> pydict option \<Rightarrow> permission_result" where
  "risk_fallback pol t updated =
     (if tool_risk t = READ
      then result_allow ''legacy ToolRisk fallback allows read-only tools'' DS_RISK_FALLBACK updated None
      else if pol_mode pol \<in> {PM_PLAN, PM_DONTASK}
      then result_deny (mode_value (pol_mode pol) @ '' mode denies an unresolved '' @ risk_value (tool_risk t)
             @ '' fallback'') DS_RISK_FALLBACK updated None None
      else result_ask ''unmigrated side-effecting tool requires confirmation'' DS_RISK_FALLBACK updated
             None None (pol_mode pol = PM_AUTO) False [])"

fun dict_set :: "pydict \<Rightarrow> string \<Rightarrow> pyval \<Rightarrow> pydict" where
  "dict_set [] k v = [(k, v)]"
| "dict_set ((k', v') # d) k v = (if k' = k then (k, v) # d else (k', v') # dict_set d k v)"

definition apply_final_mode :: "policy \<Rightarrow> permission_result \<Rightarrow> tool \<Rightarrow> permission_result" where
  "apply_final_mode pol r t =
     (if behavior r \<noteq> PB_ASK then r
      else if pol_mode pol = PM_DONTASK
      then result_deny (reason r @ ''; dontask mode denies prompts'') DS_MODE (updated_arguments r)
             (metadata r) (matched_rule r)
      else if pol_mode pol = PM_AUTO \<and> classifier_approvable r
      then (if tool_requires_user_interaction t then r
            else result_ask (reason r) (decision_source r) (updated_arguments r)
                   (Some (dict_set (case metadata r of None \<Rightarrow> [] | Some d \<Rightarrow> d)
                           ''automated_evaluation'' (PBool True)))
                   (matched_rule r) True (bypass_immune r) (suggestions r))
      else r)"

section \<open>Session grants\<close>

definition shell_parts :: "string \<Rightarrow> pydict \<Rightarrow> string list" where
  "shell_parts command_arg args =
     filter (\<lambda>p. p \<noteq> []) (map normalize_subcommand
       (split_subcommands (py_str (dict_get args command_arg (PStr '''')))))"

definition session_allowed :: "policy \<Rightarrow> string \<Rightarrow> pydict \<Rightarrow> bool" where
  "session_allowed pol name args =
     (if allow_managed_rules_only (pol_managed pol) then False
      else (case map_of shell_command_tools name of
              None \<Rightarrow> name \<in> set (pol_session_allow pol)
            | Some arg \<Rightarrow> shell_parts arg args \<noteq> [] \<and>
                list_all (\<lambda>p. p \<in> set (pol_session_allow_commands pol)) (shell_parts arg args)))"

definition policy_allow_match ::
  "environment \<Rightarrow> policy \<Rightarrow> string \<Rightarrow> pydict \<Rightarrow> permission_rule option py_result" where
  "policy_allow_match env pol name args =
     allow_match (env_urlparse env) (pol_rules pol) name args
       (if allow_managed_rules_only (pol_managed pol) then Some RS_MANAGED else None)"

section \<open>Evaluation\<close>

text \<open>The last two steps of both the passthrough and the allow branch: session grants, then
  allow rules, then the given default.\<close>

definition grant_or ::
  "environment \<Rightarrow> policy \<Rightarrow> tool \<Rightarrow> pydict \<Rightarrow> pydict option \<Rightarrow> permission_result \<Rightarrow> permission_result py_result" where
  "grant_or env pol t args updated dflt =
     (if session_allowed pol (tool_name t) args
      then Inr (result_allow ''allowed for this session'' DS_RULE updated (Some (session_rule (tool_name t))))
      else bind_res (policy_allow_match env pol (tool_name t) args) (\<lambda>m.
             Inr (case m of
                    Some r \<Rightarrow> result_allow ''allowed by rule'' DS_RULE updated (Some r)
                  | None \<Rightarrow> dflt)))"

text \<open>From the tool's own verdict to the result, for arguments that passed the preflight.\<close>

definition resolve_tool_result ::
  "environment \<Rightarrow> policy \<Rightarrow> tool \<Rightarrow> pydict \<Rightarrow> permission_result \<Rightarrow> permission_result py_result" where
  "resolve_tool_result env pol t args tr =
     (if behavior tr = PB_DENY then Inr tr
      else if behavior tr = PB_ASK then Inr (apply_final_mode pol tr t)
      else if tool_requires_user_interaction t
      then Inr (apply_final_mode pol
             (result_ask ''tool requires an explicit interactive approval channel'' DS_CENTRAL_SAFETY
                (updated_arguments tr) None None False True []) t)
      else if behavior tr = PB_PASSTHROUGH then
        (if sandbox_auto_allows pol (tool_name t) args
         then Inr (result_allow ''allowed because this exact command will run sandboxed'' DS_SANDBOX
                (updated_arguments tr) None)
         else if pol_mode pol = PM_BYPASS
         then Inr (result_allow ''bypass mode allows the remaining passthrough action'' DS_MODE
                (updated_arguments tr) None)
         else grant_or env pol t args (updated_arguments tr)
                (apply_final_mode pol (risk_fallback pol t (updated_arguments tr)) t))
      else grant_or env pol t args (updated_arguments tr) tr)"

definition evaluate_core ::
  "environment \<Rightarrow> policy \<Rightarrow> tool \<Rightarrow> pydict \<Rightarrow> permission_context \<Rightarrow> permission_result py_result" where
  "evaluate_core env pol t args ctx =
     bind_res (preflight env pol t args ctx) (\<lambda>pre. case pre of
       Some r \<Rightarrow> Inr (apply_final_mode pol r t)
     | None \<Rightarrow>
       (case check_permissions t args ctx of
          Inl e \<Rightarrow> Inr (result_deny (''tool permission check failed: '' @ error_name e) DS_TOOL None
                    (Some [(''error'', PStr (take 200 (error_text e)))]) None)
        | Inr tr \<Rightarrow>
            (case updated_arguments tr of
               None \<Rightarrow> resolve_tool_result env pol t args tr
             | Some updated \<Rightarrow>
                 bind_res (preflight env pol t updated (build_context env pol t updated)) (\<lambda>pre2. case pre2 of
                   Some r \<Rightarrow> Inr (apply_final_mode pol r t)
                 | None \<Rightarrow> resolve_tool_result env pol t updated tr))))"

definition evaluate ::
  "environment \<Rightarrow> policy \<Rightarrow> tool \<Rightarrow> pydict \<Rightarrow> permission_context option \<Rightarrow>
   policy \<times> permission_result py_result" where
  "evaluate env pol0 t args given =
     (let (pol, err) = refresh_managed_policy env pol0
      in (pol, case err of
           Some m \<Rightarrow> Inr (result_deny (''managed policy reload failed: '' @ m) DS_MANAGED None
                     (Some [(''managed_policy_reload_error'', PStr (take 200 m))]) None)
         | None \<Rightarrow>
             evaluate_core env pol t args
               (case given of
                  Some c \<Rightarrow> c\<lparr>ctx_mode := pol_mode pol, ctx_rules := Some (pol_rules pol),
                             ctx_managed := pol_managed pol\<rparr>
                | None \<Rightarrow> build_context env pol t args)))"

section \<open>Legacy decisions, confirmation and grants\<close>

record permission_decision =
  dec_allowed :: bool
  dec_ask_user :: bool
  dec_reason :: string
  dec_ask_collapsed :: bool
  dec_classify :: bool

definition decision :: "bool \<Rightarrow> string \<Rightarrow> permission_decision" where
  "decision allowed r =
     \<lparr>dec_allowed = allowed, dec_ask_user = False, dec_reason = r, dec_ask_collapsed = False,
      dec_classify = False\<rparr>"

definition as_legacy_decision :: "policy \<Rightarrow> permission_result \<Rightarrow> permission_decision" where
  "as_legacy_decision pol r =
     (if behavior r = PB_ALLOW then decision True (reason r)
      else if behavior r = PB_DENY then decision False (reason r)
      else if py_truthy (dict_get (case metadata r of None \<Rightarrow> [] | Some d \<Rightarrow> d) ''automated_evaluation'' PNone)
      then (decision False (reason r))\<lparr>dec_classify := True\<rparr>
      else if pol_interactive pol then (decision False (reason r))\<lparr>dec_ask_user := True\<rparr>
      else (decision False (reason r @ ''; non-interactive''))\<lparr>dec_ask_collapsed := True\<rparr>)"

definition legacy_without_arguments :: "environment \<Rightarrow> policy \<Rightarrow> tool \<Rightarrow> permission_decision py_result" where
  "legacy_without_arguments env pol t =
     bind_res (deny_match (env_urlparse env) (pol_rules pol) (tool_name t) [] None) (\<lambda>den.
       if den \<noteq> None then Inr (decision False ''denied by rule'')
       else if pol_mode pol = PM_PLAN \<and> tool_risk t \<in> {WRITE, DANGEROUS}
       then Inr (decision False ''plan mode is read-only'')
       else if session_allowed pol (tool_name t) [] then Inr (decision True ''allowed for this session'')
       else bind_res (ask_match (env_urlparse env) (pol_rules pol) (tool_name t) [] None) (\<lambda>ask.
         if ask \<noteq> None
         then Inr (as_legacy_decision pol (result_ask ''confirmation required by explicit ask rule''
                DS_TOOL None None None False True []))
         else if pol_mode pol = PM_BYPASS then Inr (decision True ''bypass mode allows'')
         else bind_res (policy_allow_match env pol (tool_name t) []) (\<lambda>alw.
           if alw \<noteq> None then Inr (decision True ''allowed by rule'')
           else if tool_risk t = READ then Inr (decision True (mode_value (pol_mode pol) @ '' allows read tools''))
           else if pol_mode pol = PM_ACCEPTEDITS \<and> tool_accept_edits_safe t
           then Inr (decision True ''acceptedits allows workspace file edits'')
           else if pol_mode pol = PM_AUTO
           then Inr ((decision False ''auto mode requires classification'')\<lparr>dec_classify := True\<rparr>)
           else if pol_mode pol = PM_DONTASK then Inr (decision False ''dontask mode denies prompts'')
           else Inr (as_legacy_decision pol (result_ask ''default requires confirmation''
                  DS_TOOL None None None False False [])))))"

text \<open>The synchronous entry point; inside a running event loop it refuses.\<close>

definition decide ::
  "environment \<Rightarrow> bool \<Rightarrow> policy \<Rightarrow> tool \<Rightarrow> pydict option \<Rightarrow> policy \<times> permission_decision py_result" where
  "decide env in_loop pol t call =
     (case call of
        None \<Rightarrow> (pol, legacy_without_arguments env pol t)
      | Some args \<Rightarrow>
          if in_loop then (pol, Inl (RuntimeError ''PermissionPolicy.decide() cannot run inside an event loop''))
          else (case evaluate env pol t args None of (pol', r) \<Rightarrow>
                  (pol', bind_res r (\<lambda>res. Inr (as_legacy_decision pol' res)))))"

definition remember_always :: "policy \<Rightarrow> string \<Rightarrow> pydict \<Rightarrow> policy" where
  "remember_always pol name args =
     (case map_of shell_command_tools name of
        None \<Rightarrow> pol\<lparr>pol_session_allow := List.insert name (pol_session_allow pol)\<rparr>
      | Some arg \<Rightarrow> pol\<lparr>pol_session_allow_commands :=
          fold List.insert (shell_parts arg args) (pol_session_allow_commands pol)\<rparr>)"

fun suggest_key :: "string \<Rightarrow> string list \<Rightarrow> pydict \<Rightarrow> permission_suggestion list" where
  "suggest_key name [] args =
     [\<lparr>sug_rule = name, sug_reason = ''whole-tool grant; review scope carefully'', sug_destination = PD_SESSION\<rparr>]"
| "suggest_key name (k # ks) args =
     (case dict_get args k PNone of
        PStr s \<Rightarrow> if py_strip s \<noteq> []
          then [\<lparr>sug_rule = name @ ''('' @ py_strip s @ '')'', sug_reason = ''exact '' @ k @ '' for this tool'',
                 sug_destination = PD_SESSION\<rparr>]
          else suggest_key name ks args
      | _ \<Rightarrow> suggest_key name ks args)"

definition suggested_rules :: "string \<Rightarrow> pydict \<Rightarrow> permission_suggestion list" where
  "suggested_rules name args =
     (case map_of shell_command_tools name of
        Some arg \<Rightarrow> map (\<lambda>p. \<lparr>sug_rule = name @ ''('' @ p @ '')'',
            sug_reason = ''exact normalized shell subcommand'', sug_destination = PD_SESSION\<rparr>)
            (shell_parts arg args)
      | None \<Rightarrow> suggest_key name [''path'', ''file_path'', ''url'', ''target'', ''pattern''] args)"

definition add_session_rule :: "policy \<Rightarrow> string \<Rightarrow> policy py_result" where
  "add_session_rule pol rule =
     (let parsed = from_lists [rule] [] [] RS_SESSION
      in if rs_allow parsed = [] then Inl (ValueError (''invalid permission rule: '' @ repr_str rule))
         else Inr (pol\<lparr>pol_session_rules := merge_rules (pol_session_rules pol) parsed,
                       pol_rules := merge_rules (pol_rules pol) parsed\<rparr>))"

definition inherit_scoped_session_grants :: "policy \<Rightarrow> policy \<Rightarrow> string list \<Rightarrow> policy" where
  "inherit_scoped_session_grants pol parent allowed =
     (if allow_managed_rules_only (pol_managed pol) then pol
      else (let inherited = empty_rules\<lparr>rs_allow :=
                  filter (\<lambda>r. pr_tool_name r \<in> set allowed) (rs_allow (pol_session_rules parent))\<rparr>
            in pol\<lparr>pol_session_allow := fold List.insert
                     (filter (\<lambda>n. n \<in> set allowed) (pol_session_allow parent)) (pol_session_allow pol),
                   pol_session_allow_commands :=
                     (if list_ex (\<lambda>n. n \<in> set (map fst shell_command_tools)) allowed
                      then fold List.insert (pol_session_allow_commands parent) (pol_session_allow_commands pol)
                      else pol_session_allow_commands pol),
                   pol_session_rules := merge_rules (pol_session_rules pol) inherited,
                   pol_rules := merge_rules (pol_rules pol) inherited\<rparr>))"

text \<open>The checks of \<open>_apply_updates\<close> on one update, before anything is changed.\<close>

definition check_update :: "policy \<Rightarrow> permission_update \<Rightarrow> unit py_result" where
  "check_update pol u =
     (if upd_behavior u \<noteq> PB_ALLOW then Inl (ValueError ''interactive permission updates may only add allow rules'')
      else if allow_managed_rules_only (pol_managed pol)
      then Inl (ValueError ''managed policy ignores non-managed allow rules'')
      else if rs_allow (from_lists [upd_rule u] [] [] RS_SESSION) = []
      then Inl (ValueError (''invalid permission rule: '' @ repr_str (upd_rule u)))
      else if upd_destination u \<noteq> PD_SESSION \<and> disable_persistent_grants (pol_managed pol)
      then Inl (ValueError ''managed policy disables persistent permission grants'')
      else Inr ())"

fun add_session_rules :: "policy \<Rightarrow> string list \<Rightarrow> policy py_result" where
  "add_session_rules pol [] = Inr pol"
| "add_session_rules pol (r # rs) = bind_res (add_session_rule pol r) (\<lambda>pol'. add_session_rules pol' rs)"

text \<open>Writing to a configuration file is the argument \<open>persist\<close>.\<close>

definition apply_updates ::
  "(string list \<Rightarrow> permission_destination \<Rightarrow> unit py_result) \<Rightarrow> policy \<Rightarrow> permission_update list \<Rightarrow> policy py_result" where
  "apply_updates persist pol ups =
     (let persistent = filter (\<lambda>u. upd_destination u \<noteq> PD_SESSION) ups
      in if length (remdups (map upd_destination persistent)) > 1
         then Inl (ValueError ''one permission response cannot persist to multiple files'')
         else bind_res (map_res (check_update pol) ups) (\<lambda>_.
              bind_res (if persistent = [] then Inr ()
                        else persist (map upd_rule persistent) (upd_destination (hd persistent))) (\<lambda>_.
              bind_res (add_session_rules pol (map upd_rule ups)) (\<lambda>pol'.
                Inr (pol'\<lparr>pol_last_updates := ups\<rparr>)))))"

text \<open>What the prompter answered: a structured response or a legacy choice.\<close>

datatype prompt_answer = Structured permission_response | Choice string

definition permission_request_for :: "policy \<Rightarrow> permission_decision \<Rightarrow> tool \<Rightarrow> pydict \<Rightarrow> permission_request" where
  "permission_request_for pol dec t args =
     \<lparr>req_tool_name = tool_name t, req_risk = risk_value (tool_risk t), req_arguments = args,
      req_reason = dec_reason dec, req_suggestions = suggested_rules (tool_name t) args,
      req_persistent_grants_disabled = (disable_persistent_grants (pol_managed pol)
        \<or> allow_managed_rules_only (pol_managed pol)),
      req_session_grants_disabled = allow_managed_rules_only (pol_managed pol)\<rparr>"

definition confirm ::
  "(string list \<Rightarrow> permission_destination \<Rightarrow> unit py_result) \<Rightarrow> (permission_request \<Rightarrow> prompt_answer) option \<Rightarrow>
   policy \<Rightarrow> permission_decision \<Rightarrow> tool \<Rightarrow> pydict \<Rightarrow> (policy \<times> permission_decision \<times> pydict) py_result" where
  "confirm persist prompter pol0 dec t args =
     (case prompter of
        None \<Rightarrow> Inr (pol0, dec, args)
      | Some ask \<Rightarrow>
          if \<not> dec_ask_user dec then Inr (pol0, dec, args)
          else (let pol = pol0\<lparr>pol_last_updates := []\<rparr>
                in case ask (permission_request_for pol dec t args) of
                     Structured resp \<Rightarrow>
                       if \<not> resp_allow resp
                       then Inr (pol, decision False (if resp_reason resp \<noteq> [] then resp_reason resp else ''user rejected''), args)
                       else (case apply_updates persist pol (resp_updates resp) of
                               Inl e \<Rightarrow>
                                 if os_or_value_error e
                                 then Inr (pol, decision False (''permission grant was not applied: '' @ error_text e), args)
                                 else Inl e
                             | Inr pol' \<Rightarrow>
                                 Inr (pol', decision True (if resp_reason resp \<noteq> [] then resp_reason resp else ''user confirmed''),
                                   case resp_updated_arguments resp of Some a \<Rightarrow> a | None \<Rightarrow> args))
                   | Choice c \<Rightarrow>
                       if c = ''always''
                       then Inr (remember_always pol (tool_name t) args, decision True ''user allowed for this session'', args)
                       else if c = ''once'' then Inr (pol, decision True ''user confirmed'', args)
                       else Inr (pol, decision False ''user rejected'', args)))"

end
