(* ===== verification/Permission_Soundness.thy ===== *)
theory Permission_Soundness
  imports Permission_Policy
begin

text \<open>
  Theorems about the permission engine of \<^verbatim>\<open>agent_core/permissions.py\<close>: what an allowed call
  must have passed, which decisions no mode, grant or tool can override, and what the
  interactive grant path may change. They hold for every environment, every tool and every
  rule set.
\<close>

section \<open>The preflight as one central check\<close>

lemma preflight_None_iff:
  "preflight env pol t args ctx = Inr None \<longleftrightarrow>
     validate_schema env t args = None \<and> check_forbidden_mode ctx = None \<and>
     check_managed_deny env pol t args = Inr None \<and> check_deny_rule env pol t args = Inr None \<and>
     check_unattended pol ctx = None \<and> check_subagent ctx = None \<and> check_plan t ctx = None \<and>
     inspect_paths (env_platform env) (tool_name t) args ctx = Inr None \<and>
     check_web env t args ctx = Inr None \<and> check_ask_rule env pol t args = Inr None"
  unfolding preflight_def first_decision_None_iff by simp

lemma validate_schema_restricts: "validate_schema env t args = Some r \<Longrightarrow> restrictive r \<and> behavior r = PB_DENY"
  by (auto simp: validate_schema_def restrictive_def result_defs dict_get_def split: option.splits)

lemma check_forbidden_mode_denies: "check_forbidden_mode ctx = Some r \<Longrightarrow> restrictive r \<and> behavior r = PB_DENY"
  by (auto simp: check_forbidden_mode_def split: if_splits)

lemma check_managed_deny_denies:
  "check_managed_deny env pol t args = Inr (Some r) \<Longrightarrow> restrictive r \<and> behavior r = PB_DENY"
  by (auto simp: check_managed_deny_def bind_res_Inr_iff)

lemma check_deny_rule_denies:
  "check_deny_rule env pol t args = Inr (Some r) \<Longrightarrow> restrictive r \<and> behavior r = PB_DENY"
  by (auto simp: check_deny_rule_def bind_res_Inr_iff)

lemma check_unattended_denies: "check_unattended pol ctx = Some r \<Longrightarrow> restrictive r \<and> behavior r = PB_DENY"
  by (auto simp: check_unattended_def split: if_splits)

lemma check_subagent_denies: "check_subagent ctx = Some r \<Longrightarrow> restrictive r \<and> behavior r = PB_DENY"
  by (auto simp: check_subagent_def split: if_splits option.splits)

lemma check_plan_denies: "check_plan t ctx = Some r \<Longrightarrow> restrictive r \<and> behavior r = PB_DENY"
  by (auto simp: check_plan_def split: if_splits)

lemma check_web_tool_restricts: "check_web env t args ctx = Inr (Some r) \<Longrightarrow> restrictive r"
  by (auto simp: check_web_def split: if_splits dest: web_check.check_restricts)

lemma check_ask_rule_restricts: "check_ask_rule env pol t args = Inr (Some r) \<Longrightarrow> restrictive r"
  by (auto simp: check_ask_rule_def bind_res_Inr_iff)

lemmas denying_checks = validate_schema_restricts check_forbidden_mode_denies check_managed_deny_denies
  check_deny_rule_denies check_unattended_denies check_subagent_denies check_plan_denies

text \<open>The checks that can only deny come first, the three that may ask come last.\<close>

abbreviation denying_part :: "environment \<Rightarrow> policy \<Rightarrow> tool \<Rightarrow> pydict \<Rightarrow> permission_context \<Rightarrow>
    permission_result option py_result list" where
  "denying_part env pol t args ctx \<equiv>
     [Inr (validate_schema env t args), Inr (check_forbidden_mode ctx),
      check_managed_deny env pol t args, check_deny_rule env pol t args, Inr (check_unattended pol ctx),
      Inr (check_subagent ctx), Inr (check_plan t ctx)]"

abbreviation asking_part :: "environment \<Rightarrow> policy \<Rightarrow> tool \<Rightarrow> pydict \<Rightarrow> permission_context \<Rightarrow>
    permission_result option py_result list" where
  "asking_part env pol t args ctx \<equiv>
     [inspect_paths (env_platform env) (tool_name t) args ctx, check_web env t args ctx,
      check_ask_rule env pol t args]"

lemma preflight_parts:
  "preflight env pol t args ctx = first_decision (denying_part env pol t args ctx @ asking_part env pol t args ctx)"
  by (simp add: preflight_def)

lemma denying_part_denies:
  "c \<in> set (denying_part env pol t args ctx) \<Longrightarrow> c = Inr (Some r) \<Longrightarrow> restrictive r \<and> behavior r = PB_DENY"
  by (auto dest: denying_checks [OF sym])

lemma asking_part_restricts:
  "c \<in> set (asking_part env pol t args ctx) \<Longrightarrow> c = Inr (Some r) \<Longrightarrow> restrictive r"
  by (auto dest: inspect_paths_restricts [OF sym] check_web_tool_restricts [OF sym]
      check_ask_rule_restricts [OF sym])

interpretation preflight_check: central_check "\<lambda>args. preflight env pol t args ctx" for env pol t ctx
proof
  fix args r
  assume "preflight env pol t args ctx = Inr (Some r)"
  from first_decision_SomeD [OF this [unfolded preflight_parts]] show "restrictive r"
    unfolding set_append using denying_part_denies asking_part_restricts by blast
qed

lemma preflight_early_deny:
  assumes "c \<in> set (denying_part env pol t args ctx)" and "c \<noteq> Inr None"
    and "preflight env pol t args ctx = Inr p"
  shows "\<exists>r. p = Some r \<and> behavior r = PB_DENY"
  using first_decision_upto [OF assms(3) [unfolded preflight_parts] assms(1,2)] denying_part_denies by blast

section \<open>The final mode\<close>

lemma apply_final_mode_behavior:
  "behavior (apply_final_mode pol r t) =
     (if behavior r = PB_ASK \<and> pol_mode pol = PM_DONTASK then PB_DENY else behavior r)"
  by (simp add: apply_final_mode_def)

lemma apply_final_mode_restricted:
  "restrictive r \<Longrightarrow> behavior (apply_final_mode pol r t) = PB_DENY \<or> behavior (apply_final_mode pol r t) = PB_ASK"
  by (auto simp: apply_final_mode_behavior restrictive_def)

lemma risk_fallback_behavior: "behavior (risk_fallback pol t u) \<noteq> PB_PASSTHROUGH"
  by (simp add: risk_fallback_def)

lemma grant_or_cases:
  assumes "grant_or env pol t args u d = Inr r"
  shows "r = d \<or> behavior r = PB_ALLOW"
  using assms by (auto simp: grant_or_def bind_res_Inr_iff split: if_splits option.splits)

lemma resolve_tool_result_allow:
  assumes "resolve_tool_result env pol t args tr = Inr r" "behavior r = PB_ALLOW"
  shows "behavior tr \<in> {PB_ALLOW, PB_PASSTHROUGH} \<and> \<not> tool_requires_user_interaction t"
  using assms
  by (cases "behavior tr") (auto simp: resolve_tool_result_def apply_final_mode_behavior split: if_splits)

lemma resolve_tool_result_decided:
  assumes "resolve_tool_result env pol t args tr = Inr r"
  shows "behavior r \<noteq> PB_PASSTHROUGH \<and> (pol_mode pol = PM_DONTASK \<longrightarrow> behavior r \<noteq> PB_ASK)"
proof (cases "behavior tr")
  case PB_PASSTHROUGH
  with assms show ?thesis
    by (auto simp: resolve_tool_result_def apply_final_mode_behavior risk_fallback_behavior
        split: if_splits dest!: grant_or_cases)
next
  case PB_ALLOW
  with assms show ?thesis
    by (auto simp: resolve_tool_result_def apply_final_mode_behavior split: if_splits dest!: grant_or_cases)
qed (use assms in \<open>auto simp: resolve_tool_result_def apply_final_mode_behavior split: if_splits\<close>)

section \<open>Evaluation\<close>

text \<open>The context an evaluation uses and the arguments it ends up authorising.\<close>

definition eval_context ::
  "environment \<Rightarrow> policy \<Rightarrow> tool \<Rightarrow> pydict \<Rightarrow> permission_context option \<Rightarrow> permission_context" where
  "eval_context env pol t args given =
     (case given of
        Some c \<Rightarrow> c\<lparr>ctx_mode := pol_mode pol, ctx_rules := Some (pol_rules pol), ctx_managed := pol_managed pol\<rparr>
      | None \<Rightarrow> build_context env pol t args)"

definition effective_arguments :: "pydict \<Rightarrow> permission_result \<Rightarrow> pydict" where
  "effective_arguments args r = (case updated_arguments r of None \<Rightarrow> args | Some u \<Rightarrow> u)"

lemma evaluate_cases:
  assumes "evaluate env pol0 t args given = (pol, Inr r)"
  obtains (reload_failed) "behavior r = PB_DENY" "snd (refresh_managed_policy env pol0) \<noteq> None"
  | (core) "refresh_managed_policy env pol0 = (pol, None)"
      "evaluate_core env pol t args (eval_context env pol t args given) = Inr r"
  using assms
  by (cases "refresh_managed_policy env pol0"; cases "snd (refresh_managed_policy env pol0)")
    (auto simp: evaluate_def eval_context_def)

lemma evaluate_core_preflight:
  assumes "evaluate_core env pol t args ctx = Inr r"
  obtains (silent) "preflight env pol t args ctx = Inr None"
  | (decided) p where "preflight env pol t args ctx = Inr (Some p)" "r = apply_final_mode pol p t"
proof (cases "preflight env pol t args ctx")
  case (Inr p)
  with assms that show thesis by (cases p) (simp_all add: evaluate_core_def)
qed (use assms in \<open>simp add: evaluate_core_def\<close>)

lemma updated_result [simp]:
  "updated_arguments (result_allow m src u rule) = u"
  "updated_arguments (result_ask m src u me rule ca bi sg) = u"
  "updated_arguments (result_deny m src u me rule) = u"
  by (simp_all add: result_defs)

lemma grant_or_updated:
  assumes "grant_or env pol t args u d = Inr r" and "updated_arguments d = u"
  shows "updated_arguments r = u"
proof (cases "session_allowed pol (tool_name t) args")
  case True
  then have "r = result_allow ''allowed for this session'' DS_RULE u (Some (session_rule (tool_name t)))"
    using assms(1) by (simp add: grant_or_def)
  then show ?thesis by simp
next
  case False
  then obtain m where "r = (case m of Some rule \<Rightarrow> result_allow ''allowed by rule'' DS_RULE u (Some rule) | None \<Rightarrow> d)"
    using assms(1) unfolding grant_or_def by (cases "policy_allow_match env pol (tool_name t) args") auto
  with assms(2) show ?thesis by (cases m) simp_all
qed

lemma resolve_tool_result_updated:
  assumes "resolve_tool_result env pol t args tr = Inr r" "behavior r = PB_ALLOW"
  shows "updated_arguments r = updated_arguments tr"
proof -
  have fallback: "updated_arguments (apply_final_mode pol (risk_fallback pol t u) t) = u" for u
    by (simp add: risk_fallback_def apply_final_mode_def)
  show ?thesis
    using assms
    by (cases "behavior tr")
      (auto simp: resolve_tool_result_def apply_final_mode_behavior fallback split: if_splits
        dest!: grant_or_updated)
qed

lemma evaluate_core_allow:
  assumes "evaluate_core env pol t args ctx = Inr r" "behavior r = PB_ALLOW"
  obtains tr where "preflight env pol t args ctx = Inr None" "check_permissions t args ctx = Inr tr"
    "updated_arguments r = updated_arguments tr"
    "behavior tr \<in> {PB_ALLOW, PB_PASSTHROUGH}" "\<not> tool_requires_user_interaction t"
    "\<And>u. updated_arguments tr = Some u \<Longrightarrow> preflight env pol t u (build_context env pol t u) = Inr None"
    "resolve_tool_result env pol t (effective_arguments args tr) tr = Inr r"
proof -
  have no_allow: "behavior (apply_final_mode pol p t) \<noteq> PB_ALLOW" if "preflight env pol t a c = Inr (Some p)" for p a c
    using apply_final_mode_restricted [OF preflight_check.check_restricts [OF that], of pol t] by auto
  have pre: "preflight env pol t args ctx = Inr None"
    using assms(1)
  proof (cases rule: evaluate_core_preflight)
    case (decided p)
    with assms(2) no_allow show ?thesis by blast
  qed
  then obtain tr where tr: "check_permissions t args ctx = Inr tr"
    using assms by (cases "check_permissions t args ctx") (auto simp: evaluate_core_def)
  have "(\<forall>u. updated_arguments tr = Some u \<longrightarrow> preflight env pol t u (build_context env pol t u) = Inr None) \<and>
      resolve_tool_result env pol t (effective_arguments args tr) tr = Inr r"
    using assms pre tr no_allow
    by (cases "updated_arguments tr")
      (auto simp: evaluate_core_def bind_option_Inr_iff effective_arguments_def)
  with pre tr show thesis
    using that resolve_tool_result_allow resolve_tool_result_updated assms(2) by metis
qed

text \<open>C1. No call is ever allowed around the central checks. If an evaluation answers ALLOW,
  then the managed policy was reloaded, the arguments passed every one of the ten preflight
  checks, the tool's own check answered ALLOW or PASSTHROUGH without raising, the tool does
  not demand an interactive channel, and if the tool rewrote the arguments then the rewritten
  ones, which are exactly those the result hands on for execution, passed all ten checks too.\<close>

theorem allowed_call_passed_every_check:
  assumes "evaluate env pol0 t args given = (pol, Inr r)" and "behavior r = PB_ALLOW"
  shows "\<exists>tr. refresh_managed_policy env pol0 = (pol, None) \<and>
           preflight env pol t args (eval_context env pol t args given) = Inr None \<and>
           check_permissions t args (eval_context env pol t args given) = Inr tr \<and>
           behavior tr \<in> {PB_ALLOW, PB_PASSTHROUGH} \<and> \<not> tool_requires_user_interaction t \<and>
           updated_arguments r = updated_arguments tr \<and>
           (\<forall>u. updated_arguments r = Some u \<longrightarrow>
              preflight env pol t u (build_context env pol t u) = Inr None)"
  using assms(1)
proof (cases rule: evaluate_cases)
  case core
  from evaluate_core_allow [OF core(2) assms(2)] core(1) show ?thesis by metis
qed (use assms(2) in simp)

text \<open>A concrete environment for the witnesses: a POSIX file system without links, no schema
  violations, and a managed policy that denies deleting and asks before pushing.\<close>

definition example_platform :: platform where
  "example_platform = \<lparr>pf_urlparse = \<lambda>u. Inr (''https'', Some ''example.org''), pf_expanduser = Inr,
     pf_resolve = Inr, pf_ip_address = \<lambda>_. None\<rparr>"

definition example_managed :: managed_definition where
  "example_managed = default_managed_definition\<lparr>md_deny := [''bash(rm *)''], md_ask := [''bash(git push *)'']\<rparr>"

definition example_env :: environment where
  "example_env = \<lparr>env_platform = example_platform, env_validate = \<lambda>_ _. None, env_cwd = ''/work'',
     env_load_managed = Inr example_managed\<rparr>"

definition example_tool :: "string \<Rightarrow> tool_risk \<Rightarrow> tool" where
  "example_tool name risk = \<lparr>tool_name = name, tool_risk = risk, tool_accept_edits_safe = False,
     tool_requires_user_interaction = False, tool_workspace = None, tool_allowed_domains = [],
     tool_blocked_domains = [], tool_unattended = False,
     check_permissions = \<lambda>args ctx. if name = ''edit_file''
       then ordinary_write_permission example_platform name args ctx
       else Inr (result_passthrough ''no opinion'' None)\<rparr>"

definition example_policy :: "permission_mode \<Rightarrow> rule_set \<Rightarrow> policy" where
  "example_policy mode rules =
     init_policy example_managed mode True rules None (Some ''/work'') False None None (Some True) None"

lemma run_evaluate_split:
  assumes "case evaluate env pol0 t args None of (pol, Inr r) \<Rightarrow> P pol r | (pol, Inl e) \<Rightarrow> False"
  obtains pol r where "evaluate env pol0 t args None = (pol, Inr r)" "P pol r"
  using assms by (auto split: prod.splits sum.splits)

abbreviation bash_call :: "string \<Rightarrow> pydict" where
  "bash_call c \<equiv> [(''command'', PStr c)]"

theorem allowed_call_passed_every_check_witness:
  "\<exists>pol r. evaluate example_env (example_policy PM_BYPASS empty_rules) (example_tool ''bash'' DANGEROUS)
        (bash_call ''ls'') None = (pol, Inr r) \<and> behavior r = PB_ALLOW \<and>
      preflight example_env pol (example_tool ''bash'' DANGEROUS) (bash_call ''ls'')
        (eval_context example_env pol (example_tool ''bash'' DANGEROUS) (bash_call ''ls'') None) = Inr None"
proof -
  have "case evaluate example_env (example_policy PM_BYPASS empty_rules) (example_tool ''bash'' DANGEROUS)
      (bash_call ''ls'') None of (pol, Inr r) \<Rightarrow> behavior r = PB_ALLOW | (pol, Inl e) \<Rightarrow> False"
    by code_simp
  then obtain pol r where "evaluate example_env (example_policy PM_BYPASS empty_rules)
      (example_tool ''bash'' DANGEROUS) (bash_call ''ls'') None = (pol, Inr r)" "behavior r = PB_ALLOW"
    by (rule run_evaluate_split)
  with allowed_call_passed_every_check [OF this] show ?thesis by blast
qed

section \<open>Decisions nothing overrides\<close>

lemma evaluate_denied:
  assumes "evaluate env pol0 t args given = (pol, Inr r)"
    and "c \<in> set (denying_part env pol t args (eval_context env pol t args given))" and "c \<noteq> Inr None"
  shows "behavior r = PB_DENY"
  using assms(1)
proof (cases rule: evaluate_cases)
  case core
  from core(2) show ?thesis
  proof (cases rule: evaluate_core_preflight)
    case silent
    from preflight_early_deny [OF assms(2,3) this] show ?thesis by simp
  next
    case (decided p)
    from preflight_early_deny [OF assms(2,3) decided(1)] decided(2) show ?thesis
      by (simp add: apply_final_mode_behavior)
  qed
qed

text \<open>C2. A deny rule of any source wins in every mode: whatever grants, allow rules, sandbox
  settings or opinion of the tool there are, an evaluation of a call that a deny rule of the
  reloaded rule set matches answers DENY (bypass mode included).\<close>

theorem deny_rule_wins:
  assumes "evaluate env pol0 t args given = (pol, Inr r)"
    and "deny_match (env_urlparse env) (pol_rules pol) (tool_name t) args None = Inr (Some rule)"
  shows "behavior r = PB_DENY"
  using assms(1)
  by (rule evaluate_denied [of _ _ _ _ _ _ _ "check_deny_rule env pol t args"])
    (use assms(2) in \<open>simp_all add: check_deny_rule_def\<close>)

theorem deny_rule_wins_witness:
  "\<exists>pol r. evaluate example_env (example_policy PM_BYPASS empty_rules) (example_tool ''bash'' DANGEROUS)
        (bash_call ''ls; nohup rm -rf x'') None = (pol, Inr r) \<and> behavior r = PB_DENY"
proof -
  have "case evaluate example_env (example_policy PM_BYPASS empty_rules) (example_tool ''bash'' DANGEROUS)
      (bash_call ''ls; nohup rm -rf x'') None of (pol, Inr r) \<Rightarrow>
        (case deny_match (env_urlparse example_env) (pol_rules pol) (tool_name (example_tool ''bash'' DANGEROUS))
           (bash_call ''ls; nohup rm -rf x'') None of Inr (Some _) \<Rightarrow> True | _ \<Rightarrow> False)
      | (pol, Inl e) \<Rightarrow> False"
    by code_simp
  then obtain pol r where ev: "evaluate example_env (example_policy PM_BYPASS empty_rules)
      (example_tool ''bash'' DANGEROUS) (bash_call ''ls; nohup rm -rf x'') None = (pol, Inr r)"
    and m: "case deny_match (env_urlparse example_env) (pol_rules pol)
        (tool_name (example_tool ''bash'' DANGEROUS)) (bash_call ''ls; nohup rm -rf x'') None of
        Inr (Some _) \<Rightarrow> True | _ \<Rightarrow> False"
    by (rule run_evaluate_split)
  from m obtain rule where "deny_match (env_urlparse example_env) (pol_rules pol)
        (tool_name (example_tool ''bash'' DANGEROUS)) (bash_call ''ls; nohup rm -rf x'') None = Inr (Some rule)"
    by (auto split: sum.splits option.splits)
  with deny_rule_wins [OF ev this] ev show ?thesis by blast
qed

lemma restrictive_final_decision:
  assumes "restrictive p"
  shows "\<not> dec_allowed (as_legacy_decision pol (apply_final_mode pol p t)) \<and>
         \<not> dec_classify (as_legacy_decision pol (apply_final_mode pol p t))"
  using assms
  by (auto simp: restrictive_def apply_final_mode_def as_legacy_decision_def decision_def split: if_splits)

text \<open>C14. A call that an ask rule matches is never run without a person: in every mode,
  bypass and auto included, the evaluation does not answer ALLOW, and the decision the agent
  loop derives from it neither allows the call nor sends it to the automatic classifier. No
  session grant, allow rule or sandbox setting changes that.\<close>

theorem ask_rule_needs_a_person:
  assumes "evaluate env pol0 t args given = (pol, Inr r)"
    and "ask_match (env_urlparse env) (pol_rules pol) (tool_name t) args None = Inr (Some rule)"
  shows "behavior r \<noteq> PB_ALLOW \<and> \<not> dec_allowed (as_legacy_decision pol r) \<and>
         \<not> dec_classify (as_legacy_decision pol r)"
  using assms(1)
proof (cases rule: evaluate_cases)
  case reload_failed
  then show ?thesis by (simp add: as_legacy_decision_def decision_def)
next
  case core
  from core(2) show ?thesis
  proof (cases rule: evaluate_core_preflight)
    case silent
    then show ?thesis using assms(2) by (simp add: preflight_None_iff check_ask_rule_def)
  next
    case (decided p)
    from preflight_check.check_restricts [OF decided(1)] have "restrictive p" .
    with restrictive_final_decision [OF this, of pol t] apply_final_mode_restricted [OF this, of pol t]
    show ?thesis using decided(2) by auto
  qed
qed

theorem ask_rule_needs_a_person_witness:
  "\<exists>pol r. evaluate example_env (example_policy PM_BYPASS empty_rules) (example_tool ''bash'' DANGEROUS)
        (bash_call ''git push origin'') None = (pol, Inr r) \<and> \<not> dec_allowed (as_legacy_decision pol r)"
proof -
  have "case evaluate example_env (example_policy PM_BYPASS empty_rules) (example_tool ''bash'' DANGEROUS)
      (bash_call ''git push origin'') None of (pol, Inr r) \<Rightarrow>
        (case ask_match (env_urlparse example_env) (pol_rules pol) (tool_name (example_tool ''bash'' DANGEROUS))
           (bash_call ''git push origin'') None of Inr (Some _) \<Rightarrow> True | _ \<Rightarrow> False)
      | (pol, Inl e) \<Rightarrow> False"
    by code_simp
  then obtain pol r where ev: "evaluate example_env (example_policy PM_BYPASS empty_rules)
      (example_tool ''bash'' DANGEROUS) (bash_call ''git push origin'') None = (pol, Inr r)"
    and m: "case ask_match (env_urlparse example_env) (pol_rules pol)
        (tool_name (example_tool ''bash'' DANGEROUS)) (bash_call ''git push origin'') None of
        Inr (Some _) \<Rightarrow> True | _ \<Rightarrow> False"
    by (rule run_evaluate_split)
  from m obtain rule where "ask_match (env_urlparse example_env) (pol_rules pol)
        (tool_name (example_tool ''bash'' DANGEROUS)) (bash_call ''git push origin'') None = Inr (Some rule)"
    by (auto split: sum.splits option.splits)
  with ask_rule_needs_a_person [OF ev this] ev show ?thesis by blast
qed

lemma evaluate_core_decided:
  assumes "evaluate_core env pol t args ctx = Inr r"
  shows "behavior r \<noteq> PB_PASSTHROUGH \<and> (pol_mode pol = PM_DONTASK \<longrightarrow> behavior r \<noteq> PB_ASK)"
proof -
  have final: "behavior (apply_final_mode pol p t) \<noteq> PB_PASSTHROUGH \<and>
      (pol_mode pol = PM_DONTASK \<longrightarrow> behavior (apply_final_mode pol p t) \<noteq> PB_ASK)"
    if "preflight env pol t a c = Inr (Some p)" for p a c
    using preflight_check.check_behavior [OF that] by (auto simp: apply_final_mode_behavior)
  from assms show ?thesis
  proof (cases rule: evaluate_core_preflight)
    case silent
    show ?thesis
    proof (cases "check_permissions t args ctx")
      case (Inl e)
      with assms silent have "behavior r = PB_DENY" by (auto simp: evaluate_core_def)
      then show ?thesis by simp
    next
      case (Inr tr)
      with assms silent show ?thesis
        by (cases "updated_arguments tr")
          (auto simp: evaluate_core_def bind_option_Inr_iff resolve_tool_result_decided dest: final)
    qed
  qed (use final in auto)
qed

text \<open>Evaluation always decides: whatever the tool answers, the result is never
  PASSTHROUGH, and in \<open>dontask\<close> mode it is never ASK, so that mode cannot block on a prompt.\<close>

theorem evaluation_decides:
  assumes "evaluate env pol0 t args given = (pol, Inr r)"
  shows "behavior r \<in> {PB_ALLOW, PB_ASK, PB_DENY} \<and> (pol_mode pol = PM_DONTASK \<longrightarrow> behavior r \<in> {PB_ALLOW, PB_DENY})"
  using assms
proof (cases rule: evaluate_cases)
  case core
  from evaluate_core_decided [OF core(2)] show ?thesis by (cases "behavior r") auto
qed simp

theorem evaluation_decides_witness:
  "\<exists>pol r. evaluate example_env (example_policy PM_DONTASK empty_rules) (example_tool ''bash'' DANGEROUS)
        (bash_call ''make'') None = (pol, Inr r) \<and> pol_mode pol = PM_DONTASK \<and> behavior r \<in> {PB_ALLOW, PB_DENY}"
proof -
  have "case evaluate example_env (example_policy PM_DONTASK empty_rules) (example_tool ''bash'' DANGEROUS)
      (bash_call ''make'') None of (pol, Inr r) \<Rightarrow> pol_mode pol = PM_DONTASK | (pol, Inl e) \<Rightarrow> False"
    by code_simp
  then obtain pol r where ev: "evaluate example_env (example_policy PM_DONTASK empty_rules)
      (example_tool ''bash'' DANGEROUS) (bash_call ''make'') None = (pol, Inr r)" "pol_mode pol = PM_DONTASK"
    by (rule run_evaluate_split)
  with evaluation_decides [OF ev(1)] show ?thesis by blast
qed

text \<open>Plan mode is read-only whatever the tool says of itself: a tool that writes or is
  dangerous and is not one of the registered planning capabilities is denied.\<close>

theorem plan_mode_read_only:
  assumes "evaluate env pol0 t args given = (pol, Inr r)"
    and "pol_mode pol = PM_PLAN" and "tool_risk t \<noteq> READ" and "tool_name t \<notin> set plan_capabilities"
  shows "behavior r = PB_DENY"
proof -
  have "ctx_mode (eval_context env pol t args given) = PM_PLAN"
    using assms(2) by (simp add: eval_context_def build_context_def split: option.splits)
  then have "check_plan t (eval_context env pol t args given) \<noteq> None"
    using assms(3,4) by (cases "tool_risk t") (simp_all add: check_plan_def)
  then show ?thesis
    by (intro evaluate_denied [OF assms(1), of "Inr (check_plan t (eval_context env pol t args given))"]) simp_all
qed

theorem plan_mode_read_only_witness:
  "\<exists>pol r. evaluate example_env (example_policy PM_PLAN empty_rules) (example_tool ''bash'' DANGEROUS)
        (bash_call ''ls'') None = (pol, Inr r) \<and> behavior r = PB_DENY"
proof -
  have "case evaluate example_env (example_policy PM_PLAN empty_rules) (example_tool ''bash'' DANGEROUS)
      (bash_call ''ls'') None of (pol, Inr r) \<Rightarrow> pol_mode pol = PM_PLAN | (pol, Inl e) \<Rightarrow> False"
    by code_simp
  then obtain pol r where ev: "evaluate example_env (example_policy PM_PLAN empty_rules)
      (example_tool ''bash'' DANGEROUS) (bash_call ''ls'') None = (pol, Inr r)" "pol_mode pol = PM_PLAN"
    by (rule run_evaluate_split)
  with plan_mode_read_only [OF ev] show ?thesis
    by (auto simp: example_tool_def plan_capabilities_def)
qed

text \<open>No unattended mode without isolation: in \<open>auto\<close>, \<open>dontask\<close> and \<open>bypass\<close> mode, when
  no enabled sandbox backs the call and the operator has not opted out (or the managed policy
  demands a sandbox whatever the opt-out), every call is denied.\<close>

theorem unattended_needs_sandbox:
  assumes "evaluate env pol0 t args None = (pol, Inr r)"
    and "pol_mode pol \<in> {PM_AUTO, PM_DONTASK, PM_BYPASS}"
    and "case pol_sandbox pol of None \<Rightarrow> True | Some sm \<Rightarrow> \<not> sm_is_enabled sm"
    and "\<not> pol_allow_unsandboxed pol \<or> require_sandbox_for_unattended (pol_managed pol)"
  shows "behavior r = PB_DENY"
proof -
  let ?ctx = "eval_context env pol t args None"
  have "\<not> sb_enabled (sandbox_state_for pol (tool_name t) args)"
    using assms(3)
    by (cases "pol_sandbox pol") (simp_all add: sandbox_state_for_def default_sandbox_state_def Let_def)
  then have "check_unattended pol ?ctx \<noteq> None"
    using assms(2,4) by (auto simp: check_unattended_def eval_context_def build_context_def)
  then show ?thesis
    by (intro evaluate_denied [OF assms(1), of "Inr (check_unattended pol ?ctx)"]) simp_all
qed

theorem unattended_needs_sandbox_witness:
  "\<exists>pol r. evaluate example_env ((example_policy PM_BYPASS empty_rules)\<lparr>pol_allow_unsandboxed := False\<rparr>)
        (example_tool ''read_text_file'' READ) [(''path'', PStr ''a.txt'')] None = (pol, Inr r) \<and> behavior r = PB_DENY"
proof -
  have "case evaluate example_env ((example_policy PM_BYPASS empty_rules)\<lparr>pol_allow_unsandboxed := False\<rparr>)
        (example_tool ''read_text_file'' READ) [(''path'', PStr ''a.txt'')] None of
        (pol, Inr r) \<Rightarrow> pol_mode pol = PM_BYPASS \<and> \<not> pol_allow_unsandboxed pol \<and>
          (case pol_sandbox pol of None \<Rightarrow> True | Some sm \<Rightarrow> \<not> sm_is_enabled sm)
      | (pol, Inl e) \<Rightarrow> False"
    by code_simp
  then obtain pol r where ev: "evaluate example_env
      ((example_policy PM_BYPASS empty_rules)\<lparr>pol_allow_unsandboxed := False\<rparr>)
      (example_tool ''read_text_file'' READ) [(''path'', PStr ''a.txt'')] None = (pol, Inr r)"
      "pol_mode pol = PM_BYPASS \<and> \<not> pol_allow_unsandboxed pol \<and>
       (case pol_sandbox pol of None \<Rightarrow> True | Some sm \<Rightarrow> \<not> sm_is_enabled sm)"
    by (rule run_evaluate_split)
  with unattended_needs_sandbox [OF ev(1)] show ?thesis by auto
qed

lemma effective_preflight:
  assumes "evaluate env pol0 t args None = (pol, Inr r)" and "behavior r = PB_ALLOW"
  shows "preflight env pol t (effective_arguments args r)
           (build_context env pol t (effective_arguments args r)) = Inr None"
  using assms(1)
proof (cases rule: evaluate_cases)
  case core
  show ?thesis
  proof (rule evaluate_core_allow [OF core(2) assms(2)])
    fix tr
    assume "preflight env pol t args (eval_context env pol t args None) = Inr None"
      and "updated_arguments r = updated_arguments tr"
      and "\<And>u. updated_arguments tr = Some u \<Longrightarrow> preflight env pol t u (build_context env pol t u) = Inr None"
    then show ?thesis
      by (cases "updated_arguments tr") (simp_all add: effective_arguments_def eval_context_def)
  qed
qed (use assms(2) in simp)

text \<open>C4. Every path an allowed call names stays in the workspace and off the secrets: for
  the arguments that will be executed (rewritten by the tool or not), each path target of a
  file tool or patch resolves inside the resolved workspace root, neither its text nor its
  resolution is a secret-bearing path, and if it is written, neither is a protected
  configuration path nor a git hook.\<close>

theorem allowed_paths_confined:
  assumes "evaluate env pol0 t args None = (pol, Inr r)" and "behavior r = PB_ALLOW"
    and "target \<in> set (extract_path_targets (tool_name t) (effective_arguments args r))"
  shows "target_clear (env_platform env) (build_context env pol t (effective_arguments args r)) target"
  using effective_preflight [OF assms(1,2)] assms(3)
  by (auto simp: preflight_None_iff dest: inspect_paths_None)

definition edit_call :: pydict where
  "edit_call = [(''path'', PStr ''src/a.txt''), (''old'', PStr ''x''), (''new'', PStr ''y'')]"

theorem allowed_paths_confined_witness:
  "\<exists>pol. target_clear example_platform (build_context example_env pol (example_tool ''edit_file'' WRITE) edit_call)
     \<lparr>pt_raw = ''src/a.txt'', pt_operation = Op_write\<rparr>"
proof -
  have "case evaluate example_env (example_policy PM_ACCEPTEDITS empty_rules) (example_tool ''edit_file'' WRITE)
        edit_call None of (pol, Inr r) \<Rightarrow> behavior r = PB_ALLOW \<and> updated_arguments r = None
      | (pol, Inl e) \<Rightarrow> False"
    by code_simp
  then obtain pol r where ev: "evaluate example_env (example_policy PM_ACCEPTEDITS empty_rules)
      (example_tool ''edit_file'' WRITE) edit_call None = (pol, Inr r)"
      "behavior r = PB_ALLOW \<and> updated_arguments r = None"
    by (rule run_evaluate_split)
  have "\<lparr>pt_raw = ''src/a.txt'', pt_operation = Op_write\<rparr> \<in>
      set (extract_path_targets (tool_name (example_tool ''edit_file'' WRITE)) edit_call)"
    by code_simp
  then show ?thesis
    using allowed_paths_confined [OF ev(1), of "\<lparr>pt_raw = ''src/a.txt'', pt_operation = Op_write\<rparr>"] ev(2)
    by (auto simp: effective_arguments_def example_env_def)
qed

text \<open>A web fetch that is allowed goes to an \<open>http\<close> or \<open>https\<close> target with a host that is
  not on the blocked list, that is on the allowed list when the tool runs unattended, and that
  is not the literal address of an internal network.\<close>

theorem allowed_fetch_is_public:
  assumes "evaluate env pol0 t args None = (pol, Inr r)" and "behavior r = PB_ALLOW"
    and "tool_name t = ''web_fetch''"
  shows "endpoint_clear (env_platform env) (build_context env pol t (effective_arguments args r))
           (py_str (dict_get (effective_arguments args r) ''url'' (PStr [])))"
  using effective_preflight [OF assms(1,2)] assms(3)
  by (auto simp: preflight_None_iff check_web_def dest: check_web_endpoint_None)

theorem allowed_fetch_is_public_witness:
  "\<exists>pol. endpoint_clear example_platform
      (build_context example_env pol (example_tool ''web_fetch'' READ) [(''url'', PStr ''https://example.org/'')])
      ''https://example.org/''"
proof -
  have "case evaluate example_env (example_policy PM_DEFAULT empty_rules) (example_tool ''web_fetch'' READ)
        [(''url'', PStr ''https://example.org/'')] None of
        (pol, Inr r) \<Rightarrow> behavior r = PB_ALLOW \<and> updated_arguments r = None | (pol, Inl e) \<Rightarrow> False"
    by code_simp
  then obtain pol r where ev: "evaluate example_env (example_policy PM_DEFAULT empty_rules)
      (example_tool ''web_fetch'' READ) [(''url'', PStr ''https://example.org/'')] None = (pol, Inr r)"
      "behavior r = PB_ALLOW \<and> updated_arguments r = None"
    by (rule run_evaluate_split)
  have "py_str (dict_get [(''url'', PStr ''https://example.org/'')] ''url'' (PStr [])) = ''https://example.org/''"
    "tool_name (example_tool ''web_fetch'' READ) = ''web_fetch''"
    "env_platform example_env = example_platform"
    by (simp_all add: dict_get_def example_tool_def example_env_def)
  with allowed_fetch_is_public [OF ev(1)] ev(2) show ?thesis by (auto simp: effective_arguments_def)
qed

section \<open>Failing closed\<close>

text \<open>Internal failures never fail open: if the managed policy cannot be loaded, the call is
  denied and the loaded rules are kept; if the tool's own check raises after a silent
  preflight, the call is denied.\<close>

theorem failures_deny:
  "(pol_managed_override pol0 = None \<longrightarrow> env_load_managed env = Inl e \<longrightarrow>
      (\<exists>pol r. evaluate env pol0 t args given = (pol, Inr r) \<and> behavior r = PB_DENY \<and>
         pol_rules pol = pol_rules pol0 \<and> pol_managed pol = pol_managed pol0)) \<and>
   (refresh_managed_policy env pol0 = (pol, None) \<longrightarrow>
      preflight env pol t args (eval_context env pol t args given) = Inr None \<longrightarrow>
      check_permissions t args (eval_context env pol t args given) = Inl e \<longrightarrow>
      (\<exists>r. evaluate env pol0 t args given = (pol, Inr r) \<and> behavior r = PB_DENY))"
  by (auto simp: evaluate_def evaluate_core_def eval_context_def refresh_managed_policy_def Let_def)

theorem failures_deny_witness:
  "\<exists>pol r. evaluate (example_env\<lparr>env_load_managed := Inl (OSError ''unreadable'')\<rparr>)
      (example_policy PM_BYPASS empty_rules) (example_tool ''bash'' DANGEROUS) (bash_call ''ls'') None = (pol, Inr r)
      \<and> behavior r = PB_DENY"
proof -
  have "pol_managed_override (example_policy PM_BYPASS empty_rules) = None"
    by (simp add: example_policy_def init_policy_def)
  moreover have "env_load_managed (example_env\<lparr>env_load_managed := Inl (OSError ''unreadable'')\<rparr>) = Inl (OSError ''unreadable'')"
    by simp
  ultimately show ?thesis
    using failures_deny [of "example_policy PM_BYPASS empty_rules"
      "example_env\<lparr>env_load_managed := Inl (OSError ''unreadable'')\<rparr>" "OSError ''unreadable''"
      "example_tool ''bash'' DANGEROUS" "bash_call ''ls''" None] by blast
qed

section \<open>Capability envelopes of sub-agents\<close>

definition may_spawn :: "permission_mode \<Rightarrow> permission_mode \<Rightarrow> bool" where
  "may_spawn parent child \<longleftrightarrow> child \<in> set (allowed_child_modes parent)"

lemma may_spawn_refl: "may_spawn m m"
  by (cases m) (simp_all add: may_spawn_def)

lemma may_spawn_trans: "may_spawn a b \<Longrightarrow> may_spawn b c \<Longrightarrow> may_spawn a c"
  by (cases a; cases b) (auto simp: may_spawn_def)

lemma may_spawn_rtranclp: "may_spawn\<^sup>*\<^sup>* a b \<Longrightarrow> may_spawn a b"
  by (induction rule: rtranclp_induct) (auto intro: may_spawn_refl may_spawn_trans)

text \<open>C15. A chain of sub-agents cannot climb out of its ancestor's envelope. If each agent
  of a chain was started in a mode its own parent may spawn, then a sub-agent at the end of
  the chain whose call is not denied runs in a mode that the first ancestor could have
  spawned directly; in particular nobody below a \<open>default\<close> or \<open>plan\<close> agent leaves that mode.\<close>

theorem subagent_chain_confined:
  assumes "may_spawn\<^sup>*\<^sup>* ancestor parent"
    and "pol_is_subagent pol" and "pol_parent_mode pol = Some parent"
    and "evaluate env pol0 t args None = (pol, Inr r)" and "behavior r \<noteq> PB_DENY"
  shows "may_spawn ancestor (pol_mode pol) \<and>
         (ancestor \<in> {PM_DEFAULT, PM_PLAN} \<longrightarrow> pol_mode pol = ancestor)"
proof -
  let ?ctx = "eval_context env pol t args None"
  have "check_subagent ?ctx = None"
    using evaluate_denied [OF assms(4), of "Inr (check_subagent ?ctx)"] assms(5)
    by (cases "check_subagent ?ctx") simp_all
  then have "may_spawn parent (pol_mode pol)"
    using assms(2,3) by (simp add: check_subagent_def eval_context_def build_context_def may_spawn_def split: if_splits)
  with may_spawn_rtranclp [OF assms(1)] have "may_spawn ancestor (pol_mode pol)" by (rule may_spawn_trans)
  then show ?thesis by (auto simp: may_spawn_def)
qed

theorem subagent_chain_confined_witness:
  "\<exists>pol::policy. may_spawn PM_AUTO (pol_mode pol) \<and> pol_mode pol = PM_ACCEPTEDITS"
proof -
  have "case evaluate example_env ((example_policy PM_ACCEPTEDITS empty_rules)
        \<lparr>pol_is_subagent := True, pol_parent_mode := Some PM_ACCEPTEDITS\<rparr>)
        (example_tool ''edit_file'' WRITE) edit_call None of
        (pol, Inr r) \<Rightarrow> behavior r \<noteq> PB_DENY \<and> pol_mode pol = PM_ACCEPTEDITS \<and> pol_is_subagent pol \<and>
           pol_parent_mode pol = Some PM_ACCEPTEDITS
      | (pol, Inl e) \<Rightarrow> False"
    by code_simp
  then obtain pol r where ev: "evaluate example_env ((example_policy PM_ACCEPTEDITS empty_rules)
        \<lparr>pol_is_subagent := True, pol_parent_mode := Some PM_ACCEPTEDITS\<rparr>)
        (example_tool ''edit_file'' WRITE) edit_call None = (pol, Inr r)"
      "behavior r \<noteq> PB_DENY \<and> pol_mode pol = PM_ACCEPTEDITS \<and> pol_is_subagent pol \<and>
           pol_parent_mode pol = Some PM_ACCEPTEDITS"
    by (rule run_evaluate_split)
  have "may_spawn\<^sup>*\<^sup>* PM_AUTO PM_ACCEPTEDITS" by (simp add: may_spawn_def r_into_rtranclp)
  from subagent_chain_confined [OF this _ _ ev(1)] ev(2) show ?thesis by (intro exI [of _ pol]) simp
qed

section \<open>Managed-only policies\<close>

lemma match_rules_from_scoped:
  assumes "match_rules up rules name args b src = Inr (Some r)"
  shows "\<exists>x\<in>set (scoped_rules rules name src). r = public_rule x b"
proof -
  let ?so = "sort_key_rev rule_sort_key (scoped_rules rules name src)"
  note unfolded = assms [unfolded match_rules_def scoped_rules_def [symmetric] Let_def]
  have ne: "?so \<noteq> []" using unfolded by (auto split: if_split_asm)
  have "\<exists>x\<in>set ?so. r = public_rule x b"
  proof (cases "find (\<lambda>r. pr_content r = None) ?so")
    case (Some whole)
    with unfolded ne show ?thesis using find_SomeD2 [OF Some] by auto
  next
    case None
    show ?thesis
    proof (cases "map_of shell_command_tools name")
      case (Some arg)
      with unfolded ne None have "r = public_rule (hd ?so) b" by (auto split: if_split_asm)
      with ne show ?thesis using hd_in_set by blast
    next
      case none: None
      with unfolded ne None obtain cand where "candidate_string args = Some cand"
        by (cases "candidate_string args") auto
      with unfolded ne None none show ?thesis
        by (auto simp: bind_res_Inr_iff dest!: find_res_SomeD)
    qed
  qed
  then show ?thesis by simp
qed

lemma match_rules_source:
  "match_rules up rules name args b (Some src) = Inr (Some r) \<Longrightarrow> rule_source r = src"
  by (auto simp: scoped_rules_def public_rule_def dest!: match_rules_from_scoped)

lemma grant_or_managed_only:
  assumes "allow_managed_rules_only (pol_managed pol)" and "grant_or env pol t args u d = Inr r"
  shows "r = d \<or> (\<exists>rule. matched_rule r = Some rule \<and> rule_source rule = RS_MANAGED)"
proof -
  obtain m where m: "policy_allow_match env pol (tool_name t) args = Inr m"
    "r = (case m of Some rule \<Rightarrow> result_allow ''allowed by rule'' DS_RULE u (Some rule) | None \<Rightarrow> d)"
    using assms by (auto simp: grant_or_def session_allowed_def bind_res_Inr_iff)
  show ?thesis
  proof (cases m)
    case (Some rule)
    with m assms(1) have "rule_source rule = RS_MANAGED"
      by (auto simp: policy_allow_match_def allow_match_def dest: match_rules_source)
    with m Some show ?thesis by (simp add: result_defs)
  qed (use m in simp)
qed

text \<open>Under \<open>allow_managed_rules_only\<close> the engine itself honours no other grant: if the
  tool left the decision open and the engine allowed the call because of a rule, then the rule
  came from the managed policy, so session grants and the user's or project's allow rules have
  no effect there.\<close>

theorem managed_only_engine_grants:
  assumes "evaluate env pol0 t args given = (pol, Inr r)" and "behavior r = PB_ALLOW"
    and "allow_managed_rules_only (pol_managed pol)" and "decision_source r = DS_RULE"
    and "check_permissions t args (eval_context env pol t args given) = Inr tr"
    and "behavior tr = PB_PASSTHROUGH"
  shows "\<exists>rule. matched_rule r = Some rule \<and> rule_source rule = RS_MANAGED"
  using assms(1)
proof (cases rule: evaluate_cases)
  case core
  have resolved: "resolve_tool_result env pol t (effective_arguments args tr) tr = Inr r"
    by (rule evaluate_core_allow [OF core(2) assms(2)]) (use assms(5) in simp)
  have fallback: "decision_source (apply_final_mode pol (risk_fallback pol t u) t) \<noteq> DS_RULE" for u
    by (simp add: risk_fallback_def apply_final_mode_def result_defs)
  show ?thesis
  proof (cases "grant_or env pol t (effective_arguments args tr) (updated_arguments tr)
      (apply_final_mode pol (risk_fallback pol t (updated_arguments tr)) t) = Inr r")
    case True
    from grant_or_managed_only [OF assms(3) this] fallback assms(4) show ?thesis by auto
  next
    case False
    with resolved assms(2,4,6) show ?thesis
      by (auto simp: resolve_tool_result_def result_defs apply_final_mode_def split: if_splits)
  qed
qed (use assms(2) in simp)

definition managed_only_env :: environment where
  "managed_only_env = example_env\<lparr>env_load_managed := Inr
     (example_managed\<lparr>md_managed_only := True, md_allow := [''bash(ls *)'']\<rparr>)\<rparr>"

theorem managed_only_engine_grants_witness:
  "\<exists>pol r. evaluate managed_only_env (example_policy PM_DEFAULT empty_rules) (example_tool ''bash'' DANGEROUS)
      (bash_call ''ls -l'') None = (pol, Inr r) \<and>
      (\<exists>rule. matched_rule r = Some rule \<and> rule_source rule = RS_MANAGED)"
proof -
  have "case evaluate managed_only_env (example_policy PM_DEFAULT empty_rules) (example_tool ''bash'' DANGEROUS)
      (bash_call ''ls -l'') None of
      (pol, Inr r) \<Rightarrow> behavior r = PB_ALLOW \<and> allow_managed_rules_only (pol_managed pol) \<and> decision_source r = DS_RULE
      | (pol, Inl e) \<Rightarrow> False"
    by code_simp
  then obtain pol r where ev: "evaluate managed_only_env (example_policy PM_DEFAULT empty_rules)
      (example_tool ''bash'' DANGEROUS) (bash_call ''ls -l'') None = (pol, Inr r)"
      "behavior r = PB_ALLOW \<and> allow_managed_rules_only (pol_managed pol) \<and> decision_source r = DS_RULE"
    by (rule run_evaluate_split)
  have tr: "check_permissions (example_tool ''bash'' DANGEROUS) (bash_call ''ls -l'')
      (eval_context managed_only_env pol (example_tool ''bash'' DANGEROUS) (bash_call ''ls -l'') None) =
      Inr (result_passthrough ''no opinion'' None)"
    by (simp add: example_tool_def)
  from managed_only_engine_grants [OF ev(1) _ _ _ tr] ev show ?thesis by auto
qed

text \<open>The file tools do not respect \<open>allow_managed_rules_only\<close>: \<open>ordinary_write_permission\<close>
  matches allow rules of every source, so a project rule for \<open>edit_file\<close> still lets an edit
  through in default mode although the managed policy says that only managed rules count.\<close>

theorem managed_only_ignored_by_edits:
  "case evaluate managed_only_env (example_policy PM_DEFAULT (from_lists [''edit_file''] [] [] RS_PROJECT))
     (example_tool ''edit_file'' WRITE) edit_call None of
     (pol, Inr r) \<Rightarrow> allow_managed_rules_only (pol_managed pol) \<and> behavior r = PB_ALLOW \<and>
        map_option rule_source (matched_rule r) = Some RS_PROJECT
   | (pol, Inl e) \<Rightarrow> False"
  by code_simp

section \<open>Interactive grants\<close>

text \<open>What no answer to a prompt may change: the mode, the managed policy and the deny and ask
  rules; allow rules may only grow.\<close>

definition weaker_only_by_allow :: "policy \<Rightarrow> policy \<Rightarrow> bool" where
  "weaker_only_by_allow pol pol' \<longleftrightarrow>
     pol_mode pol' = pol_mode pol \<and> pol_managed pol' = pol_managed pol \<and>
     rs_deny (pol_rules pol') = rs_deny (pol_rules pol) \<and> rs_ask (pol_rules pol') = rs_ask (pol_rules pol) \<and>
     rs_deny (pol_session_rules pol') = rs_deny (pol_session_rules pol) \<and>
     rs_ask (pol_session_rules pol') = rs_ask (pol_session_rules pol) \<and>
     (\<exists>added. rs_allow (pol_rules pol') = rs_allow (pol_rules pol) @ added \<and>
        (\<forall>x\<in>set added. pr_source x = RS_SESSION))"

lemma weaker_refl: "weaker_only_by_allow pol pol"
  by (simp add: weaker_only_by_allow_def)

lemma weaker_trans: "weaker_only_by_allow a b \<Longrightarrow> weaker_only_by_allow b c \<Longrightarrow> weaker_only_by_allow a c"
  by (auto simp: weaker_only_by_allow_def)

lemma parse_rule_source: "parse_rule raw src = Some r \<Longrightarrow> pr_source r = src"
  by (auto simp: parse_rule_def Let_def split: if_splits prod.splits)

lemma from_lists_source:
  "x \<in> set (rs_allow (from_lists a d k src)) \<Longrightarrow> pr_source x = src"
  by (auto simp: from_lists_def Let_def map_filter_def intro: parse_rule_source)

lemma add_session_rule_weaker:
  assumes "add_session_rule pol rule = Inr pol'"
  shows "weaker_only_by_allow pol pol'"
  using assms from_lists_source [of _ "[rule]" "[]" "[]" RS_SESSION]
  by (auto simp: add_session_rule_def Let_def weaker_only_by_allow_def merge_rules_def split: if_splits)
    (auto simp: from_lists_def map_filter_def)

lemma add_session_rules_weaker: "add_session_rules pol rules = Inr pol' \<Longrightarrow> weaker_only_by_allow pol pol'"
  by (induction pol rules rule: add_session_rules.induct)
    (auto simp: bind_res_Inr_iff intro: weaker_refl weaker_trans dest: add_session_rule_weaker)

lemma weaker_last_updates: "weaker_only_by_allow pol (pol'\<lparr>pol_last_updates := u\<rparr>) = weaker_only_by_allow pol pol'"
  "weaker_only_by_allow (pol\<lparr>pol_last_updates := u\<rparr>) pol' = weaker_only_by_allow pol pol'"
  by (simp_all add: weaker_only_by_allow_def)

lemma apply_updates_weaker: "apply_updates persist pol ups = Inr pol' \<Longrightarrow> weaker_only_by_allow pol pol'"
  by (auto simp: apply_updates_def Let_def bind_res_Inr_iff weaker_last_updates split: if_splits
      dest: add_session_rules_weaker)

lemma remember_always_weaker: "weaker_only_by_allow pol (remember_always pol name args)"
  by (simp add: remember_always_def weaker_only_by_allow_def split: option.splits)

text \<open>No answer at the permission prompt weakens a prohibition. Whatever the prompter
  answers (once, always, rejection, or a structured response with any updates, with any
  outcome of writing the configuration file), the mode, the managed policy, and the deny and
  ask rules stay as they were; at most session-sourced allow rules are appended; and a
  decision that did not ask is returned unchanged.\<close>

theorem confirm_never_weakens:
  assumes "confirm persist prompter pol dec t args = Inr (pol', dec', args')"
  shows "weaker_only_by_allow pol pol' \<and>
         (\<not> dec_ask_user dec \<longrightarrow> pol' = pol \<and> dec' = dec \<and> args' = args)"
proof (cases "prompter = None \<or> \<not> dec_ask_user dec")
  case True
  then show ?thesis using assms by (auto simp: confirm_def weaker_refl split: option.splits)
next
  case False
  then obtain ask where ask: "prompter = Some ask" by auto
  let ?pol = "pol\<lparr>pol_last_updates := []\<rparr>"
  have base: "weaker_only_by_allow pol ?pol" by (simp add: weaker_last_updates weaker_refl)
  show ?thesis
  proof (cases "ask (permission_request_for ?pol dec t args)")
    case (Structured resp)
    with assms False ask base show ?thesis
      by (auto simp: confirm_def Let_def weaker_last_updates split: if_splits sum.splits dest: apply_updates_weaker)
  next
    case (Choice c)
    with assms False ask base show ?thesis
      by (auto simp: confirm_def Let_def split: if_splits intro: weaker_trans remember_always_weaker)
  qed
qed

theorem confirm_never_weakens_witness:
  "\<exists>pol'. confirm (\<lambda>_ _. Inr ()) (Some (\<lambda>_. Choice ''always'')) (example_policy PM_DEFAULT empty_rules)
      ((decision False ''needs confirmation'')\<lparr>dec_ask_user := True\<rparr>) (example_tool ''bash'' DANGEROUS)
      (bash_call ''make'') = Inr (pol', decision True ''user allowed for this session'', bash_call ''make'') \<and>
      weaker_only_by_allow (example_policy PM_DEFAULT empty_rules) pol'"
proof -
  let ?pol = "example_policy PM_DEFAULT empty_rules"
  let ?pol' = "remember_always (?pol\<lparr>pol_last_updates := []\<rparr>) (tool_name (example_tool ''bash'' DANGEROUS)) (bash_call ''make'')"
  have "confirm (\<lambda>_ _. Inr ()) (Some (\<lambda>_. Choice ''always'')) ?pol
      ((decision False ''needs confirmation'')\<lparr>dec_ask_user := True\<rparr>) (example_tool ''bash'' DANGEROUS)
      (bash_call ''make'') = Inr (?pol', decision True ''user allowed for this session'', bash_call ''make'')"
    by (simp add: confirm_def Let_def)
  from confirm_never_weakens [OF this] this show ?thesis by blast
qed

lemma check_update_error: "check_update pol u = Inl e \<Longrightarrow> \<exists>m. e = ValueError m"
  by (auto simp: check_update_def split: if_splits)

lemma apply_updates_rejected:
  assumes "u \<in> set ups" and "check_update pol u \<noteq> Inr ()"
  shows "\<exists>m. apply_updates persist pol ups = Inl (ValueError m)"
proof -
  obtain e where "check_update pol u = Inl e" using assms(2) by (cases "check_update pol u") auto
  with map_res_Inl [OF assms(1)] obtain e' y where "check_update pol y = Inl e'" "map_res (check_update pol) ups = Inl e'"
    by metis
  with check_update_error [of pol y e'] show ?thesis by (auto simp: apply_updates_def Let_def)
qed

text \<open>Grants from a structured answer are all or nothing. If one of the requested updates
  is not an allow rule, does not parse, would be written to disk although persistent grants
  are disabled, or the managed policy accepts only managed rules, then the whole answer counts
  as a refusal: nothing is written, no rule is added for any of the updates and no update is
  recorded.\<close>

theorem bad_update_refuses_everything:
  assumes "dec_ask_user dec" and "ask (permission_request_for (pol\<lparr>pol_last_updates := []\<rparr>) dec t args) = Structured resp"
    and "resp_allow resp" and "u \<in> set (resp_updates resp)"
    and "upd_behavior u \<noteq> PB_ALLOW \<or> allow_managed_rules_only (pol_managed pol) \<or> parse_rule (upd_rule u) RS_SESSION = None
         \<or> (upd_destination u \<noteq> PD_SESSION \<and> disable_persistent_grants (pol_managed pol))"
  shows "\<exists>why. confirm persist (Some ask) pol dec t args =
           Inr (pol\<lparr>pol_last_updates := []\<rparr>, decision False (''permission grant was not applied: '' @ why), args)"
proof -
  have "check_update (pol\<lparr>pol_last_updates := []\<rparr>) u \<noteq> Inr ()"
    using assms(5) by (auto simp: check_update_def from_lists_def map_filter_def)
  then obtain m where "apply_updates persist (pol\<lparr>pol_last_updates := []\<rparr>) (resp_updates resp) = Inl (ValueError m)"
    using apply_updates_rejected [OF assms(4)] by blast
  then show ?thesis using assms(1-3) by (auto simp: confirm_def Let_def)
qed

definition example_response :: permission_response where
  "example_response = \<lparr>resp_allow = True,
     resp_updates = [\<lparr>upd_behavior = PB_ALLOW, upd_rule = ''bash(ls *)'', upd_destination = PD_SESSION\<rparr>,
                     \<lparr>upd_behavior = PB_ALLOW, upd_rule = ''bash('', upd_destination = PD_SESSION\<rparr>],
     resp_reason = [], resp_updated_arguments = None\<rparr>"

theorem bad_update_refuses_everything_witness:
  "\<exists>why. confirm (\<lambda>_ _. Inr ()) (Some (\<lambda>_. Structured example_response)) (example_policy PM_DEFAULT empty_rules)
     ((decision False ''needs confirmation'')\<lparr>dec_ask_user := True\<rparr>) (example_tool ''bash'' DANGEROUS) (bash_call ''ls'')
     = Inr ((example_policy PM_DEFAULT empty_rules)\<lparr>pol_last_updates := []\<rparr>,
            decision False (''permission grant was not applied: '' @ why), bash_call ''ls'')"
proof -
  have "parse_rule ''bash('' RS_SESSION = None" by code_simp
  then show ?thesis
    by (intro bad_update_refuses_everything [where resp = example_response
          and u = "\<lparr>upd_behavior = PB_ALLOW, upd_rule = ''bash('', upd_destination = PD_SESSION\<rparr>"])
      (simp_all add: example_response_def)
qed

text \<open>An \<open>always\<close> answer for a shell command grants exactly its subcommands. Afterwards a
  command of the same shell tool is covered by the session grants if and only if it has
  subcommands and each of them, normalised, was granted before or is a normalised subcommand
  of the confirmed command; other tools gain nothing by it.\<close>

theorem always_grants_exact_subcommands:
  assumes "map_of shell_command_tools name = Some arg" and "\<not> allow_managed_rules_only (pol_managed pol)"
  shows "(session_allowed (remember_always pol name args) name args' \<longleftrightarrow>
            shell_parts arg args' \<noteq> [] \<and>
            set (shell_parts arg args') \<subseteq> set (pol_session_allow_commands pol) \<union> set (shell_parts arg args)) \<and>
         (map_of shell_command_tools other = None \<longrightarrow>
            session_allowed (remember_always pol name args) other args' = session_allowed pol other args')"
proof -
  have fold_insert: "set (fold List.insert xs ys) = set xs \<union> set ys" for xs ys :: "string list"
    by (induction xs arbitrary: ys) auto
  show ?thesis
    using assms by (auto simp: session_allowed_def remember_always_def fold_insert list_all_iff)
qed

theorem always_grants_exact_subcommands_witness:
  "session_allowed (remember_always (example_policy PM_DEFAULT empty_rules) ''bash'' (bash_call ''make && ls''))
     ''bash'' (bash_call ''ls ; make'') \<and>
   \<not> session_allowed (remember_always (example_policy PM_DEFAULT empty_rules) ''bash'' (bash_call ''make && ls''))
     ''bash'' (bash_call ''make clean'')"
proof -
  let ?pol = "example_policy PM_DEFAULT empty_rules"
  have h: "map_of shell_command_tools ''bash'' = Some ''command''"
    "\<not> allow_managed_rules_only (pol_managed ?pol)"
    by code_simp+
  have "shell_parts ''command'' (bash_call ''ls ; make'') = [''ls'', ''make'']"
    "shell_parts ''command'' (bash_call ''make && ls'') = [''make'', ''ls'']"
    "shell_parts ''command'' (bash_call ''make clean'') = [''make clean'']"
    "pol_session_allow_commands ?pol = []"
    by code_simp+
  then show ?thesis
    using always_grants_exact_subcommands [OF h, of "bash_call ''make && ls''" "bash_call ''ls ; make''"]
      always_grants_exact_subcommands [OF h, of "bash_call ''make && ls''" "bash_call ''make clean''"]
    by auto
qed

end
