(* ===== verification/Cron.thy ===== *)
theory Cron
  imports Polaris_Prelude
begin

text \<open>
  The cron part of \<^verbatim>\<open>agent_core/scheduler.py\<close>: \<open>_parse_field\<close> and \<open>CronExpression\<close>, with the
  proleptic Gregorian calendar of Python's \<open>datetime\<close>. Adding a \<open>timedelta\<close> to an aware
  \<open>datetime\<close> moves the wall clock and ignores the zone, so \<open>add_minute\<close> works on calendar
  fields. What a time zone does (from a time stamp to wall-clock fields and back) is a
  parameter: zone data is not part of the repository.
\<close>

section \<open>Fields\<close>

definition cron_error :: "string \<Rightarrow> py_error" where
  "cron_error m = ValueError m"

text \<open>\<open>range(start, end + 1, step)\<close> for a positive step.\<close>

definition py_range :: "int \<Rightarrow> int \<Rightarrow> int \<Rightarrow> int list" where
  "py_range start stop step = filter (\<lambda>v. (v - start) mod step = 0) [start..stop - 1]"

definition parse_part :: "int \<Rightarrow> int \<Rightarrow> string \<Rightarrow> int list py_result" where
  "parse_part minimum maximum raw =
     (let part = py_strip raw
      in if part = [] then Inl (cron_error ''empty cron field component'')
         else (case partition_char (CHR ''/'') part of (base, slash, step_raw) \<Rightarrow>
           bind_res (if slash then py_int step_raw else Inr 1) (\<lambda>step.
           if step \<le> 0 then Inl (cron_error ''cron step must be positive'')
           else bind_res
             (if base = ''*'' then Inr (minimum, maximum)
              else (case partition_char (CHR ''-'') base of (left, dash, right) \<Rightarrow>
                 if dash
                 then bind_res (py_int left) (\<lambda>a. bind_res (py_int right) (\<lambda>b. Inr (a, b)))
                 else bind_res (py_int base) (\<lambda>a. Inr (a, a))))
             (\<lambda>(start, end).
               if start < minimum \<or> end > maximum \<or> start > end
               then Inl (cron_error ''cron value outside range'')
               else Inr (py_range start (end + 1) step)))))"

definition parse_field :: "string \<Rightarrow> int \<Rightarrow> int \<Rightarrow> int set py_result" where
  "parse_field raw minimum maximum =
     bind_res (map_res (parse_part minimum maximum) (split_char (CHR '','') raw))
       (\<lambda>parts. Inr (set (concat parts)))"

record cron_expression =
  minutes :: "int set"
  hours :: "int set"
  days :: "int set"
  months :: "int set"
  weekdays :: "int set"

definition cron_parse :: "string \<Rightarrow> cron_expression py_result" where
  "cron_parse value =
     (let fields = py_split value
      in if length fields \<noteq> 5 then Inl (cron_error ''cron must contain exactly five fields'')
         else bind_res (parse_field (fields ! 0) 0 59) (\<lambda>mi.
              bind_res (parse_field (fields ! 1) 0 23) (\<lambda>ho.
              bind_res (parse_field (fields ! 2) 1 31) (\<lambda>da.
              bind_res (parse_field (fields ! 3) 1 12) (\<lambda>mo.
              bind_res (parse_field (fields ! 4) 0 6) (\<lambda>we.
                Inr \<lparr>minutes = mi, hours = ho, days = da, months = mo, weekdays = we\<rparr>))))))"

section \<open>Calendar\<close>

record date_time =
  dt_year :: int
  dt_month :: int
  dt_day :: int
  dt_hour :: int
  dt_minute :: int

definition is_leap :: "int \<Rightarrow> bool" where
  "is_leap y \<longleftrightarrow> y mod 4 = 0 \<and> (y mod 100 \<noteq> 0 \<or> y mod 400 = 0)"

definition days_in_month :: "int \<Rightarrow> int \<Rightarrow> int" where
  "days_in_month y m =
     (if m = 2 then (if is_leap y then 29 else 28) else if m \<in> {4, 6, 9, 11} then 30 else 31)"

definition days_before_year :: "int \<Rightarrow> int" where
  "days_before_year y = (y - 1) * 365 + (y - 1) div 4 - (y - 1) div 100 + (y - 1) div 400"

definition days_before_month :: "int \<Rightarrow> int \<Rightarrow> int" where
  "days_before_month y m = sum_list (map (days_in_month y) [1..m - 1])"

definition to_ordinal :: "date_time \<Rightarrow> int" where
  "to_ordinal d = days_before_year (dt_year d) + days_before_month (dt_year d) (dt_month d) + dt_day d"

definition weekday :: "date_time \<Rightarrow> int" where
  "weekday d = (to_ordinal d + 6) mod 7"

definition next_day :: "date_time \<Rightarrow> date_time" where
  "next_day d =
     (if dt_day d < days_in_month (dt_year d) (dt_month d) then d\<lparr>dt_day := dt_day d + 1\<rparr>
      else if dt_month d < 12 then d\<lparr>dt_month := dt_month d + 1, dt_day := 1\<rparr>
      else d\<lparr>dt_year := dt_year d + 1, dt_month := 1, dt_day := 1\<rparr>)"

definition succ_minute :: "date_time \<Rightarrow> date_time" where
  "succ_minute d =
     (if dt_minute d < 59 then d\<lparr>dt_minute := dt_minute d + 1\<rparr>
      else if dt_hour d < 23 then d\<lparr>dt_hour := dt_hour d + 1, dt_minute := 0\<rparr>
      else (next_day d)\<lparr>dt_hour := 0, dt_minute := 0\<rparr>)"

text \<open>\<open>+ timedelta(minutes=1)\<close>: years beyond 9999 do not exist.\<close>

definition add_minute :: "date_time \<Rightarrow> date_time py_result" where
  "add_minute d =
     (if dt_year (succ_minute d) > 9999 then Inl (OverflowError ''date value out of range'')
      else Inr (succ_minute d))"

section \<open>Occurrences\<close>

definition cron_matches :: "cron_expression \<Rightarrow> date_time \<Rightarrow> bool" where
  "cron_matches c d \<longleftrightarrow>
     dt_minute d \<in> minutes c \<and> dt_hour d \<in> hours c \<and> dt_day d \<in> days c \<and> dt_month d \<in> months c
     \<and> (weekday d + 1) mod 7 \<in> weekdays c"

text \<open>A time zone: the wall-clock minute of a time stamp, and the time stamp of a wall-clock
  minute (\<open>fold\<close> is 0 after any addition).\<close>

record zone_info =
  zone_local :: "real \<Rightarrow> date_time"
  zone_timestamp :: "date_time \<Rightarrow> real"

type_synonym zones = "string \<Rightarrow> zone_info py_result"

definition cron_horizon :: nat where
  "cron_horizon = 60 * 24 * 366 * 2"

fun next_loop :: "cron_expression \<Rightarrow> nat \<Rightarrow> date_time \<Rightarrow> date_time py_result" where
  "next_loop c 0 current = Inl (cron_error ''cron has no occurrence within two years'')"
| "next_loop c (Suc n) current =
     (if cron_matches c current then Inr current else bind_res (add_minute current) (next_loop c n))"

definition next_after :: "zones \<Rightarrow> cron_expression \<Rightarrow> real \<Rightarrow> string \<Rightarrow> real py_result" where
  "next_after zs c timestamp timezone =
     bind_res (zs timezone) (\<lambda>zone.
     bind_res (add_minute (zone_local zone timestamp)) (\<lambda>start.
     bind_res (next_loop c cron_horizon start) (\<lambda>d. Inr (zone_timestamp zone d))))"

section \<open>The calendar counts minutes\<close>

definition valid_time :: "date_time \<Rightarrow> bool" where
  "valid_time d \<longleftrightarrow> 1 \<le> dt_year d \<and> 1 \<le> dt_month d \<and> dt_month d \<le> 12 \<and>
     1 \<le> dt_day d \<and> dt_day d \<le> days_in_month (dt_year d) (dt_month d) \<and>
     0 \<le> dt_hour d \<and> dt_hour d \<le> 23 \<and> 0 \<le> dt_minute d \<and> dt_minute d \<le> 59"

definition abs_minute :: "date_time \<Rightarrow> int" where
  "abs_minute d = to_ordinal d * 1440 + dt_hour d * 60 + dt_minute d"

lemma days_in_month_bounds: "28 \<le> days_in_month y m \<and> days_in_month y m \<le> 31"
  by (simp add: days_in_month_def)

lemma days_before_month_Suc: "1 \<le> m \<Longrightarrow> days_before_month y (m + 1) = days_before_month y m + days_in_month y m"
  by (simp add: days_before_month_def upto_rec2)

lemma days_before_month_mono: "m \<le> n \<Longrightarrow> 1 \<le> m \<Longrightarrow> days_before_month y m \<le> days_before_month y n"
proof (induction n rule: int_ge_induct)
  case (step i)
  then show ?case using days_before_month_Suc [of i y] days_in_month_bounds [of y i] by linarith
qed simp

lemma days_before_month_1 [simp]: "days_before_month y 1 = 0"
  by (simp add: days_before_month_def)

lemma days_before_month_12: "days_before_month y 12 = (if is_leap y then 335 else 334)"
  by (simp add: days_before_month_def days_in_month_def upto_rec1)

lemma div_step:
  assumes "0 < n"
  shows "(y::int) div n = (y - 1) div n + (if y mod n = 0 then 1 else 0)"
proof -
  define q r where "q = y div n" and "r = y mod n"
  have y: "y = n * q + r" and r: "0 \<le> r" "r < n"
    using assms by (simp_all add: q_def r_def)
  show ?thesis
  proof (cases "r = 0")
    case True
    then have "y - 1 = (n - 1) + n * (q - 1)" using y by (simp add: algebra_simps)
    then have "(y - 1) div n = ((n - 1) + n * (q - 1)) div n" by (rule arg_cong)
    also have "\<dots> = (q - 1) + (n - 1) div n" using assms by (intro div_mult_self2) simp
    finally have "(y - 1) div n = (q - 1) + (n - 1) div n" .
    moreover have "(n - 1) div n = 0" using assms by (simp add: div_pos_pos_trivial)
    ultimately show ?thesis using True by (simp add: q_def r_def)
  next
    case False
    then have "y - 1 = (r - 1) + n * q" using y by simp
    then have "(y - 1) div n = ((r - 1) + n * q) div n" by (rule arg_cong)
    also have "\<dots> = q + (r - 1) div n" using assms by (intro div_mult_self2) simp
    finally have "(y - 1) div n = q + (r - 1) div n" .
    moreover have "(r - 1) div n = 0" using r False by (simp add: div_pos_pos_trivial)
    ultimately show ?thesis using False by (simp add: q_def r_def)
  qed
qed

lemma days_before_year_Suc: "days_before_year (y + 1) = days_before_year y + 365 + (if is_leap y then 1 else 0)"
proof -
  define a b c where "a = (y - 1) div 4" and "b = (y - 1) div 100" and "c = (y - 1) div 400"
  define p q r where "p = (y mod 4 = 0)" and "q = (y mod 100 = 0)" and "r = (y mod 400 = 0)"
  have chain: "q \<Longrightarrow> p" "r \<Longrightarrow> q"
    using dvd_trans [of 4 100 y] dvd_trans [of 100 400 y] by (simp_all add: p_def q_def r_def mod_eq_0_iff_dvd)
  have "y div 4 = a + (if p then 1 else 0)" "y div 100 = b + (if q then 1 else 0)"
    "y div 400 = c + (if r then 1 else 0)"
    unfolding a_def b_def c_def p_def q_def r_def by (rule div_step, simp)+
  then have "days_before_year (y + 1) =
      y * 365 + (a + (if p then 1 else 0)) - (b + (if q then 1 else 0)) + (c + (if r then 1 else 0))"
    unfolding days_before_year_def by simp
  moreover have "days_before_year y = (y - 1) * 365 + a - b + c"
    unfolding days_before_year_def a_def b_def c_def ..
  moreover have "is_leap y \<longleftrightarrow> p \<and> (\<not> q \<or> r)"
    unfolding is_leap_def p_def q_def r_def by simp
  ultimately show ?thesis using chain by (cases p; cases q; cases r) simp_all
qed

lemma days_before_year_mono: "y \<le> z \<Longrightarrow> days_before_year y \<le> days_before_year z"
proof (induction z rule: int_ge_induct)
  case (step i)
  then show ?case using days_before_year_Suc [of i] by (simp split: if_splits)
qed simp

lemma next_day_ordinal: "valid_time d \<Longrightarrow> to_ordinal (next_day d) = to_ordinal d + 1"
  using days_before_month_Suc [of "dt_month d" "dt_year d"] days_before_year_Suc [of "dt_year d"]
    days_before_month_12 [of "dt_year d"]
  by (auto simp: next_day_def to_ordinal_def valid_time_def days_in_month_def)

lemma next_day_valid: "valid_time d \<Longrightarrow> valid_time (next_day d)"
  using days_in_month_bounds [of "dt_year d" "dt_month d + 1"] days_in_month_bounds [of "dt_year d + 1" 1]
  by (auto simp: next_day_def valid_time_def)

lemma succ_minute_valid: "valid_time d \<Longrightarrow> valid_time (succ_minute d)"
  using next_day_valid [of d] by (auto simp: succ_minute_def valid_time_def)

lemma next_day_time [simp]: "dt_hour (next_day d) = dt_hour d" "dt_minute (next_day d) = dt_minute d"
  by (simp_all add: next_day_def)

lemma to_ordinal_time [simp]: "to_ordinal (d\<lparr>dt_hour := h, dt_minute := m\<rparr>) = to_ordinal d"
  "to_ordinal (d\<lparr>dt_minute := m\<rparr>) = to_ordinal d" "to_ordinal (d\<lparr>dt_hour := h\<rparr>) = to_ordinal d"
  by (simp_all add: to_ordinal_def)

lemma succ_minute_abs: "valid_time d \<Longrightarrow> abs_minute (succ_minute d) = abs_minute d + 1"
  using next_day_ordinal [of d] by (auto simp: succ_minute_def abs_minute_def valid_time_def)

lemma ordinal_in_year:
  assumes "valid_time d"
  shows "days_before_year (dt_year d) < to_ordinal d" "to_ordinal d \<le> days_before_year (dt_year d + 1)"
proof -
  have m: "1 \<le> dt_month d" "dt_month d \<le> 12" using assms by (auto simp: valid_time_def)
  have "days_before_month (dt_year d) 13 = (if is_leap (dt_year d) then 366 else 365)"
    using days_before_month_Suc [of 12 "dt_year d"] by (simp add: days_before_month_12 days_in_month_def)
  moreover have "days_before_month (dt_year d) (dt_month d + 1) \<le> days_before_month (dt_year d) 13"
    using m by (intro days_before_month_mono) auto
  moreover have "0 \<le> days_before_month (dt_year d) (dt_month d)"
    using days_before_month_mono [of 1 "dt_month d" "dt_year d"] m by simp
  ultimately show "days_before_year (dt_year d) < to_ordinal d" "to_ordinal d \<le> days_before_year (dt_year d + 1)"
    using assms days_before_month_Suc [OF m(1)] days_before_year_Suc [of "dt_year d"]
    by (auto simp: to_ordinal_def valid_time_def split: if_splits)
qed

lemma ordinal_less_year: "valid_time d \<Longrightarrow> valid_time e \<Longrightarrow> dt_year d < dt_year e \<Longrightarrow> to_ordinal d < to_ordinal e"
  using ordinal_in_year(2) [of d] ordinal_in_year(1) [of e] days_before_year_mono [of "dt_year d + 1" "dt_year e"]
  by simp

lemma ordinal_less_month:
  assumes "valid_time d" "valid_time e" "dt_year d = dt_year e" "dt_month d < dt_month e"
  shows "to_ordinal d < to_ordinal e"
proof -
  have "days_before_month (dt_year d) (dt_month d) + dt_day d \<le> days_before_month (dt_year d) (dt_month d + 1)"
    using assms(1) days_before_month_Suc [of "dt_month d" "dt_year d"] by (simp add: valid_time_def)
  also have "\<dots> \<le> days_before_month (dt_year d) (dt_month e)"
    using assms by (intro days_before_month_mono) (auto simp: valid_time_def)
  finally show ?thesis using assms by (simp add: to_ordinal_def valid_time_def)
qed

lemma abs_minute_inj:
  assumes "valid_time d" "valid_time e" "abs_minute d = abs_minute e"
  shows "d = e"
proof -
  have t: "0 \<le> dt_hour x * 60 + dt_minute x \<and> dt_hour x * 60 + dt_minute x < 1440" if "valid_time x" for x
    using that by (auto simp: valid_time_def)
  have o: "to_ordinal d = to_ordinal e"
    using t [OF assms(1)] t [OF assms(2)] assms(3) unfolding abs_minute_def by linarith
  then have hm: "dt_hour d * 60 + dt_minute d = dt_hour e * 60 + dt_minute e"
    using assms(3) by (simp add: abs_minute_def)
  have y: "dt_year d = dt_year e"
    using o ordinal_less_year [of d e] ordinal_less_year [of e d] assms by (cases "dt_year d" "dt_year e" rule: linorder_cases) auto
  have m: "dt_month d = dt_month e"
    using o y ordinal_less_month [of d e] ordinal_less_month [of e d] assms
    by (cases "dt_month d" "dt_month e" rule: linorder_cases) auto
  have "dt_day d = dt_day e" using o y m by (simp add: to_ordinal_def)
  moreover have h: "dt_hour d = dt_hour e"
    using hm assms(1,2) unfolding valid_time_def by linarith
  moreover have "dt_minute d = dt_minute e" using hm h by simp
  ultimately show ?thesis using y m by simp
qed

lemma abs_less_year: "valid_time d \<Longrightarrow> valid_time e \<Longrightarrow> dt_year d < dt_year e \<Longrightarrow> abs_minute d < abs_minute e"
  using ordinal_less_year [of d e] by (auto simp: abs_minute_def valid_time_def)

section \<open>Fields denote what they say\<close>

lemma parse_part_spec:
  assumes "parse_part lo hi raw = Inr vs"
  obtains a b s where "lo \<le> a" "a \<le> b" "b \<le> hi" "0 < s" "set vs = {v. a \<le> v \<and> v \<le> b \<and> (v - a) mod s = 0}"
proof -
  have "\<exists>a b s. lo \<le> a \<and> a \<le> b \<and> b \<le> hi \<and> 0 < s \<and> vs = py_range a (b + 1) s"
    using assms
    by (auto simp: parse_part_def Let_def bind_res_Inr_iff not_less not_le split: if_splits prod.splits)
      (metis order_refl zero_less_one)+
  then obtain a b s where "lo \<le> a" "a \<le> b" "b \<le> hi" "0 < s" "vs = py_range a (b + 1) s" by blast
  moreover have "set (py_range a (b + 1) s) = {v. a \<le> v \<and> v \<le> b \<and> (v - a) mod s = 0}"
    by (auto simp: py_range_def)
  ultimately show thesis using that by simp
qed

lemma map_res_members:
  "map_res f xs = Inr ys \<Longrightarrow> y \<in> set ys \<Longrightarrow> \<exists>x\<in>set xs. f x = Inr y"
  by (induction xs arbitrary: ys) (auto simp: bind_res_Inr_iff)

lemma map_res_covers: "map_res f xs = Inr ys \<Longrightarrow> x \<in> set xs \<Longrightarrow> \<exists>y\<in>set ys. f x = Inr y"
  by (induction xs arbitrary: ys) (auto simp: bind_res_Inr_iff)

lemma parse_field_bounds:
  assumes "parse_field raw lo hi = Inr vs"
  shows "vs \<noteq> {} \<and> vs \<subseteq> {lo..hi}"
proof -
  obtain parts where p: "map_res (parse_part lo hi) (split_char (CHR '','') raw) = Inr parts"
    and vs: "vs = set (concat parts)"
    using assms by (auto simp: parse_field_def bind_res_Inr_iff)
  have ok: "set part \<noteq> {} \<and> set part \<subseteq> {lo..hi}" if part: "part \<in> set parts" for part
  proof -
    obtain piece where "parse_part lo hi piece = Inr part" using map_res_members [OF p part] by auto
    then obtain a b s where "lo \<le> a" "a \<le> b" "b \<le> hi" "0 < s"
      "set part = {v. a \<le> v \<and> v \<le> b \<and> (v - a) mod s = 0}" by (rule parse_part_spec)
    moreover have "a \<in> {v. a \<le> v \<and> v \<le> b \<and> (v - a) mod s = 0}" using \<open>a \<le> b\<close> by simp
    ultimately show ?thesis by auto
  qed
  have "parts \<noteq> []" using map_res_Inr_length [OF p] by (metis length_0_conv split_char_not_Nil)
  then show ?thesis using ok vs by (cases parts) auto
qed

text \<open>A schedule that parses can only name times that exist: every field of the expression
  is non-empty and within the range of its unit, so no accepted field is silently empty.\<close>

theorem cron_parse_well_formed:
  assumes "cron_parse text = Inr c"
  shows "minutes c \<noteq> {} \<and> minutes c \<subseteq> {0..59} \<and> hours c \<noteq> {} \<and> hours c \<subseteq> {0..23} \<and>
         days c \<noteq> {} \<and> days c \<subseteq> {1..31} \<and> months c \<noteq> {} \<and> months c \<subseteq> {1..12} \<and>
         weekdays c \<noteq> {} \<and> weekdays c \<subseteq> {0..6}"
proof -
  obtain a b d e f where "parse_field a 0 59 = Inr (minutes c)" "parse_field b 0 23 = Inr (hours c)"
    "parse_field d 1 31 = Inr (days c)" "parse_field e 1 12 = Inr (months c)"
    "parse_field f 0 6 = Inr (weekdays c)"
    using assms by (auto simp: cron_parse_def Let_def bind_res_Inr_iff split: if_splits)
  then show ?thesis using parse_field_bounds by blast
qed

theorem cron_parse_well_formed_witness:
  "\<exists>c. cron_parse ''*/15 9-17 1,15 * 1-5'' = Inr c \<and> minutes c \<subseteq> {0..59} \<and> minutes c \<noteq> {}"
proof -
  have "case cron_parse ''*/15 9-17 1,15 * 1-5'' of Inr c \<Rightarrow> minutes c = {0, 15, 30, 45} | Inl e \<Rightarrow> False"
    by code_simp
  then obtain c where "cron_parse ''*/15 9-17 1,15 * 1-5'' = Inr c" by (auto split: sum.splits)
  from cron_parse_well_formed [OF this] this show ?thesis by blast
qed

section \<open>The next occurrence\<close>

text \<open>The specification: the earliest matching wall-clock minute strictly after a given one.\<close>

definition earliest_after :: "cron_expression \<Rightarrow> date_time \<Rightarrow> date_time \<Rightarrow> bool" where
  "earliest_after c d0 d \<longleftrightarrow> valid_time d \<and> cron_matches c d \<and> abs_minute d0 < abs_minute d \<and>
     (\<forall>e. valid_time e \<longrightarrow> abs_minute d0 < abs_minute e \<longrightarrow> abs_minute e < abs_minute d \<longrightarrow> \<not> cron_matches c e)"

lemma next_loop_sound:
  assumes "next_loop c n cur = Inr d" and "valid_time cur"
  shows "valid_time d \<and> cron_matches c d \<and> abs_minute cur \<le> abs_minute d \<and> abs_minute d < abs_minute cur + int n \<and>
    (\<forall>e. valid_time e \<longrightarrow> abs_minute cur \<le> abs_minute e \<longrightarrow> abs_minute e < abs_minute d \<longrightarrow> \<not> cron_matches c e)"
  using assms
proof (induction n arbitrary: cur)
  case (Suc n)
  show ?case
  proof (cases "cron_matches c cur")
    case False
    with Suc.prems have step: "next_loop c n (succ_minute cur) = Inr d"
      by (auto simp: add_minute_def bind_res_Inr_iff split: if_splits)
    note ih = Suc.IH [OF step succ_minute_valid [OF Suc.prems(2)], unfolded succ_minute_abs [OF Suc.prems(2)]]
    have "\<not> cron_matches c e" if "valid_time e" "abs_minute cur \<le> abs_minute e" "abs_minute e < abs_minute d" for e
    proof (cases "abs_minute e = abs_minute cur")
      case True
      then show ?thesis using abs_minute_inj [OF that(1) Suc.prems(2)] False by simp
    qed (use ih that in simp)
    then show ?thesis using ih by simp
  qed (use Suc.prems in auto)
qed simp

lemma next_loop_complete:
  assumes "valid_time cur" "valid_time e" "dt_year e \<le> 9999" "cron_matches c e"
    and "abs_minute cur \<le> abs_minute e" "abs_minute e < abs_minute cur + int n"
  shows "\<exists>d. next_loop c n cur = Inr d"
  using assms
proof (induction n arbitrary: cur)
  case (Suc n)
  show ?case
  proof (cases "cron_matches c cur")
    case False
    then have "abs_minute cur \<noteq> abs_minute e" using abs_minute_inj Suc.prems by metis
    then have le: "abs_minute (succ_minute cur) \<le> abs_minute e" using Suc.prems succ_minute_abs by simp
    then have "\<not> dt_year e < dt_year (succ_minute cur)"
      using abs_less_year [OF Suc.prems(2) succ_minute_valid [OF Suc.prems(1)]] by auto
    then have "add_minute cur = Inr (succ_minute cur)" using Suc.prems(3) by (simp add: add_minute_def)
    moreover have "\<exists>d. next_loop c n (succ_minute cur) = Inr d"
      using Suc.prems le succ_minute_abs [OF Suc.prems(1)] by (intro Suc.IH succ_minute_valid) auto
    ultimately show ?thesis using False by simp
  qed simp
qed simp

lemma next_after_cases:
  assumes "next_after zs c ts tz = Inr t" and "zs tz = Inr zone" and "valid_time (zone_local zone ts)"
  obtains d where "t = zone_timestamp zone d" "earliest_after c (zone_local zone ts) d"
    "abs_minute d \<le> abs_minute (zone_local zone ts) + int cron_horizon"
proof -
  let ?d0 = "zone_local zone ts"
  obtain d where d: "next_loop c cron_horizon (succ_minute ?d0) = Inr d" "t = zone_timestamp zone d"
    using assms by (auto simp: next_after_def bind_res_Inr_iff add_minute_def split: if_splits)
  note s = next_loop_sound [OF d(1) succ_minute_valid [OF assms(3)], unfolded succ_minute_abs [OF assms(3)]]
  have "earliest_after c ?d0 d" unfolding earliest_after_def using s by auto
  with d s show thesis using that by simp
qed

lemma next_after_exists:
  assumes "zs tz = Inr zone" and v: "valid_time (zone_local zone ts)"
    and e: "valid_time e" "dt_year e \<le> 9999" "cron_matches c e" "abs_minute (zone_local zone ts) < abs_minute e"
      "abs_minute e \<le> abs_minute (zone_local zone ts) + int cron_horizon"
  shows "\<exists>t. next_after zs c ts tz = Inr t"
proof -
  let ?d0 = "zone_local zone ts"
  have "\<not> dt_year e < dt_year (succ_minute ?d0)"
    using abs_less_year [OF e(1) succ_minute_valid [OF v]] e(4) succ_minute_abs [OF v] by auto
  then have "add_minute ?d0 = Inr (succ_minute ?d0)" using e(2) by (simp add: add_minute_def)
  moreover obtain d where "next_loop c cron_horizon (succ_minute ?d0) = Inr d"
    using next_loop_complete [OF succ_minute_valid [OF v] e(1,2,3), of cron_horizon] e(4,5)
      succ_minute_abs [OF v] by auto
  ultimately show ?thesis using assms(1) by (simp add: next_after_def)
qed

text \<open>C32. \<open>next_after\<close> finds the next occurrence: what it returns is the time stamp of the earliest
  matching wall-clock minute strictly after the given instant, and whenever some minute within
  the two-year search window matches, it does return one. (So the minute-by-minute loop skips
  nothing, in particular at month ends, leap days and year ends.)\<close>

theorem next_after_earliest:
  assumes "zs tz = Inr zone" and "valid_time (zone_local zone ts)"
  shows "(\<forall>t. next_after zs c ts tz = Inr t \<longrightarrow>
            (\<exists>d. t = zone_timestamp zone d \<and> earliest_after c (zone_local zone ts) d)) \<and>
         ((\<exists>e. valid_time e \<and> dt_year e \<le> 9999 \<and> cron_matches c e \<and> abs_minute (zone_local zone ts) < abs_minute e \<and>
               abs_minute e \<le> abs_minute (zone_local zone ts) + int cron_horizon) \<longrightarrow>
            (\<exists>t. next_after zs c ts tz = Inr t))"
proof (intro conjI allI impI)
  fix t assume "next_after zs c ts tz = Inr t"
  from next_after_cases [OF this assms] show "\<exists>d. t = zone_timestamp zone d \<and> earliest_after c (zone_local zone ts) d"
    by metis
qed (use next_after_exists [of zs tz zone ts, OF assms] in blast)

text \<open>Concrete data for the witnesses: a zone whose clock stands at the given wall time.\<close>

definition at_time :: "int \<Rightarrow> int \<Rightarrow> int \<Rightarrow> int \<Rightarrow> int \<Rightarrow> date_time" where
  "at_time y mo da h mi = \<lparr>dt_year = y, dt_month = mo, dt_day = da, dt_hour = h, dt_minute = mi\<rparr>"

definition fixed_zone :: "date_time \<Rightarrow> zone_info" where
  "fixed_zone d = \<lparr>zone_local = \<lambda>_. d, zone_timestamp = \<lambda>e. real_of_int (60 * (abs_minute e - abs_minute d))\<rparr>"

definition month_end_cron :: cron_expression where
  "month_end_cron = \<lparr>minutes = {0}, hours = {0}, days = {1}, months = {3}, weekdays = {0..6}\<rparr>"

lemma month_end_facts:
  "valid_time (at_time 2024 2 29 23 50)" "valid_time (at_time 2024 3 1 0 0)"
  "cron_matches month_end_cron (at_time 2024 3 1 0 0)" "dt_year (at_time 2024 3 1 0 0) \<le> 9999"
  "abs_minute (at_time 2024 2 29 23 50) < abs_minute (at_time 2024 3 1 0 0)"
  "abs_minute (at_time 2024 3 1 0 0) \<le> abs_minute (at_time 2024 2 29 23 50) + int cron_horizon"
proof -
  have "abs_minute (at_time 2024 3 1 0 0) = abs_minute (at_time 2024 2 29 23 50) + 10" by code_simp
  moreover have "10 \<le> int cron_horizon" by (simp add: cron_horizon_def)
  ultimately show "abs_minute (at_time 2024 2 29 23 50) < abs_minute (at_time 2024 3 1 0 0)"
    "abs_minute (at_time 2024 3 1 0 0) \<le> abs_minute (at_time 2024 2 29 23 50) + int cron_horizon" by linarith+
qed code_simp+

lemma fixed_zone_local [simp]: "zone_local (fixed_zone d) t = d"
  by (simp add: fixed_zone_def)

theorem next_after_earliest_witness:
  "\<exists>t. next_after (\<lambda>_. Inr (fixed_zone (at_time 2024 2 29 23 50))) month_end_cron 0 ''UTC'' = Inr t"
  using next_after_earliest [of "\<lambda>_. Inr (fixed_zone (at_time 2024 2 29 23 50))" "''UTC''"
      "fixed_zone (at_time 2024 2 29 23 50)" 0 month_end_cron] month_end_facts
  by auto

lemma month_end_next:
  "\<exists>t. next_after (\<lambda>_. Inr (fixed_zone (at_time 2024 2 29 23 50))) month_end_cron 0 ''UTC'' = Inr t"
  using month_end_facts
  by (intro next_after_exists [of _ _ "fixed_zone (at_time 2024 2 29 23 50)" _ "at_time 2024 3 1 0 0"]) auto

lemma month_end_text: "cron_parse ''0 0 1 3 *'' = Inr month_end_cron"
proof -
  have "case cron_parse ''0 0 1 3 *'' of Inr c \<Rightarrow> c = month_end_cron | Inl e \<Rightarrow> False"
    by code_simp
  then show ?thesis by (auto split: sum.splits)
qed

section \<open>A schedule with no next occurrence\<close>

text \<open>From any time on 29 February 2028, a schedule for midnight of 29 February has its next
  occurrence in 2032, outside the two-year window.\<close>

definition leap_cron :: cron_expression where
  "leap_cron = \<lparr>minutes = {0}, hours = {0}, days = {29}, months = {2}, weekdays = {0..6}\<rparr>"

lemma leap_cron_text: "cron_parse ''0 0 29 2 *'' = Inr leap_cron"
proof -
  have "case cron_parse ''0 0 29 2 *'' of Inr c \<Rightarrow> c = leap_cron | Inl e \<Rightarrow> False"
    by code_simp
  then show ?thesis by (auto split: sum.splits)
qed

lemma leap_cron_exhausted:
  assumes "zs tz = Inr zone" and "valid_time (zone_local zone ts)"
    and "dt_year (zone_local zone ts) = 2028" "dt_month (zone_local zone ts) = 2" "dt_day (zone_local zone ts) = 29"
  shows "\<exists>e. next_after zs leap_cron ts tz = Inl e"
proof (rule ccontr)
  let ?d0 = "zone_local zone ts"
  assume "\<not> ?thesis"
  then obtain t where "next_after zs leap_cron ts tz = Inr t"
    by (cases "next_after zs leap_cron ts tz") auto
  from next_after_cases [OF this assms(1,2)] obtain d where
    e: "earliest_after leap_cron ?d0 d" and hz: "abs_minute d \<le> abs_minute ?d0 + int cron_horizon" by metis
  have d: "valid_time d" "dt_minute d = 0" "dt_hour d = 0" "dt_day d = 29" "dt_month d = 2"
    and later: "abs_minute ?d0 < abs_minute d"
    using e by (auto simp: earliest_after_def cron_matches_def leap_cron_def)
  have leap: "is_leap (dt_year d)"
    using d by (auto simp: valid_time_def days_in_month_def split: if_splits)
  have ord0: "to_ordinal ?d0 = days_before_year 2028 + 60"
    using assms(3-5) by (simp add: to_ordinal_def days_before_month_def days_in_month_def upto_rec1)
  have min0: "0 \<le> dt_hour ?d0 * 60 + dt_minute ?d0 \<and> dt_hour ?d0 * 60 + dt_minute ?d0 < 1440"
    using assms(2) by (auto simp: valid_time_def)
  have "2028 \<le> dt_year d"
    using abs_less_year [OF d(1) assms(2)] later assms(3) by (cases "dt_year d < 2028") auto
  moreover have "dt_year d \<noteq> 2028"
  proof
    assume "dt_year d = 2028"
    then have "to_ordinal d = to_ordinal ?d0" using d assms(3-5) by (simp add: to_ordinal_def)
    then show False using later d min0 by (simp add: abs_minute_def)
  qed
  moreover have "dt_year d \<notin> {2029, 2030, 2031}" using leap by (auto simp: is_leap_def)
  ultimately have "2032 \<le> dt_year d" by auto
  then have "days_before_year 2032 < to_ordinal d"
    using days_before_year_mono [of 2032 "dt_year d"] ordinal_in_year(1) [OF d(1)] by linarith
  moreover have "days_before_year 2032 = days_before_year 2028 + 1461" by code_simp
  ultimately have "to_ordinal ?d0 + 1401 < to_ordinal d" using ord0 by linarith
  then show False using hz min0 d by (simp add: abs_minute_def cron_horizon_def)
qed

end
