(* ===== verification/Scheduler_Store.thy ===== *)
theory Scheduler_Store
  imports Cron
begin

text \<open>
  \<open>SchedulerStore\<close> of \<^verbatim>\<open>agent_core/scheduler.py\<close>. The three SQLite tables are lists of rows in
  insertion order, with the primary keys and the cascading foreign key written out. Every
  method runs in one transaction: it maps a store to a store, and an exception (which rolls
  back) gives no store. A \<open>SELECT\<close> without a total order uses insertion order for ties. The
  clock is an argument; \<open>uuid4\<close> is the argument that names a new job. The redaction of error
  texts is the field \<open>cfg_safe_error\<close>.
\<close>

section \<open>Tables\<close>

record job =
  job_id :: string
  job_session :: string
  job_agent :: string
  job_schedule :: string
  job_timezone :: string
  job_prompt :: string
  job_persistent :: bool
  job_one_shot :: bool
  job_next_run :: real
  job_last_run :: "real option"
  job_missed :: nat
  job_inflight :: bool
  job_coalesced :: bool
  job_created :: real

datatype delivery_state = Pending | Running | Retry_wait | Dead_letter | Completed

record delivery =
  dl_id :: nat
  dl_job :: string
  dl_session :: string
  dl_agent :: string
  dl_prompt :: string
  dl_due :: real
  dl_state :: delivery_state
  dl_created :: real
  dl_attempts :: nat
  dl_available :: "real option"
  dl_claimed :: "real option"
  dl_lease :: "real option"
  dl_error :: "string option"
  dl_finished :: "real option"

record scheduler_store =
  st_jobs :: "job list"
  st_heartbeats :: "((string \<times> string) \<times> real) list"
  st_deliveries :: "delivery list"
  st_next_id :: nat

record scheduler_config =
  cfg_max_jobs :: nat
  cfg_max_prompt :: nat
  cfg_max_attempts :: nat
  cfg_retry_base :: real
  cfg_retry_max :: real
  cfg_lease :: real
  cfg_safe_error :: "string \<Rightarrow> string"

text \<open>\<open>__init__\<close>: the normalisation of the settings.\<close>

definition make_config ::
  "nat \<Rightarrow> nat \<Rightarrow> int \<Rightarrow> real \<Rightarrow> real \<Rightarrow> real \<Rightarrow> (string \<Rightarrow> string) \<Rightarrow> scheduler_config" where
  "make_config max_jobs max_prompt attempts base cap lease safe =
     \<lparr>cfg_max_jobs = max_jobs, cfg_max_prompt = max_prompt, cfg_max_attempts = nat (max 1 attempts),
      cfg_retry_base = max 0 base, cfg_retry_max = max (max 0 base) cap, cfg_lease = max 1 lease,
      cfg_safe_error = safe\<rparr>"

definition empty_store :: scheduler_store where
  "empty_store = \<lparr>st_jobs = [], st_heartbeats = [], st_deliveries = [], st_next_id = 1\<rparr>"

section \<open>SQL statements\<close>

definition find_job :: "scheduler_store \<Rightarrow> string \<Rightarrow> job option" where
  "find_job st i = find (\<lambda>j. job_id j = i) (st_jobs st)"

definition find_delivery :: "scheduler_store \<Rightarrow> nat \<Rightarrow> delivery option" where
  "find_delivery st i = find (\<lambda>d. dl_id d = i) (st_deliveries st)"

definition update_job :: "string \<Rightarrow> (job \<Rightarrow> job) \<Rightarrow> scheduler_store \<Rightarrow> scheduler_store" where
  "update_job i f st = st\<lparr>st_jobs := map (\<lambda>j. if job_id j = i then f j else j) (st_jobs st)\<rparr>"

definition update_delivery :: "nat \<Rightarrow> (delivery \<Rightarrow> delivery) \<Rightarrow> scheduler_store \<Rightarrow> scheduler_store" where
  "update_delivery i f st = st\<lparr>st_deliveries := map (\<lambda>d. if dl_id d = i then f d else d) (st_deliveries st)\<rparr>"

text \<open>\<open>DELETE FROM jobs WHERE p\<close> with \<open>ON DELETE CASCADE\<close>.\<close>

definition delete_jobs :: "(job \<Rightarrow> bool) \<Rightarrow> scheduler_store \<Rightarrow> scheduler_store" where
  "delete_jobs p st =
     (let gone = map job_id (filter p (st_jobs st))
      in st\<lparr>st_jobs := filter (\<lambda>j. \<not> p j) (st_jobs st),
            st_deliveries := filter (\<lambda>d. dl_job d \<notin> set gone) (st_deliveries st)\<rparr>)"

definition insert_delivery :: "job \<Rightarrow> real \<Rightarrow> real \<Rightarrow> scheduler_store \<Rightarrow> scheduler_store" where
  "insert_delivery j due now st =
     st\<lparr>st_deliveries := st_deliveries st @
          [\<lparr>dl_id = st_next_id st, dl_job = job_id j, dl_session = job_session j, dl_agent = job_agent j,
            dl_prompt = job_prompt j, dl_due = due, dl_state = Pending, dl_created = now, dl_attempts = 0,
            dl_available = None, dl_claimed = None, dl_lease = None, dl_error = None, dl_finished = None\<rparr>],
        st_next_id := st_next_id st + 1\<rparr>"

definition never_run :: real where
  "never_run = 253402300799"

section \<open>Opening the store\<close>

definition coalesce_available :: "delivery \<Rightarrow> real option" where
  "coalesce_available d = (case dl_available d of Some a \<Rightarrow> Some a | None \<Rightarrow> Some (dl_due d))"

definition initialize :: "scheduler_store \<Rightarrow> scheduler_store" where
  "initialize st =
     (let filled = map (\<lambda>d. if dl_available d = None then d\<lparr>dl_available := coalesce_available d\<rparr> else d)
                     (st_deliveries st)
      in st\<lparr>st_deliveries := map (\<lambda>d. if dl_state d = Running \<and> dl_lease d = None
              then d\<lparr>dl_state := Retry_wait, dl_available := coalesce_available d,
                     dl_error := (case dl_error d of Some e \<Rightarrow> Some e
                                  | None \<Rightarrow> Some ''lease_missing_after_migration'')\<rparr>
              else d) filled\<rparr>)"

section \<open>Jobs\<close>

definition next_run_of :: "zones \<Rightarrow> job \<Rightarrow> real \<Rightarrow> real py_result" where
  "next_run_of zs j now =
     bind_res (cron_parse (job_schedule j)) (\<lambda>expr. next_after zs expr now (job_timezone j))"

definition get_job :: "scheduler_store \<Rightarrow> string \<Rightarrow> job py_result" where
  "get_job st i = (case find_job st i of None \<Rightarrow> Inl (cron_error (''unknown cron job: '' @ i)) | Some j \<Rightarrow> Inr j)"

definition create_job ::
  "scheduler_config \<Rightarrow> zones \<Rightarrow> string \<Rightarrow> string \<Rightarrow> string \<Rightarrow> string \<Rightarrow> string \<Rightarrow> string \<Rightarrow> bool \<Rightarrow> bool \<Rightarrow>
   real \<Rightarrow> scheduler_store \<Rightarrow> (scheduler_store \<times> job) py_result" where
  "create_job cfg zs hex session agent schedule timezone prompt persistent one_shot now st =
     (if py_strip prompt = [] \<or> length prompt > cfg_max_prompt cfg
      then Inl (cron_error ''prompt length out of bounds'')
      else bind_res (cron_parse schedule) (\<lambda>expr.
           bind_res (next_after zs expr now timezone) (\<lambda>next_run.
             if length (st_jobs st) \<ge> cfg_max_jobs cfg
             then Inl (cron_error ''scheduler job limit reached'')
             else if find_job st (''cron_'' @ hex) \<noteq> None
             then Inl (DatabaseError ''UNIQUE constraint failed: jobs.id'')
             else (let j = \<lparr>job_id = ''cron_'' @ hex, job_session = session, job_agent = agent,
                            job_schedule = schedule, job_timezone = timezone, job_prompt = prompt,
                            job_persistent = persistent, job_one_shot = one_shot, job_next_run = next_run,
                            job_last_run = None, job_missed = 0, job_inflight = False, job_coalesced = False,
                            job_created = now\<rparr>;
                       st' = st\<lparr>st_jobs := st_jobs st @ [j]\<rparr>
                   in bind_res (get_job st' (''cron_'' @ hex)) (\<lambda>row. Inr (st', row))))))"

definition list_jobs :: "scheduler_store \<Rightarrow> string option \<Rightarrow> string option \<Rightarrow> job list" where
  "list_jobs st session agent =
     sort_key (\<lambda>j. (job_next_run j, job_id j))
       (filter (\<lambda>j. (session = None \<or> session = Some (job_session j)) \<and>
                    (agent = None \<or> agent = Some (job_agent j))) (st_jobs st))"

definition owns :: "string \<Rightarrow> string \<Rightarrow> job \<Rightarrow> bool" where
  "owns session agent j \<longleftrightarrow> job_session j = session \<and> job_agent j = agent"

definition delete_job :: "string \<Rightarrow> string \<Rightarrow> string \<Rightarrow> scheduler_store \<Rightarrow> scheduler_store \<times> bool" where
  "delete_job i session agent st =
     (let p = (\<lambda>j. job_id j = i \<and> owns session agent j)
      in (delete_jobs p st, length (filter p (st_jobs st)) > 0))"

definition delete_session_jobs :: "string \<Rightarrow> string \<Rightarrow> scheduler_store \<Rightarrow> scheduler_store \<times> nat" where
  "delete_session_jobs session agent st =
     (let p = (\<lambda>j. owns session agent j \<and> \<not> job_persistent j)
      in (delete_jobs p st, length (filter p (st_jobs st))))"

section \<open>Heartbeats and routing\<close>

record routed =
  rt_delivery :: nat
  rt_job :: string
  rt_prompt :: string
  rt_catch_up :: bool

text \<open>Queue a delivery of a job and mark the job in flight.\<close>

definition dispatch :: "job \<Rightarrow> real \<Rightarrow> real \<Rightarrow> real \<Rightarrow> scheduler_store \<Rightarrow> scheduler_store" where
  "dispatch j due now next_run st =
     update_job (job_id j)
       (\<lambda>r. r\<lparr>job_inflight := True, job_last_run := Some now, job_next_run := next_run, job_missed := 0\<rparr>)
       (insert_delivery j due now st)"

fun catch_up_loop ::
  "zones \<Rightarrow> real \<Rightarrow> job list \<Rightarrow> scheduler_store \<Rightarrow> routed list \<Rightarrow> (scheduler_store \<times> routed list) py_result" where
  "catch_up_loop zs now [] st out = Inr (st, out)"
| "catch_up_loop zs now (j # js) st out =
     bind_res (next_run_of zs j now) (\<lambda>next_run.
       catch_up_loop zs now js (dispatch j now now next_run st)
         (out @ [\<lparr>rt_delivery = st_next_id st, rt_job = job_id j, rt_prompt = job_prompt j, rt_catch_up = True\<rparr>]))"

definition set_heartbeat :: "string \<Rightarrow> string \<Rightarrow> real \<Rightarrow> scheduler_store \<Rightarrow> scheduler_store" where
  "set_heartbeat session agent expires st =
     st\<lparr>st_heartbeats := ((session, agent), expires) # filter (\<lambda>h. fst h \<noteq> (session, agent)) (st_heartbeats st)\<rparr>"

definition heartbeat ::
  "zones \<Rightarrow> string \<Rightarrow> string \<Rightarrow> real \<Rightarrow> real \<Rightarrow> scheduler_store \<Rightarrow> (scheduler_store \<times> routed list) py_result" where
  "heartbeat zs session agent ttl now st =
     (let st1 = set_heartbeat session agent (now + ttl) st;
          missed = sort_key job_next_run (filter (\<lambda>j. owns session agent j \<and> job_missed j > 0 \<and>
                     \<not> job_inflight j \<and> \<not> job_one_shot j) (st_jobs st1))
      in catch_up_loop zs now missed st1 [])"

definition live_owner :: "scheduler_store \<Rightarrow> job \<Rightarrow> real \<Rightarrow> bool" where
  "live_owner st j now =
     list_ex (\<lambda>h. fst h = (job_session j, job_agent j) \<and> snd h > now) (st_heartbeats st)"

fun route_loop ::
  "zones \<Rightarrow> real \<Rightarrow> job list \<Rightarrow> scheduler_store \<Rightarrow> routed list \<Rightarrow> (scheduler_store \<times> routed list) py_result" where
  "route_loop zs now [] st out = Inr (st, out)"
| "route_loop zs now (j # js) st out =
     bind_res (next_run_of zs j now) (\<lambda>next_run.
       if job_inflight j
       then route_loop zs now js
              (update_job (job_id j) (\<lambda>r. r\<lparr>job_coalesced := True, job_next_run := next_run\<rparr>) st) out
       else if \<not> live_owner st j now
       then route_loop zs now js
              (update_job (job_id j)
                 (if job_one_shot j then (\<lambda>r. r\<lparr>job_missed := 1, job_next_run := never_run\<rparr>)
                  else (\<lambda>r. r\<lparr>job_missed := job_missed r + 1, job_next_run := next_run\<rparr>)) st) out
       else route_loop zs now js
              (dispatch j (job_next_run j) now (if job_one_shot j then never_run else next_run) st)
              (out @ [\<lparr>rt_delivery = st_next_id st, rt_job = job_id j, rt_prompt = job_prompt j,
                       rt_catch_up = False\<rparr>]))"

definition due_jobs :: "scheduler_store \<Rightarrow> real \<Rightarrow> job list" where
  "due_jobs st now = sort_key job_next_run (filter (\<lambda>j. job_next_run j \<le> now) (st_jobs st))"

definition route_due :: "zones \<Rightarrow> real \<Rightarrow> scheduler_store \<Rightarrow> (scheduler_store \<times> routed list) py_result" where
  "route_due zs now st = route_loop zs now (due_jobs st now) st []"

section \<open>Deliveries\<close>

definition waiting :: "delivery \<Rightarrow> bool" where
  "waiting d \<longleftrightarrow> dl_state d = Pending \<or> dl_state d = Retry_wait"

definition addressed :: "string \<Rightarrow> string \<Rightarrow> delivery \<Rightarrow> bool" where
  "addressed session agent d \<longleftrightarrow> dl_session d = session \<and> dl_agent d = agent"

definition pending_deliveries :: "scheduler_store \<Rightarrow> string \<Rightarrow> string \<Rightarrow> delivery list" where
  "pending_deliveries st session agent =
     sort_key dl_id (filter (\<lambda>d. addressed session agent d \<and> waiting d) (st_deliveries st))"

definition retry_delay :: "scheduler_config \<Rightarrow> nat \<Rightarrow> real" where
  "retry_delay cfg attempts = min (cfg_retry_max cfg) (cfg_retry_base cfg * 2 ^ (attempts - 1))"

definition fail_delivery_locked ::
  "scheduler_config \<Rightarrow> delivery \<Rightarrow> string \<Rightarrow> real \<Rightarrow> scheduler_store \<Rightarrow> scheduler_store \<times> delivery_state" where
  "fail_delivery_locked cfg d err now st =
     (if dl_attempts d \<ge> cfg_max_attempts cfg
      then (update_job (dl_job d) (\<lambda>j. j\<lparr>job_inflight := False, job_coalesced := False\<rparr>)
              (update_delivery (dl_id d)
                 (\<lambda>r. r\<lparr>dl_state := Dead_letter, dl_available := None, dl_lease := None,
                        dl_error := Some (cfg_safe_error cfg err), dl_finished := Some now\<rparr>) st), Dead_letter)
      else (update_delivery (dl_id d)
              (\<lambda>r. r\<lparr>dl_state := Retry_wait, dl_available := Some (now + retry_delay cfg (dl_attempts d)),
                     dl_lease := None, dl_error := Some (cfg_safe_error cfg err)\<rparr>) st, Retry_wait))"

definition expired :: "real \<Rightarrow> delivery \<Rightarrow> bool" where
  "expired now d \<longleftrightarrow> dl_state d = Running \<and> (case dl_lease d of None \<Rightarrow> False | Some l \<Rightarrow> l \<le> now)"

definition recover_expired :: "scheduler_config \<Rightarrow> real \<Rightarrow> scheduler_store \<Rightarrow> scheduler_store" where
  "recover_expired cfg now st =
     fold (\<lambda>d s. fst (fail_delivery_locked cfg d ''lease_expired'' now s))
       (filter (\<lambda>d. expired now d \<and> find_job st (dl_job d) \<noteq> None) (st_deliveries st)) st"

definition available_time :: "delivery \<Rightarrow> real" where
  "available_time d = (case dl_available d of Some a \<Rightarrow> a | None \<Rightarrow> dl_due d)"

definition claim_one :: "scheduler_config \<Rightarrow> real \<Rightarrow> delivery \<Rightarrow> delivery" where
  "claim_one cfg now d =
     d\<lparr>dl_state := Running, dl_attempts := dl_attempts d + 1, dl_claimed := Some now,
       dl_lease := Some (now + cfg_lease cfg), dl_error := None\<rparr>"

definition claimable :: "string \<Rightarrow> string \<Rightarrow> int \<Rightarrow> real \<Rightarrow> scheduler_store \<Rightarrow> delivery list" where
  "claimable session agent limit now st =
     take (nat (max 0 (min limit 100)))
       (sort_key (\<lambda>d. (available_time d, dl_id d))
         (filter (\<lambda>d. addressed session agent d \<and> waiting d \<and> available_time d \<le> now) (st_deliveries st)))"

fun claim_loop ::
  "scheduler_config \<Rightarrow> real \<Rightarrow> delivery list \<Rightarrow> scheduler_store \<Rightarrow> delivery list \<Rightarrow> scheduler_store \<times> delivery list" where
  "claim_loop cfg now [] st out = (st, out)"
| "claim_loop cfg now (d # ds) st out =
     (let st' = update_delivery (dl_id d) (claim_one cfg now) st
      in claim_loop cfg now ds st' (case find_delivery st' (dl_id d) of None \<Rightarrow> out | Some c \<Rightarrow> out @ [c]))"

definition claim_deliveries ::
  "scheduler_config \<Rightarrow> string \<Rightarrow> string \<Rightarrow> int \<Rightarrow> real \<Rightarrow> scheduler_store \<Rightarrow> scheduler_store \<times> delivery list" where
  "claim_deliveries cfg session agent limit now st =
     (let st1 = recover_expired cfg now st
      in claim_loop cfg now (claimable session agent limit now st1) st1 [])"

definition fail_delivery ::
  "scheduler_config \<Rightarrow> nat \<Rightarrow> string \<Rightarrow> real \<Rightarrow> scheduler_store \<Rightarrow> (scheduler_store \<times> delivery_state) py_result" where
  "fail_delivery cfg i err now st =
     (case find (\<lambda>d. dl_id d = i \<and> dl_state d = Running \<and> find_job st (dl_job d) \<noteq> None) (st_deliveries st) of
        None \<Rightarrow> Inl (cron_error ''delivery is not running'')
      | Some d \<Rightarrow> Inr (fail_delivery_locked cfg d err now st))"

text \<open>\<open>ORDER BY finished_at DESC, id DESC\<close>: SQLite orders \<open>NULL\<close> first, so last when descending.\<close>

definition finished_key :: "delivery \<Rightarrow> bool \<times> real \<times> nat" where
  "finished_key d = (case dl_finished d of None \<Rightarrow> (False, 0, dl_id d) | Some t \<Rightarrow> (True, t, dl_id d))"

definition list_dead_letters :: "scheduler_store \<Rightarrow> string \<Rightarrow> string \<Rightarrow> delivery list" where
  "list_dead_letters st session agent =
     sort_key_rev finished_key
       (filter (\<lambda>d. addressed session agent d \<and> dl_state d = Dead_letter) (st_deliveries st))"

definition redrive_dead_letter ::
  "nat \<Rightarrow> string \<Rightarrow> string \<Rightarrow> real \<Rightarrow> scheduler_store \<Rightarrow> scheduler_store py_result" where
  "redrive_dead_letter i session agent now st =
     (case find (\<lambda>d. dl_id d = i \<and> addressed session agent d \<and> dl_state d = Dead_letter) (st_deliveries st) of
        None \<Rightarrow> Inl (cron_error ''unknown owned dead-letter delivery'')
      | Some d \<Rightarrow> Inr (update_job (dl_job d) (\<lambda>j. j\<lparr>job_inflight := True\<rparr>)
          (update_delivery i (\<lambda>r. r\<lparr>dl_state := Pending, dl_attempts := 0, dl_available := Some now,
             dl_claimed := None, dl_lease := None, dl_error := None, dl_finished := None\<rparr>) st)))"

definition missed_one_shots :: "scheduler_store \<Rightarrow> string \<Rightarrow> string \<Rightarrow> job list" where
  "missed_one_shots st session agent =
     sort_key job_created (filter (\<lambda>j. owns session agent j \<and> job_one_shot j \<and> job_missed j > 0
       \<and> \<not> job_inflight j) (st_jobs st))"

definition resolve_missed_one_shot :: "string \<Rightarrow> bool \<Rightarrow> real \<Rightarrow> scheduler_store \<Rightarrow> scheduler_store py_result" where
  "resolve_missed_one_shot i deliver now st =
     (case find (\<lambda>j. job_id j = i \<and> job_one_shot j \<and> job_missed j > 0 \<and> \<not> job_inflight j) (st_jobs st) of
        None \<Rightarrow> Inl (cron_error ''unknown missed one-shot job'')
      | Some j \<Rightarrow>
          if \<not> deliver then Inr (delete_jobs (\<lambda>r. job_id r = i) st)
          else Inr (dispatch j now now (job_next_run j) st))"

definition complete_delivery :: "nat \<Rightarrow> real \<Rightarrow> scheduler_store \<Rightarrow> scheduler_store" where
  "complete_delivery i now st =
     (case find (\<lambda>d. dl_id d = i \<and> dl_state d = Running) (st_deliveries st) of
        None \<Rightarrow> st
      | Some d \<Rightarrow>
          (let st1 = update_delivery i (\<lambda>r. if dl_state r = Running
                 then r\<lparr>dl_state := Completed, dl_lease := None, dl_finished := Some now\<rparr> else r) st
           in case find_job st1 (dl_job d) of
                Some j \<Rightarrow>
                  if job_one_shot j then delete_jobs (\<lambda>r. job_id r = dl_job d) st1
                  else update_job (dl_job d) (\<lambda>r. r\<lparr>job_inflight := False, job_coalesced := False\<rparr>) st1
              | None \<Rightarrow> update_job (dl_job d) (\<lambda>r. r\<lparr>job_inflight := False, job_coalesced := False\<rparr>) st1))"

end
