(* ===== verification/Scheduler_Safety.thy ===== *)
theory Scheduler_Safety
  imports Scheduler_Store
begin

text \<open>
  The invariant of the scheduler store: keys are unique, no delivery outlives its job, a job in flight
  has an unfinished delivery, retries are bounded and running deliveries carry a lease. Every method
  keeps it. That the unfinished delivery is the only one is kept too, unless a dead letter is redriven
  while its job is already in flight, which the method does not check; the parameter \<open>strict\<close> of
  the step relation excludes such redrives, and the last section shows what they do.
\<close>

section \<open>The invariant\<close>

definition active :: "delivery \<Rightarrow> bool" where
  "active d \<longleftrightarrow> dl_state d \<in> {Pending, Running, Retry_wait}"

definition active_of :: "scheduler_store \<Rightarrow> string \<Rightarrow> delivery list" where
  "active_of st i = filter (\<lambda>d. dl_job d = i \<and> active d) (st_deliveries st)"

definition delivery_ok :: "scheduler_config \<Rightarrow> delivery \<Rightarrow> bool" where
  "delivery_ok cfg d \<longleftrightarrow>
     (waiting d \<longrightarrow> dl_attempts d < cfg_max_attempts cfg) \<and>
     (dl_state d = Running \<longrightarrow> 1 \<le> dl_attempts d \<and> dl_attempts d \<le> cfg_max_attempts cfg \<and> dl_lease d \<noteq> None)"

text \<open>How the flag of a job and the number of its unfinished deliveries belong together: exactly when every
  dead letter was redriven while its job was idle (\<open>strict\<close>), in one direction always.\<close>

definition flag_ok :: "bool \<Rightarrow> nat \<Rightarrow> bool \<Rightarrow> bool" where
  "flag_ok strict n inflight \<longleftrightarrow> (inflight \<longrightarrow> 0 < n) \<and> (strict \<longrightarrow> n = (if inflight then 1 else 0))"

definition store_ok :: "bool \<Rightarrow> scheduler_config \<Rightarrow> scheduler_store \<Rightarrow> bool" where
  "store_ok strict cfg st \<longleftrightarrow>
     distinct (map job_id (st_jobs st)) \<and> distinct (map dl_id (st_deliveries st)) \<and>
     (\<forall>d\<in>set (st_deliveries st). dl_id d < st_next_id st \<and> dl_job d \<in> job_id ` set (st_jobs st) \<and> delivery_ok cfg d) \<and>
     (\<forall>j\<in>set (st_jobs st). flag_ok strict (length (active_of st (job_id j))) (job_inflight j)) \<and>
     length (st_jobs st) \<le> cfg_max_jobs cfg"

lemma store_okI:
  assumes "distinct (map job_id (st_jobs st))" "distinct (map dl_id (st_deliveries st))"
    "\<And>d. d \<in> set (st_deliveries st) \<Longrightarrow> dl_id d < st_next_id st"
    "\<And>d. d \<in> set (st_deliveries st) \<Longrightarrow> dl_job d \<in> job_id ` set (st_jobs st)"
    "\<And>d. d \<in> set (st_deliveries st) \<Longrightarrow> delivery_ok cfg d"
    "\<And>j. j \<in> set (st_jobs st) \<Longrightarrow> flag_ok strict (length (active_of st (job_id j))) (job_inflight j)"
    "length (st_jobs st) \<le> cfg_max_jobs cfg"
  shows "store_ok strict cfg st"
  using assms by (auto simp: store_ok_def)

lemma store_okD:
  assumes "store_ok strict cfg st"
  shows "distinct (map job_id (st_jobs st))" "distinct (map dl_id (st_deliveries st))"
    "\<And>d. d \<in> set (st_deliveries st) \<Longrightarrow> dl_id d < st_next_id st"
    "\<And>d. d \<in> set (st_deliveries st) \<Longrightarrow> dl_job d \<in> job_id ` set (st_jobs st)"
    "\<And>d. d \<in> set (st_deliveries st) \<Longrightarrow> delivery_ok cfg d"
    "\<And>j. j \<in> set (st_jobs st) \<Longrightarrow> flag_ok strict (length (active_of st (job_id j))) (job_inflight j)"
    "length (st_jobs st) \<le> cfg_max_jobs cfg"
  using assms by (auto simp: store_ok_def)

lemma map_job_id_update [simp]:
  "(\<And>j. job_id (f j) = job_id j) \<Longrightarrow> map job_id (st_jobs (update_job i f st)) = map job_id (st_jobs st)"
  by (simp add: update_job_def comp_def if_distrib cong: if_cong)

lemma job_ids_update [simp]:
  "(\<And>j. job_id (f j) = job_id j) \<Longrightarrow> job_id ` set (st_jobs (update_job i f st)) = job_id ` set (st_jobs st)"
  by (metis map_job_id_update set_map)

lemma map_dl_id_update [simp]:
  "(\<And>d. dl_id (f d) = dl_id d) \<Longrightarrow> map dl_id (st_deliveries (update_delivery i f st)) = map dl_id (st_deliveries st)"
  by (simp add: update_delivery_def comp_def if_distrib cong: if_cong)

lemma update_simps [simp]:
  "st_deliveries (update_job i f st) = st_deliveries st" "st_next_id (update_job i f st) = st_next_id st"
  "st_heartbeats (update_job i f st) = st_heartbeats st"
  "st_jobs (update_delivery k g st) = st_jobs st" "st_next_id (update_delivery k g st) = st_next_id st"
  "st_heartbeats (update_delivery k g st) = st_heartbeats st"
  "length (st_jobs (update_job i f st)) = length (st_jobs st)"
  by (simp_all add: update_job_def update_delivery_def)

lemma active_of_update_job [simp]: "active_of (update_job i f st) = active_of st"
  by (simp add: active_of_def fun_eq_iff)

lemma same_job: "store_ok strict cfg st \<Longrightarrow> j \<in> set (st_jobs st) \<Longrightarrow> k \<in> set (st_jobs st) \<Longrightarrow> job_id j = job_id k \<Longrightarrow> j = k"
  using store_okD(1) by (metis distinct_map inj_onD)

lemma same_delivery:
  "store_ok strict cfg st \<Longrightarrow> d \<in> set (st_deliveries st) \<Longrightarrow> e \<in> set (st_deliveries st) \<Longrightarrow> dl_id d = dl_id e \<Longrightarrow> d = e"
  using store_okD(2) by (metis distinct_map inj_onD)

section \<open>Statements that keep it\<close>

lemma update_job_ok:
  assumes "store_ok strict cfg st" "\<And>j. job_id (f j) = job_id j" "\<And>j. job_inflight (f j) = job_inflight j"
  shows "store_ok strict cfg (update_job i f st)"
proof (rule store_okI)
  fix j assume "j \<in> set (st_jobs (update_job i f st))"
  then obtain k where "k \<in> set (st_jobs st)" "job_id j = job_id k" "job_inflight j = job_inflight k"
    using assms(2,3) by (auto simp: update_job_def)
  then show "flag_ok strict (length (active_of (update_job i f st) (job_id j))) (job_inflight j)"
    using store_okD(6) [OF assms(1)] by simp
qed (use store_okD [OF assms(1)] assms(2) in \<open>simp_all\<close>)

lemma set_heartbeat_ok: "store_ok strict cfg st \<Longrightarrow> store_ok strict cfg (set_heartbeat s a t st)"
  by (simp add: store_ok_def set_heartbeat_def active_of_def)

text \<open>A statement that rewrites one delivery without finishing it.\<close>

lemma update_delivery_ok:
  assumes ok: "store_ok strict cfg st"
    and id: "\<And>d. dl_id (f d) = dl_id d" and job: "\<And>d. dl_job (f d) = dl_job d"
    and act: "\<And>d. d \<in> set (st_deliveries st) \<Longrightarrow> dl_id d = i \<Longrightarrow> active (f d) = active d \<and> delivery_ok cfg (f d)"
  shows "store_ok strict cfg (update_delivery i f st)"
proof (rule store_okI)
  have len: "length (active_of (update_delivery i f st) k) = length (active_of st k)" for k
  proof -
    have "map (\<lambda>d. dl_job d = k \<and> active d) (st_deliveries (update_delivery i f st)) =
        map (\<lambda>d. dl_job d = k \<and> active d) (st_deliveries st)"
      using act job by (auto simp: update_delivery_def)
    then have "length (filter id (map (\<lambda>d. dl_job d = k \<and> active d) (st_deliveries (update_delivery i f st)))) =
        length (filter id (map (\<lambda>d. dl_job d = k \<and> active d) (st_deliveries st)))" by simp
    then show ?thesis by (simp add: active_of_def filter_map comp_def)
  qed
  fix j assume "j \<in> set (st_jobs (update_delivery i f st))"
  then show "flag_ok strict (length (active_of (update_delivery i f st) (job_id j))) (job_inflight j)"
    using len store_okD(6) [OF ok] by simp
qed (use store_okD [OF ok] id job act in \<open>auto simp: update_delivery_def comp_def if_distrib cong: if_cong\<close>)

text \<open>A statement pair that finishes (or revives) a delivery and updates the flag of its job.\<close>

lemma toggle_ok:
  assumes ok: "store_ok strict cfg st" and d: "d \<in> set (st_deliveries st)"
    and id: "\<And>d. dl_id (f d) = dl_id d" and job: "\<And>d. dl_job (f d) = dl_job d"
    and good: "delivery_ok cfg (f d)"
    and g: "\<And>j. job_id (g j) = job_id j" "\<And>j. job_inflight (g j) = active (f d)"
    and flag: "\<And>j. strict \<Longrightarrow> j \<in> set (st_jobs st) \<Longrightarrow> job_id j = dl_job d \<Longrightarrow> job_inflight j = active d"
  shows "store_ok strict cfg (update_job (dl_job d) g (update_delivery (dl_id d) f st))" (is "store_ok strict cfg ?st")
proof (rule store_okI)
  have dist: "distinct (map dl_id (st_deliveries st))" using store_okD(2) [OF ok] .
  have len: "length (active_of ?st k) + of_bool (dl_job d = k \<and> active d) =
      length (active_of st k) + of_bool (dl_job d = k \<and> active (f d))" for k
    using length_filter_update [OF dist d, of "\<lambda>d. dl_job d = k \<and> active d" f] job
    by (simp add: active_of_def update_delivery_def)
  fix j assume "j \<in> set (st_jobs ?st)"
  then obtain k where k: "k \<in> set (st_jobs st)" "j = (if job_id k = dl_job d then g k else k)"
    by (auto simp: update_job_def)
  have "active d \<Longrightarrow> active_of st (dl_job d) \<noteq> []" using d by (force simp: active_of_def filter_empty_conv)
  then show "flag_ok strict (length (active_of ?st (job_id j))) (job_inflight j)"
    using len [of "job_id j"] store_okD(6) [OF ok k(1)] k flag [OF _ k(1)] g
    by (auto simp: flag_ok_def split: if_splits)
next
  fix e assume "e \<in> set (st_deliveries ?st)"
  then obtain e0 where e: "e0 \<in> set (st_deliveries st)" "e = (if dl_id e0 = dl_id d then f e0 else e0)"
    by (auto simp: update_delivery_def)
  then have "e0 = d \<and> e = f d \<or> e = e0" using same_delivery [OF ok d e(1)] by auto
  then show "dl_id e < st_next_id ?st" "dl_job e \<in> job_id ` set (st_jobs ?st)" "delivery_ok cfg e"
    using store_okD(3-5) [OF ok e(1)] id job good g(1) by auto
qed (use store_okD(1,2,7) [OF ok] id g(1) in simp_all)

lemma active_flag:
  assumes "store_ok strict cfg st" strict "d \<in> set (st_deliveries st)" "active d" "j \<in> set (st_jobs st)" "job_id j = dl_job d"
  shows "job_inflight j"
proof -
  have "d \<in> set (active_of st (job_id j))" using assms by (auto simp: active_of_def)
  then show ?thesis using store_okD(6) [OF assms(1,5)] assms(2) by (cases "job_inflight j") (auto simp: flag_ok_def)
qed

lemma insert_delivery_simps [simp]:
  "st_jobs (insert_delivery j due now st) = st_jobs st"
  "st_heartbeats (insert_delivery j due now st) = st_heartbeats st"
  "st_next_id (insert_delivery j due now st) = Suc (st_next_id st)"
  by (simp_all add: insert_delivery_def)

lemma dispatch_ok:
  assumes ok: "store_ok strict cfg st" and j: "j \<in> set (st_jobs st)" "\<not> job_inflight j" and c: "0 < cfg_max_attempts cfg"
  shows "store_ok strict cfg (dispatch j due now nxt st)" (is "store_ok strict cfg ?st")
proof (rule store_okI)
  have len: "length (active_of ?st k) = length (active_of st k) + of_bool (job_id j = k)" for k
    by (simp add: dispatch_def active_of_def insert_delivery_def active_def)
  fix r assume "r \<in> set (st_jobs ?st)"
  then obtain k where k: "k \<in> set (st_jobs st)" "job_id r = job_id k"
      "job_inflight r = (job_id k = job_id j \<or> job_inflight k)"
    by (auto simp: dispatch_def update_job_def)
  show "flag_ok strict (length (active_of ?st (job_id r))) (job_inflight r)"
  proof (cases "job_id k = job_id j")
    case True
    then have "k = j" using same_job [OF ok k(1) j(1)] by simp
    then show ?thesis using len [of "job_id r"] store_okD(6) [OF ok j(1)] j(2) k(2,3) by (simp add: flag_ok_def)
  next
    case False
    then show ?thesis using len [of "job_id r"] store_okD(6) [OF ok k(1)] k(2,3) by simp
  qed
next
  fix d assume "d \<in> set (st_deliveries ?st)"
  then consider "d \<in> set (st_deliveries st)"
    | "dl_id d = st_next_id st" "dl_job d = job_id j" "dl_state d = Pending" "dl_attempts d = 0"
    by (auto simp: dispatch_def insert_delivery_def)
  then have "dl_id d < Suc (st_next_id st) \<and> dl_job d \<in> job_id ` set (st_jobs st) \<and> delivery_ok cfg d"
    using store_okD(3-5) [OF ok, of d] j(1) c
    by cases (auto simp: delivery_ok_def waiting_def less_SucI)
  then show "dl_id d < st_next_id ?st" "dl_job d \<in> job_id ` set (st_jobs ?st)" "delivery_ok cfg d"
    by (simp_all add: dispatch_def)
next
  show "distinct (map dl_id (st_deliveries ?st))"
    using store_okD(2) [OF ok] store_okD(3) [OF ok] by (force simp: dispatch_def insert_delivery_def)
qed (use store_okD(1,7) [OF ok] in \<open>simp_all add: dispatch_def\<close>)

lemma delete_jobs_ok:
  assumes ok: "store_ok strict cfg st"
  shows "store_ok strict cfg (delete_jobs p st)"
proof (rule store_okI)
  have keep: "job_id j \<notin> set (map job_id (filter p (st_jobs st)))" if "j \<in> set (st_jobs st)" "\<not> p j" for j
    using that same_job [OF ok that(1)] by auto
  fix j assume "j \<in> set (st_jobs (delete_jobs p st))"
  then have j: "j \<in> set (st_jobs st)" "\<not> p j" by (simp_all add: delete_jobs_def Let_def)
  have "active_of (delete_jobs p st) (job_id j) = active_of st (job_id j)"
    using keep [OF j] by (auto simp: active_of_def delete_jobs_def Let_def image_iff intro!: filter_cong dest: sym)
  then show "flag_ok strict (length (active_of (delete_jobs p st) (job_id j))) (job_inflight j)"
    using store_okD(6) [OF ok j(1)] by simp
next
  show "length (st_jobs (delete_jobs p st)) \<le> cfg_max_jobs cfg"
    using le_trans [OF length_filter_le store_okD(7) [OF ok]] by (simp add: delete_jobs_def Let_def)
next
  fix d assume "d \<in> set (st_deliveries (delete_jobs p st))"
  then show "dl_id d < st_next_id (delete_jobs p st)" "dl_job d \<in> job_id ` set (st_jobs (delete_jobs p st))"
    "delivery_ok cfg d"
    using store_okD(3-5) [OF ok, of d] by (auto simp: delete_jobs_def Let_def)
qed (use store_okD(1,2) [OF ok] in \<open>simp_all add: delete_jobs_def Let_def distinct_map_filter\<close>)

section \<open>Methods that keep it\<close>

lemma create_job_ok:
  assumes "store_ok strict cfg st"
    and "create_job cfg zs hex s a sch tz pr pe os now st = Inr (st', row)"
  shows "store_ok strict cfg st'"
proof -
  obtain j where st': "st' = st\<lparr>st_jobs := st_jobs st @ [j]\<rparr>" and j: "job_id j = ''cron_'' @ hex" "\<not> job_inflight j"
    and fresh: "find_job st (''cron_'' @ hex) = None" and room: "length (st_jobs st) < cfg_max_jobs cfg"
    using assms(2) by (auto simp: create_job_def bind_res_Inr_iff Let_def not_le split: if_splits)
  have new: "job_id j \<notin> job_id ` set (st_jobs st)"
    using fresh j(1) by (auto simp: find_job_def find_None_iff image_iff)
  then have none: "active_of st (job_id j) = []"
    using store_okD(4) [OF assms(1)] unfolding active_of_def filter_empty_conv by metis
  have act: "active_of st' k = active_of st k" for k by (simp add: st' active_of_def)
  show ?thesis
  proof (rule store_okI)
    fix r assume "r \<in> set (st_jobs st')"
    then consider "r = j" | "r \<in> set (st_jobs st)" by (auto simp: st')
    then show "flag_ok strict (length (active_of st' (job_id r))) (job_inflight r)"
      using act none j(2) store_okD(6) [OF assms(1), of r] by cases (simp_all add: flag_ok_def)
  qed (use store_okD(1-5) [OF assms(1)] new room in \<open>auto simp: st'\<close>)
qed

lemma in_update_job: "x \<in> set (st_jobs st) \<Longrightarrow> job_id x \<noteq> i \<Longrightarrow> x \<in> set (st_jobs (update_job i f st))"
  by (force simp: update_job_def)

lemma in_dispatch: "x \<in> set (st_jobs st) \<Longrightarrow> job_id x \<noteq> job_id j \<Longrightarrow> x \<in> set (st_jobs (dispatch j due now nxt st))"
  by (simp add: dispatch_def in_update_job)

lemma in_update_delivery:
  "x \<in> set (st_deliveries st) \<Longrightarrow> dl_id x \<noteq> i \<Longrightarrow> x \<in> set (st_deliveries (update_delivery i f st))"
  by (force simp: update_delivery_def)

lemma catch_up_loop_ok:
  assumes "catch_up_loop zs now js st out = Inr (st', out')" "store_ok strict cfg st" "set js \<subseteq> set (st_jobs st)"
    "distinct (map job_id js)" "\<forall>j\<in>set js. \<not> job_inflight j" "0 < cfg_max_attempts cfg"
  shows "store_ok strict cfg st'"
  using assms
proof (induction js arbitrary: st out)
  case (Cons j js)
  obtain nxt out2 where "catch_up_loop zs now js (dispatch j now now nxt st) out2 = Inr (st', out')"
    using Cons.prems(1) by (auto simp: bind_res_Inr_iff)
  then show ?case
  proof (rule Cons.IH)
    show "store_ok strict cfg (dispatch j now now nxt st)" using Cons.prems by (intro dispatch_ok) auto
    show "set js \<subseteq> set (st_jobs (dispatch j now now nxt st))"
      using Cons.prems(3,4) by (auto intro!: in_dispatch simp: image_iff)
  qed (use Cons.prems in auto)
qed simp

lemma distinct_sorted_rows: "store_ok strict cfg st \<Longrightarrow> distinct (map job_id (sort_key k (filter p (st_jobs st))))"
  using distinct_map_filter [OF store_okD(1), of strict cfg st p]
  by (simp add: distinct_map distinct_sort) 

lemma heartbeat_ok:
  assumes "heartbeat zs s a ttl now st = Inr (st', out)" "store_ok strict cfg st" "0 < cfg_max_attempts cfg"
  shows "store_ok strict cfg st'"
proof -
  let ?st = "set_heartbeat s a (now + ttl) st"
  have "store_ok strict cfg ?st" using assms(2) by (rule set_heartbeat_ok)
  from assms(1) [unfolded heartbeat_def Let_def] this show ?thesis
    by (rule catch_up_loop_ok) (use assms(3) distinct_sorted_rows [OF \<open>store_ok strict cfg ?st\<close>] in auto)
qed

lemma route_loop_ok:
  assumes "route_loop zs now js st out = Inr (st', out')" "store_ok strict cfg st" "set js \<subseteq> set (st_jobs st)"
    "distinct (map job_id js)" "0 < cfg_max_attempts cfg"
  shows "store_ok strict cfg st'"
  using assms
proof (induction js arbitrary: st out)
  case (Cons j js)
  have next_iteration: "store_ok strict cfg st'"
    if "route_loop zs now js st2 out2 = Inr (st', out')" "store_ok strict cfg st2"
      "\<And>x. x \<in> set (st_jobs st) \<Longrightarrow> job_id x \<noteq> job_id j \<Longrightarrow> x \<in> set (st_jobs st2)" for st2 out2
    using Cons.IH [OF that(1,2)] that(3) Cons.prems(3-5) by (force simp: image_iff)
  obtain nxt where "next_run_of zs j now = Inr nxt" using Cons.prems(1) by (auto simp: bind_res_Inr_iff)
  note body = Cons.prems(1) [unfolded route_loop.simps this bind_res.simps]
  show ?case
  proof (cases "job_inflight j")
    case True
    show ?thesis
      using body True Cons.prems(2)
      by (intro next_iteration [where ?st2.0 = "update_job (job_id j) (\<lambda>r. r\<lparr>job_coalesced := True, job_next_run := nxt\<rparr>) st"])
        (auto intro: update_job_ok in_update_job)
  next
    case False
    show ?thesis
    proof (cases "live_owner st j now")
      case True
      show ?thesis
        using body False True Cons.prems
        by (intro next_iteration [where ?st2.0 = "dispatch j (job_next_run j) now (if job_one_shot j then never_run else nxt) st"])
          (auto intro: dispatch_ok in_dispatch)
    next
      case dead: False
      show ?thesis
        using body False dead Cons.prems(2)
        by (intro next_iteration [where ?st2.0 = "update_job (job_id j)
              (if job_one_shot j then (\<lambda>r. r\<lparr>job_missed := 1, job_next_run := never_run\<rparr>)
               else (\<lambda>r. r\<lparr>job_missed := job_missed r + 1, job_next_run := nxt\<rparr>)) st"])
          (auto intro: update_job_ok in_update_job)
    qed
  qed
qed simp

lemma route_due_ok:
  assumes "route_due zs now st = Inr (st', out)" "store_ok strict cfg st" "0 < cfg_max_attempts cfg"
  shows "store_ok strict cfg st'"
  using assms(1) [unfolded route_due_def due_jobs_def] assms(2)
  by (rule route_loop_ok) (use assms(3) distinct_sorted_rows [OF assms(2)] in auto)

lemma fail_delivery_locked_ok:
  assumes ok: "store_ok strict cfg st" and d: "d \<in> set (st_deliveries st)" "dl_state d = Running"
  shows "store_ok strict cfg (fst (fail_delivery_locked cfg d err now st))"
proof (cases "dl_attempts d \<ge> cfg_max_attempts cfg")
  case True
  then show ?thesis
    using active_flag [OF ok _ d(1)] d
    by (auto simp: fail_delivery_locked_def active_def delivery_ok_def waiting_def intro!: toggle_ok [OF ok d(1)])
next
  case False
  have "store_ok strict cfg (update_delivery (dl_id d)
      (\<lambda>r. r\<lparr>dl_state := Retry_wait, dl_available := Some (now + retry_delay cfg (dl_attempts d)),
             dl_lease := None, dl_error := Some (cfg_safe_error cfg err)\<rparr>) st)" (is "store_ok strict cfg (update_delivery _ ?f st)")
  proof (rule update_delivery_ok [OF ok])
    fix e assume "e \<in> set (st_deliveries st)" "dl_id e = dl_id d"
    then have "e = d" using same_delivery [OF ok] d(1) by simp
    then show "active (?f e) = active e \<and> delivery_ok cfg (?f e)"
      using d(2) False by (simp add: active_def delivery_ok_def waiting_def)
  qed simp_all
  with False show ?thesis by (simp add: fail_delivery_locked_def)
qed

lemma in_fail_delivery_locked:
  "x \<in> set (st_deliveries st) \<Longrightarrow> dl_id x \<noteq> dl_id d \<Longrightarrow> x \<in> set (st_deliveries (fst (fail_delivery_locked cfg d err now st)))"
  by (simp add: fail_delivery_locked_def in_update_delivery)

lemma recover_fold_ok:
  assumes "store_ok strict cfg st" "set ds \<subseteq> set (st_deliveries st)" "distinct (map dl_id ds)" "\<forall>d\<in>set ds. dl_state d = Running"
  shows "store_ok strict cfg (fold (\<lambda>d s. fst (fail_delivery_locked cfg d err now s)) ds st)"
  using assms
proof (induction ds arbitrary: st)
  case (Cons d ds)
  have "store_ok strict cfg (fst (fail_delivery_locked cfg d err now st))"
    using Cons.prems by (intro fail_delivery_locked_ok) auto
  moreover have "set ds \<subseteq> set (st_deliveries (fst (fail_delivery_locked cfg d err now st)))"
    using Cons.prems(2,3) by (auto intro!: in_fail_delivery_locked simp: image_iff)
  ultimately show ?case using Cons by simp
qed simp

lemma recover_expired_ok: "store_ok strict cfg st \<Longrightarrow> store_ok strict cfg (recover_expired cfg now st)"
  unfolding recover_expired_def
  by (rule recover_fold_ok) (auto simp: expired_def distinct_map_filter store_okD(2))

lemma claim_one_ok:
  assumes ok: "store_ok strict cfg st" and d: "d \<in> set (st_deliveries st)" "waiting d"
  shows "store_ok strict cfg (update_delivery (dl_id d) (claim_one cfg now) st)"
proof (rule update_delivery_ok [OF ok])
  fix e assume "e \<in> set (st_deliveries st)" "dl_id e = dl_id d"
  then have "e = d" using same_delivery [OF ok] d(1) by simp
  then show "active (claim_one cfg now e) = active e \<and> delivery_ok cfg (claim_one cfg now e)"
    using d store_okD(5) [OF ok d(1)] by (auto simp: claim_one_def active_def delivery_ok_def waiting_def)
qed (simp_all add: claim_one_def)

lemma claim_loop_ok:
  assumes "store_ok strict cfg st" "set ds \<subseteq> set (st_deliveries st)" "distinct (map dl_id ds)" "\<forall>d\<in>set ds. waiting d"
  shows "store_ok strict cfg (fst (claim_loop cfg now ds st out))"
  using assms
proof (induction ds arbitrary: st out)
  case (Cons d ds)
  have "store_ok strict cfg (update_delivery (dl_id d) (claim_one cfg now) st)"
    using Cons.prems by (intro claim_one_ok) auto
  moreover have "set ds \<subseteq> set (st_deliveries (update_delivery (dl_id d) (claim_one cfg now) st))"
    using Cons.prems(2,3) by (auto intro!: in_update_delivery simp: image_iff)
  ultimately show ?case using Cons by (simp add: Let_def)
qed simp

lemma claimable_rows:
  assumes "store_ok strict cfg st"
  shows "set (claimable s a limit now st) \<subseteq> set (st_deliveries st)" "distinct (map dl_id (claimable s a limit now st))"
    "\<forall>d\<in>set (claimable s a limit now st). waiting d \<and> addressed s a d \<and> available_time d \<le> now"
proof -
  let ?rows = "sort_key (\<lambda>d. (available_time d, dl_id d))
     (filter (\<lambda>d. addressed s a d \<and> waiting d \<and> available_time d \<le> now) (st_deliveries st))"
  have "distinct (map dl_id ?rows)"
    using distinct_map_filter [OF store_okD(2) [OF assms]] by (simp add: distinct_map distinct_sort)
  then show "distinct (map dl_id (claimable s a limit now st))"
    unfolding claimable_def by (simp add: take_map [symmetric] distinct_take)
  show "set (claimable s a limit now st) \<subseteq> set (st_deliveries st)"
    "\<forall>d\<in>set (claimable s a limit now st). waiting d \<and> addressed s a d \<and> available_time d \<le> now"
    unfolding claimable_def by (auto dest: in_set_takeD)
qed

lemma claim_deliveries_ok: "store_ok strict cfg st \<Longrightarrow> store_ok strict cfg (fst (claim_deliveries cfg s a limit now st))"
  unfolding claim_deliveries_def Let_def
  using claimable_rows [OF recover_expired_ok] by (intro claim_loop_ok recover_expired_ok) auto

lemma fail_delivery_ok:
  "fail_delivery cfg i err now st = Inr (st', r) \<Longrightarrow> store_ok strict cfg st \<Longrightarrow> store_ok strict cfg st'"
  using fail_delivery_locked_ok [of strict cfg st _ err now]
  by (fastforce simp: fail_delivery_def split: option.splits dest: find_SomeD2)

lemma redrive_ok:
  assumes "redrive_dead_letter i s a now st = Inr st'" "store_ok strict cfg st" "0 < cfg_max_attempts cfg"
    and idle: "\<And>d j. strict \<Longrightarrow> d \<in> set (st_deliveries st) \<Longrightarrow> dl_id d = i \<Longrightarrow> j \<in> set (st_jobs st) \<Longrightarrow>
      job_id j = dl_job d \<Longrightarrow> \<not> job_inflight j"
  shows "store_ok strict cfg st'"
proof -
  obtain d where d: "find (\<lambda>d. dl_id d = i \<and> addressed s a d \<and> dl_state d = Dead_letter) (st_deliveries st) = Some d"
    using assms(1) by (auto simp: redrive_dead_letter_def split: option.splits)
  then have in_st: "d \<in> set (st_deliveries st)" "dl_id d = i" "dl_state d = Dead_letter" using find_SomeD2 [OF d] by auto
  have "store_ok strict cfg (update_job (dl_job d) (\<lambda>j. j\<lparr>job_inflight := True\<rparr>)
      (update_delivery (dl_id d) (\<lambda>r. r\<lparr>dl_state := Pending, dl_attempts := 0, dl_available := Some now,
         dl_claimed := None, dl_lease := None, dl_error := None, dl_finished := None\<rparr>) st))"
    by (rule toggle_ok [OF assms(2) in_st(1)])
      (use assms(3) idle [OF _ in_st(1,2)] in_st(3) in \<open>auto simp: active_def delivery_ok_def waiting_def\<close>)
  then show ?thesis using assms(1) d in_st(2) by (simp add: redrive_dead_letter_def)
qed

lemma resolve_missed_ok:
  assumes "resolve_missed_one_shot i deliver now st = Inr st'" "store_ok strict cfg st" "0 < cfg_max_attempts cfg"
  shows "store_ok strict cfg st'"
  using assms
  by (auto simp: resolve_missed_one_shot_def split: option.splits if_splits dest!: find_SomeD2
      intro: delete_jobs_ok dispatch_ok)

lemma update_delivery_cong:
  assumes "\<And>d. d \<in> set (st_deliveries st) \<Longrightarrow> dl_id d = i \<Longrightarrow> f d = g d"
  shows "update_delivery i f st = update_delivery i g st"
  using assms by (simp add: update_delivery_def)

lemma delete_after_update:
  assumes "store_ok strict cfg st" and "\<And>d. dl_job (f d) = dl_job d" and "\<And>d. dl_id (f d) = dl_id d"
    and d: "d \<in> set (st_deliveries st)" and p: "\<And>j. p j \<longleftrightarrow> job_id j = dl_job d"
  shows "delete_jobs p (update_delivery (dl_id d) f st) = delete_jobs p st"
proof -
  obtain j where "j \<in> set (st_jobs st)" "job_id j = dl_job d"
    using store_okD(4) [OF assms(1) d] by auto
  then have gone: "dl_job d \<in> set (map job_id (filter p (st_jobs st)))" using p by auto
  have "filter (\<lambda>d. dl_job d \<notin> set (map job_id (filter p (st_jobs st)))) (map (\<lambda>x. if dl_id x = dl_id d then f x else x) xs)
      = filter (\<lambda>d. dl_job d \<notin> set (map job_id (filter p (st_jobs st)))) xs"
    if "set xs \<subseteq> set (st_deliveries st)" for xs
    using that
  proof (induction xs)
    case (Cons x xs)
    then have "dl_id x = dl_id d \<Longrightarrow> x = d" using same_delivery [OF assms(1) _ d] by simp
    with Cons gone assms(2) show ?case by auto
  qed simp
  then show ?thesis unfolding delete_jobs_def update_delivery_def Let_def by simp
qed

lemma complete_delivery_ok:
  assumes ok: "store_ok strict cfg st"
  shows "store_ok strict cfg (complete_delivery i now st)"
proof (cases "find (\<lambda>d. dl_id d = i \<and> dl_state d = Running) (st_deliveries st)")
  case None
  with ok show ?thesis by (simp add: complete_delivery_def)
next
  case (Some d)
  have d: "d \<in> set (st_deliveries st)" "dl_id d = i" "dl_state d = Running" using find_SomeD2 [OF Some] by auto
  let ?f = "\<lambda>r. if dl_state r = Running then r\<lparr>dl_state := Completed, dl_lease := None, dl_finished := Some now\<rparr> else r"
  let ?g = "\<lambda>r. r\<lparr>job_inflight := False, job_coalesced := False\<rparr>"
  have "store_ok strict cfg (update_job (dl_job d) ?g (update_delivery (dl_id d) ?f st))"
    by (rule toggle_ok [OF ok d(1)])
      (use d(3) active_flag [OF ok _ d(1)] in \<open>auto simp: active_def delivery_ok_def waiting_def\<close>)
  moreover have "delete_jobs (\<lambda>r. job_id r = dl_job d) (update_delivery (dl_id d) ?f st) =
      delete_jobs (\<lambda>r. job_id r = dl_job d) st"
    by (rule delete_after_update [OF ok _ _ d(1)]) auto
  ultimately show ?thesis
    using Some d(2) delete_jobs_ok [OF ok]
    by (auto simp: complete_delivery_def Let_def split: option.splits)
qed

lemma initialize_ok:
  assumes ok: "store_ok strict cfg st"
  shows "store_ok strict cfg (initialize st)"
proof -
  let ?f = "\<lambda>d. if dl_available d = None then d\<lparr>dl_available := coalesce_available d\<rparr> else d"
  have lease: "dl_lease d \<noteq> None" if "d \<in> set (st_deliveries st)" "dl_state d = Running" for d
    using store_okD(5) [OF ok that(1)] that(2) by (auto simp: delivery_ok_def)
  have init: "initialize st = st\<lparr>st_deliveries := map ?f (st_deliveries st)\<rparr>"
    unfolding initialize_def Let_def map_map
    by (rule arg_cong [where f = "\<lambda>ds. st\<lparr>st_deliveries := ds\<rparr>"], rule map_cong) (auto dest: lease)
  have len: "length (active_of (initialize st) k) = length (active_of st k)" for k
    unfolding init by (simp add: active_of_def active_def filter_map comp_def) (rule arg_cong [where f = length], rule filter_cong, auto)
  show ?thesis
  proof (rule store_okI)
    fix d assume "d \<in> set (st_deliveries (initialize st))"
    then obtain e where "e \<in> set (st_deliveries st)" "d = ?f e" by (auto simp: init)
    then show "dl_id d < st_next_id (initialize st)" "dl_job d \<in> job_id ` set (st_jobs (initialize st))" "delivery_ok cfg d"
      using store_okD(3-5) [OF ok, of e] by (auto simp: init delivery_ok_def waiting_def)
  qed (use len store_okD [OF ok] in \<open>auto simp: init comp_def if_distrib cong: if_cong\<close>)
qed

section \<open>Every run of the store\<close>

text \<open>One transaction of any method; a method that raises changes nothing and is no step. The label of a
  step says what matters for the theorems below: the clock of a claim, the delivery that is finished or
  failed, and whether a dead letter was redriven while its job was idle, which the method does not check.\<close>

datatype sched_event = Claims real | Settles nat | Redrives bool | Other

definition redrive_idle :: "nat \<Rightarrow> scheduler_store \<Rightarrow> bool" where
  "redrive_idle i st \<longleftrightarrow> (\<forall>d\<in>set (st_deliveries st). \<forall>j\<in>set (st_jobs st). dl_id d = i \<and> job_id j = dl_job d \<longrightarrow> \<not> job_inflight j)"

inductive sched_call :: "scheduler_config \<Rightarrow> zones \<Rightarrow> scheduler_store \<Rightarrow> sched_event \<Rightarrow> scheduler_store \<Rightarrow> bool"
  for cfg :: scheduler_config and zs :: zones where
  Open: "sched_call cfg zs st Other (initialize st)"
| Create: "create_job cfg zs hex s a sch tz pr pe os now st = Inr (st', row) \<Longrightarrow> sched_call cfg zs st Other st'"
| Delete: "sched_call cfg zs st Other (fst (delete_job i s a st))"
| Delete_session: "sched_call cfg zs st Other (fst (delete_session_jobs s a st))"
| Heartbeat: "heartbeat zs s a ttl now st = Inr (st', out) \<Longrightarrow> sched_call cfg zs st Other st'"
| Route: "route_due zs now st = Inr (st', out) \<Longrightarrow> sched_call cfg zs st Other st'"
| Claim: "sched_call cfg zs st (Claims now) (fst (claim_deliveries cfg s a limit now st))"
| Fail: "fail_delivery cfg i err now st = Inr (st', r) \<Longrightarrow> sched_call cfg zs st (Settles i) st'"
| Complete: "sched_call cfg zs st (Settles i) (complete_delivery i now st)"
| Resolve: "resolve_missed_one_shot i deliver now st = Inr st' \<Longrightarrow> sched_call cfg zs st Other st'"
| Redrive: "redrive_dead_letter i s a now st = Inr st' \<Longrightarrow> sched_call cfg zs st (Redrives (redrive_idle i st)) st'"

definition sched_step :: "bool \<Rightarrow> scheduler_config \<Rightarrow> zones \<Rightarrow> scheduler_store \<Rightarrow> scheduler_store \<Rightarrow> bool" where
  "sched_step strict cfg zs st st' \<longleftrightarrow> (\<exists>e. sched_call cfg zs st e st' \<and> (strict \<longrightarrow> e \<noteq> Redrives False))"

lemma sched_call_ok:
  assumes "sched_call cfg zs st e st'" "store_ok strict cfg st" "0 < cfg_max_attempts cfg" "strict \<longrightarrow> e \<noteq> Redrives False"
  shows "store_ok strict cfg st'"
  using assms
proof (induction rule: sched_call.induct)
  case (Open st)
  then show ?case by (intro initialize_ok)
next
  case Create
  from create_job_ok [OF Create(2,1)] show ?case .
next
  case (Delete st i s a)
  then show ?case by (simp add: delete_job_def Let_def delete_jobs_ok)
next
  case (Delete_session st s a)
  then show ?case by (simp add: delete_session_jobs_def Let_def delete_jobs_ok)
next
  case Heartbeat
  from heartbeat_ok [OF Heartbeat(1,2,3)] show ?case .
next
  case Route
  from route_due_ok [OF Route(1,2,3)] show ?case .
next
  case Claim
  then show ?case by (intro claim_deliveries_ok)
next
  case Fail
  from fail_delivery_ok [OF Fail(1,2)] show ?case .
next
  case Complete
  then show ?case by (intro complete_delivery_ok)
next
  case Resolve
  from resolve_missed_ok [OF Resolve(1,2,3)] show ?case .
next
  case (Redrive i s a now st st')
  from redrive_ok [OF Redrive(1,2,3)] Redrive(4) show ?case by (auto simp: redrive_idle_def)
qed

lemma empty_store_ok: "store_ok strict cfg empty_store"
  by (simp add: store_ok_def empty_store_def)

interpretation scheduler: invariant_system "\<lambda>st. st = empty_store" "sched_step strict (make_config mj mp att ba ca le sf) zs"
    "store_ok strict (make_config mj mp att ba ca le sf)" for strict mj mp att ba ca le sf zs
proof
  fix s t assume "store_ok strict (make_config mj mp att ba ca le sf) s" "sched_step strict (make_config mj mp att ba ca le sf) zs s t"
  moreover have "0 < cfg_max_attempts (make_config mj mp att ba ca le sf)" by (simp add: make_config_def)
  ultimately show "store_ok strict (make_config mj mp att ba ca le sf) t" unfolding sched_step_def using sched_call_ok by blast
qed (simp add: empty_store_ok)

text \<open>C3. For every configuration, in every store reached from an empty one by any sequence of method
  calls (by any number of processes, each call being one transaction, with any clock readings and
  failures): every delivery belongs to an existing job and has an identifier of its own; a job that is
  marked in flight has an unfinished delivery, so no job waits for nothing; no delivery is attempted more
  often than the configured maximum; a running delivery carries a lease, so it can be recovered; and
  the job table never exceeds its limit. If, in addition, every dead letter was redriven while its job
  was not in flight, a job is marked in flight exactly when it has one unfinished delivery, and never
  has more than one.\<close>

theorem scheduler_invariant:
  assumes "(sched_step strict (make_config mj mp attempts ba ca le sf) zs)\<^sup>*\<^sup>* empty_store st"
  shows "(\<forall>d\<in>set (st_deliveries st). \<exists>j\<in>set (st_jobs st). job_id j = dl_job d) \<and>
         (\<forall>j\<in>set (st_jobs st). job_inflight j \<longrightarrow> active_of st (job_id j) \<noteq> []) \<and>
         (\<forall>d\<in>set (st_deliveries st). active d \<longrightarrow> dl_attempts d \<le> nat (max 1 attempts)) \<and>
         (\<forall>d\<in>set (st_deliveries st). dl_state d = Running \<longrightarrow> dl_lease d \<noteq> None) \<and>
         distinct (map dl_id (st_deliveries st)) \<and> length (st_jobs st) \<le> mj \<and>
         (strict \<longrightarrow> (\<forall>j\<in>set (st_jobs st). length (active_of st (job_id j)) = (if job_inflight j then 1 else 0)))"
proof -
  let ?cfg = "make_config mj mp attempts ba ca le sf"
  have ok: "store_ok strict ?cfg st" using scheduler.reachable_inv [OF refl assms] .
  have cfg: "cfg_max_attempts ?cfg = nat (max 1 attempts)" "cfg_max_jobs ?cfg = mj" by (simp_all add: make_config_def)
  have "\<exists>j\<in>set (st_jobs st). job_id j = dl_job d" "active d \<longrightarrow> dl_attempts d \<le> nat (max 1 attempts)"
    "dl_state d = Running \<longrightarrow> dl_lease d \<noteq> None" if "d \<in> set (st_deliveries st)" for d
    using store_okD(4,5) [OF ok that] cfg(1) by (auto simp: delivery_ok_def active_def waiting_def)
  then show ?thesis using store_okD(2,6,7) [OF ok] cfg(2) by (simp add: flag_ok_def)
qed

section \<open>Claims are exclusive\<close>

lemma find_update_delivery:
  "find_delivery (update_delivery i f st) i = map_option f (find_delivery st i)" if "\<And>d. dl_id (f d) = dl_id d"
proof -
  have "find (\<lambda>d. dl_id d = i) (map (\<lambda>d. if dl_id d = i then f d else d) xs) = map_option f (find (\<lambda>d. dl_id d = i) xs)" for xs
    by (induction xs) (auto simp: that)
  then show ?thesis by (simp add: find_delivery_def update_delivery_def)
qed

lemma find_delivery_Some: "find_delivery st i = Some d \<Longrightarrow> d \<in> set (st_deliveries st) \<and> dl_id d = i"
  by (auto simp: find_delivery_def dest: find_SomeD2)

text \<open>A claimed row stays in the table as it was handed out while the loop goes on.\<close>

lemma claim_loop_result:
  assumes "claim_loop cfg now ds st out = (st', out')" "distinct (map dl_id ds)"
    "\<forall>d\<in>set out. d \<in> set (st_deliveries st) \<and> dl_id d \<notin> dl_id ` set ds"
    "\<forall>d\<in>set out. dl_state d = Running \<and> dl_lease d = Some (now + cfg_lease cfg)"
  shows "\<forall>d\<in>set out'. d \<in> set (st_deliveries st') \<and> dl_state d = Running \<and> dl_lease d = Some (now + cfg_lease cfg)"
  using assms
proof (induction ds arbitrary: st out)
  case (Cons d ds)
  let ?st = "update_delivery (dl_id d) (claim_one cfg now) st"
  let ?out = "case find_delivery ?st (dl_id d) of None \<Rightarrow> out | Some c \<Rightarrow> out @ [c]"
  have c: "c \<in> set (st_deliveries ?st) \<and> dl_id c = dl_id d \<and> dl_state c = Running \<and> dl_lease c = Some (now + cfg_lease cfg)"
    if "find_delivery ?st (dl_id d) = Some c" for c
    using that find_delivery_Some [OF that] find_update_delivery [of "claim_one cfg now" "dl_id d" st]
    by (auto simp: claim_one_def)
  have loop: "claim_loop cfg now ds ?st ?out = (st', out')" using Cons.prems(1) by (simp add: Let_def)
  have old: "x \<in> set (st_deliveries ?st) \<and> dl_id x \<notin> dl_id ` set ds \<and> dl_state x = Running \<and>
      dl_lease x = Some (now + cfg_lease cfg)" if "x \<in> set out" for x
    using that Cons.prems(3,4) in_update_delivery [of x st "dl_id d" "claim_one cfg now"] by simp
  have new: "dl_id c \<notin> dl_id ` set ds" if "find_delivery ?st (dl_id d) = Some c" for c
    using c [OF that] Cons.prems(2) by simp
  have "x \<in> set (st_deliveries ?st) \<and> dl_id x \<notin> dl_id ` set ds \<and> dl_state x = Running \<and>
      dl_lease x = Some (now + cfg_lease cfg)" if "x \<in> set ?out" for x
  proof (cases "x \<in> set out")
    case False
    then have "find_delivery ?st (dl_id d) = Some x" using that by (simp split: option.splits)
    from c [OF this] new [OF this] show ?thesis by simp
  qed (rule old)
  then show ?case using Cons.prems(2) by (intro Cons.IH [OF loop]) auto
qed simp

lemma claim_loop_ids:
  assumes "claim_loop cfg now ds st out = (st', out')"
  shows "dl_id ` set out' \<subseteq> dl_id ` set out \<union> dl_id ` set ds"
  using assms
proof (induction ds arbitrary: st out)
  case (Cons d ds)
  let ?st = "update_delivery (dl_id d) (claim_one cfg now) st"
  let ?out = "case find_delivery ?st (dl_id d) of None \<Rightarrow> out | Some c \<Rightarrow> out @ [c]"
  have "dl_id ` set ?out \<subseteq> insert (dl_id d) (dl_id ` set out)"
    using find_delivery_Some [of ?st "dl_id d"] by (cases "find_delivery ?st (dl_id d)") auto
  moreover have "dl_id ` set out' \<subseteq> dl_id ` set ?out \<union> dl_id ` set ds"
    using Cons.prems by (intro Cons.IH [of ?st]) (simp add: Let_def)
  ultimately show ?case unfolding list.set image_insert by blast
qed simp

lemma in_recover_fold:
  "x \<in> set (st_deliveries st) \<Longrightarrow> dl_id x \<notin> dl_id ` set ds \<Longrightarrow>
   x \<in> set (st_deliveries (fold (\<lambda>d s. fst (fail_delivery_locked cfg d err now s)) ds st))"
  by (induction ds arbitrary: st) (auto intro: in_fail_delivery_locked)

text \<open>What an identifier that has been handed out stands for until its lease has run out: rows with it
  are running under that lease, and no new row gets it.\<close>

definition held :: "nat \<Rightarrow> real \<Rightarrow> scheduler_store \<Rightarrow> bool" where
  "held i lease st \<longleftrightarrow> i < st_next_id st \<and>
     (\<forall>d\<in>set (st_deliveries st). dl_id d = i \<longrightarrow> dl_state d = Running \<and> dl_lease d = Some lease)"

lemma held_update_job [simp]: "held i lease (update_job k f st) = held i lease st"
  by (simp add: held_def)

lemma held_update_delivery: "held i lease st \<Longrightarrow> k \<noteq> i \<Longrightarrow> (\<And>d. dl_id (f d) = dl_id d) \<Longrightarrow> held i lease (update_delivery k f st)"
  by (auto simp: held_def update_delivery_def)

lemma held_delete: "held i lease st \<Longrightarrow> held i lease (delete_jobs p st)"
  by (auto simp: held_def delete_jobs_def Let_def)

lemma held_dispatch: "held i lease st \<Longrightarrow> held i lease (dispatch j due now nxt st)"
  by (auto simp: held_def dispatch_def insert_delivery_def)

lemma held_create: "create_job cfg zs hex s a sch tz pr pe os now st = Inr (st', row) \<Longrightarrow> held i lease st \<Longrightarrow> held i lease st'"
  by (auto simp: held_def create_job_def bind_res_Inr_iff Let_def split: if_splits)

lemma held_catch_up: "catch_up_loop zs now js st out = Inr (st', out') \<Longrightarrow> held i lease st \<Longrightarrow> held i lease st'"
  by (induction js arbitrary: st out) (auto simp: bind_res_Inr_iff held_dispatch)

lemma held_route: "route_loop zs now js st out = Inr (st', out') \<Longrightarrow> held i lease st \<Longrightarrow> held i lease st'"
  by (induction js arbitrary: st out) (auto simp: bind_res_Inr_iff held_dispatch split: if_splits)

lemma held_fail_locked:
  assumes "held i lease st" "dl_id d \<noteq> i"
  shows "held i lease (fst (fail_delivery_locked cfg d err now st))"
  using assms by (simp add: fail_delivery_locked_def held_update_delivery)

lemma held_recover_fold:
  "held i lease st \<Longrightarrow> \<forall>d\<in>set ds. dl_id d \<noteq> i \<Longrightarrow>
   held i lease (fold (\<lambda>d s. fst (fail_delivery_locked cfg d err now s)) ds st)"
  by (induction ds arbitrary: st) (simp_all add: held_fail_locked)

lemma held_recover: "held i lease st \<Longrightarrow> now < lease \<Longrightarrow> held i lease (recover_expired cfg now st)"
  unfolding recover_expired_def by (rule held_recover_fold) (auto simp: held_def expired_def)

lemma held_claim_loop:
  "held i lease st \<Longrightarrow> \<forall>d\<in>set ds. dl_id d \<noteq> i \<Longrightarrow> held i lease (fst (claim_loop cfg now ds st out))"
  by (induction ds arbitrary: st out) (simp_all add: Let_def held_update_delivery claim_one_def)

lemma claimable_waits: "d \<in> set (claimable s a limit now st) \<Longrightarrow> d \<in> set (st_deliveries st) \<and> waiting d"
  unfolding claimable_def by (auto dest: in_set_takeD)

lemma held_not_claimable: "held i lease st \<Longrightarrow> d \<in> set (claimable s a limit now st) \<Longrightarrow> dl_id d \<noteq> i"
  using claimable_waits [of d s a limit now st] by (auto simp: held_def waiting_def)

lemma held_claim:
  assumes "held i lease st" "now < lease"
  shows "held i lease (fst (claim_deliveries cfg s a limit now st))"
    and "i \<notin> dl_id ` set (snd (claim_deliveries cfg s a limit now st))"
proof -
  have h: "held i lease (recover_expired cfg now st)" using assms by (rule held_recover)
  then show "held i lease (fst (claim_deliveries cfg s a limit now st))"
    unfolding claim_deliveries_def Let_def by (intro held_claim_loop) (auto dest: held_not_claimable)
  show "i \<notin> dl_id ` set (snd (claim_deliveries cfg s a limit now st))"
    using claim_loop_ids [OF prod.collapse [symmetric], of cfg now "claimable s a limit now (recover_expired cfg now st)" "recover_expired cfg now st" "[]"]
      held_not_claimable [OF h] unfolding claim_deliveries_def Let_def by fastforce
qed

lemma held_complete:
  assumes "held i lease st" "k \<noteq> i"
  shows "held i lease (complete_delivery k now st)"
  using assms by (auto simp: complete_delivery_def Let_def held_delete held_update_delivery split: option.split)

lemma held_initialize: "held i lease st \<Longrightarrow> held i lease (initialize st)"
  by (auto simp: held_def initialize_def Let_def)

text \<open>Anything may happen to the store except that the deliveries of \<open>I\<close> are finished or failed, or that
  the clock of a claim has passed the end of their lease.\<close>

definition undisturbed :: "scheduler_config \<Rightarrow> zones \<Rightarrow> nat set \<Rightarrow> real \<Rightarrow> scheduler_store \<Rightarrow> scheduler_store \<Rightarrow> bool" where
  "undisturbed cfg zs I lease st st' \<longleftrightarrow>
     (\<exists>e. sched_call cfg zs st e st' \<and> (\<forall>now. e = Claims now \<longrightarrow> now < lease) \<and> (\<forall>k. e = Settles k \<longrightarrow> k \<notin> I))"

lemma held_call:
  assumes "sched_call cfg zs st e st'" "held i lease st" "\<forall>now. e = Claims now \<longrightarrow> now < lease" "e \<noteq> Settles i"
  shows "held i lease st'"
  using assms
proof (induction rule: sched_call.induct)
  case (Create hex s a sch tz pr pe os now st st' row)
  then show ?case using held_create by blast
next
  case (Heartbeat s a ttl now st st' out)
  have "held i lease (set_heartbeat s a (now + ttl) st)" using Heartbeat(2) by (simp add: held_def set_heartbeat_def)
  with Heartbeat(1) show ?case unfolding heartbeat_def Let_def by (rule held_catch_up)
next
  case (Route now st st' out)
  then show ?case unfolding route_due_def using held_route by blast
next
  case (Fail k err now st st' r)
  then show ?case using held_fail_locked [of i lease st _ cfg err now]
    by (fastforce simp: fail_delivery_def split: option.splits dest: find_SomeD2)
next
  case (Resolve k deliver now st st')
  then show ?case by (auto simp: resolve_missed_one_shot_def held_delete held_dispatch split: option.splits if_splits)
next
  case (Redrive k s a now st st')
  then obtain d where d: "find (\<lambda>d. dl_id d = k \<and> addressed s a d \<and> dl_state d = Dead_letter) (st_deliveries st) = Some d"
    by (auto simp: redrive_dead_letter_def split: option.splits)
  then have "k \<noteq> i" using Redrive(2) find_SomeD2 [OF d] by (auto simp: held_def)
  with Redrive d show ?case by (auto simp: redrive_dead_letter_def held_update_delivery)
qed (simp_all add: held_initialize held_delete delete_job_def delete_session_jobs_def Let_def held_claim(1) held_complete)

lemma held_history: "(undisturbed cfg zs I lease)\<^sup>*\<^sup>* st st' \<Longrightarrow> i \<in> I \<Longrightarrow> held i lease st \<Longrightarrow> held i lease st'"
proof (induction rule: rtranclp_induct)
  case (step y z)
  from step(2) obtain e where e: "sched_call cfg zs y e z" "\<forall>now. e = Claims now \<longrightarrow> now < lease" "\<forall>k. e = Settles k \<longrightarrow> k \<notin> I"
    by (auto simp: undisturbed_def)
  from e(3) step(4) have "e \<noteq> Settles i" by blast
  with e step(3-5) show ?case by (intro held_call [OF e(1) _ e(2)]) blast+
qed

text \<open>C16. Two workers never hold the same delivery at once. In a store that satisfies the invariant (every
  reachable one does), what one claim hands out no later claim (of any owner, with any limit) hands out
  again before the lease of the first has run out, whatever methods are called in between: other claims,
  heartbeats, routing, deletions, redrives, a reopening of the store. The exceptions are a call that
  completes or fails one of these deliveries, which is its worker giving it back, and a claim in between
  whose clock is past the end of the lease.\<close>

theorem claims_exclusive:
  assumes ok: "store_ok strict cfg st" and first: "claim_deliveries cfg s a limit now st = (st', ds)"
    and between: "(undisturbed cfg zs (dl_id ` set ds) (now + cfg_lease cfg))\<^sup>*\<^sup>* st' st''"
    and second: "claim_deliveries cfg s' a' limit' now' st'' = (st3, es)" and early: "now' < now + cfg_lease cfg"
  shows "dl_id ` set ds \<inter> dl_id ` set es = {}"
proof -
  let ?lease = "now + cfg_lease cfg" and ?st1 = "recover_expired cfg now st"
  have ok': "store_ok strict cfg st'" using claim_deliveries_ok [OF ok, of s a limit now] first by simp
  have run: "\<forall>d\<in>set ds. d \<in> set (st_deliveries st') \<and> dl_state d = Running \<and> dl_lease d = Some ?lease"
    using first claimable_rows(2) [OF recover_expired_ok [OF ok]]
    by (intro claim_loop_result [of cfg now "claimable s a limit now ?st1" ?st1 "[]"])
      (simp_all add: claim_deliveries_def Let_def)
  have "i \<notin> dl_id ` set es" if i: "i \<in> dl_id ` set ds" for i
  proof -
    from i obtain d where d: "d \<in> set ds" "dl_id d = i" by auto
    then have "held i ?lease st'" using run same_delivery [OF ok'] store_okD(3) [OF ok'] unfolding held_def by blast
    then have "held i ?lease st''" using held_history [OF between i] by blast
    from held_claim(2) [OF this early] second show ?thesis by (metis snd_conv)
  qed
  then show ?thesis by blast
qed

section \<open>Bounded retries\<close>

text \<open>A failing delivery backs off and then stops. After a failure the delivery waits at
  least the base delay doubled with every earlier attempt, never longer than the cap, or, when
  its attempts are used up, becomes a dead letter and frees its job.\<close>

theorem failure_backs_off_or_dies:
  assumes "store_ok strict (make_config mj mp attempts ba ca le sf) st"
    and "fail_delivery (make_config mj mp attempts ba ca le sf) i err now st = Inr (st', verdict)"
  shows "\<exists>d d'. d \<in> set (st_deliveries st) \<and> dl_id d = i \<and> dl_state d = Running \<and>
           d' \<in> set (st_deliveries st') \<and> dl_id d' = i \<and> dl_state d' = verdict \<and> dl_lease d' = None \<and>
           (if dl_attempts d < nat (max 1 attempts)
            then verdict = Retry_wait \<and> dl_available d' =
                   Some (now + min (max (max 0 ba) ca) (max 0 ba * 2 ^ (dl_attempts d - 1)))
            else verdict = Dead_letter \<and> (\<forall>j\<in>set (st_jobs st'). job_id j = dl_job d \<longrightarrow> \<not> job_inflight j))"
proof -
  let ?cfg = "make_config mj mp attempts ba ca le sf"
  obtain d where found: "find (\<lambda>d. dl_id d = i \<and> dl_state d = Running \<and> find_job st (dl_job d) \<noteq> None) (st_deliveries st) = Some d"
    and r: "fail_delivery_locked ?cfg d err now st = (st', verdict)"
    using assms(2) by (auto simp: fail_delivery_def split: option.splits)
  have d: "d \<in> set (st_deliveries st)" "dl_id d = i" "dl_state d = Running" using find_SomeD2 [OF found] by auto
  have upd: "f d \<in> set (st_deliveries (update_delivery (dl_id d) f st))" for f
    using d(1) by (auto simp: update_delivery_def)
  show ?thesis
  proof (cases "dl_attempts d < nat (max 1 attempts)")
    case True
    let ?f = "\<lambda>r. r\<lparr>dl_state := Retry_wait, dl_available := Some (now + retry_delay ?cfg (dl_attempts d)),
       dl_lease := None, dl_error := Some (cfg_safe_error ?cfg err)\<rparr>"
    have st': "st' = update_delivery (dl_id d) ?f st" "verdict = Retry_wait"
      using r True by (simp_all add: fail_delivery_locked_def make_config_def)
    show ?thesis
      by (intro exI [of _ d] exI [of _ "?f d"])
        (use d True upd [of ?f] in \<open>simp add: st' retry_delay_def make_config_def\<close>)
  next
    case False
    let ?f = "\<lambda>r. r\<lparr>dl_state := Dead_letter, dl_available := None, dl_lease := None,
       dl_error := Some (cfg_safe_error ?cfg err), dl_finished := Some now\<rparr>"
    have st': "st' = update_job (dl_job d) (\<lambda>j. j\<lparr>job_inflight := False, job_coalesced := False\<rparr>)
        (update_delivery (dl_id d) ?f st)" "verdict = Dead_letter"
      using r False by (simp_all add: fail_delivery_locked_def make_config_def)
    show ?thesis
      by (intro exI [of _ d] exI [of _ "?f d"])
        (use d False upd [of ?f] in \<open>auto simp: st' update_job_def\<close>)
  qed
qed

section \<open>Witnesses\<close>

definition example_config :: scheduler_config where
  "example_config = make_config 50 16000 3 30 600 1800 (\<lambda>e. e)"

definition example_job :: job where
  "example_job = \<lparr>job_id = ''cron_1'', job_session = ''s'', job_agent = ''a'', job_schedule = ''0 0 1 3 *'',
     job_timezone = ''UTC'', job_prompt = ''report'', job_persistent = True, job_one_shot = False,
     job_next_run = 0, job_last_run = None, job_missed = 0, job_inflight = True, job_coalesced = False,
     job_created = 0\<rparr>"

definition example_delivery :: "nat \<Rightarrow> delivery_state \<Rightarrow> nat \<Rightarrow> real option \<Rightarrow> delivery" where
  "example_delivery i state attempts lease = \<lparr>dl_id = i, dl_job = ''cron_1'', dl_session = ''s'', dl_agent = ''a'',
     dl_prompt = ''report'', dl_due = 0, dl_state = state, dl_created = 0, dl_attempts = attempts,
     dl_available = Some 0, dl_claimed = None, dl_lease = lease, dl_error = None, dl_finished = None\<rparr>"

text \<open>A job whose first delivery died and whose second is pending or running.\<close>

definition example_store :: "delivery_state \<Rightarrow> scheduler_store" where
  "example_store state = \<lparr>st_jobs = [example_job], st_heartbeats = [],
     st_deliveries = [example_delivery 1 Dead_letter 3 None,
       example_delivery 2 state (if state = Running then 2 else 0) (if state = Running then Some 5 else None)],
     st_next_id = 3\<rparr>"

lemma example_store_ok: "store_ok strict example_config (example_store Pending)" "store_ok strict example_config (example_store Running)"
  by (simp_all add: store_ok_def flag_ok_def example_config_def make_config_def example_store_def example_job_def
      example_delivery_def active_of_def active_def delivery_ok_def waiting_def)

theorem scheduler_invariant_witness:
  "\<exists>st. (sched_step True (make_config 50 16000 3 30 600 1800 (\<lambda>e. e))
          (\<lambda>_. Inr (fixed_zone (at_time 2024 2 29 23 50))))\<^sup>*\<^sup>* empty_store st \<and>
        length (st_jobs st) = 1 \<and> distinct (map dl_id (st_deliveries st)) \<and> length (st_jobs st) \<le> 50"
proof -
  let ?cfg = "make_config 50 16000 3 30 600 1800 (\<lambda>e. e)"
  let ?zs = "\<lambda>_::string. (Inr (fixed_zone (at_time 2024 2 29 23 50)) :: zone_info py_result)"
  obtain t where t: "next_after ?zs month_end_cron 0 ''UTC'' = Inr t" using month_end_next by blast
  have "py_strip ''report'' \<noteq> []" by code_simp
  then have "\<exists>st row. create_job ?cfg ?zs ''1'' ''s'' ''a'' ''0 0 1 3 *'' ''UTC'' ''report'' True False 0 empty_store
      = Inr (st, row) \<and> length (st_jobs st) = 1"
    using t by (simp add: create_job_def month_end_text make_config_def empty_store_def find_job_def get_job_def Let_def)
  then obtain st row where
    c: "create_job ?cfg ?zs ''1'' ''s'' ''a'' ''0 0 1 3 *'' ''UTC'' ''report'' True False 0 empty_store = Inr (st, row)"
    "length (st_jobs st) = 1" by blast
  have "sched_step True ?cfg ?zs empty_store st" unfolding sched_step_def using sched_call.Create [OF c(1)] by blast
  then have reach: "(sched_step True ?cfg ?zs)\<^sup>*\<^sup>* empty_store st" by blast
  with scheduler_invariant [OF reach] c(2) show ?thesis by blast
qed

text \<open>The pending delivery is handed out; between the claims the store is reopened and another claim of the
  same owner gets nothing.\<close>

theorem claims_exclusive_witness:
  "\<exists>st1 ds st2 st3 es. claim_deliveries example_config ''s'' ''a'' 10 1 (example_store Pending) = (st1, ds) \<and> dl_id ` set ds = {2} \<and>
     fst (claim_deliveries example_config ''s'' ''a'' 10 2 (initialize st1)) = st2 \<and>
     claim_deliveries example_config ''s'' ''a'' 10 3 st2 = (st3, es) \<and> 2 \<notin> dl_id ` set es"
proof -
  let ?zs = "\<lambda>_::string. Inr (fixed_zone (at_time 2024 2 29 23 50)) :: zone_info py_result"
  obtain st1 ds where first: "claim_deliveries example_config ''s'' ''a'' 10 1 (example_store Pending) = (st1, ds)" by fastforce
  have "map dl_id (snd (claim_deliveries example_config ''s'' ''a'' 10 1 (example_store Pending))) = [2]" by code_simp
  then have ds: "dl_id ` set ds = {2}" using first by (simp flip: set_map)
  let ?st2 = "fst (claim_deliveries example_config ''s'' ''a'' 10 2 (initialize st1))"
  obtain st3 es where second: "claim_deliveries example_config ''s'' ''a'' 10 3 ?st2 = (st3, es)" by fastforce
  have lease: "(3::real) < 1 + cfg_lease example_config" by (simp add: example_config_def make_config_def)
  have "undisturbed example_config ?zs (dl_id ` set ds) (1 + cfg_lease example_config) st1 (initialize st1)"
    unfolding undisturbed_def using sched_call.Open by blast
  moreover have "undisturbed example_config ?zs (dl_id ` set ds) (1 + cfg_lease example_config) (initialize st1) ?st2"
    unfolding undisturbed_def using sched_call.Claim [of example_config ?zs "initialize st1" 2] lease by fastforce
  ultimately have "(undisturbed example_config ?zs (dl_id ` set ds) (1 + cfg_lease example_config))\<^sup>*\<^sup>* st1 ?st2" by simp
  from claims_exclusive [OF example_store_ok(1) first this second lease] ds have "2 \<notin> dl_id ` set es" by auto
  with first ds second show ?thesis by (intro exI conjI) (assumption | rule refl)+
qed

theorem failure_backs_off_or_dies_witness:
  "\<exists>st' d'. fail_delivery example_config 2 ''boom'' 10 (example_store Running) = Inr (st', Retry_wait) \<and>
     d' \<in> set (st_deliveries st') \<and> dl_id d' = 2 \<and> dl_available d' = Some 70"
proof -
  have "fail_delivery example_config 2 ''boom'' 10 (example_store Running) = Inr (fail_delivery_locked example_config
      (example_delivery 2 Running 2 (Some 5)) ''boom'' 10 (example_store Running))"
    by (simp add: fail_delivery_def example_store_def example_delivery_def find_job_def example_job_def)
  then obtain st' v where r: "fail_delivery example_config 2 ''boom'' 10 (example_store Running) = Inr (st', v)"
    by (metis prod.exhaust)
  from failure_backs_off_or_dies [OF example_store_ok(2) [unfolded example_config_def] r [unfolded example_config_def]]
  obtain d d' where d: "d \<in> set (st_deliveries (example_store Running))" "dl_id d = 2"
    and d': "d' \<in> set (st_deliveries st')" "dl_id d' = 2"
    and out: "if dl_attempts d < nat (max 1 3)
       then v = Retry_wait \<and> dl_available d' = Some (10 + min (max (max 0 30) 600) (max 0 30 * 2 ^ (dl_attempts d - 1)))
       else v = Dead_letter \<and> (\<forall>j\<in>set (st_jobs st'). job_id j = dl_job d \<longrightarrow> \<not> job_inflight j)"
    by metis
  have "dl_attempts d = 2" using d by (auto simp: example_store_def example_delivery_def)
  with out have "v = Retry_wait" "dl_available d' = Some 70" by simp_all
  with r d' show ?thesis by blast
qed

section \<open>What the store does not guarantee\<close>

text \<open>Redriving a dead letter does not look at the job: while another delivery of the same
  job is pending, the redrive leaves the job with two unfinished deliveries, and one claim then
  hands out both, so the same prompt runs twice at once. The invariant that every other method
  keeps is broken.\<close>

theorem redrive_duplicates_work:
  "store_ok strict example_config (example_store Pending) \<and>
   (\<exists>st'. redrive_dead_letter 1 ''s'' ''a'' 20 (example_store Pending) = Inr st' \<and> \<not> store_ok True example_config st' \<and>
      length (active_of st' ''cron_1'') = 2 \<and>
      map dl_id (snd (claim_deliveries example_config ''s'' ''a'' 10 30 st')) = [2, 1])"
proof -
  let ?st = "case redrive_dead_letter 1 ''s'' ''a'' 20 (example_store Pending) of Inr st \<Rightarrow> st | Inl _ \<Rightarrow> empty_store"
  have r: "redrive_dead_letter 1 ''s'' ''a'' 20 (example_store Pending) = Inr ?st"
    by (simp add: redrive_dead_letter_def example_store_def example_delivery_def addressed_def)
  have two: "length (active_of ?st ''cron_1'') = 2" and job: "\<exists>j\<in>set (st_jobs ?st). job_id j = ''cron_1''"
    and claimed: "map dl_id (snd (claim_deliveries example_config ''s'' ''a'' 10 30 ?st)) = [2, 1]"
    by code_simp+
  have broken: "\<not> store_ok True example_config ?st"
  proof
    assume ok: "store_ok True example_config ?st"
    from job obtain j where "j \<in> set (st_jobs ?st)" "job_id j = ''cron_1''" by blast
    with store_okD(6) [OF ok this(1)] two show False by (cases "job_inflight j") (simp_all add: flag_ok_def)
  qed
  show ?thesis
    by (rule conjI [OF example_store_ok(1)], rule exI [of _ ?st], intro conjI)
      (rule r, rule broken, rule two, rule claimed)
qed

lemma route_loop_blocked:
  assumes "j \<in> set js" "next_run_of zs j now = Inl e"
  shows "\<exists>e'. route_loop zs now js st out = Inl e'"
  using assms
proof (induction js arbitrary: st out)
  case (Cons k ks)
  show ?case
  proof (cases "next_run_of zs k now")
    case (Inr t)
    with Cons have "j \<in> set ks" by auto
    with Cons Inr show ?thesis by simp
  qed simp
qed simp

text \<open>One leap-day job stops the whole scheduler. A job for midnight of 29 February is
  accepted when that day is less than two years away, but once it is due, its next occurrence
  lies beyond the two-year search window, \<open>next_after\<close> raises, and \<open>route_due\<close> raises with it:
  the transaction is rolled back and no job of any agent is routed.\<close>

theorem leap_day_job_blocks_routing:
  assumes "j \<in> set (st_jobs st)" and "job_schedule j = ''0 0 29 2 *''" and "job_next_run j \<le> now"
    and "zs (job_timezone j) = Inr zone" and "valid_time (zone_local zone now)"
    and "dt_year (zone_local zone now) = 2028" "dt_month (zone_local zone now) = 2" "dt_day (zone_local zone now) = 29"
  shows "\<exists>e. route_due zs now st = Inl e"
proof -
  obtain e where "next_after zs leap_cron now (job_timezone j) = Inl e"
    using leap_cron_exhausted [of zs "job_timezone j" zone now, OF assms(4-8)] by blast
  then have "next_run_of zs j now = Inl e" using assms(2) leap_cron_text by (simp add: next_run_of_def)
  moreover have "j \<in> set (due_jobs st now)" using assms(1,3) by (simp add: due_jobs_def)
  ultimately show ?thesis unfolding route_due_def using route_loop_blocked by blast
qed

theorem leap_day_job_blocks_routing_witness:
  "\<exists>e. route_due (\<lambda>_. Inr (fixed_zone (at_time 2028 2 29 0 0))) 5
     ((example_store Pending)\<lparr>st_jobs := [example_job\<lparr>job_schedule := ''0 0 29 2 *''\<rparr>, example_job]\<rparr>) = Inl e"
  by (rule leap_day_job_blocks_routing [where j = "example_job\<lparr>job_schedule := ''0 0 29 2 *''\<rparr>"
        and zone = "fixed_zone (at_time 2028 2 29 0 0)"])
    (simp_all add: example_job_def at_time_def valid_time_def days_in_month_def is_leap_def)

end
