(* ===== verification/Prompt_Queue.thy ===== *)
theory Prompt_Queue
  imports Polaris_Prelude "HOL-Library.Multiset"
begin

text \<open>
  \<^verbatim>\<open>agent_core/terminal/prompt_queue.py\<close>: the queue of messages typed while a run is active.
  An item is a record, the queue the list of items in submission order. \<open>uuid4\<close> and the
  monotonic clock are arguments of \<open>enqueue\<close>.
\<close>

section \<open>Items\<close>

datatype queue_priority = NOW | NEXT | LATER

fun priority_value :: "queue_priority \<Rightarrow> nat" where
  "priority_value NOW = 0"
| "priority_value NEXT = 1"
| "priority_value LATER = 2"

fun priority_name :: "queue_priority \<Rightarrow> string" where
  "priority_name NOW = ''now''"
| "priority_name NEXT = ''next''"
| "priority_name LATER = ''later''"

definition upper_char :: "char \<Rightarrow> char" where
  "upper_char c = (let n = (of_char c :: nat) in if 97 \<le> n \<and> n \<le> 122 then char_of (n - 32) else c)"

text \<open>\<open>QueuePriority.parse\<close> of a text: the member with that name, else \<open>KeyError\<close>. Only ASCII
  letters matter for the three names.\<close>

definition parse_priority :: "string \<Rightarrow> queue_priority py_result" where
  "parse_priority value =
     (let name = map upper_char (py_strip value)
      in if name = ''NOW'' then Inr NOW
         else if name = ''NEXT'' then Inr NEXT
         else if name = ''LATER'' then Inr LATER
         else Inl (KeyError name))"

record queued_prompt =
  qp_content :: string
  qp_priority :: queue_priority
  qp_mode :: string
  qp_origin :: string
  qp_editable :: bool
  qp_uuid :: string
  qp_enqueued :: real

definition is_slash_command :: "queued_prompt \<Rightarrow> bool" where
  "is_slash_command q =
     (let stripped = lstrip_chars is_space (qp_content q)
      in startswith stripped ''/'' \<and> \<not> startswith stripped ''//'')"

record message =
  msg_role :: string
  msg_content :: string
  msg_metadata :: pydict
  msg_uuid :: string

definition to_message :: "string \<Rightarrow> queued_prompt \<Rightarrow> message" where
  "to_message delivery q =
     \<lparr>msg_role = ''user'', msg_content = qp_content q,
      msg_metadata = [(''queued_command'', PBool True), (''queue_priority'', PStr (priority_name (qp_priority q))),
        (''queue_mode'', PStr (qp_mode q)), (''queue_origin'', PStr (qp_origin q)),
        (''queue_delivery'', PStr delivery), (''prompt_source'', PStr delivery)],
      msg_uuid = qp_uuid q\<rparr>"

section \<open>The queue\<close>

type_synonym prompt_queue = "queued_prompt list"

definition enqueue ::
  "string \<Rightarrow> real \<Rightarrow> string \<Rightarrow> string \<Rightarrow> string \<Rightarrow> string \<Rightarrow> bool \<Rightarrow> prompt_queue \<Rightarrow>
   (prompt_queue \<times> queued_prompt) py_result" where
  "enqueue uid clock content priority mode origin editable items =
     bind_res (parse_priority priority) (\<lambda>p.
       (let item = \<lparr>qp_content = content, qp_priority = p, qp_mode = mode, qp_origin = origin,
                    qp_editable = editable, qp_uuid = uid, qp_enqueued = clock\<rparr>
        in Inr (items @ [item], item)))"

definition clear :: "prompt_queue \<Rightarrow> prompt_queue \<times> queued_prompt list" where
  "clear items = ([], items)"

text \<open>Remove the items whose identity was selected.\<close>

definition without :: "queued_prompt list \<Rightarrow> prompt_queue \<Rightarrow> prompt_queue" where
  "without selected items = filter (\<lambda>q. qp_uuid q \<notin> qp_uuid ` set selected) items"

definition recall_editable :: "prompt_queue \<Rightarrow> prompt_queue \<times> string" where
  "recall_editable items =
     (let recalled = filter qp_editable items
      in if recalled = [] then (items, '''')
         else (without recalled items, join_str [CHR 0x0A] (map qp_content recalled)))"

definition queue_key :: "queued_prompt \<Rightarrow> nat \<times> real" where
  "queue_key q = (priority_value (qp_priority q), qp_enqueued q)"

definition ordered :: "prompt_queue \<Rightarrow> queued_prompt list" where
  "ordered items = sort_key queue_key items"

definition drain_midturn :: "prompt_queue \<Rightarrow> prompt_queue \<times> message list" where
  "drain_midturn items =
     (let eligible = takeWhile (\<lambda>q. \<not> (qp_priority q = LATER \<or> is_slash_command q)) (ordered items)
      in if eligible = [] then (items, [])
         else (let sorted_eligible = sort_key queue_key eligible
               in (without sorted_eligible items, map (to_message ''midturn'') sorted_eligible)))"

definition pop_between_turn :: "prompt_queue \<Rightarrow> prompt_queue \<times> queued_prompt list" where
  "pop_between_turn items =
     (case ordered items of
        [] \<Rightarrow> (items, [])
      | first # rest \<Rightarrow>
          (let selected =
             (if is_slash_command first then [first]
              else takeWhile (\<lambda>q. \<not> (is_slash_command q \<or> qp_priority q \<noteq> qp_priority first \<or> qp_mode q \<noteq> qp_mode first))
                     (first # rest))
           in (without selected items, selected)))"

section \<open>Dispatch queues\<close>

text \<open>The contract of a queue that is emptied in units: a unit is a non-empty front part of the
  queue in its service order, and taking it leaves the rest in order.\<close>

locale dispatch_queue =
  fixes inv :: "'q \<Rightarrow> bool" and order :: "'q \<Rightarrow> 'x list" and pop :: "'q \<Rightarrow> 'q \<times> 'x list"
  assumes pop_order: "inv q \<Longrightarrow> pop q = (q', xs) \<Longrightarrow> order q = xs @ order q'"
    and pop_inv: "inv q \<Longrightarrow> pop q = (q', xs) \<Longrightarrow> inv q'"
    and pop_progress: "inv q \<Longrightarrow> pop q = (q', xs) \<Longrightarrow> order q \<noteq> [] \<Longrightarrow> xs \<noteq> []"
begin

fun drain :: "nat \<Rightarrow> 'q \<Rightarrow> 'x list list" where
  "drain 0 q = []"
| "drain (Suc n) q = (case pop q of (q', xs) \<Rightarrow> if xs = [] then [] else xs # drain n q')"

text \<open>Popping until a unit is empty serves everything, in order, exactly once.\<close>

lemma drain_serves_all: "inv q \<Longrightarrow> length (order q) \<le> n \<Longrightarrow> concat (drain n q) = order q"
proof (induction n arbitrary: q)
  case (Suc n)
  obtain q' xs where p: "pop q = (q', xs)" by (cases "pop q") auto
  note facts = pop_order [OF Suc.prems(1) p] pop_inv [OF Suc.prems(1) p] pop_progress [OF Suc.prems(1) p]
  show ?case
  proof (cases "xs = []")
    case True
    with facts(3) have "order q = []" by (cases "order q = []") auto
    with True p show ?thesis by simp
  next
    case False
    with facts(1) Suc.prems(2) have "length (order q') \<le> n" by (cases xs) auto
    with False facts(1,2) p Suc.IH show ?thesis by simp
  qed
qed simp

end

lemma without_Nil [simp]: "without [] items = items"
  by (simp add: without_def)

lemma without_prefix:
  assumes "distinct (map qp_uuid items)" "ordered items = xs @ ys"
  shows "ordered (without xs items) = ys"
proof -
  have dist: "distinct (map qp_uuid (xs @ ys))"
  proof -
    have "mset (map qp_uuid (ordered items)) = mset (map qp_uuid items)" by (simp add: ordered_def)
    then show ?thesis using assms by (metis mset_eq_imp_distinct_iff)
  qed
  have "ordered (without xs items) = filter (\<lambda>q. qp_uuid q \<notin> qp_uuid ` set xs) (ordered items)"
    by (simp add: ordered_def without_def filter_sort)
  also have "\<dots> = filter (\<lambda>q. qp_uuid q \<notin> qp_uuid ` set xs) (xs @ ys)" by (simp add: assms(2))
  also have "\<dots> = ys"
    using dist by (auto simp: filter_empty_conv intro!: filter_True)
  finally show ?thesis .
qed

text \<open>Identities are unique: \<open>uuid4\<close> never repeats.\<close>

definition queue_ok :: "prompt_queue \<Rightarrow> bool" where
  "queue_ok items \<longleftrightarrow> distinct (map qp_uuid items)"

lemma without_ok: "queue_ok items \<Longrightarrow> queue_ok (without xs items)"
  by (simp add: queue_ok_def without_def distinct_map_filter)

lemma pop_between_turn_cases:
  assumes "pop_between_turn items = (items', xs)"
  obtains (empty) "items = []" "items' = []" "xs = []"
  | (unit) ys where "ordered items = xs @ ys" "xs \<noteq> []" "items' = without xs items"
proof (cases "ordered items")
  case Nil
  then have "items = []" by (metis length_0_conv length_sort ordered_def)
  with assms empty show thesis by (simp add: pop_between_turn_def ordered_def)
next
  case (Cons first rest)
  let ?p = "\<lambda>q. \<not> (is_slash_command q \<or> qp_priority q \<noteq> qp_priority first \<or> qp_mode q \<noteq> qp_mode first)"
  show thesis
  proof (cases "is_slash_command first")
    case True
    with assms Cons have "xs = [first]" "items' = without xs items" by (auto simp: pop_between_turn_def Let_def)
    then show thesis using unit [of rest] Cons by simp
  next
    case False
    with assms Cons have "xs = takeWhile ?p (first # rest)" "items' = without xs items"
      by (auto simp: pop_between_turn_def Let_def)
    then show thesis
      using unit [of "dropWhile ?p (first # rest)"] Cons False takeWhile_dropWhile_id [of ?p "first # rest"] by simp
  qed
qed

interpretation between_turn: dispatch_queue queue_ok ordered pop_between_turn
proof
  fix q q' :: prompt_queue and xs
  assume ok: "queue_ok q" and p: "pop_between_turn q = (q', xs)"
  from p show "ordered q = xs @ ordered q'"
    by (cases rule: pop_between_turn_cases) (use ok without_prefix in \<open>auto simp: queue_ok_def\<close>)
  from p show "queue_ok q'"
    by (cases rule: pop_between_turn_cases) (use ok without_ok in \<open>auto simp: queue_ok_def\<close>)
  show "xs \<noteq> []" if "ordered q \<noteq> []"
    using p that by (cases rule: pop_between_turn_cases) (auto simp: ordered_def)
qed

text \<open>\<open>drain_all\<close>: pop between turns until nothing is left.\<close>

definition drain_all :: "prompt_queue \<Rightarrow> queued_prompt list list" where
  "drain_all items = between_turn.drain (length items) items"

text \<open>C23. Popping between turns until the queue is empty delivers every queued prompt exactly
  once, by priority and first-come-first-served within a priority (equal time stamps in
  submission order), and every dispatch unit is either one slash command or a batch of ordinary
  prompts of one priority and mode.\<close>

theorem prompts_served_once_in_order:
  assumes "queue_ok items"
  shows "concat (drain_all items) = sort_key queue_key items \<and>
         (\<forall>unit\<in>set (drain_all items). (\<exists>q. unit = [q] \<and> is_slash_command q) \<or>
            (\<forall>q\<in>set unit. \<not> is_slash_command q \<and> qp_priority q = qp_priority (hd unit) \<and> qp_mode q = qp_mode (hd unit)))"
proof -
  have homogeneous: "(\<exists>q. xs = [q] \<and> is_slash_command q) \<or>
      (\<forall>q\<in>set xs. \<not> is_slash_command q \<and> qp_priority q = qp_priority (hd xs) \<and> qp_mode q = qp_mode (hd xs))"
    if "pop_between_turn q = (q', xs)" for q q' xs
    using that by (auto simp: pop_between_turn_def Let_def split: list.splits if_splits dest: set_takeWhileD)
  have "\<forall>unit\<in>set (between_turn.drain n q). (\<exists>q. unit = [q] \<and> is_slash_command q) \<or>
      (\<forall>q\<in>set unit. \<not> is_slash_command q \<and> qp_priority q = qp_priority (hd unit) \<and> qp_mode q = qp_mode (hd unit))" for n q
  proof (induction n arbitrary: q)
    case (Suc n)
    obtain q' xs where p: "pop_between_turn q = (q', xs)" by (cases "pop_between_turn q") auto
    from homogeneous [OF p] Suc.IH [of q'] p show ?case by simp
  qed simp
  moreover have "concat (drain_all items) = sort_key queue_key items"
    using between_turn.drain_serves_all [OF assms, of "length items"] by (simp add: drain_all_def ordered_def)
  ultimately show ?thesis by (simp add: drain_all_def)
qed

definition example_queue :: prompt_queue where
  "example_queue = [\<lparr>qp_content = ''later'', qp_priority = LATER, qp_mode = ''prompt'', qp_origin = ''u'',
       qp_editable = True, qp_uuid = ''a'', qp_enqueued = 1\<rparr>,
     \<lparr>qp_content = ''/help'', qp_priority = NEXT, qp_mode = ''prompt'', qp_origin = ''u'',
       qp_editable = True, qp_uuid = ''b'', qp_enqueued = 2\<rparr>,
     \<lparr>qp_content = ''fix it'', qp_priority = NOW, qp_mode = ''prompt'', qp_origin = ''u'',
       qp_editable = True, qp_uuid = ''c'', qp_enqueued = 3\<rparr>]"

theorem prompts_served_once_in_order_witness:
  "map qp_uuid (concat (drain_all example_queue)) = [''c'', ''b'', ''a'']"
proof -
  have "queue_ok example_queue" "map qp_uuid (sort_key queue_key example_queue) = [''c'', ''b'', ''a'']"
    by code_simp+
  with prompts_served_once_in_order [of example_queue] show ?thesis by metis
qed

text \<open>Draining in the middle of a turn overtakes nothing: what it delivers is the longest
  front part of the service order without slash commands and \<open>LATER\<close> prompts, as messages with
  the identities of the prompts, and what stays keeps its order for the next dispatch.\<close>

theorem midturn_drain_is_a_front_part:
  assumes "queue_ok items" and "drain_midturn items = (rest, msgs)"
  shows "\<exists>front. ordered items = front @ ordered rest \<and> msgs = map (to_message ''midturn'') front \<and>
           (\<forall>q\<in>set front. qp_priority q \<noteq> LATER \<and> \<not> is_slash_command q) \<and>
           (ordered rest \<noteq> [] \<longrightarrow> qp_priority (hd (ordered rest)) = LATER \<or> is_slash_command (hd (ordered rest)))"
proof -
  let ?p = "\<lambda>q. \<not> (qp_priority q = LATER \<or> is_slash_command q)"
  let ?front = "takeWhile ?p (ordered items)"
  have split: "ordered items = ?front @ dropWhile ?p (ordered items)" by simp
  have "sorted (map queue_key (ordered items))" by (simp add: ordered_def)
  then have "sorted (map queue_key (?front @ dropWhile ?p (ordered items)))" by (simp only: split [symmetric])
  then have "sorted (map queue_key ?front)" unfolding map_append sorted_append by (rule conjunct1)
  then have same: "sort_key queue_key ?front = ?front" by (simp add: sort_key_id_if_sorted)
  have rest: "ordered rest = dropWhile ?p (ordered items)"
    using assms(2) without_prefix [OF assms(1) [unfolded queue_ok_def] split] same split
    by (auto simp: drain_midturn_def Let_def split: if_splits)
  have msgs: "msgs = map (to_message ''midturn'') ?front"
    using assms(2) same by (auto simp: drain_midturn_def Let_def split: if_splits)
  show ?thesis
    using split rest msgs hd_dropWhile [of ?p "ordered items"]
    by (intro exI [of _ ?front]) (auto dest: set_takeWhileD)
qed

theorem midturn_drain_is_a_front_part_witness:
  "\<exists>front. ordered example_queue = front @ ordered (fst (drain_midturn example_queue)) \<and>
     snd (drain_midturn example_queue) = map (to_message ''midturn'') front \<and> length front = 1"
proof -
  have ok: "queue_ok example_queue" and n: "length (snd (drain_midturn example_queue)) = 1" by code_simp+
  from midturn_drain_is_a_front_part [OF ok surjective_pairing] n show ?thesis by (metis length_map)
qed

end
