(* ===== verification/Task_Runtime.thy ===== *)
theory Task_Runtime
  imports Polaris_Prelude
begin

text \<open>
  \<^verbatim>\<open>agent_core/task_runtime.py\<close>: the durable task contract, its plan and the rule that decides
  whether a task is complete. \<open>sha256(json.dumps(v))\<close> is the argument \<open>digest\<close> on the JSON value
  \<open>v\<close>; clocks and fresh identifiers are arguments. A dictionary from paths to digests is an
  association list.
\<close>

section \<open>Data\<close>

record workspace_revision =
  rev_workspace :: string
  rev_digest :: string
  rev_files :: "(string \<times> string) list"
  rev_snapshot_id :: string

record verification_check =
  vc_id :: string
  vc_argv :: "string list"
  vc_kind :: string

definition make_check :: "string \<Rightarrow> string list \<Rightarrow> string \<Rightarrow> verification_check py_result" where
  "make_check i argv kind =
     (if i = [] \<or> length i > 128 \<or> argv = [] \<or> length argv > 256 \<or> sum_list (map length argv) > 16384
      then Inl (ValueError ''verification requires a bounded id and nonempty argv'')
      else Inr \<lparr>vc_id = i, vc_argv = argv, vc_kind = kind\<rparr>)"

record task_contract =
  tc_goal :: string
  tc_constraints :: "string list"
  tc_acceptance :: "string list"
  tc_checks :: "verification_check list"
  tc_allowed_paths :: "string list"
  tc_review_required :: bool
  tc_verification_required :: bool

text \<open>\<open>Path(raw).is_absolute()\<close> and \<open>'..' in Path(raw).parts\<close> on POSIX (no drives).\<close>

definition escapes_workspace :: "string \<Rightarrow> bool" where
  "escapes_workspace raw \<longleftrightarrow> startswith raw ''/'' \<or> ''..'' \<in> set (split_char (CHR ''/'') raw)"

definition make_contract :: "task_contract \<Rightarrow> task_contract py_result" where
  "make_contract c =
     (if py_strip (tc_goal c) = [] \<or> length (tc_checks c) > 32 \<or> \<not> distinct (map vc_id (tc_checks c))
      then Inl (ValueError ''task contract requires a goal and unique bounded checks'')
      else if list_ex escapes_workspace (tc_allowed_paths c)
      then Inl (ValueError ''allowed_paths must be workspace-relative'')
      else Inr c)"

record plan_step =
  ps_id :: string
  ps_description :: string
  ps_depends_on :: "string list"
  ps_status :: string
  ps_paths :: "string list"

record evidence =
  ev_check_id :: string
  ev_revision :: string
  ev_workspace :: string
  ev_argv_digest :: string
  ev_exit_code :: "int option"
  ev_state :: string
  ev_output_path :: string
  ev_id :: string
  ev_output_preview :: string

record failure =
  fl_tool :: string
  fl_error_type :: string
  fl_fingerprint :: string
  fl_revision :: string
  fl_plan_revision :: nat

record task_run =
  tr_contract :: task_contract
  tr_baseline :: workspace_revision
  tr_id :: string
  tr_status :: string
  tr_plan :: "plan_step list"
  tr_plan_revision :: nat
  tr_evidence :: "evidence list"
  tr_failures :: "failure list"
  tr_mutation_seen :: bool
  tr_current_revision :: string
  tr_reviews :: "pydict list"
  tr_verifier_runs :: "pydict list"

section \<open>Plans\<close>

definition plan_ids :: "plan_step list \<Rightarrow> string list" where
  "plan_ids steps = map ps_id steps"

definition by_id :: "plan_step list \<Rightarrow> string \<Rightarrow> plan_step option" where
  "by_id steps key = find (\<lambda>s. ps_id s = key) steps"

definition step_statuses :: "string list" where
  "step_statuses = [''pending'', ''in_progress'', ''completed'', ''blocked'']"

definition check_step :: "plan_step \<Rightarrow> unit py_result" where
  "check_step s =
     (if ps_id s = [] \<or> ps_description s = [] \<or> ps_status s \<notin> set step_statuses
      then Inl (ValueError ''invalid plan step'')
      else if length (ps_paths s) > 64 \<or> list_ex escapes_workspace (ps_paths s)
      then Inl (ValueError ''plan paths must be bounded and workspace-relative'')
      else Inr ())"

definition started :: "plan_step \<Rightarrow> bool" where
  "started s \<longleftrightarrow> ps_status s \<in> set [''in_progress'', ''completed'']"

definition dependency_completed :: "plan_step list \<Rightarrow> string \<Rightarrow> bool" where
  "dependency_completed steps d = (case by_id steps d of Some s \<Rightarrow> ps_status s = ''completed'' | None \<Rightarrow> False)"

lemma by_id_Some: "by_id steps key = Some s \<Longrightarrow> s \<in> set steps \<and> ps_id s = key"
  by (auto simp: by_id_def dest: find_SomeD2)

lemma by_id_None: "by_id steps key = None \<longleftrightarrow> key \<notin> set (plan_ids steps)"
  by (auto simp: by_id_def find_None_iff plan_ids_def)

lemma path_grows:
  "by_id steps key = Some s \<Longrightarrow> key \<notin> set path \<Longrightarrow>
   card (set (plan_ids steps) - set (key # path)) < card (set (plan_ids steps) - set path)"
proof -
  assume "by_id steps key = Some s" and new: "key \<notin> set path"
  then have "key \<in> set (plan_ids steps)" using by_id_None by (metis option.distinct(1))
  with new show ?thesis by (intro psubset_card_mono) auto
qed

text \<open>The nested \<open>visit\<close>: \<open>path\<close> is the set \<open>visiting\<close> on entry (each call removes what it
  added), \<open>visited\<close> is threaded through.\<close>

function visit :: "plan_step list \<Rightarrow> string list \<Rightarrow> string list \<Rightarrow> string \<Rightarrow> string list py_result"
  and visit_deps ::
    "plan_step list \<Rightarrow> string list \<Rightarrow> plan_step \<Rightarrow> string list \<Rightarrow> string list \<Rightarrow> string list py_result" where
  "visit steps path visited key =
     (if key \<in> set path then Inl (ValueError ''task dependency cycle'')
      else if key \<in> set visited then Inr visited
      else (case by_id steps key of
              None \<Rightarrow> Inl (KeyError key)
            | Some s \<Rightarrow>
                bind_res (check_step s) (\<lambda>_.
                bind_res (visit_deps steps (key # path) s (ps_depends_on s) visited) (\<lambda>v. Inr (key # v)))))"
| "visit_deps steps path s [] visited = Inr visited"
| "visit_deps steps path s (d # ds) visited =
     (if d \<notin> set (plan_ids steps) then Inl (ValueError ''unknown task dependency'')
      else bind_res (visit steps path visited d) (\<lambda>v.
             if started s \<and> \<not> dependency_completed steps d
             then Inl (ValueError ''dependencies must complete before starting a step'')
             else visit_deps steps path s ds v))"
  by pat_completeness auto

termination
  by (relation "measures [\<lambda>x. case x of Inl (steps, path, visited, key) \<Rightarrow> card (set (plan_ids steps) - set path)
                                    | Inr (steps, path, s, ds, visited) \<Rightarrow> card (set (plan_ids steps) - set path),
                          \<lambda>x. case x of Inl _ \<Rightarrow> 0 | Inr (steps, path, s, ds, visited) \<Rightarrow> Suc (length ds)]")
    (auto dest: path_grows)

declare visit.simps [simp del]

fun visit_all :: "plan_step list \<Rightarrow> string list \<Rightarrow> string list \<Rightarrow> string list py_result" where
  "visit_all steps [] visited = Inr visited"
| "visit_all steps (key # keys) visited = bind_res (visit steps [] visited key) (visit_all steps keys)"

definition plan_shape :: "plan_step list \<Rightarrow> (string \<times> string \<times> string list \<times> string list) list" where
  "plan_shape steps = map (\<lambda>s. (ps_id s, ps_description s, ps_depends_on s, ps_paths s)) steps"

definition replace_plan :: "plan_step list \<Rightarrow> task_run \<Rightarrow> task_run py_result" where
  "replace_plan steps t =
     (if length steps > 128 \<or> \<not> distinct (plan_ids steps)
      then Inl (ValueError ''plan ids must be unique and bounded'')
      else bind_res (visit_all steps (plan_ids steps) []) (\<lambda>_.
        Inr (t\<lparr>tr_plan := steps,
               tr_plan_revision := (if plan_shape (tr_plan t) \<noteq> plan_shape steps
                 then tr_plan_revision t + 1 else tr_plan_revision t)\<rparr>)))"

section \<open>Failures\<close>

definition take_last :: "nat \<Rightarrow> 'a list \<Rightarrow> 'a list" where
  "take_last n xs = drop (length xs - n) xs"

definition record_failure ::
  "(pyval \<Rightarrow> string) \<Rightarrow> string \<Rightarrow> pydict \<Rightarrow> string \<Rightarrow> string \<Rightarrow> task_run \<Rightarrow> task_run" where
  "record_failure digest tool args error_type revision t =
     t\<lparr>tr_current_revision := revision,
       tr_failures := take_last 100 (tr_failures t @
         [\<lparr>fl_tool = tool, fl_error_type = error_type,
           fl_fingerprint = digest (PList [PStr tool, PDict args, PStr error_type]),
           fl_revision = revision, fl_plan_revision = tr_plan_revision t\<rparr>])\<rparr>"

definition failure_key :: "failure \<Rightarrow> string \<times> string \<times> nat" where
  "failure_key f = (fl_fingerprint f, fl_revision f, fl_plan_revision f)"

definition stalled :: "task_run \<Rightarrow> bool" where
  "stalled t =
     (if length (tr_failures t) < 3 then False
      else (let recent = take_last 3 (tr_failures t)
            in fl_revision (last recent) = tr_current_revision t \<and>
               fl_plan_revision (last recent) = tr_plan_revision t \<and>
               length (remdups (map failure_key recent)) = 1))"

section \<open>Completion\<close>

record verification_report =
  vr_status :: string
  vr_revision :: string
  vr_changed :: "string list"
  vr_issues :: "string list"
  vr_evidence :: "evidence list"

definition changed_paths :: "workspace_revision \<Rightarrow> workspace_revision \<Rightarrow> string list" where
  "changed_paths old new =
     sort (remdups (filter (\<lambda>p. map_of (rev_files old) p \<noteq> map_of (rev_files new) p)
       (map fst (rev_files old) @ map fst (rev_files new))))"

definition in_scope :: "string list \<Rightarrow> string \<Rightarrow> bool" where
  "in_scope allowed path =
     list_ex (\<lambda>a. path = a \<or> startswith path (rstrip_chars (\<lambda>c. c = CHR ''/'') a @ ''/'')) allowed"

definition check_passed :: "(pyval \<Rightarrow> string) \<Rightarrow> evidence list \<Rightarrow> verification_check \<Rightarrow> bool" where
  "check_passed digest valid c =
     (let matching = filter (\<lambda>e. ev_check_id e = vc_id c \<and> ev_argv_digest e = digest (PList (map PStr (vc_argv c)))) valid
      in matching \<noteq> [] \<and> ev_state (last matching) = ''completed'' \<and> ev_exit_code (last matching) = Some 0)"

definition check_value :: "verification_check \<Rightarrow> pyval" where
  "check_value c = PDict [(''argv'', PList (map PStr (vc_argv c))), (''id'', PStr (vc_id c)), (''kind'', PStr (vc_kind c))]"

text \<open>\<open>asdict(task.contract)\<close> with sorted keys.\<close>

definition contract_value :: "task_contract \<Rightarrow> pyval" where
  "contract_value c = PDict
     [(''acceptance'', PList (map PStr (tc_acceptance c))), (''allowed_paths'', PList (map PStr (tc_allowed_paths c))),
      (''checks'', PList (map check_value (tc_checks c))), (''constraints'', PList (map PStr (tc_constraints c))),
      (''goal'', PStr (tc_goal c)), (''review_required'', PBool (tc_review_required c)),
      (''verification_required'', PBool (tc_verification_required c))]"

definition current_records :: "string \<Rightarrow> workspace_revision \<Rightarrow> pydict list \<Rightarrow> pydict list" where
  "current_records contract_hash current rs =
     filter (\<lambda>r. dict_get r ''revision'' PNone = PStr (rev_digest current) \<and>
                 dict_get r ''workspace'' PNone = PStr (rev_workspace current) \<and>
                 dict_get r ''contract_hash'' PNone = PStr contract_hash) rs"

definition record_passed :: "pydict list \<Rightarrow> bool" where
  "record_passed rs \<longleftrightarrow> rs \<noteq> [] \<and> dict_get (last rs) ''status'' PNone = PStr ''passed''"

definition verifier_issue :: "pydict list \<Rightarrow> string" where
  "verifier_issue runs =
     (let issue = ''behavioral verifier has not passed on the final revision''
      in case (if runs = [] then PNone else dict_get (last runs) ''failure_class'' PNone) of
           PStr s \<Rightarrow> if s \<noteq> [] then ''['' @ s @ ''] '' @ issue else issue
         | _ \<Rightarrow> issue)"

definition verify_completion ::
  "(pyval \<Rightarrow> string) \<Rightarrow> task_run \<Rightarrow> workspace_revision \<Rightarrow> bool \<Rightarrow> bool \<Rightarrow> bool \<Rightarrow> string list \<Rightarrow> verification_report" where
  "verify_completion digest t current running truncated termination_proven background =
     (let c = tr_contract t;
          changed = changed_paths (tr_baseline t) current;
          outside = filter (\<lambda>p. \<not> in_scope (tc_allowed_paths c) p) changed;
          valid = filter (\<lambda>e. ev_revision e = rev_digest current \<and> ev_workspace e = rev_workspace current) (tr_evidence t);
          hash = digest (contract_value c);
          reviews = current_records hash current (tr_reviews t);
          runs = current_records hash current (tr_verifier_runs t);
          issues = background
            @ (if truncated then [''model response was truncated''] else [])
            @ (if \<not> termination_proven then [''provider response termination was not proven''] else [])
            @ (if running then [''background processes still running''] else [])
            @ (if list_ex (\<lambda>s. ps_status s \<noteq> ''completed'') (tr_plan t) then [''plan has incomplete steps''] else [])
            @ (if stalled t then [''three identical failed attempts without a code or plan change''] else [])
            @ (if tc_allowed_paths c \<noteq> [] \<and> outside \<noteq> []
               then [''changes outside task scope: '' @ join_str '', '' (take 20 outside)] else [])
            @ map (\<lambda>k. ''verification check has not passed on the final revision: '' @ vc_id k)
                (filter (\<lambda>k. \<not> check_passed digest valid k) (tc_checks c))
            @ (if (changed \<noteq> [] \<or> tr_mutation_seen t \<or> tc_acceptance c \<noteq> []) \<and> tc_checks c = []
               then [''workspace changes require explicit verification checks''] else [])
            @ (if tc_review_required c \<and> \<not> record_passed reviews
               then [''independent review has not passed on the final revision''] else [])
            @ (if tc_verification_required c \<and> \<not> record_passed runs then [verifier_issue runs] else [])
      in \<lparr>vr_status = (if stalled t then ''blocked'' else if issues \<noteq> [] then ''unverified'' else ''completed''),
          vr_revision = rev_digest current, vr_changed = changed, vr_issues = issues, vr_evidence = valid\<rparr>)"

section \<open>Accepted plans are exactly the well-formed acyclic ones\<close>

definition dep_rel :: "plan_step list \<Rightarrow> (string \<times> string) set" where
  "dep_rel steps = {(d, ps_id s) | d s. s \<in> set steps \<and> d \<in> set (ps_depends_on s)}"

definition step_ok :: "plan_step list \<Rightarrow> plan_step \<Rightarrow> bool" where
  "step_ok steps s \<longleftrightarrow> check_step s = Inr () \<and>
     (\<forall>d\<in>set (ps_depends_on s). d \<in> set (plan_ids steps) \<and> (started s \<longrightarrow> dependency_completed steps d))"

text \<open>A reverse topological order: every step comes after (in front of) all it depends on.\<close>

fun topo :: "plan_step list \<Rightarrow> string list \<Rightarrow> bool" where
  "topo steps [] \<longleftrightarrow> True"
| "topo steps (k # ks) \<longleftrightarrow> k \<notin> set ks \<and> topo steps ks \<and>
     (\<exists>s. by_id steps k = Some s \<and> step_ok steps s \<and> set (ps_depends_on s) \<subseteq> set ks)"

lemma visit_sound:
  "visit steps path visited key = Inr v \<Longrightarrow> topo steps visited \<Longrightarrow> set visited \<inter> set path = {} \<Longrightarrow>
     topo steps v \<and> set visited \<subseteq> set v \<and> key \<in> set v \<and> set v \<inter> set path = {}"
  "visit_deps steps path s ds visited = Inr v \<Longrightarrow> topo steps visited \<Longrightarrow> set visited \<inter> set path = {} \<Longrightarrow>
     topo steps v \<and> set visited \<subseteq> set v \<and> set ds \<subseteq> set v \<and> set v \<inter> set path = {} \<and>
     (\<forall>d\<in>set ds. d \<in> set (plan_ids steps) \<and> (started s \<longrightarrow> dependency_completed steps d))"
proof (induction steps path visited key and steps path s ds visited arbitrary: v and v rule: visit_visit_deps.induct)
  case (1 steps path visited key)
  show ?case
  proof (cases "key \<in> set visited")
    case True
    with 1 show ?thesis by (subst (asm) visit.simps) (auto split: if_splits)
  next
    case new: False
    have np: "key \<notin> set path" using "1.prems"(1) by (subst (asm) visit.simps) (auto split: if_splits)
    obtain s w where s: "by_id steps key = Some s" "check_step s = Inr ()"
      and w: "visit_deps steps (key # path) s (ps_depends_on s) visited = Inr w" "v = key # w"
      using "1.prems"(1) new np by (subst (asm) visit.simps) (auto simp: bind_res_Inr_iff split: option.splits)
    have "set visited \<inter> set (key # path) = {}" using "1.prems"(3) new by auto
    note ih = "1.IH" [OF np new s(1) w(1) "1.prems"(2) this]
    then show ?thesis using w(2) s np "1.prems"(3) by (auto simp: step_ok_def)
  qed
next
  case (2 steps path s visited)
  then show ?case by simp
next
  case (3 steps path s d ds visited)
  have d: "d \<in> set (plan_ids steps)" using "3.prems"(1) by (auto split: if_splits)
  then obtain w where w: "visit steps path visited d = Inr w" "started s \<longrightarrow> dependency_completed steps d"
      "visit_deps steps path s ds w = Inr v"
    using "3.prems"(1) by (auto simp: bind_res_Inr_iff split: if_splits)
  have nd: "\<not> d \<notin> set (plan_ids steps)" using d by simp
  note i1 = "3.IH"(1) [OF nd w(1) "3.prems"(2,3)]
  have "\<not> (started s \<and> \<not> dependency_completed steps d)" using w(2) by simp
  note i2 = "3.IH"(2) [OF nd this w(3)]
  from i1 i2 d w(2) show ?case by auto
qed

lemma visit_all_sound:
  "visit_all steps keys visited = Inr v \<Longrightarrow> topo steps visited \<Longrightarrow>
   topo steps v \<and> set visited \<subseteq> set v \<and> set keys \<subseteq> set v"
proof (induction keys arbitrary: visited)
  case (Cons key keys)
  then obtain w where "visit steps [] visited key = Inr w" "visit_all steps keys w = Inr v"
    by (auto simp: bind_res_Inr_iff)
  with visit_sound(1) [of steps "[]" visited key w] Cons show ?case by auto
qed simp

definition rank :: "string list \<Rightarrow> string \<Rightarrow> nat" where
  "rank v k = length (dropWhile (\<lambda>x. x \<noteq> k) v)"

lemma topo_closed: "topo steps v \<Longrightarrow> k \<in> set v \<Longrightarrow> by_id steps k = Some s \<Longrightarrow> set (ps_depends_on s) \<subseteq> set v"
  by (induction v) auto

lemma topo_step_ok: "topo steps v \<Longrightarrow> k \<in> set v \<Longrightarrow> by_id steps k = Some s \<Longrightarrow> step_ok steps s"
  by (induction v) auto

lemma topo_rank:
  "topo steps v \<Longrightarrow> k \<in> set v \<Longrightarrow> by_id steps k = Some s \<Longrightarrow> d \<in> set (ps_depends_on s) \<Longrightarrow> rank v d < rank v k"
proof (induction v)
  case (Cons x v)
  have le: "rank v y \<le> length v" for y by (simp add: rank_def length_dropWhile_le)
  show ?case
  proof (cases "x = k")
    case True
    then have "d \<in> set v" "d \<noteq> x" using Cons.prems by auto
    then show ?thesis using True le [of d] by (simp add: rank_def)
  next
    case False
    then have k: "k \<in> set v" using Cons.prems by simp
    have "d \<in> set v"
      using topo_closed [OF _ k Cons.prems(3)] Cons.prems(1,4) by auto
    moreover have "d \<noteq> x" using \<open>d \<in> set v\<close> Cons.prems(1) by auto
    ultimately show ?thesis using Cons k False by (simp add: rank_def)
  qed
qed simp

lemma by_id_unique: "distinct (plan_ids steps) \<Longrightarrow> s \<in> set steps \<Longrightarrow> by_id steps (ps_id s) = Some s"
  by (induction steps) (auto simp: by_id_def plan_ids_def)

lemma topo_acyclic:
  assumes "distinct (plan_ids steps)" "topo steps v" "set (plan_ids steps) \<subseteq> set v"
  shows "acyclic (dep_rel steps)"
proof (rule acyclic_subset [OF wf_acyclic])
  show "wf (measure (rank v))" by simp
  show "dep_rel steps \<subseteq> measure (rank v)"
  proof
    fix p assume "p \<in> dep_rel steps"
    then obtain d s where p: "p = (d, ps_id s)" and s: "s \<in> set steps" "d \<in> set (ps_depends_on s)"
      by (auto simp: dep_rel_def)
    have "ps_id s \<in> set v" using s(1) assms(3) by (auto simp: plan_ids_def)
    with topo_rank [OF assms(2) this by_id_unique [OF assms(1) s(1)] s(2)] show "p \<in> measure (rank v)"
      by (simp add: p)
  qed
qed

lemma visit_complete:
  "acyclic (dep_rel steps) \<Longrightarrow> \<forall>s\<in>set steps. step_ok steps s \<Longrightarrow> key \<in> set (plan_ids steps) \<Longrightarrow>
     \<forall>p\<in>set path. (key, p) \<in> (dep_rel steps)\<^sup>+ \<Longrightarrow> \<exists>v. visit steps path visited key = Inr v"
  "acyclic (dep_rel steps) \<Longrightarrow> \<forall>s\<in>set steps. step_ok steps s \<Longrightarrow>
     \<forall>d\<in>set ds. d \<in> set (plan_ids steps) \<and> (started s \<longrightarrow> dependency_completed steps d) \<and>
       (\<forall>p\<in>set path. (d, p) \<in> (dep_rel steps)\<^sup>+) \<Longrightarrow> \<exists>v. visit_deps steps path s ds visited = Inr v"
proof (induction steps path visited key and steps path s ds visited rule: visit_visit_deps.induct)
  case (1 steps path visited key)
  have np: "key \<notin> set path" using "1.prems"(1,4) by (auto simp: acyclic_def)
  show ?case
  proof (cases "key \<in> set visited")
    case True
    with np show ?thesis by (subst visit.simps) simp
  next
    case new: False
    obtain s where s: "by_id steps key = Some s" using "1.prems"(3) by_id_None by fastforce
    then have in_steps: "s \<in> set steps" "ps_id s = key" using by_id_Some by auto
    then have ok: "step_ok steps s" using "1.prems"(2) by blast
    have edge: "(d, key) \<in> dep_rel steps" if "d \<in> set (ps_depends_on s)" for d
      using that in_steps by (auto simp: dep_rel_def)
    have "\<forall>d\<in>set (ps_depends_on s). d \<in> set (plan_ids steps) \<and> (started s \<longrightarrow> dependency_completed steps d) \<and>
        (\<forall>p\<in>set (key # path). (d, p) \<in> (dep_rel steps)\<^sup>+)"
      using ok edge "1.prems"(4) by (auto simp: step_ok_def intro: trancl_into_trancl2)
    then obtain w where "visit_deps steps (key # path) s (ps_depends_on s) visited = Inr w"
      using "1.IH" [OF np new s "1.prems"(1,2)] by blast
    with np new s ok show ?thesis by (subst visit.simps) (simp add: step_ok_def)
  qed
next
  case (2 steps path s visited)
  then show ?case by simp
next
  case (3 steps path s d ds visited)
  have d: "\<not> d \<notin> set (plan_ids steps)" "\<not> (started s \<and> \<not> dependency_completed steps d)"
    "\<forall>p\<in>set path. (d, p) \<in> (dep_rel steps)\<^sup>+" using "3.prems"(3) by auto
  obtain w where w: "visit steps path visited d = Inr w"
    using "3.IH"(1) [OF d(1) "3.prems"(1,2)] d by blast
  have "\<exists>v. visit_deps steps path s ds w = Inr v"
    using "3.IH"(2) [OF d(1,2) "3.prems"(1,2), of w] "3.prems"(3) by simp
  then obtain v where "visit_deps steps path s ds w = Inr v" by blast
  with w d show ?case by auto
qed

lemma visit_all_complete:
  "acyclic (dep_rel steps) \<Longrightarrow> \<forall>s\<in>set steps. step_ok steps s \<Longrightarrow> set keys \<subseteq> set (plan_ids steps) \<Longrightarrow>
   \<exists>v. visit_all steps keys visited = Inr v"
proof (induction keys arbitrary: visited)
  case (Cons key keys)
  then obtain w where "visit steps [] visited key = Inr w" using visit_complete(1) [of steps key "[]" visited] by auto
  with Cons show ?case by simp
qed simp

text \<open>C20. \<open>replace_plan\<close> accepts exactly the plans that can be executed: at most 128 steps with
  unique identifiers, every step well-formed with known dependencies, every started step with
  all its dependencies completed, and no dependency cycle. Every other plan is refused and
  leaves the task as it was; the depth-first search always ends.\<close>

theorem plan_accepted_iff_executable:
  "(\<exists>t'. replace_plan steps t = Inr t') \<longleftrightarrow>
     length steps \<le> 128 \<and> distinct (plan_ids steps) \<and> (\<forall>s\<in>set steps. step_ok steps s) \<and> acyclic (dep_rel steps)"
proof
  assume "\<exists>t'. replace_plan steps t = Inr t'"
  then obtain v where b: "length steps \<le> 128" "distinct (plan_ids steps)"
    and v: "visit_all steps (plan_ids steps) [] = Inr v"
    by (auto simp: replace_plan_def bind_res_Inr_iff split: if_splits)
  from visit_all_sound [OF v] have t: "topo steps v" "set (plan_ids steps) \<subseteq> set v" by auto
  have "step_ok steps s" if "s \<in> set steps" for s
    using topo_step_ok [OF t(1) _ by_id_unique [OF b(2) that]] t(2) that by (auto simp: plan_ids_def)
  with b topo_acyclic [OF b(2) t] show "length steps \<le> 128 \<and> distinct (plan_ids steps) \<and>
      (\<forall>s\<in>set steps. step_ok steps s) \<and> acyclic (dep_rel steps)" by blast
next
  assume "length steps \<le> 128 \<and> distinct (plan_ids steps) \<and> (\<forall>s\<in>set steps. step_ok steps s) \<and> acyclic (dep_rel steps)"
  with visit_all_complete [of steps "plan_ids steps" "[]"] show "\<exists>t'. replace_plan steps t = Inr t'"
    by (auto simp: replace_plan_def)
qed

definition example_step :: "string \<Rightarrow> string list \<Rightarrow> string \<Rightarrow> plan_step" where
  "example_step i deps status = \<lparr>ps_id = i, ps_description = ''do it'', ps_depends_on = deps, ps_status = status, ps_paths = []\<rparr>"

definition example_contract :: task_contract where
  "example_contract = \<lparr>tc_goal = ''fix'', tc_constraints = [], tc_acceptance = [],
     tc_checks = [\<lparr>vc_id = ''unit'', vc_argv = [''pytest''], vc_kind = ''test''\<rparr>], tc_allowed_paths = [''src''],
     tc_review_required = False, tc_verification_required = False\<rparr>"

definition example_revision :: "string \<Rightarrow> string \<Rightarrow> workspace_revision" where
  "example_revision digest content =
     \<lparr>rev_workspace = ''/w'', rev_digest = digest, rev_files = [(''src/a.py'', content)], rev_snapshot_id = []\<rparr>"

definition example_digest :: "pyval \<Rightarrow> string" where
  "example_digest v = py_repr v"

definition example_task :: task_run where
  "example_task = \<lparr>tr_contract = example_contract, tr_baseline = example_revision ''r0'' ''x'', tr_id = ''t'',
     tr_status = ''running'', tr_plan = [example_step ''a'' [] ''completed''], tr_plan_revision = 1,
     tr_evidence = [\<lparr>ev_check_id = ''unit'', ev_revision = ''r1'', ev_workspace = ''/w'',
       ev_argv_digest = example_digest (PList [PStr ''pytest'']), ev_exit_code = Some 0, ev_state = ''completed'',
       ev_output_path = [], ev_id = ''e'', ev_output_preview = []\<rparr>],
     tr_failures = [], tr_mutation_seen = True, tr_current_revision = ''r1'', tr_reviews = [], tr_verifier_runs = []\<rparr>"

definition example_plan :: "plan_step list" where
  "example_plan = [example_step ''c'' [''a'', ''b''] ''pending'', example_step ''b'' [''a''] ''in_progress'',
     example_step ''a'' [] ''completed'']"

theorem plan_accepted_iff_executable_witness: "acyclic (dep_rel example_plan)"
proof -
  have "case replace_plan example_plan example_task of Inr t \<Rightarrow> tr_plan_revision t = 2 | Inl e \<Rightarrow> False"
    by code_simp
  then have "\<exists>t'. replace_plan example_plan example_task = Inr t'" by (auto split: sum.splits)
  with plan_accepted_iff_executable [of example_plan example_task] show ?thesis by blast
qed

section \<open>Completion is bound to the final revision\<close>

text \<open>What a completed report guarantees for one check: the last matching evidence on the
  current revision and workspace is a completed run with exit code 0.\<close>

definition proven_on :: "(pyval \<Rightarrow> string) \<Rightarrow> evidence list \<Rightarrow> workspace_revision \<Rightarrow> verification_check \<Rightarrow> bool" where
  "proven_on digest evs current c \<longleftrightarrow>
     (\<exists>before e after. evs = before @ e # after \<and> ev_check_id e = vc_id c \<and>
        ev_argv_digest e = digest (PList (map PStr (vc_argv c))) \<and> ev_revision e = rev_digest current \<and>
        ev_workspace e = rev_workspace current \<and> ev_state e = ''completed'' \<and> ev_exit_code e = Some 0 \<and>
        (\<forall>x\<in>set after. \<not> (ev_check_id x = vc_id c \<and> ev_argv_digest x = digest (PList (map PStr (vc_argv c))) \<and>
           ev_revision x = rev_digest current \<and> ev_workspace x = rev_workspace current)))"

lemma last_filter_split:
  "filter p xs \<noteq> [] \<Longrightarrow> \<exists>before after. xs = before @ last (filter p xs) # after \<and> (\<forall>x\<in>set after. \<not> p x) \<and> p (last (filter p xs))"
proof (induction xs)
  case (Cons x xs)
  show ?case
  proof (cases "filter p xs = []")
    case True
    with Cons.prems show ?thesis by (intro exI [of _ "[]"] exI [of _ xs]) (auto simp: filter_empty_conv split: if_splits)
  next
    case False
    from Cons.IH [OF this] obtain before after where
      "xs = before @ last (filter p xs) # after" "\<forall>x\<in>set after. \<not> p x" "p (last (filter p xs))" by blast
    moreover have "last (filter p (x # xs)) = last (filter p xs)" using False by simp
    ultimately have "x # xs = (x # before) @ last (filter p (x # xs)) # after \<and> (\<forall>x\<in>set after. \<not> p x) \<and>
        p (last (filter p (x # xs)))" by (simp only: append_Cons)
    then show ?thesis by blast
  qed
qed simp

lemma check_passed_proven:
  assumes "check_passed digest (filter (\<lambda>e. ev_revision e = rev_digest cur \<and> ev_workspace e = rev_workspace cur) evs) c"
  shows "proven_on digest evs cur c"
proof -
  let ?p = "\<lambda>e. (ev_check_id e = vc_id c \<and> ev_argv_digest e = digest (PList (map PStr (vc_argv c)))) \<and>
     ev_revision e = rev_digest cur \<and> ev_workspace e = rev_workspace cur"
  have f: "filter ?p evs \<noteq> []" "ev_state (last (filter ?p evs)) = ''completed''" "ev_exit_code (last (filter ?p evs)) = Some 0"
    using assms by (simp_all add: check_passed_def Let_def conj_commute conj_left_commute)
  from last_filter_split [OF f(1)] obtain before after where
    e: "evs = before @ last (filter ?p evs) # after" "\<forall>x\<in>set after. \<not> ?p x" "?p (last (filter ?p evs))" by blast
  show ?thesis
    unfolding proven_on_def
    by (intro exI [of _ before] exI [of _ "last (filter ?p evs)"] exI [of _ after])
      (use e f in auto)
qed

text \<open>C17. A task is reported completed only on proof for the final revision: nothing was
  truncated or still runs, every plan step is completed, the task is not stalled, every changed
  file is within the allowed paths (when there are any), every check of the contract has a
  passing last run on exactly the current revision and workspace, changes without any check are
  never completed, and required reviews and verifier runs passed for this revision and this
  contract.\<close>

theorem completion_is_proven:
  assumes "vr_status (verify_completion digest t current running truncated proven background) = ''completed''"
  shows "\<not> running \<and> \<not> truncated \<and> proven \<and> background = [] \<and> \<not> stalled t \<and>
         (\<forall>s\<in>set (tr_plan t). ps_status s = ''completed'') \<and>
         (tc_allowed_paths (tr_contract t) \<noteq> [] \<longrightarrow>
            (\<forall>p\<in>set (changed_paths (tr_baseline t) current). in_scope (tc_allowed_paths (tr_contract t)) p)) \<and>
         (\<forall>c\<in>set (tc_checks (tr_contract t)). proven_on digest (tr_evidence t) current c) \<and>
         (tc_checks (tr_contract t) = [] \<longrightarrow> changed_paths (tr_baseline t) current = [] \<and> \<not> tr_mutation_seen t) \<and>
         (tc_review_required (tr_contract t) \<longrightarrow>
            record_passed (current_records (digest (contract_value (tr_contract t))) current (tr_reviews t))) \<and>
         (tc_verification_required (tr_contract t) \<longrightarrow>
            record_passed (current_records (digest (contract_value (tr_contract t))) current (tr_verifier_runs t)))"
  using assms check_passed_proven [of digest current "tr_evidence t"]
  by (auto simp: verify_completion_def Let_def filter_empty_conv list_ex_iff split: if_splits)

theorem completion_is_proven_witness:
  "proven_on example_digest (tr_evidence example_task) (example_revision ''r1'' ''y'')
     \<lparr>vc_id = ''unit'', vc_argv = [''pytest''], vc_kind = ''test''\<rparr>"
proof -
  have "vr_status (verify_completion example_digest example_task (example_revision ''r1'' ''y'') False False True []) = ''completed''"
    by code_simp
  from completion_is_proven [OF this] show ?thesis
    by (simp add: example_task_def example_contract_def)
qed

section \<open>Stalls\<close>

lemma take_last_append: "length ys \<le> n \<Longrightarrow> take_last n (xs @ ys) = take_last (n - length ys) xs @ ys"
  by (simp add: take_last_def)

lemma take_last_take_last: "m \<le> n \<Longrightarrow> take_last m (take_last n xs) = take_last m xs"
  by (simp add: take_last_def, rule arg_cong [where f = "\<lambda>k. drop k xs"], arith)

text \<open>Three identical failures in a row, and nothing less, stall a task: recording the same
  failure three times on one revision and plan makes it stalled whatever came before, recording
  a failure on another revision than the one before ends the stall, and the failure log never
  exceeds 100 entries.\<close>

theorem stall_after_three_identical_failures:
  "stalled (record_failure digest tool args err rv (record_failure digest tool args err rv
      (record_failure digest tool args err rv t))) \<and>
   (rv \<noteq> rv' \<longrightarrow> \<not> stalled (record_failure digest tool' args' err' rv' (record_failure digest tool args err rv t))) \<and>
   length (tr_failures (record_failure digest tool args err rv t)) \<le> 100"
proof (intro conjI impI)
  show "length (tr_failures (record_failure digest tool args err rv t)) \<le> 100"
    by (simp add: record_failure_def take_last_def)
  let ?e = "\<lparr>fl_tool = tool, fl_error_type = err, fl_fingerprint = digest (PList [PStr tool, PDict args, PStr err]),
       fl_revision = rv, fl_plan_revision = tr_plan_revision t\<rparr>"
  let ?t3 = "record_failure digest tool args err rv (record_failure digest tool args err rv
      (record_failure digest tool args err rv t))"
  have "tr_failures ?t3 = take_last 97 (tr_failures t) @ [?e, ?e, ?e]"
    by (simp add: record_failure_def take_last_append take_last_take_last)
  then show "stalled ?t3"
    by (simp add: stalled_def take_last_append take_last_def [of 0] record_failure_def failure_key_def Let_def)
next
  assume ne: "rv \<noteq> rv'"
  let ?t2 = "record_failure digest tool' args' err' rv' (record_failure digest tool args err rv t)"
  let ?e = "\<lparr>fl_tool = tool, fl_error_type = err, fl_fingerprint = digest (PList [PStr tool, PDict args, PStr err]),
       fl_revision = rv, fl_plan_revision = tr_plan_revision t\<rparr>"
  let ?f = "\<lparr>fl_tool = tool', fl_error_type = err', fl_fingerprint = digest (PList [PStr tool', PDict args', PStr err']),
       fl_revision = rv', fl_plan_revision = tr_plan_revision t\<rparr>"
  have fs: "tr_failures ?t2 = take_last 98 (tr_failures t) @ [?e, ?f]"
    by (simp add: record_failure_def take_last_append take_last_take_last)
  have "take_last 3 (tr_failures ?t2) = take_last 1 (take_last 98 (tr_failures t)) @ [?e, ?f]"
    unfolding fs by (simp add: take_last_append)
  then have sub: "{failure_key ?e, failure_key ?f} \<subseteq> set (map failure_key (take_last 3 (tr_failures ?t2)))" by simp
  have "failure_key ?e \<noteq> failure_key ?f" using ne by (simp add: failure_key_def)
  then have "2 \<le> card {failure_key ?e, failure_key ?f}" by simp
  also have "\<dots> \<le> card (set (map failure_key (take_last 3 (tr_failures ?t2))))" by (intro card_mono sub) simp
  finally have "length (remdups (map failure_key (take_last 3 (tr_failures ?t2)))) \<noteq> 1"
    by (simp add: length_remdups_card_conv)
  then show "\<not> stalled ?t2" by (simp add: stalled_def Let_def)
qed

theorem stall_after_three_identical_failures_witness:
  "\<not> stalled (record_failure example_digest ''bash'' [] ''err'' ''r2'' (record_failure example_digest ''bash'' [] ''err'' ''r1'' example_task))"
  using stall_after_three_identical_failures [of example_digest "''bash''" "[]" "''err''" "''r1''" example_task
      "''r2''" "''bash''" "[]" "''err''"]
  by simp

end
