(* ===== verification/Json.thy ===== *)
theory Json
  imports Polaris_Prelude
begin

text \<open>
  The part of Python's \<open>json\<close> module that the stores use: \<open>json.dumps(v, ensure_ascii=False)\<close> and
  \<open>json.loads(s)\<close> on the values of \<^typ>\<open>pyval\<close>, and files with one JSON record per line. A parser
  returns the value it read and the rest of the text; nesting is bounded by a fuel argument,
  which \<open>json_loads\<close> sets to the length of the text plus one, more than any text needs (each
  level of nesting consumes a character). The interpreter's limits on recursion depth and on
  the digits of an integer are not modelled. A float is kept as the text that denotes it, which
  is its \<open>repr\<close> for every text that \<open>json.dumps\<close> writes. A \<open>\u\<close> escape beyond the modelled
  character range is a parse error here.
\<close>

section \<open>Printing\<close>

definition json_char :: "char \<Rightarrow> string" where
  "json_char c =
     (let n = (of_char c :: nat)
      in if c = CHR 0x22 \<or> c = CHR 0x5C then [CHR 0x5C, c]
         else if c = CHR 0x0A then [CHR 0x5C, CHR ''n'']
         else if c = CHR 0x0D then [CHR 0x5C, CHR ''r'']
         else if c = CHR 0x09 then [CHR 0x5C, CHR ''t'']
         else if c = CHR 0x08 then [CHR 0x5C, CHR ''b'']
         else if c = CHR 0x0C then [CHR 0x5C, CHR ''f'']
         else if n < 32 then [CHR 0x5C, CHR ''u'', CHR ''0'', CHR ''0'', hex_digit (n div 16), hex_digit (n mod 16)]
         else [c])"

definition json_string :: "string \<Rightarrow> string" where
  "json_string s = [CHR 0x22] @ concat (map json_char s) @ [CHR 0x22]"

definition json_float :: "string \<Rightarrow> string" where
  "json_float r = (if r = ''nan'' then ''NaN'' else if r = ''inf'' then ''Infinity''
     else if r = ''-inf'' then ''-Infinity'' else r)"

fun json_dumps :: "pyval \<Rightarrow> string" where
  "json_dumps PNone = ''null''"
| "json_dumps (PBool b) = (if b then ''true'' else ''false'')"
| "json_dumps (PInt i) = int_str i"
| "json_dumps (PFloat r) = json_float r"
| "json_dumps (PStr s) = json_string s"
| "json_dumps (PList xs) = ''['' @ join_str '', '' (map json_dumps xs) @ '']''"
| "json_dumps (PDict d) =
     ''{'' @ join_str '', '' (map (\<lambda>kv. json_string (fst kv) @ '': '' @ json_dumps (snd kv)) d) @ ''}''"

section \<open>Parsing\<close>

definition json_space :: "char \<Rightarrow> bool" where
  "json_space c \<longleftrightarrow> c \<in> set [CHR '' '', CHR 0x09, CHR 0x0A, CHR 0x0D]"

definition skip_space :: "string \<Rightarrow> string" where
  "skip_space s = dropWhile json_space s"

definition hex_value :: "char \<Rightarrow> nat option" where
  "hex_value c = map_of (zip ''0123456789abcdefABCDEF'' ([0..<16] @ [10..<16])) c"

definition escapes :: "(char \<times> char) list" where
  "escapes = [(CHR 0x22, CHR 0x22), (CHR 0x5C, CHR 0x5C), (CHR ''/'', CHR ''/''), (CHR ''b'', CHR 0x08),
     (CHR ''f'', CHR 0x0C), (CHR ''n'', CHR 0x0A), (CHR ''r'', CHR 0x0D), (CHR ''t'', CHR 0x09)]"

definition hex4 :: "char \<Rightarrow> char \<Rightarrow> char \<Rightarrow> char \<Rightarrow> char option" where
  "hex4 a b c d =
     (case (hex_value a, hex_value b, hex_value c, hex_value d) of
        (Some w, Some x, Some y, Some z) \<Rightarrow>
          (let n = 4096 * w + 256 * x + 16 * y + z in if n < 256 then Some (char_of n) else None)
      | _ \<Rightarrow> None)"

definition push :: "char \<Rightarrow> (string \<times> string) option \<Rightarrow> (string \<times> string) option" where
  "push c r = map_option (\<lambda>(s, rest). (c # s, rest)) r"

text \<open>A string after its opening quote.\<close>

fun scan_str :: "string \<Rightarrow> (string \<times> string) option" where
  "scan_str [] = None"
| "scan_str (c # s) =
     (if c = CHR 0x22 then Some ([], s)
      else if c = CHR 0x5C then
        (case s of
           [] \<Rightarrow> None
         | e # t \<Rightarrow>
             if e = CHR ''u'' then
               (case t of
                  h1 # h2 # h3 # h4 # r \<Rightarrow>
                    (case hex4 h1 h2 h3 h4 of None \<Rightarrow> None | Some x \<Rightarrow> push x (scan_str r))
                | _ \<Rightarrow> None)
             else (case map_of escapes e of None \<Rightarrow> None | Some x \<Rightarrow> push x (scan_str t)))
      else if (of_char c :: nat) < 32 then None
      else push c (scan_str s))"

text \<open>The number pattern \<open>(-?(?:0|[1-9]\d*))(\.\d+)?([eE][-+]?\d+)?\<close>.\<close>

definition digits_of :: "string \<Rightarrow> string" where
  "digits_of s = takeWhile is_decimal s"

definition int_part :: "string \<Rightarrow> string" where
  "int_part s = (if startswith s ''0'' then ''0'' else digits_of s)"

definition frac_part :: "string \<Rightarrow> string" where
  "frac_part s = (case s of c # t \<Rightarrow> if c = CHR ''.'' \<and> digits_of t \<noteq> [] then c # digits_of t else [] | [] \<Rightarrow> [])"

definition exp_part :: "string \<Rightarrow> string" where
  "exp_part s =
     (case s of
        c # t \<Rightarrow>
          if c = CHR ''e'' \<or> c = CHR ''E'' then
            (let sign = (case t of x # u \<Rightarrow> if x = CHR ''-'' \<or> x = CHR ''+'' then [x] else [] | [] \<Rightarrow> []);
                 ds = digits_of (drop (length sign) t)
             in if ds \<noteq> [] then c # sign @ ds else [])
          else []
      | [] \<Rightarrow> [])"

text \<open>The three groups after the sign, and what follows the number.\<close>

definition number_parts :: "string \<Rightarrow> string \<times> string \<times> string \<times> string" where
  "number_parts s =
     (let ip = int_part s;
          s1 = drop (length ip) s;
          fp = frac_part s1;
          s2 = drop (length fp) s1;
          ep = exp_part s2
      in (ip, fp, ep, drop (length ep) s2))"

definition scan_number :: "string \<Rightarrow> (pyval \<times> string) option" where
  "scan_number s =
     (let neg = startswith s ''-''
      in case number_parts (if neg then tl s else s) of
           (ip, fp, ep, rest) \<Rightarrow>
             if ip = [] then None
             else if fp = [] \<and> ep = []
                  then Some (PInt (if neg then - int (digits_value ip) else int (digits_value ip)), rest)
             else Some (PFloat ((if neg then ''-'' else []) @ ip @ fp @ ep), rest))"

definition literals :: "(string \<times> pyval) list" where
  "literals = [(''null'', PNone), (''true'', PBool True), (''false'', PBool False),
     (''NaN'', PFloat ''nan''), (''Infinity'', PFloat ''inf''), (''-Infinity'', PFloat ''-inf'')]"

definition scan_scalar :: "string \<Rightarrow> (pyval \<times> string) option" where
  "scan_scalar s =
     (case scan_number s of
        Some r \<Rightarrow> Some r
      | None \<Rightarrow> (case find (\<lambda>kv. startswith s (fst kv)) literals of
                   Some (w, v) \<Rightarrow> Some (v, drop (length w) s) | None \<Rightarrow> None))"

text \<open>Building a dictionary: a repeated key keeps its place and takes the later value.\<close>

fun dict_put :: "pydict \<Rightarrow> string \<Rightarrow> pyval \<Rightarrow> pydict" where
  "dict_put [] k v = [(k, v)]"
| "dict_put ((k', v') # d) k v = (if k' = k then (k, v) # d else (k', v') # dict_put d k v)"

definition make_dict :: "(string \<times> pyval) list \<Rightarrow> pydict" where
  "make_dict kvs = fold (\<lambda>(k, v) d. dict_put d k v) kvs []"

text \<open>\<open>parse_elems\<close> and \<open>parse_members\<close> start at an element, respectively at the quote of a key.\<close>

fun parse_value :: "nat \<Rightarrow> string \<Rightarrow> (pyval \<times> string) option"
  and parse_elems :: "nat \<Rightarrow> string \<Rightarrow> (pyval list \<times> string) option"
  and parse_members :: "nat \<Rightarrow> string \<Rightarrow> ((string \<times> pyval) list \<times> string) option" where
  "parse_value 0 s = None"
| "parse_value (Suc n) s =
     (case s of
        [] \<Rightarrow> None
      | c # t \<Rightarrow>
          if c = CHR 0x22 then map_option (\<lambda>(x, r). (PStr x, r)) (scan_str t)
          else if c = CHR ''['' then
            (if startswith (skip_space t) '']'' then Some (PList [], tl (skip_space t))
             else map_option (\<lambda>(xs, r). (PList xs, r)) (parse_elems n (skip_space t)))
          else if c = CHR ''{'' then
            (if startswith (skip_space t) ''}'' then Some (PDict [], tl (skip_space t))
             else map_option (\<lambda>(kvs, r). (PDict (make_dict kvs), r)) (parse_members n (skip_space t)))
          else scan_scalar s)"
| "parse_elems 0 s = None"
| "parse_elems (Suc n) s =
     (case parse_value n s of
        None \<Rightarrow> None
      | Some (v, r) \<Rightarrow>
          (case skip_space r of
             [] \<Rightarrow> None
           | c # t \<Rightarrow>
               if c = CHR '']'' then Some ([v], t)
               else if c = CHR '','' then map_option (\<lambda>(vs, u). (v # vs, u)) (parse_elems n (skip_space t))
               else None))"
| "parse_members 0 s = None"
| "parse_members (Suc n) s =
     (if \<not> startswith s [CHR 0x22] then None
      else (case scan_str (tl s) of
        None \<Rightarrow> None
      | Some (k, r) \<Rightarrow>
          (if \<not> startswith (skip_space r) '':'' then None
           else (case parse_value n (skip_space (tl (skip_space r))) of
             None \<Rightarrow> None
           | Some (v, r2) \<Rightarrow>
               (case skip_space r2 of
                  [] \<Rightarrow> None
                | c # t \<Rightarrow>
                    if c = CHR ''}'' then Some ([(k, v)], t)
                    else if c = CHR '','' then map_option (\<lambda>(kvs, u). ((k, v) # kvs, u)) (parse_members n (skip_space t))
                    else None)))))"

definition json_error :: "'a py_result" where
  "json_error = Inl (ValueError ''JSONDecodeError'')"

definition json_loads :: "string \<Rightarrow> pyval py_result" where
  "json_loads s =
     (case parse_value (length s + 1) (skip_space s) of
        Some (v, rest) \<Rightarrow> if skip_space rest = [] then Inr v else json_error
      | None \<Rightarrow> json_error)"

section \<open>Strings read back\<close>

lemma hex4_low: "n < 32 \<Longrightarrow> hex4 (CHR ''0'') (CHR ''0'') (hex_digit (n div 16)) (hex_digit (n mod 16)) = Some (char_of n)"
proof -
  have "list_all (\<lambda>n. hex4 (CHR ''0'') (CHR ''0'') (hex_digit (n div 16)) (hex_digit (n mod 16)) = Some (char_of n)) [0..<32]"
    by code_simp
  then show "n < 32 \<Longrightarrow> ?thesis" by (simp add: list_all_iff)
qed

lemma scan_str_char: "scan_str (json_char c @ t) = push c (scan_str t)"
proof (cases "(of_char c :: nat) < 32")
  case True
  have "hex4 (CHR ''0'') (CHR ''0'') (hex_digit (of_char c div 16)) (hex_digit (of_char c mod 16)) = Some c"
    using hex4_low [OF True] by simp
  with True show ?thesis by (auto simp: json_char_def Let_def escapes_def)
next
  case False
  then show ?thesis by (auto simp: json_char_def Let_def escapes_def)
qed

lemma scan_str_string: "scan_str (concat (map json_char s) @ CHR 0x22 # rest) = Some (s, rest)"
  by (induction s) (simp_all add: scan_str_char push_def)

section \<open>Numbers read back\<close>

lemma nat_str_Nil [simp]: "nat_str n \<noteq> []"
  by (simp add: nat_str.simps)

lemma digit_char:
  assumes "d < 10"
  shows "is_decimal (char_of (48 + d))" and "digit_value (char_of (48 + d)) = d" and "char_of (48 + d) = CHR ''0'' \<longleftrightarrow> d = 0"
proof -
  have "list_all (\<lambda>d. is_decimal (char_of (48 + d)) \<and> digit_value (char_of (48 + d)) = d \<and>
      (char_of (48 + d) = CHR ''0'' \<longleftrightarrow> d = 0)) [0..<10]" by code_simp
  with assms show "is_decimal (char_of (48 + d))" "digit_value (char_of (48 + d)) = d" "char_of (48 + d) = CHR ''0'' \<longleftrightarrow> d = 0"
    by (auto simp: list_all_iff)
qed

lemma nat_str_digits: "list_all is_decimal (nat_str n)"
proof (induction n rule: nat_str.induct)
  case (1 n)
  show ?case
  proof (cases "n < 10")
    case True
    then show ?thesis by (simp add: nat_str.simps digit_char(1))
  next
    case False
    with 1 show ?thesis by (subst nat_str.simps) (simp add: digit_char(1))
  qed
qed

lemma digits_value_nat_str: "digits_value (nat_str n) = n"
proof (induction n rule: nat_str.induct)
  case (1 n)
  show ?case
  proof (cases "n < 10")
    case True
    then show ?thesis by (simp add: nat_str.simps digits_value_def digit_char(2))
  next
    case False
    then have "digits_value (nat_str n) = 10 * digits_value (nat_str (n div 10)) + n mod 10"
      by (subst nat_str.simps) (simp add: digits_value_def digit_char(2))
    with 1 False show ?thesis by simp
  qed
qed

lemma hd_nat_str: "hd (nat_str n) = CHR ''0'' \<longleftrightarrow> n = 0"
proof (induction n rule: nat_str.induct)
  case (1 n)
  show ?case
  proof (cases "n < 10")
    case True
    then show ?thesis by (simp add: nat_str.simps digit_char(3))
  next
    case False
    then have "hd (nat_str n) = hd (nat_str (n div 10))" by (subst nat_str.simps) simp
    with 1 False show ?thesis by auto
  qed
qed

text \<open>A text at which a number ends.\<close>

definition stop :: "string \<Rightarrow> bool" where
  "stop r \<longleftrightarrow> r = [] \<or> \<not> is_decimal (hd r) \<and> hd r \<notin> set ''.eE+-''"

lemma startswith_single: "startswith s [c] \<longleftrightarrow> s \<noteq> [] \<and> hd s = c"
  by (cases s) (auto simp: startswith_def)

lemma stop_cases:
  assumes "stop r"
  shows "digits_of r = []" "\<not> startswith r ''0''" "\<not> startswith r ''-''" "frac_part r = []" "exp_part r = []"
  using assms
  by (cases r; force simp: stop_def digits_of_def frac_part_def exp_part_def startswith_single is_decimal_def)+

lemma digits_of_append: "stop r \<Longrightarrow> digits_of (s @ r) = digits_of s"
  by (induction s) (auto simp: digits_of_def dest: stop_cases(1) [unfolded digits_of_def])

lemma int_part_append: "stop r \<Longrightarrow> int_part (s @ r) = int_part s"
  using stop_cases(2) [of r] digits_of_append [of r s] by (cases s) (auto simp: int_part_def startswith_single)

lemma frac_part_append: "stop r \<Longrightarrow> frac_part (s @ r) = frac_part s"
  using stop_cases(4) [of r] by (cases s) (auto simp: frac_part_def digits_of_append)

lemma exp_part_append: "stop r \<Longrightarrow> exp_part (s @ r) = exp_part s"
proof (cases s)
  case Nil
  then show "stop r \<Longrightarrow> ?thesis" by (simp add: stop_cases(5)) (simp add: exp_part_def)
next
  case (Cons c t)
  assume r: "stop r"
  have "(case t @ r of x # u \<Rightarrow> if x = CHR ''-'' \<or> x = CHR ''+'' then [x] else [] | [] \<Rightarrow> []) =
        (case t of x # u \<Rightarrow> if x = CHR ''-'' \<or> x = CHR ''+'' then [x] else [] | [] \<Rightarrow> [])"
    using r by (cases t; cases r) (auto simp: stop_def)
  moreover have "length (case t of x # u \<Rightarrow> if x = CHR ''-'' \<or> x = CHR ''+'' then [x] else [] | [] \<Rightarrow> []) \<le> length t"
    by (cases t) auto
  ultimately show ?thesis unfolding Cons exp_part_def Let_def using r by (simp add: digits_of_append)
qed

lemma part_lengths: "length (int_part s) \<le> length s" "length (frac_part s) \<le> length s" "length (exp_part s) \<le> length s"
proof -
  have d: "length (digits_of u) \<le> length u" for u by (simp add: digits_of_def length_takeWhile_le)
  show "length (int_part s) \<le> length s" using d [of s] by (cases s) (auto simp: int_part_def startswith_def)
  show "length (frac_part s) \<le> length s" using d by (cases s) (auto simp: frac_part_def)
  show "length (exp_part s) \<le> length s"
  proof (cases s)
    case (Cons c t)
    have "length (digits_of (drop 1 t)) \<le> length t - 1" using d [of "drop 1 t"] by simp
    then show ?thesis using d [of t] Cons by (cases t) (auto simp: exp_part_def Let_def)
  qed (simp add: exp_part_def)
qed

lemma number_parts_append:
  assumes r: "stop r"
  shows "number_parts (s @ r) = (case number_parts s of (ip, fp, ep, t) \<Rightarrow> (ip, fp, ep, t @ r))"
proof -
  have i: "drop (length (int_part s)) (s @ r) = drop (length (int_part s)) s @ r"
    using part_lengths(1) [of s] by simp
  define u where "u = drop (length (int_part s)) s"
  have f: "drop (length (frac_part u)) (u @ r) = drop (length (frac_part u)) u @ r"
    using part_lengths(2) [of u] by simp
  define w where "w = drop (length (frac_part u)) u"
  have e: "drop (length (exp_part w)) (w @ r) = drop (length (exp_part w)) w @ r"
    using part_lengths(3) [of w] by simp
  show ?thesis
    unfolding number_parts_def Let_def int_part_append [OF r] i u_def [symmetric] frac_part_append [OF r] f
      w_def [symmetric] exp_part_append [OF r] e by simp
qed

lemma scan_number_append:
  assumes r: "stop r"
  shows "scan_number (s @ r) = map_option (\<lambda>(v, t). (v, t @ r)) (scan_number s)"
proof -
  have neg: "startswith (s @ r) ''-'' = startswith s ''-''"
    using stop_cases(3) [OF r] by (cases s) (auto simp: startswith_single)
  have body: "(if startswith s ''-'' then tl (s @ r) else s @ r) = (if startswith s ''-'' then tl s else s) @ r"
    by (auto simp: startswith_single)
  show ?thesis
    unfolding scan_number_def Let_def neg body number_parts_append [OF r]
    by (cases "number_parts (if startswith s ''-'' then tl s else s)") simp
qed

lemma scan_number_int: "scan_number (int_str i) = Some (PInt i, [])"
proof -
  have d: "digits_of (nat_str n) = nat_str n" for n
    using nat_str_digits [of n] by (simp add: digits_of_def takeWhile_eq_all_conv list_all_iff)
  have ip: "int_part (nat_str n) = nat_str n" for n
    by (auto simp: int_part_def d startswith_single hd_nat_str) (use digit_char(3) [of 0] in \<open>simp add: nat_str.simps\<close>)
  have "hd (nat_str n) \<noteq> CHR ''-''" for n
    using nat_str_digits [of n] nat_str_Nil [of n] by (cases "nat_str n") (auto simp: is_decimal_def)
  then show ?thesis
    by (auto simp: scan_number_def number_parts_def int_str_def Let_def ip startswith_single digits_value_nat_str frac_part_def exp_part_def)
qed

section \<open>Values read back\<close>

text \<open>The values that \<open>json.dumps\<close> writes so that they read back: floats carry the text of a
  float, dictionaries have no repeated key.\<close>

fun json_ok :: "pyval \<Rightarrow> bool" where
  "json_ok (PFloat r) \<longleftrightarrow> r \<in> set [''nan'', ''inf'', ''-inf''] \<or> scan_number r = Some (PFloat r, [])"
| "json_ok (PList xs) \<longleftrightarrow> list_all json_ok xs"
| "json_ok (PDict d) \<longleftrightarrow> distinct (map fst d) \<and> list_all (\<lambda>kv. json_ok (snd kv)) d"
| "json_ok v \<longleftrightarrow> True"

lemma int_part_hd: "int_part s \<noteq> [] \<Longrightarrow> s \<noteq> [] \<and> is_decimal (hd s)"
proof (cases s)
  case (Cons c t)
  then show "int_part s \<noteq> [] \<Longrightarrow> ?thesis"
    by (cases "is_decimal c") (auto simp: int_part_def digits_of_def startswith_single is_decimal_def)
qed (simp add: int_part_def digits_of_def startswith_single)

lemma scan_number_hd: "scan_number s = Some r \<Longrightarrow> s \<noteq> [] \<and> (is_decimal (hd s) \<or> hd s = CHR ''-'')"
  using int_part_hd [of s] by (auto simp: scan_number_def number_parts_def startswith_single Let_def split: if_splits)

lemma scan_number_literal: "t \<in> set (map fst literals) \<Longrightarrow> scan_number t = None"
proof -
  have "list_all (\<lambda>t. scan_number t = None) (map fst literals)" by code_simp
  then show "t \<in> set (map fst literals) \<Longrightarrow> ?thesis" by (auto simp: list_all_iff)
qed

lemma json_dumps_scalar:
  assumes "json_ok v" "stop r" "\<And>xs. v \<noteq> PList xs" "\<And>d. v \<noteq> PDict d" "\<And>s. v \<noteq> PStr s"
  shows "scan_scalar (json_dumps v @ r) = Some (v, r)"
proof -
  have num: "scan_scalar (t @ r) = Some (w, r)" if "scan_number t = Some (w, [])" for t w
    using scan_number_append [OF assms(2), of t] that by (simp add: scan_scalar_def)
  have lit: "scan_number (t @ r) = None" if "t \<in> set (map fst literals)" for t
    using scan_number_literal [OF that] scan_number_append [OF assms(2), of t] by simp
  note lits = lit [of "''null''"] lit [of "''true''"] lit [of "''false''"] lit [of "''NaN''"] lit [of "''Infinity''"]
    lit [of "''-Infinity''"]
  show ?thesis
  proof (cases v)
    case (PInt i)
    with num [OF scan_number_int] show ?thesis by simp
  next
    case (PFloat f)
    show ?thesis
    proof (cases "f \<in> set [''nan'', ''inf'', ''-inf'']")
      case True
      with lits PFloat show ?thesis by (auto simp: json_float_def scan_scalar_def literals_def startswith_def)
    next
      case False
      with PFloat assms(1) num [of f "PFloat f"] show ?thesis by (simp add: json_float_def)
    qed
  qed (use assms lits in \<open>auto simp: scan_scalar_def literals_def startswith_def\<close>)
qed

lemma json_dumps_hd:
  assumes "json_ok v"
  shows "json_dumps v \<noteq> [] \<and> \<not> is_space (hd (json_dumps v)) \<and> hd (json_dumps v) \<notin> set '']},:''"
proof (cases v)
  case (PInt i)
  with scan_number_hd [OF scan_number_int [of i]] show ?thesis by (auto simp: is_decimal_def is_space_def)
next
  case (PFloat r)
  with assms scan_number_hd [of r] show ?thesis by (auto simp: json_float_def is_decimal_def is_space_def)
qed (auto simp: is_space_def json_string_def)

lemma json_space_is_space: "json_space c \<Longrightarrow> is_space c"
  by (auto simp: json_space_def is_space_def)

lemma scalar_hd:
  assumes "json_ok v" "\<And>xs. v \<noteq> PList xs" "\<And>d. v \<noteq> PDict d" "\<And>s. v \<noteq> PStr s"
  shows "hd (json_dumps v) \<notin> set [CHR 0x22, CHR ''['', CHR ''{'']"
proof (cases v)
  case (PInt i)
  with scan_number_hd [OF scan_number_int [of i]] show ?thesis by (auto simp: is_decimal_def)
next
  case (PFloat r)
  with assms(1) scan_number_hd [of r] show ?thesis by (auto simp: json_float_def is_decimal_def)
qed (use assms in auto)

lemma skip_space_id: "s \<noteq> [] \<Longrightarrow> \<not> is_space (hd s) \<Longrightarrow> skip_space s = s"
  by (cases s) (auto simp: skip_space_def dest: json_space_is_space)

lemma skip_space_dumps: "json_ok v \<Longrightarrow> skip_space (json_dumps v @ r) = json_dumps v @ r"
  using json_dumps_hd [of v] by (intro skip_space_id) auto

lemma skip_space_space: "skip_space (CHR '' '' # s) = skip_space s"
  by (simp add: skip_space_def json_space_def)

lemma join_str_Cons: "join_str sep (x # xs) = x @ (if xs = [] then [] else sep @ join_str sep xs)"
  by (cases xs) auto

lemma parse_elems_dumps:
  assumes "\<And>v n r. v \<in> set vs \<Longrightarrow> stop r \<Longrightarrow> length (json_dumps v) \<le> n \<Longrightarrow> parse_value n (json_dumps v @ r) = Some (v, r)"
    and "\<forall>v\<in>set vs. json_ok v" "vs \<noteq> []" "length (join_str '', '' (map json_dumps vs)) < n"
  shows "parse_elems n (join_str '', '' (map json_dumps vs) @ CHR '']'' # r) = Some (vs, r)"
  using assms
proof (induction vs arbitrary: n)
  case (Cons v vs)
  from Cons.prems(4) obtain m where n: "n = Suc m" by (cases n) auto
  show ?case
  proof (cases "vs = []")
    case True
    have "parse_value m (json_dumps v @ CHR '']'' # r) = Some (v, CHR '']'' # r)"
      using Cons.prems(4) n True by (intro Cons.prems(1)) (auto simp: stop_def is_decimal_def)
    then show ?thesis using n True by (simp add: skip_space_def json_space_def)
  next
    case False
    let ?j = "join_str '', '' (map json_dumps vs) @ CHR '']'' # r"
    have "parse_value m (json_dumps v @ CHR '','' # CHR '' '' # ?j) = Some (v, CHR '','' # CHR '' '' # ?j)"
      using Cons.prems(4) n False by (intro Cons.prems(1)) (auto simp: stop_def is_decimal_def join_str_Cons)
    moreover have "skip_space ?j = ?j"
      using False Cons.prems(2) json_dumps_hd [of "hd vs"] by (cases vs) (auto simp: join_str_Cons intro!: skip_space_id)
    moreover have "parse_elems m ?j = Some (vs, r)"
      using Cons.prems n False json_dumps_hd [of v] by (intro Cons.IH) (auto simp: join_str_Cons)
    ultimately show ?thesis using n False
      by (simp add: join_str_Cons skip_space_space) (simp add: skip_space_def json_space_def)
  qed
qed simp

definition member_text :: "string \<times> pyval \<Rightarrow> string" where
  "member_text kv = json_string (fst kv) @ '': '' @ json_dumps (snd kv)"

lemma json_dumps_PDict: "json_dumps (PDict d) = ''{'' @ join_str '', '' (map member_text d) @ ''}''"
  by (simp add: member_text_def cong: map_cong)

lemma member_text_quote: "member_text kv = CHR 0x22 # concat (map json_char (fst kv)) @ CHR 0x22 # '': '' @ json_dumps (snd kv)"
  by (simp add: member_text_def json_string_def)

lemma parse_members_Suc_text:
  assumes "parse_value n (json_dumps (snd kv) @ u) = Some (snd kv, u)" "json_ok (snd kv)"
  shows "parse_members (Suc n) (member_text kv @ u) =
     (case skip_space u of
        [] \<Rightarrow> None
      | c # t \<Rightarrow>
          if c = CHR ''}'' then Some ([kv], t)
          else if c = CHR '','' then map_option (\<lambda>(kvs, w). (kv # kvs, w)) (parse_members n (skip_space t))
          else None)"
proof -
  have "scan_str (concat (map json_char (fst kv)) @ CHR 0x22 # '': '' @ json_dumps (snd kv) @ u) =
      Some (fst kv, '': '' @ json_dumps (snd kv) @ u)" by (rule scan_str_string)
  moreover have "skip_space ('': '' @ json_dumps (snd kv) @ u) = '': '' @ json_dumps (snd kv) @ u"
    by (simp add: skip_space_def json_space_def)
  moreover have "skip_space (CHR '' '' # json_dumps (snd kv) @ u) = json_dumps (snd kv) @ u"
    by (simp add: skip_space_space skip_space_dumps assms(2))
  ultimately show ?thesis
    using assms(1) by (simp add: member_text_quote startswith_single split: list.split)
qed

lemma parse_members_dumps:
  assumes "\<And>kv n r. kv \<in> set d \<Longrightarrow> stop r \<Longrightarrow> length (json_dumps (snd kv)) \<le> n \<Longrightarrow>
      parse_value n (json_dumps (snd kv) @ r) = Some (snd kv, r)"
    and "\<forall>kv\<in>set d. json_ok (snd kv)" "d \<noteq> []" "length (join_str '', '' (map member_text d)) < n"
  shows "parse_members n (join_str '', '' (map member_text d) @ CHR ''}'' # r) = Some (d, r)"
  using assms
proof (induction d arbitrary: n)
  case (Cons kv d)
  from Cons.prems(4) obtain m where n: "n = Suc m" by (cases n) auto
  have len: "length (json_dumps (snd kv)) \<le> m"
    using Cons.prems(4) n by (simp add: join_str_Cons member_text_def)
  have ok: "json_ok (snd kv)" using Cons.prems(2) by simp
  show ?case
  proof (cases "d = []")
    case True
    have "parse_value m (json_dumps (snd kv) @ CHR ''}'' # r) = Some (snd kv, CHR ''}'' # r)"
      using len by (intro Cons.prems(1)) (auto simp: stop_def is_decimal_def)
    from parse_members_Suc_text [OF this ok] show ?thesis using n True
      by (simp add: skip_space_def json_space_def)
  next
    case False
    let ?j = "join_str '', '' (map member_text d) @ CHR ''}'' # r"
    have v: "parse_value m (json_dumps (snd kv) @ CHR '','' # CHR '' '' # ?j) = Some (snd kv, CHR '','' # CHR '' '' # ?j)"
      using len by (intro Cons.prems(1)) (auto simp: stop_def is_decimal_def)
    have "skip_space ?j = ?j"
      using False by (cases d) (auto simp: join_str_Cons member_text_quote is_space_def intro!: skip_space_id)
    moreover have "parse_members m ?j = Some (d, r)"
      using Cons.prems n False by (intro Cons.IH) (auto simp: join_str_Cons member_text_quote)
    ultimately show ?thesis using parse_members_Suc_text [OF v ok] n False
      by (simp add: join_str_Cons skip_space_space) (simp add: skip_space_def json_space_def)
  qed
qed simp

lemma dict_put_new: "k \<notin> set (map fst d) \<Longrightarrow> dict_put d k v = d @ [(k, v)]"
  by (induction d) auto

lemma make_dict_distinct: "distinct (map fst kvs) \<Longrightarrow> make_dict kvs = kvs"
proof -
  have "distinct (map fst (d @ kvs)) \<Longrightarrow> fold (\<lambda>(k, v) d. dict_put d k v) kvs d = d @ kvs" for d
  proof (induction kvs arbitrary: d)
    case (Cons kv kvs)
    then have "dict_put d (fst kv) (snd kv) = d @ [kv]" by (simp add: dict_put_new)
    with Cons show ?case by (simp add: case_prod_beta)
  qed simp
  from this [of "[]"] show "distinct (map fst kvs) \<Longrightarrow> ?thesis" by (simp add: make_dict_def)
qed

lemma parse_value_scalar:
  assumes "json_ok v" "stop r" "length (json_dumps v) \<le> n" "\<And>xs. v \<noteq> PList xs" "\<And>d. v \<noteq> PDict d" "\<And>s. v \<noteq> PStr s"
  shows "parse_value n (json_dumps v @ r) = Some (v, r)"
proof -
  obtain c t where c: "json_dumps v = c # t" using json_dumps_hd [OF assms(1)] by (cases "json_dumps v") auto
  then obtain m where "n = Suc m" using assms(3) by (cases n) auto
  with c scalar_hd [OF assms(1,4,5,6)] json_dumps_scalar [OF assms(1,2,4,5,6)] show ?thesis by simp
qed

lemma parse_value_dumps:
  "json_ok v \<Longrightarrow> stop r \<Longrightarrow> length (json_dumps v) \<le> n \<Longrightarrow> parse_value n (json_dumps v @ r) = Some (v, r)"
proof (induction v arbitrary: r n)
  case (PStr s)
  then obtain m where "n = Suc m" by (cases n) (auto simp: json_string_def)
  then show ?case using scan_str_string [of s r] by (simp add: json_string_def)
next
  case (PList xs)
  from PList.prems obtain m where n: "n = Suc m" "length (join_str '', '' (map json_dumps xs)) < m" by (cases n) auto
  show ?case
  proof (cases "xs = []")
    case True
    then show ?thesis using n by (simp add: skip_space_def json_space_def startswith_single)
  next
    case False
    let ?j = "join_str '', '' (map json_dumps xs) @ CHR '']'' # r"
    have ok: "\<forall>v\<in>set xs. json_ok v" using PList.prems(1) by (simp add: list_all_iff)
    have j: "skip_space ?j = ?j" "\<not> startswith ?j '']''"
      using False ok json_dumps_hd [of "hd xs"] by (cases xs; auto simp: join_str_Cons startswith_single intro!: skip_space_id)+
    have "parse_elems m ?j = Some (xs, r)"
      using PList.IH ok n(2) False by (intro parse_elems_dumps) auto
    with j n show ?thesis by simp
  qed
next
  case (PDict d)
  let ?t = "join_str '', '' (map member_text d)"
  from PDict.prems(3) obtain m where n: "n = Suc m" "length ?t < m"
    unfolding json_dumps_PDict by (cases n) auto
  show ?case
  proof (cases "d = []")
    case True
    then show ?thesis using n by (simp add: skip_space_def json_space_def startswith_single)
  next
    case False
    let ?j = "?t @ CHR ''}'' # r"
    have ok: "\<forall>kv\<in>set d. json_ok (snd kv)" using PDict.prems(1) by (simp add: list_all_iff)
    have j: "skip_space ?j = ?j" "\<not> startswith ?j ''}''"
      using False by (cases d; auto simp: join_str_Cons member_text_quote is_space_def startswith_single intro!: skip_space_id)+
    have "parse_members m ?j = Some (d, r)"
    proof (rule parse_members_dumps [OF _ ok False n(2)])
      fix kv k u assume "kv \<in> set d" "stop u" "length (json_dumps (snd kv)) \<le> k"
      then show "parse_value k (json_dumps (snd kv) @ u) = Some (snd kv, u)"
        using PDict.IH [of kv "snd kv" u k] ok by (simp add: snds.intros)
    qed
    moreover have "make_dict d = d" using PDict.prems(1) by (simp add: make_dict_distinct)
    ultimately show ?thesis using j n unfolding json_dumps_PDict by simp
  qed
qed (rule parse_value_scalar, assumption, assumption, assumption, simp, simp, simp)+

lemma json_roundtrip: "json_ok v \<Longrightarrow> json_loads (json_dumps v) = Inr v"
  using parse_value_dumps [of v "[]" "length (json_dumps v) + 1"] skip_space_dumps [of v "[]"]
  by (simp add: json_loads_def stop_def) (simp add: skip_space_def)

text \<open>Reading a dictionary after a write.\<close>

lemma dict_get_put [simp]: "dict_get (dict_put d k v) j x = (if j = k then v else dict_get d j x)"
  by (induction d k v rule: dict_put.induct) (auto simp: dict_get_def)

lemma dict_get_Cons [simp]: "dict_get ((k, v) # d) j x = (if j = k then v else dict_get d j x)"
  by (simp add: dict_get_def)

section \<open>Files of one record per line\<close>

text \<open>\<open>_read_jsonl\<close> and the appending writers: the file is cut by \<open>str.splitlines\<close>, blank lines are
  skipped, each other line is decoded. A record that is written without a line end is read back,
  and then the file gives the records in the order they were written.\<close>

definition nonblank_lines :: "string \<Rightarrow> string list" where
  "nonblank_lines text = filter (\<lambda>l. py_strip l \<noteq> []) (splitlines text)"

locale line_codec =
  fixes enc :: "'a \<Rightarrow> string" and dec :: "string \<Rightarrow> 'e + 'a" and ok :: "'a \<Rightarrow> bool"
  assumes dec_enc: "ok v \<Longrightarrow> dec (enc v) = Inr v"
    and enc_one_line: "ok v \<Longrightarrow> \<not> list_ex is_line_end (enc v)"
    and enc_nonblank: "ok v \<Longrightarrow> py_strip (enc v) \<noteq> []"
begin

lemma splitlines_line:
  "\<not> list_ex is_line_end l \<Longrightarrow> splitlines_acc acc (l @ CHR 0x0A # rest) = (rev acc @ l) # splitlines_acc [] rest"
  by (induction l arbitrary: acc) (auto simp: is_line_end_def)

lemma nonblank_append:
  "ok v \<Longrightarrow> nonblank_lines (enc v @ CHR 0x0A # rest) = enc v # nonblank_lines rest"
  using splitlines_line [of "enc v" "[]" rest] enc_one_line enc_nonblank
  by (simp add: nonblank_lines_def splitlines_def)

lemma read_lines_append:
  "ok v \<Longrightarrow> map_res dec (nonblank_lines (enc v @ CHR 0x0A # rest)) = bind_res (map_res dec (nonblank_lines rest)) (\<lambda>vs. Inr (v # vs))"
  by (simp add: nonblank_append dec_enc)

lemma read_lines_concat:
  "\<forall>v\<in>set vs. ok v \<Longrightarrow> map_res dec (nonblank_lines (concat (map (\<lambda>v. enc v @ [CHR 0x0A]) vs))) = Inr vs"
proof (induction vs)
  case Nil
  then show ?case by (simp add: nonblank_lines_def splitlines_def)
next
  case (Cons v vs)
  then show ?case using read_lines_append [of v] by simp
qed

lemma read_lines_prefix:
  "\<forall>v\<in>set vs. ok v \<Longrightarrow>
   map_res dec (nonblank_lines (concat (map (\<lambda>v. enc v @ [CHR 0x0A]) vs) @ rest)) = bind_res (map_res dec (nonblank_lines rest)) (\<lambda>ws. Inr (vs @ ws))"
proof (induction vs)
  case Nil
  then show ?case by (cases "map_res dec (nonblank_lines rest)") auto
next
  case (Cons v vs)
  then show ?case using read_lines_append [of v] by (cases "map_res dec (nonblank_lines rest)") auto
qed

end

definition json_line :: "pyval \<Rightarrow> string" where
  "json_line v = json_dumps v @ [CHR 0x0A]"

definition read_jsonl :: "string \<Rightarrow> pyval list py_result" where
  "read_jsonl text = map_res json_loads (nonblank_lines text)"

text \<open>\<open>json.dumps\<close> escapes every line end except U+0085: the records that are safe in such a file
  hold no string with that character.\<close>

fun no_nel :: "pyval \<Rightarrow> bool" where
  "no_nel (PFloat r) \<longleftrightarrow> \<not> list_ex is_line_end r"
| "no_nel (PStr s) \<longleftrightarrow> CHR 0x85 \<notin> set s"
| "no_nel (PList xs) \<longleftrightarrow> list_all no_nel xs"
| "no_nel (PDict d) \<longleftrightarrow> list_all (\<lambda>kv. CHR 0x85 \<notin> set (fst kv) \<and> no_nel (snd kv)) d"
| "no_nel v \<longleftrightarrow> True"

definition jsonl_ok :: "pyval \<Rightarrow> bool" where
  "jsonl_ok v \<longleftrightarrow> json_ok v \<and> no_nel v"

lemma json_char_line: "c \<noteq> CHR 0x85 \<Longrightarrow> \<not> list_ex is_line_end (json_char c)"
proof (cases "(of_char c :: nat) < 32")
  case True
  have "list_all (\<lambda>n. \<not> list_ex is_line_end (json_char (char_of n))) [0..<32]" by code_simp
  then have "\<not> list_ex is_line_end (json_char (char_of n))" if "n < 32" for n :: nat
    using that by (simp add: list_all_iff)
  from this [OF True] show ?thesis by simp
next
  case False
  assume "c \<noteq> CHR 0x85"
  with False have c: "\<not> is_line_end c" by (auto simp: is_line_end_def)
  have "json_char c \<in> {[CHR 0x5C, c], [c]}" using False by (auto simp: json_char_def Let_def)
  moreover have "\<not> is_line_end (CHR 0x5C)" by (simp add: is_line_end_def)
  ultimately show ?thesis using c by auto
qed

lemma json_string_line: "CHR 0x85 \<notin> set s \<Longrightarrow> \<not> list_ex is_line_end (json_string s)"
proof (induction s)
  case (Cons c s)
  then show ?case using json_char_line [of c] by (auto simp: json_string_def)
qed (simp add: json_string_def is_line_end_def)

lemma list_ex_join: "list_ex p (join_str sep xs) \<Longrightarrow> list_ex p sep \<or> (\<exists>x\<in>set xs. list_ex p x)"
  by (induction sep xs rule: join_str.induct) auto

lemma punctuation_line: "list_all (\<lambda>c. \<not> is_line_end c) ''[]{}:, -nulltruefalseNaNInfinity0123456789''"
  by (simp add: is_line_end_def)

lemmas no_line_end = punctuation_line [simplified list.pred_inject]

lemma decimal_line: "is_decimal c \<Longrightarrow> \<not> is_line_end c"
  by (auto simp: is_decimal_def no_line_end)

lemma int_str_line: "\<not> list_ex is_line_end (int_str i)"
proof -
  have "\<not> list_ex is_line_end (nat_str n)" for n
    using nat_str_digits [of n] decimal_line by (auto simp: list_ex_iff list_all_iff)
  then show ?thesis by (simp add: int_str_def no_line_end)
qed

lemma json_dumps_line: "no_nel v \<Longrightarrow> \<not> list_ex is_line_end (json_dumps v)"
proof (induction v rule: json_dumps.induct)
  case (6 xs)
  then show ?case by (auto simp: list_all_iff no_line_end dest!: list_ex_join)
next
  case (7 d)
  have "\<not> list_ex is_line_end (json_string (fst kv) @ '': '' @ json_dumps (snd kv))" if "kv \<in> set d" for kv
    using 7 that json_string_line [of "fst kv"] by (cases kv) (auto simp: list_all_iff no_line_end)
  then show ?case by (auto simp: no_line_end dest!: list_ex_join)
qed (auto simp: int_str_line json_float_def json_string_line no_line_end)

lemma py_strip_nonblank: "s \<noteq> [] \<Longrightarrow> \<not> is_space (hd s) \<Longrightarrow> py_strip s \<noteq> []"
  by (cases s) (auto simp: py_strip_def strip_chars_def lstrip_chars_def rstrip_chars_def dropWhile_eq_Nil_conv)

interpretation jsonl: line_codec json_dumps json_loads jsonl_ok
  using json_roundtrip json_dumps_line json_dumps_hd py_strip_nonblank
  by unfold_locales (auto simp: jsonl_ok_def)

lemmas read_jsonl_append = jsonl.read_lines_append [folded read_jsonl_def]
lemmas read_jsonl_prefix = jsonl.read_lines_prefix [folded json_line_def read_jsonl_def]
lemmas read_jsonl_concat = jsonl.read_lines_concat [folded json_line_def read_jsonl_def]

end
