(* ===== verification/Team_Store.thy ===== *)
theory Team_Store
  imports Json
begin

text \<open>
  \<^verbatim>\<open>agent_core/agents/team.py\<close>: the file-backed store shared by the agents of a team. The state maps
  the name of a directory below the store's root to what it holds: the two JSON documents, the
  event log, and for each member an inbox file and a cursor file. The JSON documents are records
  (\<open>json.loads\<close> gives back what was written, with the keys of dictionaries sorted); the
  line-oriented files are texts, because the code cuts them into lines itself. The names \<open>.\<close> and
  \<open>..\<close> stand for the root and its parent directory. Each operation holds a file lock around its
  accesses and is one step; taking a lock creates the directory. Fresh identifiers and clock
  readings are arguments; a reading is the text of the float, since nothing is computed with it.
\<close>

section \<open>State\<close>

datatype team_error =
    TeamError string
  | TeamPermissionError string
  | Raised py_error

record member =
  mb_name :: string
  mb_role :: string
  mb_created_at :: string
  mb_updated_at :: string

record team =
  tm_id :: string
  tm_name :: string
  tm_goal :: string
  tm_leader :: string
  tm_created_at :: string
  tm_updated_at :: string
  tm_members :: "(string \<times> member) list"

record task_note =
  nt_at :: string
  nt_by :: string
  nt_content :: string

record team_task =
  tk_id :: string
  tk_title :: string
  tk_description :: string
  tk_owner :: "string option"
  tk_status :: string
  tk_priority :: string
  tk_created_at :: string
  tk_updated_at :: string
  tk_notes :: "task_note list"
  tk_result :: "string option"

record team_dir =
  td_team :: "team option"
  td_tasks :: "team_task list option"
  td_events :: string
  td_inbox_dir :: bool
  td_inboxes :: "string \<rightharpoonup> string"
  td_cursors :: "string \<rightharpoonup> string"

record team_store =
  st_root :: string
  st_dirs :: "string \<rightharpoonup> team_dir"

definition empty_dir :: team_dir where
  "empty_dir = \<lparr>td_team = None, td_tasks = None, td_events = [], td_inbox_dir = False,
     td_inboxes = (\<lambda>_. None), td_cursors = (\<lambda>_. None)\<rparr>"

definition empty_store :: "string \<Rightarrow> team_store" where
  "empty_store r = \<lparr>st_root = r, st_dirs = (\<lambda>_. None)\<rparr>"

text \<open>An operation keeps the changes it made before it raised.\<close>

type_synonym 'a team_op = "team_store \<Rightarrow> team_store \<times> (team_error + 'a)"

definition ret :: "'a \<Rightarrow> 'a team_op" where
  "ret x s = (s, Inr x)"

definition fail :: "team_error \<Rightarrow> 'a team_op" where
  "fail e s = (s, Inl e)"

definition and_then :: "'a team_op \<Rightarrow> ('a \<Rightarrow> 'b team_op) \<Rightarrow> 'b team_op" where
  "and_then m f s = (case m s of (s', Inl e) \<Rightarrow> (s', Inl e) | (s', Inr x) \<Rightarrow> f x s')"

definition lift :: "team_error + 'a \<Rightarrow> 'a team_op" where
  "lift r s = (s, r)"

section \<open>Names, paths and files\<close>

definition task_statuses :: "string list" where
  "task_statuses = [''pending'', ''assigned'', ''in_progress'', ''blocked'', ''completed'']"

definition safe_name :: "string \<Rightarrow> bool" where
  "safe_name s \<longleftrightarrow> 1 \<le> length s \<and> length s \<le> 64 \<and> list_all (\<lambda>c. is_alnum_ascii c \<or> c \<in> set ''_.-'') s"

definition validate_id :: "string \<Rightarrow> team_error + string" where
  "validate_id raw =
     (if safe_name (py_strip raw) then Inr (py_strip raw)
      else Inl (TeamError (''invalid id/name: '' @ raw)))"

text \<open>\<open>_team_dir\<close> validates the stripped identifier but uses the identifier as it was given.\<close>

definition team_dir_key :: "string \<Rightarrow> team_error + string" where
  "team_dir_key team_id = bind_res (validate_id team_id) (\<lambda>_. Inr team_id)"

definition file_path :: "string \<Rightarrow> string \<Rightarrow> string \<Rightarrow> string" where
  "file_path r key file = (if key = ''.'' then r @ ''/'' @ file else r @ ''/'' @ key @ ''/'' @ file)"

definition update_dir :: "string \<Rightarrow> (team_dir \<Rightarrow> team_dir) \<Rightarrow> team_store \<Rightarrow> team_store" where
  "update_dir key f s =
     s\<lparr>st_dirs := (st_dirs s)(key \<mapsto> f (case st_dirs s key of Some d \<Rightarrow> d | None \<Rightarrow> empty_dir))\<rparr>"

text \<open>Entering \<open>FileLock\<close> creates the parent directory of the lock file.\<close>

definition lock_dir :: "string \<Rightarrow> unit team_op" where
  "lock_dir key s = (update_dir key (\<lambda>d. d) s, Inr ())"

definition lock_inbox :: "string \<Rightarrow> unit team_op" where
  "lock_inbox key s = (update_dir key (td_inbox_dir_update (\<lambda>_. True)) s, Inr ())"

definition dir_of :: "string \<Rightarrow> team_store \<Rightarrow> team_dir" where
  "dir_of key s = (case st_dirs s key of Some d \<Rightarrow> d | None \<Rightarrow> empty_dir)"

definition read_team :: "string \<Rightarrow> team team_op" where
  "read_team key s =
     (case td_team (dir_of key s) of
        Some t \<Rightarrow> (s, Inr t)
      | None \<Rightarrow> (s, Inl (TeamError (''missing team file: '' @ file_path (st_root s) key ''team.json''))))"

definition read_tasks :: "string \<Rightarrow> team_task list team_op" where
  "read_tasks key s =
     (case td_tasks (dir_of key s) of
        Some ts \<Rightarrow> (s, Inr ts)
      | None \<Rightarrow> (s, Inl (TeamError (''missing team file: '' @ file_path (st_root s) key ''tasks.json''))))"

definition write_team :: "string \<Rightarrow> team \<Rightarrow> unit team_op" where
  "write_team key t s =
     (update_dir key (td_team_update (\<lambda>_. Some (tm_members_update (sort_key fst) t))) s, Inr ())"

definition write_tasks :: "string \<Rightarrow> team_task list \<Rightarrow> unit team_op" where
  "write_tasks key ts s = (update_dir key (td_tasks_update (\<lambda>_. Some ts)) s, Inr ())"

text \<open>\<open>path.touch(exist_ok=True)\<close>.\<close>

definition touch_file :: "string \<Rightarrow> (string \<rightharpoonup> string) \<Rightarrow> (string \<rightharpoonup> string)" where
  "touch_file name files = (case files name of Some _ \<Rightarrow> files | None \<Rightarrow> files(name \<mapsto> []))"

definition ensure_inbox :: "string \<Rightarrow> string \<Rightarrow> unit team_op" where
  "ensure_inbox key name s =
     (update_dir key (\<lambda>d. d\<lparr>td_inbox_dir := True,
        td_inboxes := touch_file name (td_inboxes d), td_cursors := touch_file name (td_cursors d)\<rparr>) s, Inr ())"

definition append_event :: "string \<Rightarrow> string \<Rightarrow> string \<Rightarrow> pydict \<Rightarrow> unit team_op" where
  "append_event key now event payload s =
     (update_dir key (\<lambda>d. d\<lparr>td_events := td_events d @
        json_line (PDict ([(''ts'', PFloat now), (''event'', PStr event)] @ payload))\<rparr>) s, Inr ())"

definition read_cursor :: "string option \<Rightarrow> int" where
  "read_cursor f =
     (case f of
        None \<Rightarrow> 0
      | Some text \<Rightarrow> (case py_int (if py_strip text = [] then ''0'' else py_strip text) of Inr n \<Rightarrow> n | Inl _ \<Rightarrow> 0))"

text \<open>\<open>xs[i:]\<close> for any integer \<open>i\<close>.\<close>

definition slice_from :: "'a list \<Rightarrow> int \<Rightarrow> 'a list" where
  "slice_from xs i = (if i < 0 then drop (nat (int (length xs) + i)) xs else drop (nat i) xs)"

definition opt_str :: "string option \<Rightarrow> pyval" where
  "opt_str x = (case x of None \<Rightarrow> PNone | Some s \<Rightarrow> PStr s)"

definition or_default :: "string option \<Rightarrow> string \<Rightarrow> string" where
  "or_default x dflt =
     (let v = py_strip (case x of Some s \<Rightarrow> if s = [] then dflt else s | None \<Rightarrow> dflt)
      in if v = [] then dflt else v)"

section \<open>Teams and members\<close>

definition get_team :: "string \<Rightarrow> team team_op" where
  "get_team team_id =
     and_then (lift (team_dir_key team_id)) (\<lambda>key s.
       if td_team (dir_of key s) = None then (s, Inl (TeamError (''unknown team: '' @ team_id)))
       else and_then (lock_dir key) (\<lambda>_. read_team key) s)"

definition is_member :: "team \<Rightarrow> string \<Rightarrow> bool" where
  "is_member t name \<longleftrightarrow> name \<in> set (map fst (tm_members t))"

definition validate_known_member :: "string \<Rightarrow> string \<Rightarrow> string team_op" where
  "validate_known_member team_id raw =
     and_then (lift (validate_id raw)) (\<lambda>name.
     and_then (get_team team_id) (\<lambda>team.
       if is_member team name then ret name
       else fail (TeamError (''unknown team member: '' @ name))))"

definition create_team ::
  "string \<Rightarrow> string \<Rightarrow> string \<Rightarrow> string \<Rightarrow> string \<Rightarrow> string \<Rightarrow> team team_op" where
  "create_team uid now ev_now name goal leader_name =
     and_then (lift (validate_id (if leader_name = [] then ''leader'' else leader_name))) (\<lambda>leader s.
       if py_strip name = [] then (s, Inl (TeamError ''team name must not be empty''))
       else if py_strip goal = [] then (s, Inl (TeamError ''team goal must not be empty''))
       else
         (let key = ''team_'' @ uid;
              team = \<lparr>tm_id = key, tm_name = py_strip name, tm_goal = py_strip goal, tm_leader = leader,
                tm_created_at = now, tm_updated_at = now,
                tm_members = [(leader, \<lparr>mb_name = leader, mb_role = ''leader'', mb_created_at = now, mb_updated_at = now\<rparr>)]\<rparr>
          in if td_inbox_dir (dir_of key s) then (s, Inl (Raised (OSError ''FileExistsError'')))
             else
               and_then (lock_inbox key) (\<lambda>_.
               and_then (write_team key team) (\<lambda>_.
               and_then (write_tasks key []) (\<lambda>_.
               and_then (ensure_inbox key leader) (\<lambda>_.
               and_then (append_event key ev_now ''team_created'' [(''leader'', PStr leader), (''goal'', PStr (py_strip goal))]) (\<lambda>_.
               ret team))))) s))"

definition put_member :: "string \<Rightarrow> string \<Rightarrow> string \<Rightarrow> (string \<times> member) list \<Rightarrow> (string \<times> member) list" where
  "put_member name role now ms =
     (if name \<in> fst ` set ms
      then map (\<lambda>(k, m). if k = name then (k, m\<lparr>mb_role := role, mb_updated_at := now\<rparr>) else (k, m)) ms
      else ms @ [(name, \<lparr>mb_name = name, mb_role = role, mb_created_at = now, mb_updated_at = now\<rparr>)])"

definition add_member :: "string \<Rightarrow> string \<Rightarrow> string \<Rightarrow> string \<Rightarrow> string \<Rightarrow> team team_op" where
  "add_member now ev_now team_id raw_name raw_role =
     and_then (lift (validate_id raw_name)) (\<lambda>name.
       if py_strip raw_role = [] then fail (TeamError ''member role must not be empty'')
       else
         and_then (lift (team_dir_key team_id)) (\<lambda>key.
         and_then (lock_dir key) (\<lambda>_.
         and_then (read_team key) (\<lambda>team0.
         (let team = team0\<lparr>tm_members := put_member name (py_strip raw_role) now (tm_members team0), tm_updated_at := now\<rparr>
          in and_then (write_team key team) (\<lambda>_.
             and_then (ensure_inbox key name) (\<lambda>_.
             and_then (append_event key ev_now ''member_added'' [(''name'', PStr name), (''role'', PStr (py_strip raw_role))]) (\<lambda>_.
             ret team))))))))"

section \<open>Tasks\<close>

definition list_tasks :: "string \<Rightarrow> team_task list team_op" where
  "list_tasks team_id =
     and_then (lift (team_dir_key team_id)) (\<lambda>key.
     and_then (lock_dir key) (\<lambda>_. read_tasks key))"

definition get_task :: "string \<Rightarrow> string \<Rightarrow> team_task team_op" where
  "get_task team_id task_id =
     and_then (list_tasks team_id) (\<lambda>tasks.
       case find (\<lambda>t. tk_id t = task_id) tasks of
         Some t \<Rightarrow> ret t
       | None \<Rightarrow> fail (TeamError (''unknown task: '' @ task_id)))"

text \<open>\<open>if owner: owner = self._validate_known_member(team_id, owner)\<close>.\<close>

definition validate_owner :: "string \<Rightarrow> string option \<Rightarrow> string option team_op" where
  "validate_owner team_id owner =
     (case owner of
        None \<Rightarrow> ret None
      | Some x \<Rightarrow> if x = [] then ret (Some []) else and_then (validate_known_member team_id x) (\<lambda>n. ret (Some n)))"

definition create_task ::
  "string \<Rightarrow> string \<Rightarrow> string \<Rightarrow> string \<Rightarrow> string \<Rightarrow> string \<Rightarrow> string option \<Rightarrow> string option \<Rightarrow> team_task team_op" where
  "create_task uid now ev_now team_id title description owner0 priority =
     (if py_strip title = [] then fail (TeamError ''task title must not be empty'')
      else if py_strip description = [] then fail (TeamError ''task description must not be empty'')
      else
        and_then (validate_owner team_id owner0) (\<lambda>owner.
        and_then (lift (team_dir_key team_id)) (\<lambda>key.
        (let task = \<lparr>tk_id = ''task_'' @ uid, tk_title = py_strip title, tk_description = py_strip description,
               tk_owner = owner, tk_status = (if owner = None \<or> owner = Some [] then ''pending'' else ''assigned''),
               tk_priority = or_default priority ''normal'', tk_created_at = now, tk_updated_at = now,
               tk_notes = [], tk_result = None\<rparr>
         in and_then (lock_dir key) (\<lambda>_.
            and_then (read_tasks key) (\<lambda>tasks.
            and_then (write_tasks key (tasks @ [task])) (\<lambda>_.
            and_then (append_event key ev_now ''task_created'' [(''task_id'', PStr (tk_id task)), (''owner'', opt_str owner)]) (\<lambda>_.
            ret task))))))))"

definition check_status :: "string option \<Rightarrow> team_error + string option" where
  "check_status status =
     (case status of
        None \<Rightarrow> Inr None
      | Some x \<Rightarrow>
          if x = [] then Inr (Some [])
          else if py_strip x \<in> set task_statuses then Inr (Some (py_strip x))
          else Inl (TeamError (''invalid task status: '' @ py_strip x)))"

text \<open>The permission checks inside the lock.\<close>

definition may_update :: "string \<Rightarrow> string \<Rightarrow> string option \<Rightarrow> string option \<Rightarrow> team_error + unit" where
  "may_update actor leader current_owner owner =
     (if actor = leader then Inr ()
      else if current_owner \<noteq> None \<and> current_owner \<noteq> Some actor
      then Inl (TeamPermissionError (actor @ '' cannot update task owned by '' @ (case current_owner of Some x \<Rightarrow> x | None \<Rightarrow> ''None'')))
      else if current_owner = None \<and> owner \<noteq> None \<and> owner \<noteq> Some actor
      then Inl (TeamPermissionError (actor @ '' can only claim unowned tasks for itself''))
      else Inr ())"

text \<open>The field updates; the second component is \<open>assigned_to\<close>.\<close>

definition apply_update ::
  "string \<Rightarrow> string \<Rightarrow> string \<Rightarrow> string \<Rightarrow> string option \<Rightarrow> string option \<Rightarrow> string option \<Rightarrow> string option \<Rightarrow>
   team_task \<Rightarrow> team_task \<times> string option" where
  "apply_update note_now now actor leader status owner0 note result task =
     (let owner = (if tk_owner task = None \<and> actor \<noteq> leader \<and> owner0 = None then Some actor else owner0);
          assign = owner \<noteq> None \<and> owner \<noteq> tk_owner task;
          t1 = (if assign then task\<lparr>tk_owner := owner,
                  tk_status := (if status = None \<and> tk_status task = ''pending'' then ''assigned'' else tk_status task)\<rparr>
                else task);
          t2 = (case status of Some x \<Rightarrow> t1\<lparr>tk_status := x\<rparr> | None \<Rightarrow> t1);
          t3 = (case note of
                  Some x \<Rightarrow> if x \<noteq> [] then t2\<lparr>tk_notes := tk_notes t2 @ [\<lparr>nt_at = note_now, nt_by = actor, nt_content = py_strip x\<rparr>]\<rparr> else t2
                | None \<Rightarrow> t2);
          t4 = (case result of Some x \<Rightarrow> t3\<lparr>tk_result := Some x\<rparr> | None \<Rightarrow> t3)
      in (t4\<lparr>tk_updated_at := now\<rparr>, if assign then owner else None))"

fun update_first :: "('a \<Rightarrow> bool) \<Rightarrow> 'a \<Rightarrow> 'a list \<Rightarrow> 'a list" where
  "update_first p y [] = []"
| "update_first p y (x # xs) = (if p x then y # xs else x # update_first p y xs)"

text \<open>Writing the updated task list and logging the event.\<close>

definition commit_update ::
  "string \<Rightarrow> string \<Rightarrow> string \<Rightarrow> string \<Rightarrow> string \<Rightarrow> string \<Rightarrow> string \<Rightarrow> string option \<Rightarrow> string option \<Rightarrow> string option \<Rightarrow>
   string option \<Rightarrow> team_task list \<Rightarrow> team_task \<Rightarrow> (team_task \<times> string option) team_op" where
  "commit_update note_now now ev_now key task_id actor leader status owner note result tasks task =
     (case apply_update note_now now actor leader status owner note result task of
        (updated, assigned_to) \<Rightarrow>
          and_then (write_tasks key (update_first (\<lambda>t. tk_id t = task_id) updated tasks)) (\<lambda>_.
          and_then (append_event key ev_now ''task_updated''
            [(''task_id'', PStr task_id), (''actor'', PStr actor), (''status'', PStr (tk_status updated)),
             (''owner'', opt_str (tk_owner updated))]) (\<lambda>_.
          ret (updated, assigned_to))))"

text \<open>The body under the lock of the task file.\<close>

definition update_locked ::
  "string \<Rightarrow> string \<Rightarrow> string \<Rightarrow> string \<Rightarrow> string \<Rightarrow> string \<Rightarrow> string \<Rightarrow> string option \<Rightarrow> string option \<Rightarrow> string option \<Rightarrow>
   string option \<Rightarrow> (team_task \<times> string option) team_op" where
  "update_locked note_now now ev_now key task_id actor leader status owner note result =
     and_then (read_tasks key) (\<lambda>tasks.
       case find (\<lambda>t. tk_id t = task_id) tasks of
         None \<Rightarrow> fail (TeamError (''unknown task: '' @ task_id))
       | Some task \<Rightarrow>
           and_then (lift (may_update actor leader (tk_owner task) owner)) (\<lambda>_.
           commit_update note_now now ev_now key task_id actor leader status owner note result tasks task))"

definition update_task ::
  "string \<Rightarrow> string \<Rightarrow> string \<Rightarrow> string \<Rightarrow> string \<Rightarrow> string \<Rightarrow> string option \<Rightarrow> string option \<Rightarrow> string option \<Rightarrow>
   string option \<Rightarrow> (team_task \<times> string option) team_op" where
  "update_task note_now now ev_now team_id task_id actor0 status0 owner0 note result =
     and_then (validate_known_member team_id actor0) (\<lambda>actor.
     and_then (validate_owner team_id owner0) (\<lambda>owner.
     and_then (lift (check_status status0)) (\<lambda>status.
     and_then (get_team team_id) (\<lambda>team.
     and_then (lift (team_dir_key team_id)) (\<lambda>key.
     and_then (lock_dir key) (\<lambda>_.
     update_locked note_now now ev_now key task_id actor (tm_leader team) status owner note result))))))"

section \<open>Messages and events\<close>

definition message_value ::
  "string \<Rightarrow> string \<Rightarrow> string \<Rightarrow> string \<Rightarrow> string \<Rightarrow> string \<Rightarrow> string option \<Rightarrow> string option \<Rightarrow> pyval" where
  "message_value uid now team_id from_name to content task_id kind =
     PDict [(''id'', PStr (''msg_'' @ uid)), (''team_id'', PStr team_id), (''from'', PStr from_name), (''to'', PStr to),
            (''content'', PStr content), (''task_id'', opt_str task_id), (''kind'', PStr (or_default kind ''message'')),
            (''ts'', PFloat now)]"

definition append_inbox :: "string \<Rightarrow> string \<Rightarrow> pyval \<Rightarrow> unit team_op" where
  "append_inbox key name v s =
     (update_dir key (\<lambda>d. d\<lparr>td_inbox_dir := True,
        td_inboxes := (td_inboxes d)(name \<mapsto> (case td_inboxes d name of Some t \<Rightarrow> t | None \<Rightarrow> []) @ json_line v)\<rparr>) s, Inr ())"

definition send_message ::
  "string \<Rightarrow> string \<Rightarrow> string \<Rightarrow> string \<Rightarrow> string \<Rightarrow> string \<Rightarrow> string \<Rightarrow> string option \<Rightarrow> string option \<Rightarrow> pyval team_op" where
  "send_message uid now ev_now team_id from0 to0 content task_id kind =
     and_then (validate_known_member team_id from0) (\<lambda>from_name.
     and_then (validate_known_member team_id to0) (\<lambda>to.
       if py_strip content = [] then fail (TeamError ''message content must not be empty'')
       else
         and_then (case task_id of
                     Some t \<Rightarrow> if t = [] then ret () else and_then (get_task team_id t) (\<lambda>_. ret ())
                   | None \<Rightarrow> ret ()) (\<lambda>_.
         and_then (lift (team_dir_key team_id)) (\<lambda>key.
         (let msg = message_value uid now team_id from_name to (py_strip content) task_id kind
          in and_then (append_inbox key to msg) (\<lambda>_.
             and_then (append_event key ev_now ''message_sent''
               [(''message_id'', PStr (''msg_'' @ uid)), (''from'', PStr from_name), (''to'', PStr to)]) (\<lambda>_.
             ret msg)))))))"

definition lift_io :: "'a py_result \<Rightarrow> team_error + 'a" where
  "lift_io r = (case r of Inl e \<Rightarrow> Inl (Raised e) | Inr x \<Rightarrow> Inr x)"

definition write_cursor :: "string \<Rightarrow> string \<Rightarrow> nat \<Rightarrow> unit team_op" where
  "write_cursor key name n s = (update_dir key (\<lambda>d. d\<lparr>td_cursors := (td_cursors d)(name \<mapsto> nat_str n)\<rparr>) s, Inr ())"

definition inbox_messages :: "string \<Rightarrow> string \<Rightarrow> pyval list team_op" where
  "inbox_messages key name s =
     (s, lift_io (case td_inboxes (dir_of key s) name of None \<Rightarrow> Inr [] | Some text \<Rightarrow> read_jsonl text))"

definition read_inbox :: "string \<Rightarrow> string \<Rightarrow> bool \<Rightarrow> pyval list team_op" where
  "read_inbox team_id agent unread_only =
     and_then (validate_known_member team_id agent) (\<lambda>name.
     and_then (lift (team_dir_key team_id)) (\<lambda>key.
     and_then (lock_inbox key) (\<lambda>_.
     and_then (inbox_messages key name) (\<lambda>messages s.
       if \<not> unread_only then (s, Inr messages)
       else
         (let start = read_cursor (td_cursors (dir_of key s) name)
          in and_then (write_cursor key name (length messages)) (\<lambda>_. ret (slice_from messages start)) s)))))"

definition read_events :: "string \<Rightarrow> int \<Rightarrow> pyval list team_op" where
  "read_events team_id limit =
     and_then (lift (team_dir_key team_id)) (\<lambda>key.
     and_then (lock_dir key) (\<lambda>_ s.
       (s, bind_res (lift_io (read_jsonl (td_events (dir_of key s)))) (\<lambda>evs. Inr (slice_from evs (- limit))))))"

definition team_status :: "string \<Rightarrow> int \<Rightarrow> (team \<times> team_task list \<times> pyval list) team_op" where
  "team_status team_id recent =
     and_then (get_team team_id) (\<lambda>team.
     and_then (list_tasks team_id) (\<lambda>tasks.
     and_then (read_events team_id recent) (\<lambda>evs. ret (team, tasks, evs))))"

text \<open>\<open>resolve()\<close> maps \<open>.\<close> and \<open>..\<close> to directories whose parent is not the root.\<close>

definition delete_team :: "string \<Rightarrow> unit team_op" where
  "delete_team team_id =
     and_then (lift (team_dir_key team_id)) (\<lambda>key s.
       if key \<in> set [''.'', ''..''] \<or> st_dirs s key = None then (s, Inl (TeamError (''unknown team: '' @ team_id)))
       else (s\<lparr>st_dirs := (st_dirs s)(key := None)\<rparr>, Inr ()))"

end
