(* ===== verification/Team_Safety.thy ===== *)
theory Team_Safety
  imports Team_Store
begin

text \<open>
  Properties of the team store over arbitrary sequences of calls: who may change a task, that
  every message is delivered exactly once and in order, that the documents stay consistent, and
  what one message with U+0085 does to an inbox.
\<close>

section \<open>Calls\<close>

datatype reply =
    RTeam team | RTask team_task | RTasks "team_task list" | RUpdate team_task "string option"
  | RMessage pyval | RMessages "pyval list" | RStatus team "team_task list" "pyval list" | RUnit

datatype team_call =
    CreateTeam string string string string string string
  | GetTeam string
  | AddMember string string string string string
  | CreateTask string string string string string string "string option" "string option"
  | ListTasks string
  | GetTask string string
  | UpdateTask string string string string string string "string option" "string option" "string option" "string option"
  | SendMessage string string string string string string string "string option" "string option"
  | ReadInbox string string bool
  | TeamStatus string int
  | ReadEvents string int
  | DeleteTeam string

definition reply_with :: "('a \<Rightarrow> reply) \<Rightarrow> 'a team_op \<Rightarrow> reply team_op" where
  "reply_with f m = and_then m (\<lambda>x. ret (f x))"

fun exec :: "team_call \<Rightarrow> reply team_op" where
  "exec (CreateTeam uid now ev name goal leader) = reply_with RTeam (create_team uid now ev name goal leader)"
| "exec (GetTeam tid) = reply_with RTeam (get_team tid)"
| "exec (AddMember now ev tid name role) = reply_with RTeam (add_member now ev tid name role)"
| "exec (CreateTask uid now ev tid title desc owner prio) = reply_with RTask (create_task uid now ev tid title desc owner prio)"
| "exec (ListTasks tid) = reply_with RTasks (list_tasks tid)"
| "exec (GetTask tid k) = reply_with RTask (get_task tid k)"
| "exec (UpdateTask nnow now ev tid k actor status owner nt res) =
     reply_with (\<lambda>(t, a). RUpdate t a) (update_task nnow now ev tid k actor status owner nt res)"
| "exec (SendMessage uid now ev tid sender receiver content k kind) =
     reply_with RMessage (send_message uid now ev tid sender receiver content k kind)"
| "exec (ReadInbox tid agent unread) = reply_with RMessages (read_inbox tid agent unread)"
| "exec (TeamStatus tid n) = reply_with (\<lambda>(t, ts, es). RStatus t ts es) (team_status tid n)"
| "exec (ReadEvents tid n) = reply_with RMessages (read_events tid n)"
| "exec (DeleteTeam tid) = reply_with (\<lambda>_. RUnit) (delete_team tid)"

text \<open>A history: the calls with their outcomes, errors included, in order.\<close>

fun run :: "team_call list \<Rightarrow> team_store \<Rightarrow> team_store \<times> (team_call \<times> (team_error + reply)) list" where
  "run [] s = (s, [])"
| "run (c # cs) s =
     (case exec c s of (s1, r) \<Rightarrow> (case run cs s1 of (s2, h) \<Rightarrow> (s2, (c, r) # h)))"

section \<open>Executing operations\<close>

lemmas op_defs = and_then_def ret_def fail_def lift_def

lemma and_then_Inr:
  "and_then m f s = (s', Inr y) \<longleftrightarrow> (\<exists>s1 x. m s = (s1, Inr x) \<and> f x s1 = (s', Inr y))"
  by (auto simp: and_then_def split: prod.splits sum.splits)

lemma and_then_Inl:
  "and_then m f s = (s', Inl e) \<longleftrightarrow> m s = (s', Inl e) \<or> (\<exists>s1 x. m s = (s1, Inr x) \<and> f x s1 = (s', Inl e))"
  by (auto simp: and_then_def split: prod.splits sum.splits)

lemma lift_simps [simp]: "lift (Inr x) s = (s, Inr x)" "lift (Inl e) s = (s, Inl e)"
  by (simp_all add: lift_def)

lemma ret_simp [simp]: "ret x s = (s, Inr x)"
  by (simp add: ret_def)

lemma fail_simp [simp]: "fail e s = (s, Inl e)"
  by (simp add: fail_def)

lemma reply_with_cases: "reply_with f m s = (case m s of (s', Inl e) \<Rightarrow> (s', Inl e) | (s', Inr x) \<Rightarrow> (s', Inr (f x)))"
  by (simp add: reply_with_def and_then_def split: prod.splits sum.splits)

lemma dir_of_update [simp]: "dir_of k (update_dir key f s) = (if k = key then f (dir_of key s) else dir_of k s)"
  by (simp add: dir_of_def update_dir_def)

lemma update_dir_id: "st_dirs s key = Some d \<Longrightarrow> update_dir key (\<lambda>d. d) s = s"
  by (simp add: update_dir_def fun_upd_idem)

lemma team_dir_exists: "td_team (dir_of key s) = Some t \<Longrightarrow> \<exists>d. st_dirs s key = Some d"
  by (auto simp: dir_of_def empty_dir_def split: option.splits)

lemma validate_id_cases:
  "validate_id raw = Inr x \<longleftrightarrow> safe_name (py_strip raw) \<and> x = py_strip raw"
  "team_dir_key raw = Inr x \<longleftrightarrow> safe_name (py_strip raw) \<and> x = raw"
  by (auto simp: validate_id_def team_dir_key_def bind_res_Inr_iff)

lemma team_dir_key_eq:
  "team_dir_key raw = (if safe_name (py_strip raw) then Inr raw else Inl (TeamError (''invalid id/name: '' @ raw)))"
  by (simp add: team_dir_key_def validate_id_def)

text \<open>Reading the team document never changes the store, whether the team exists or not.\<close>

lemma get_team_result:
  "get_team tid s =
     (if safe_name (py_strip tid)
      then (case td_team (dir_of tid s) of
              None \<Rightarrow> (s, Inl (TeamError (''unknown team: '' @ tid))) | Some t \<Rightarrow> (s, Inr t))
      else (s, Inl (TeamError (''invalid id/name: '' @ tid))))"
proof (cases "td_team (dir_of tid s)")
  case None
  then show ?thesis by (simp add: get_team_def and_then_def team_dir_key_eq)
next
  case (Some t)
  then obtain d where "st_dirs s tid = Some d" using team_dir_exists by blast
  from update_dir_id [OF this] Some show ?thesis
    by (simp add: get_team_def and_then_def team_dir_key_eq lock_dir_def read_team_def)
qed

lemma get_team_Inr: "get_team tid s = (s', Inr t) \<longleftrightarrow> s' = s \<and> safe_name (py_strip tid) \<and> td_team (dir_of tid s) = Some t"
  by (auto simp: get_team_result split: option.splits)

lemma get_team_state: "fst (get_team tid s) = s"
  by (auto simp: get_team_result split: option.splits)

lemma known_member_Inr:
  "validate_known_member tid raw s = (s', Inr x) \<longleftrightarrow>
     s' = s \<and> x = py_strip raw \<and> safe_name x \<and> safe_name (py_strip tid) \<and>
     (\<exists>t. td_team (dir_of tid s) = Some t \<and> is_member t x)"
  by (auto simp: validate_known_member_def and_then_Inr get_team_Inr lift_def validate_id_cases split: if_splits)

lemma known_member_state: "fst (validate_known_member tid raw s) = s"
  using get_team_state [of tid s]
  by (auto simp: validate_known_member_def and_then_def lift_def split: sum.splits prod.splits)

lemma validate_owner_state: "fst (validate_owner tid owner s) = s"
proof (cases owner)
  case (Some x)
  obtain r where "validate_known_member tid x s = (s, r)" using known_member_state [of tid x s] by (metis prod.collapse)
  then show ?thesis using Some by (cases r) (auto simp: validate_owner_def and_then_def)
qed (simp add: validate_owner_def)

lemma validate_owner_same: "validate_owner tid owner s = (s', r) \<Longrightarrow> s' = s"
  using validate_owner_state [of tid owner s] by simp

lemma validate_owner_pure:
  "validate_owner tid owner s = (s', Inr o') \<longleftrightarrow> s' = s \<and> snd (validate_owner tid owner s) = Inr o'"
  using validate_owner_state [of tid owner s] by (cases "validate_owner tid owner s") auto

lemma validate_owner_Inr:
  "snd (validate_owner tid owner s) = Inr o' \<Longrightarrow>
     (case owner of None \<Rightarrow> o' = None | Some x \<Rightarrow> if x = [] then o' = Some [] else o' = Some (py_strip x) \<and>
        (\<exists>t. td_team (dir_of tid s) = Some t \<and> is_member t (py_strip x)))"
  using validate_owner_pure [of tid owner s s o']
  by (auto simp: validate_owner_def and_then_Inr known_member_Inr split: option.splits if_splits)

lemma get_team_same: "get_team tid s = (s', r) \<Longrightarrow> s' = s"
  using get_team_state [of tid s] by simp

lemma lock_dir_team: "td_team (dir_of key s) = Some t \<Longrightarrow> lock_dir key s = (s, Inr ())"
  using team_dir_exists [of key s t] by (auto simp: lock_dir_def update_dir_id)

lemma read_tasks_Inr: "read_tasks key s = (s', Inr ts) \<longleftrightarrow> s' = s \<and> td_tasks (dir_of key s) = Some ts"
  by (auto simp: read_tasks_def split: option.splits)

lemma read_tasks_state: "read_tasks key s = (s', r) \<Longrightarrow> s' = s"
  by (auto simp: read_tasks_def split: option.splits)

section \<open>Who may change a task\<close>

lemma commit_update_Inr:
  assumes "commit_update nnow now ev key k actor leader status owner nt res tasks t s = (s', Inr (t', a))"
  shows "apply_update nnow now actor leader status owner nt res t = (t', a) \<and>
     s' = fst (append_event key ev ''task_updated'' [(''task_id'', PStr k), (''actor'', PStr actor),
        (''status'', PStr (tk_status t')), (''owner'', opt_str (tk_owner t'))]
        (update_dir key (td_tasks_update (\<lambda>_. Some (update_first (\<lambda>t. tk_id t = k) t' tasks))) s))"
  using assms by (cases "apply_update nnow now actor leader status owner nt res t")
    (simp add: commit_update_def and_then_def write_tasks_def append_event_def)

lemma commit_update_ok: "commit_update nnow now ev key k actor leader status owner nt res tasks t s \<noteq> (s', Inl e)"
  by (cases "apply_update nnow now actor leader status owner nt res t")
    (simp add: commit_update_def and_then_def write_tasks_def append_event_def)

text \<open>What an update call amounts to when it succeeds.\<close>

lemma update_task_Inr:
  assumes "update_task nnow now ev tid k actor status owner nt res s = (s', Inr (t', a))"
  obtains team tasks t owner' status' where
    "td_team (dir_of tid s) = Some team" "td_tasks (dir_of tid s) = Some tasks"
    "find (\<lambda>t. tk_id t = k) tasks = Some t" "is_member team (py_strip actor)"
    "snd (validate_owner tid owner s) = Inr owner'" "check_status status = Inr status'"
    "may_update (py_strip actor) (tm_leader team) (tk_owner t) owner' = Inr ()"
    "apply_update nnow now (py_strip actor) (tm_leader team) status' owner' nt res t = (t', a)"
    "s' = fst (append_event tid ev ''task_updated'' [(''task_id'', PStr k), (''actor'', PStr (py_strip actor)),
        (''status'', PStr (tk_status t')), (''owner'', opt_str (tk_owner t'))]
        (update_dir tid (td_tasks_update (\<lambda>_. Some (update_first (\<lambda>t. tk_id t = k) t' tasks))) s))"
proof -
  from assms obtain team owner' status' where
    m: "td_team (dir_of tid s) = Some team" "is_member team (py_strip actor)"
    and o: "snd (validate_owner tid owner s) = Inr owner'" and st: "check_status status = Inr status'"
    and l: "update_locked nnow now ev tid k (py_strip actor) (tm_leader team) status' owner' nt res s = (s', Inr (t', a))"
    by (auto simp: update_task_def and_then_Inr known_member_Inr get_team_Inr lift_def team_dir_key_eq lock_dir_team
        validate_owner_pure split: if_splits)
  from l obtain tasks t where t: "td_tasks (dir_of tid s) = Some tasks" "find (\<lambda>t. tk_id t = k) tasks = Some t"
    and u: "may_update (py_strip actor) (tm_leader team) (tk_owner t) owner' = Inr ()"
    and c: "commit_update nnow now ev tid k (py_strip actor) (tm_leader team) status' owner' nt res tasks t s = (s', Inr (t', a))"
    by (auto simp: update_locked_def and_then_Inr read_tasks_Inr lift_def split: option.splits)
  from commit_update_Inr [OF c] show thesis using that [OF m(1) t m(2) o st u] by blast
qed

lemma update_locked_Inl: "update_locked nnow now ev key k actor leader status owner nt res s = (s', Inl e) \<Longrightarrow> s' = s"
  by (auto simp: update_locked_def and_then_Inl lift_def commit_update_ok split: option.splits dest!: read_tasks_state)

lemma update_task_Inl:
  assumes "update_task nnow now ev tid k actor status owner nt res s = (s', Inl e)"
  shows "s' = s"
  using assms known_member_state [of tid actor s]
  by (auto simp: update_task_def and_then_Inl known_member_Inr get_team_Inr lift_def team_dir_key_eq lock_dir_team
      dest!: validate_owner_same get_team_same update_locked_Inl)

lemma may_update_member:
  "may_update actor leader current owner = Inr () \<Longrightarrow> actor \<noteq> leader \<Longrightarrow>
   current \<in> {None, Some actor} \<and> (current = None \<longrightarrow> owner \<in> {None, Some actor})"
  by (auto simp: may_update_def split: if_splits)

lemma apply_update_owner:
  assumes "apply_update nnow now actor leader status owner nt res t = (t', a)"
  shows "tk_id t' = tk_id t" and
    "tk_owner t' = (if tk_owner t = None \<and> actor \<noteq> leader \<and> owner = None then Some actor
                    else if owner = None then tk_owner t else owner)"
    and "tk_status t' \<in> {tk_status t, ''assigned''} \<or> status = Some (tk_status t')"
proof -
  have t': "t' = fst (apply_update nnow now actor leader status owner nt res t)" using assms by simp
  show "tk_id t' = tk_id t" unfolding t' apply_update_def Let_def
    by (simp split: option.split)
  show "tk_owner t' = (if tk_owner t = None \<and> actor \<noteq> leader \<and> owner = None then Some actor
      else if owner = None then tk_owner t else owner)"
    unfolding t' apply_update_def Let_def by (cases nt; cases res; cases status; cases "tk_owner t"; cases owner; simp)
  show "tk_status t' \<in> {tk_status t, ''assigned''} \<or> status = Some (tk_status t')"
    unfolding t' apply_update_def Let_def by (cases nt; cases res; cases status; simp)
qed

lemma dir_after_update:
  "dir_of k (fst (append_event tid ev e p (update_dir tid f s))) =
     (if k = tid then (f (dir_of tid s))\<lparr>td_events := td_events (f (dir_of tid s)) @
        json_line (PDict ([(''ts'', PFloat ev), (''event'', PStr e)] @ p))\<rparr>
      else dir_of k s)"
  by (simp add: append_event_def)

text \<open>C19. Only the leader may touch another member's task. When \<open>update_task\<close> succeeds, the actor is
  a member, and he is the leader, or the task was his own, or it was unowned and becomes his own
  (he cannot claim it for somebody else); nothing but that one task and the event log changes:
  no other task, no team document, no inbox, no other team. When it fails, nothing at all
  changes.\<close>

theorem task_update_respects_ownership:
  "case update_task nnow now ev tid k actor status owner nt res s of
     (s', Inl e) \<Rightarrow> s' = s
   | (s', Inr (t', a)) \<Rightarrow>
       \<exists>team tasks t log. td_team (dir_of tid s) = Some team \<and> td_tasks (dir_of tid s) = Some tasks \<and>
         find (\<lambda>t. tk_id t = k) tasks = Some t \<and> is_member team (py_strip actor) \<and>
         (py_strip actor = tm_leader team \<or> tk_owner t = Some (py_strip actor) \<or>
          tk_owner t = None \<and> tk_owner t' = Some (py_strip actor)) \<and>
         (\<forall>key. dir_of key s' =
            (if key = tid then (dir_of tid s)\<lparr>td_tasks := Some (update_first (\<lambda>t. tk_id t = k) t' tasks),
                                              td_events := td_events (dir_of tid s) @ log\<rparr>
             else dir_of key s))"
proof -
  let ?u = "update_task nnow now ev tid k actor status owner nt res s"
  consider (err) s' e where "?u = (s', Inl e)" | (ok) s' t' a where "?u = (s', Inr (t', a))"
    by (metis prod.collapse sumE)
  then show ?thesis
  proof cases
    case err
    with update_task_Inl [OF err] show ?thesis by simp
  next
    case ok
    from ok obtain team tasks t owner' status' where u:
      "td_team (dir_of tid s) = Some team" "td_tasks (dir_of tid s) = Some tasks"
      "find (\<lambda>t. tk_id t = k) tasks = Some t" "is_member team (py_strip actor)"
      "may_update (py_strip actor) (tm_leader team) (tk_owner t) owner' = Inr ()"
      "apply_update nnow now (py_strip actor) (tm_leader team) status' owner' nt res t = (t', a)"
      "s' = fst (append_event tid ev ''task_updated'' [(''task_id'', PStr k), (''actor'', PStr (py_strip actor)),
          (''status'', PStr (tk_status t')), (''owner'', opt_str (tk_owner t'))]
          (update_dir tid (td_tasks_update (\<lambda>_. Some (update_first (\<lambda>t. tk_id t = k) t' tasks))) s))"
      by (rule update_task_Inr)
    from may_update_member [OF u(5)] apply_update_owner(2) [OF u(6)]
    have "py_strip actor = tm_leader team \<or> tk_owner t = Some (py_strip actor) \<or>
        tk_owner t = None \<and> tk_owner t' = Some (py_strip actor)" by auto
    with u(1-4) have "td_team (dir_of tid s) = Some team \<and> td_tasks (dir_of tid s) = Some tasks \<and>
         find (\<lambda>t. tk_id t = k) tasks = Some t \<and> is_member team (py_strip actor) \<and>
         (py_strip actor = tm_leader team \<or> tk_owner t = Some (py_strip actor) \<or>
          tk_owner t = None \<and> tk_owner t' = Some (py_strip actor)) \<and>
         (\<forall>key. dir_of key s' = (if key = tid then (dir_of tid s)\<lparr>td_tasks := Some (update_first (\<lambda>t. tk_id t = k) t' tasks),
           td_events := td_events (dir_of tid s) @ json_line (PDict ([(''ts'', PFloat ev), (''event'', PStr ''task_updated'')] @
             [(''task_id'', PStr k), (''actor'', PStr (py_strip actor)), (''status'', PStr (tk_status t')),
              (''owner'', opt_str (tk_owner t'))]))\<rparr> else dir_of key s))"
      unfolding u(7) dir_after_update by simp
    then show ?thesis unfolding ok by (simp only: prod.case sum.case) blast
  qed
qed

section \<open>Relations kept by operations\<close>

text \<open>A reflexive and transitive relation between the states before and after is kept by an
  operation when its parts keep it.\<close>

locale kept_relation =
  fixes R :: "team_store \<Rightarrow> team_store \<Rightarrow> bool"
  assumes R_refl: "R s s" and R_trans: "R s t \<Longrightarrow> R t u \<Longrightarrow> R s u"
begin

lemma and_then_kept:
  assumes "\<And>s. R s (fst (m s))" "\<And>x s. R s (fst (f x s))"
  shows "R s (fst (and_then m f s))"
proof (cases "m s")
  case (Pair s1 r)
  then have 1: "R s s1" using assms(1) [of s] by simp
  show ?thesis
  proof (cases r)
    case (Inl e)
    with Pair 1 show ?thesis by (simp add: and_then_def)
  next
    case (Inr x)
    with Pair R_trans [OF 1 assms(2) [of s1 x]] show ?thesis by (simp add: and_then_def)
  qed
qed

lemma pure_kept: "R s (fst (ret x s))" "R s (fst (fail e s))" "R s (fst (lift r s))"
  by (simp_all add: R_refl lift_def)

lemma reads_kept:
  "R s (fst (get_team tid s))" "R s (fst (validate_known_member tid raw s))" "R s (fst (validate_owner tid owner s))"
  "R s (fst (read_tasks key s))" "R s (fst (read_team key s))"
  by (simp_all add: get_team_state known_member_state validate_owner_state R_refl)
    (auto simp: read_tasks_def read_team_def R_refl split: option.splits)

lemma reply_kept: "(\<And>s. R s (fst (m s))) \<Longrightarrow> R s (fst (reply_with f m s))"
  unfolding reply_with_def by (intro and_then_kept pure_kept) auto

end

text \<open>A relation that taking a lock keeps is kept by every query; one that writing the task list and
  logging keep too is kept by every operation on tasks.\<close>

locale query_frame = kept_relation +
  assumes R_lock: "R s (fst (lock_dir key s))"
begin

lemmas query_parts = R_refl and_then_kept pure_kept reads_kept R_lock

lemma list_tasks_kept: "R s (fst (list_tasks tid s))"
  unfolding list_tasks_def by (intro query_parts)

lemma get_task_kept: "R s (fst (get_task tid k s))"
  unfolding get_task_def by (intro query_parts list_tasks_kept) (auto intro: query_parts split: option.split)

lemma read_events_kept: "R s (fst (read_events tid n s))"
  unfolding read_events_def by (auto intro!: query_parts)

lemma team_status_kept: "R s (fst (team_status tid n s))"
  unfolding team_status_def by (intro query_parts list_tasks_kept read_events_kept)

end

locale task_frame = query_frame +
  assumes R_tasks: "R s (fst (write_tasks key ts s))" and R_event: "R s (fst (append_event key now e p s))"
begin

lemmas task_parts = query_parts R_tasks R_event

lemma create_task_kept: "R s (fst (create_task uid now ev tid title desc owner prio s))"
  unfolding create_task_def Let_def by (auto intro!: task_parts)

lemma update_task_kept: "R s (fst (update_task nnow now ev tid k actor status owner nt res s))"
proof -
  have "R s (fst (commit_update nnow now ev key k actor' leader st ow nt res tasks t s))" for key actor' leader st ow tasks t s
    unfolding commit_update_def by (auto intro!: task_parts split: prod.split)
  then show ?thesis unfolding update_task_def update_locked_def by (auto intro!: task_parts split: option.split)
qed

end

section \<open>Mailboxes\<close>

definition has_box :: "string \<Rightarrow> string \<Rightarrow> team_store \<Rightarrow> bool" where
  "has_box key name s \<longleftrightarrow> td_inbox_dir (dir_of key s) \<and> (\<exists>t. td_team (dir_of key s) = Some t \<and> is_member t name) \<and>
     td_inboxes (dir_of key s) name \<noteq> None \<and> td_cursors (dir_of key s) name \<noteq> None"

definition mail :: "string \<Rightarrow> string \<Rightarrow> team_store \<Rightarrow> string option \<times> string option" where
  "mail key name s = (td_inboxes (dir_of key s) name, td_cursors (dir_of key s) name)"

definition keeps_box :: "string \<Rightarrow> string \<Rightarrow> team_store \<Rightarrow> team_store \<Rightarrow> bool" where
  "keeps_box key name s s' \<longleftrightarrow> (has_box key name s \<longrightarrow> has_box key name s' \<and> mail key name s' = mail key name s)"

lemmas box_defs = keeps_box_def has_box_def mail_def

interpretation box: task_frame "keeps_box key name" for key name
  by unfold_locales (auto simp: box_defs lock_dir_def write_tasks_def append_event_def)

lemma put_member_names: "map fst (put_member n r now ms) = (if n \<in> set (map fst ms) then map fst ms else map fst ms @ [n])"
  by (auto simp: put_member_def case_prod_beta)

lemma is_member_put:
  "is_member (t\<lparr>tm_members := put_member n r now (tm_members t), tm_updated_at := u\<rparr>) x \<longleftrightarrow> x = n \<or> is_member t x"
  by (auto simp: is_member_def put_member_names simp del: set_map)

lemma is_member_written: "is_member (tm_members_update (sort_key fst) t) x = is_member t x"
  by (simp add: is_member_def)

lemma touch_file_Some: "files x = Some y \<Longrightarrow> touch_file n files x = Some y"
  by (auto simp: touch_file_def split: option.splits)

lemma touch_file_self [simp]: "\<exists>y. touch_file n files n = Some y"
  by (auto simp: touch_file_def split: option.splits)

lemma create_team_box: "keeps_box key name s (fst (create_team uid now ev nm goal leader s))"
proof (cases "td_inbox_dir (dir_of (''team_'' @ uid) s)")
  case True
  then show ?thesis by (auto simp: create_team_def and_then_def box_defs lift_def Let_def split: sum.split)
next
  case False
  then show ?thesis
    by (auto simp: create_team_def and_then_def box_defs lift_def Let_def lock_inbox_def write_team_def write_tasks_def
        ensure_inbox_def append_event_def touch_file_Some split: sum.split)
qed

lemma add_member_Inr:
  assumes "add_member now ev tid raw role s = (s', Inr t')"
  obtains t where "td_team (dir_of tid s) = Some t" "safe_name (py_strip raw)"
    "t' = t\<lparr>tm_members := put_member (py_strip raw) (py_strip role) now (tm_members t), tm_updated_at := now\<rparr>"
    "s' = fst (append_event tid ev ''member_added'' [(''name'', PStr (py_strip raw)), (''role'', PStr (py_strip role))]
       (fst (ensure_inbox tid (py_strip raw) (fst (write_team tid t' s)))))"
  using assms
  by (auto simp: add_member_def and_then_Inr lift_def validate_id_cases team_dir_key_eq read_team_def Let_def lock_dir_team
      lock_dir_def append_event_def ensure_inbox_def write_team_def update_dir_id dest!: team_dir_exists
      split: if_splits option.splits)

lemma add_member_Inl:
  assumes "add_member now ev tid raw role s = (s', Inl e)"
  shows "s' = s \<or> s' = fst (lock_dir tid s)"
  using assms
  by (auto simp: add_member_def and_then_Inl lift_def lock_dir_def read_team_def Let_def team_dir_key_eq append_event_def
      ensure_inbox_def write_team_def split: if_splits option.splits)

lemma add_member_box: "keeps_box key name s (fst (add_member now ev tid raw role s))"
proof (cases "add_member now ev tid raw role s")
  case (Pair s' r)
  show ?thesis
  proof (cases r)
    case (Inl e)
    with Pair add_member_Inl [of now ev tid raw role s s' e] box.R_lock [of key name s tid] box.R_refl [of key name s]
    show ?thesis by auto
  next
    case (Inr t')
    with Pair obtain t where t: "td_team (dir_of tid s) = Some t"
      "t' = t\<lparr>tm_members := put_member (py_strip raw) (py_strip role) now (tm_members t), tm_updated_at := now\<rparr>"
      "s' = fst (append_event tid ev ''member_added'' [(''name'', PStr (py_strip raw)), (''role'', PStr (py_strip role))]
         (fst (ensure_inbox tid (py_strip raw) (fst (write_team tid t' s)))))"
      by (metis add_member_Inr)
    have "is_member t' x" if "is_member t x" for x using that by (simp add: t(2) is_member_put)
    then have "keeps_box key name s s'"
      using t(1) unfolding t(3) by (auto simp: box_defs append_event_def ensure_inbox_def write_team_def is_member_written
          touch_file_Some)
    with Pair show ?thesis by simp
  qed
qed

lemma get_task_known: "td_team (dir_of tid s) = Some t \<Longrightarrow> get_task tid k s = (s', r) \<Longrightarrow> s' = s"
  by (cases "safe_name (py_strip tid)")
    (auto simp: get_task_def list_tasks_def and_then_def lock_dir_team read_tasks_def team_dir_key_eq split: option.splits)

lemma send_message_Inr:
  assumes "send_message uid now ev tid sender receiver content k kind s = (s', Inr m)"
  shows "m = message_value uid now tid (py_strip sender) (py_strip receiver) (py_strip content) k kind \<and>
    s' = fst (append_event tid ev ''message_sent'' [(''message_id'', PStr (''msg_'' @ uid)), (''from'', PStr (py_strip sender)),
          (''to'', PStr (py_strip receiver))] (fst (append_inbox tid (py_strip receiver) m s)))"
  using assms
  by (auto simp: send_message_def and_then_Inr known_member_Inr lift_def team_dir_key_eq Let_def append_inbox_def append_event_def
      dest: get_task_known split: if_splits option.splits)

lemma send_message_Inl:
  assumes "send_message uid now ev tid sender receiver content k kind s = (s', Inl e)"
  shows "s' = s"
  using assms known_member_state [of tid sender s] known_member_state [of tid receiver s]
  by (auto simp: send_message_def and_then_Inl known_member_Inr lift_def team_dir_key_eq Let_def append_inbox_def append_event_def
      dest: get_task_known split: if_splits option.splits)

lemma read_inbox_result:
  assumes "read_inbox tid agent unread s = (s', r)"
  obtains "s' = s" "\<exists>e. r = Inl e"
    | "s' = fst (lock_inbox tid s)" "\<exists>e. r = Inl e"
    | ms where "s' = fst (lock_inbox tid s)" "\<not> unread" "r = Inr ms"
        "lift_io (case td_inboxes (dir_of tid s) (py_strip agent) of None \<Rightarrow> Inr [] | Some text \<Rightarrow> read_jsonl text) = Inr ms"
    | ms where "unread" "r = Inr (slice_from ms (read_cursor (td_cursors (dir_of tid s) (py_strip agent))))"
        "lift_io (case td_inboxes (dir_of tid s) (py_strip agent) of None \<Rightarrow> Inr [] | Some text \<Rightarrow> read_jsonl text) = Inr ms"
        "s' = fst (write_cursor tid (py_strip agent) (length ms) (fst (lock_inbox tid s)))"
proof -
  show thesis
  proof (cases "validate_known_member tid agent s")
    case (Pair s1 v)
    with known_member_state [of tid agent s] have s1: "s1 = s" by simp
    show thesis
    proof (cases v)
      case (Inl e)
      with Pair s1 assms that(1) show ?thesis by (auto simp: read_inbox_def and_then_def)
    next
      case (Inr name)
      with Pair s1 have n: "name = py_strip agent" "safe_name (py_strip tid)" by (auto simp: known_member_Inr)
      define M where "M = lift_io (case td_inboxes (dir_of tid s) (py_strip agent) of None \<Rightarrow> Inr [] | Some text \<Rightarrow> read_jsonl text)"
      let ?l = "fst (lock_inbox tid s)"
      have "inbox_messages tid name ?l = (?l, M)"
        by (simp add: inbox_messages_def lock_inbox_def M_def n(1))
      then have "read_inbox tid agent unread s =
          (case M of
             Inl e \<Rightarrow> (?l, Inl e)
           | Inr ms \<Rightarrow> if \<not> unread then (?l, Inr ms)
               else (fst (write_cursor tid name (length ms) ?l), Inr (slice_from ms (read_cursor (td_cursors (dir_of tid s) name)))))"
        using Pair Inr s1 n(2)
        by (cases M) (simp_all add: read_inbox_def and_then_def team_dir_key_eq lock_inbox_def write_cursor_def Let_def)
      then show ?thesis
        using assms n(1) that(2-4) by (cases M) (auto simp: M_def [symmetric] split: if_splits)
    qed
  qed
qed

section \<open>Every message is delivered exactly once\<close>

text \<open>The messages put into an inbox by a successful call, and those handed out by an unread read.\<close>

fun sent :: "string \<Rightarrow> string \<Rightarrow> team_call \<times> (team_error + reply) \<Rightarrow> pyval list" where
  "sent key name (SendMessage uid now ev tid sender receiver content k kind, Inr (RMessage m)) =
     (if tid = key \<and> py_strip receiver = name then [m] else [])"
| "sent key name _ = []"

fun received :: "string \<Rightarrow> string \<Rightarrow> team_call \<times> (team_error + reply) \<Rightarrow> pyval list" where
  "received key name (ReadInbox tid agent unread, Inr (RMessages ms)) =
     (if tid = key \<and> py_strip agent = name \<and> unread then ms else [])"
| "received key name _ = []"

text \<open>An inbox that holds \<open>vs\<close>, the first \<open>k\<close> of them read.\<close>

definition mailbox :: "string \<Rightarrow> string \<Rightarrow> pyval list \<Rightarrow> nat \<Rightarrow> team_store \<Rightarrow> bool" where
  "mailbox key name vs k s \<longleftrightarrow> has_box key name s \<and> k \<le> length vs \<and>
     td_inboxes (dir_of key s) name = Some (concat (map json_line vs)) \<and>
     read_cursor (td_cursors (dir_of key s) name) = int k"

lemma mailbox_kept: "keeps_box key name s s' \<Longrightarrow> mailbox key name vs k s \<Longrightarrow> mailbox key name vs k s'"
  by (auto simp: mailbox_def keeps_box_def mail_def)

lemma read_cursor_nat: "read_cursor (Some (nat_str n)) = int n"
proof -
  have d: "list_all is_decimal (nat_str n)" by (rule nat_str_digits)
  have nd: "is_decimal c \<Longrightarrow> \<not> is_space c \<and> c \<noteq> CHR ''-'' \<and> c \<noteq> CHR ''+''" for c
    by (auto simp: is_decimal_def is_space_def)
  have h: "is_decimal (hd (nat_str n))" "is_decimal (last (nat_str n))"
    using d nat_str_Nil [of n] by (auto simp: list_all_iff)
  have s: "py_strip (nat_str n) = nat_str n" using nd h by (intro py_strip_id) blast
  have b: "xs \<noteq> [] \<or> p \<Longrightarrow> list_all is_decimal xs \<Longrightarrow> int_body p xs" for p xs
    by (induction xs arbitrary: p) (auto split: list.splits)
  have f: "filter is_decimal (nat_str n) = nat_str n" using d by (simp add: list_all_iff filter_id_conv)
  have "py_int (nat_str n) = Inr (int n)"
    using nd [OF h(1)] b [OF _ d, of False] by (simp add: py_int_def s Let_def startswith_single f digits_value_nat_str)
  then show ?thesis by (simp add: read_cursor_def s)
qed

lemma slice_from_nat: "slice_from xs (int k) = drop k xs"
  by (simp add: slice_from_def)

lemma mailbox_send:
  assumes "mailbox key name vs k s" "send_message uid now ev tid sender receiver content tk kind s = (s', Inr m)"
  shows "mailbox key name (vs @ (if tid = key \<and> py_strip receiver = name then [m] else [])) k s'"
  using assms(1) send_message_Inr [OF assms(2)]
  by (auto simp: mailbox_def has_box_def append_inbox_def append_event_def json_line_def)

lemma mailbox_read:
  assumes m: "mailbox key name vs k s" and ok: "\<forall>v\<in>set vs. jsonl_ok v"
    and r: "read_inbox tid agent unread s = (s', r)"
  shows "\<exists>k'. mailbox key name vs k' s' \<and>
     drop k vs = received key name (ReadInbox tid agent unread, (case r of Inl e \<Rightarrow> Inl e | Inr ms \<Rightarrow> Inr (RMessages ms))) @ drop k' vs"
proof -
  have l: "mailbox key name vs k (fst (lock_inbox tid s))"
    using m by (auto simp: mailbox_def has_box_def lock_inbox_def)
  from r show ?thesis
  proof (cases rule: read_inbox_result)
    case 1
    with m show ?thesis by auto
  next
    case 2
    with l show ?thesis by auto
  next
    case (3 ms)
    with l show ?thesis by auto
  next
    case (4 ms)
    show ?thesis
    proof (cases "tid = key \<and> py_strip agent = name")
      case True
      have "ms = vs" using 4(3) True m read_jsonl_concat [OF ok] by (simp add: mailbox_def lift_io_def)
      then have "mailbox key name vs (length vs) s'"
        using l True unfolding 4(4) by (auto simp: mailbox_def has_box_def write_cursor_def lock_inbox_def read_cursor_nat)
      moreover have "r = Inr (drop k vs)"
        using 4(2) True m \<open>ms = vs\<close> by (simp add: mailbox_def slice_from_nat)
      ultimately show ?thesis using True 4(1) by auto
    next
      case False
      then have "mailbox key name vs k s'"
        using l unfolding 4(4) by (auto simp: mailbox_def has_box_def write_cursor_def lock_inbox_def)
      with False 4(2) show ?thesis by auto
    qed
  qed
qed

lemma exec_kept:
  assumes "\<And>uid now ev tid sender receiver content k kind. c \<noteq> SendMessage uid now ev tid sender receiver content k kind"
    and "\<And>tid agent unread. c \<noteq> ReadInbox tid agent unread" and "c \<noteq> DeleteTeam key"
  shows "keeps_box key name s (fst (exec c s))"
proof (cases c)
  case (DeleteTeam tid)
  with assms(3) have "tid \<noteq> key" by simp
  then show ?thesis using DeleteTeam
    by (auto simp: reply_with_def and_then_def delete_team_def team_dir_key_eq lift_def box_defs dir_of_def)
qed (use assms in \<open>auto intro!: box.reply_kept create_team_box add_member_box box.reads_kept box.create_task_kept
    box.list_tasks_kept box.get_task_kept box.update_task_kept box.team_status_kept box.read_events_kept\<close>)

lemma sent_received_Nil:
  assumes "\<And>uid now ev tid sender receiver content k kind. c \<noteq> SendMessage uid now ev tid sender receiver content k kind"
    and "\<And>tid agent unread. c \<noteq> ReadInbox tid agent unread"
  shows "sent key name (c, r) = []" "received key name (c, r) = []"
  using assms by (cases c; simp)+

lemma exec_mail:
  assumes m: "mailbox key name vs k s" and ok: "\<forall>v\<in>set vs. jsonl_ok v" and e: "exec c s = (s', r)" and d: "c \<noteq> DeleteTeam key"
  shows "\<exists>k'. mailbox key name (vs @ sent key name (c, r)) k' s' \<and>
     drop k vs @ sent key name (c, r) = received key name (c, r) @ drop k' (vs @ sent key name (c, r))"
proof -
  have k: "k \<le> length vs" using m by (simp add: mailbox_def)
  consider (send) uid now ev tid sender receiver content tk kind where "c = SendMessage uid now ev tid sender receiver content tk kind"
    | (read) tid agent unread where "c = ReadInbox tid agent unread"
    | (other) "\<And>uid now ev tid sender receiver content k kind. c \<noteq> SendMessage uid now ev tid sender receiver content k kind"
        "\<And>tid agent unread. c \<noteq> ReadInbox tid agent unread"
    by blast
  then show ?thesis
  proof cases
    case send
    obtain s1 r1 where x: "send_message uid now ev tid sender receiver content tk kind s = (s1, r1)" by force
    show ?thesis
    proof (cases r1)
      case (Inl er)
      with x send_message_Inl have "s1 = s" by blast
      with Inl x e send m show ?thesis by (auto simp: reply_with_cases intro!: exI [of _ k])
    next
      case (Inr msg)
      with x e send have "s' = s1" "r = Inr (RMessage msg)" by (auto simp: reply_with_cases)
      with mailbox_send [OF m x [unfolded Inr]] send k show ?thesis by (auto intro!: exI [of _ k])
    qed
  next
    case read
    obtain s1 r1 where x: "read_inbox tid agent unread s = (s1, r1)" by force
    have "s' = s1" "r = (case r1 of Inl e \<Rightarrow> Inl e | Inr ms \<Rightarrow> Inr (RMessages ms))"
      using x e read by (cases r1; auto simp: reply_with_cases)+
    with mailbox_read [OF m ok x] read show ?thesis by auto
  next
    case other
    have "mailbox key name vs k s'"
      using mailbox_kept [OF exec_kept [OF other d] m] e by simp
    then show ?thesis by (intro exI [of _ k]) (simp add: sent_received_Nil [OF other])
  qed
qed

lemma run_mail:
  assumes "mailbox key name vs k s" "run cs s = (s', h)" "DeleteTeam key \<notin> set cs"
    and "\<forall>v\<in>set vs \<union> set (concat (map (sent key name) h)). jsonl_ok v"
  shows "\<exists>k'. mailbox key name (vs @ concat (map (sent key name) h)) k' s' \<and>
     drop k vs @ concat (map (sent key name) h) =
       concat (map (received key name) h) @ drop k' (vs @ concat (map (sent key name) h))"
  using assms
proof (induction cs arbitrary: s vs k h)
  case (Cons c cs)
  obtain s1 r where e: "exec c s = (s1, r)" by force
  obtain h1 where r: "run cs s1 = (s', h1)" "h = (c, r) # h1"
    using Cons.prems(2) e by (auto split: prod.splits)
  obtain k1 where k1: "mailbox key name (vs @ sent key name (c, r)) k1 s1"
      "drop k vs @ sent key name (c, r) = received key name (c, r) @ drop k1 (vs @ sent key name (c, r))"
    using exec_mail [OF Cons.prems(1) _ e] Cons.prems(3,4) by auto
  obtain k2 where k2: "mailbox key name ((vs @ sent key name (c, r)) @ concat (map (sent key name) h1)) k2 s'"
      "drop k1 (vs @ sent key name (c, r)) @ concat (map (sent key name) h1) =
         concat (map (received key name) h1) @ drop k2 ((vs @ sent key name (c, r)) @ concat (map (sent key name) h1))"
    using Cons.IH [OF k1(1) r(1)] Cons.prems(3,4) r(2) by auto
  have "drop k vs @ concat (map (sent key name) h) =
      (drop k vs @ sent key name (c, r)) @ concat (map (sent key name) h1)" by (simp add: r(2))
  also have "\<dots> = received key name (c, r) @ concat (map (received key name) h1) @
      drop k2 ((vs @ sent key name (c, r)) @ concat (map (sent key name) h1))"
    unfolding k1(2) by (simp only: append_assoc k2(2) [unfolded append_assoc])
  finally show ?case using k2(1) by (intro exI [of _ k2]) (simp add: r(2))
qed auto

lemma mailbox_unread:
  assumes "mailbox key name vs k s" "\<forall>v\<in>set vs. jsonl_ok v" "safe_name name" "py_strip name = name" "safe_name (py_strip key)"
  shows "\<exists>s'. read_inbox key name True s = (s', Inr (drop k vs))"
proof -
  have "validate_known_member key name s = (s, Inr name)"
    using assms by (auto simp: known_member_Inr mailbox_def has_box_def)
  moreover have "td_inboxes (dir_of key s) name = Some (concat (map json_line vs))" "read_cursor (td_cursors (dir_of key s) name) = int k"
    using assms(1) by (auto simp: mailbox_def)
  ultimately show ?thesis
    using assms(5) read_jsonl_concat [OF assms(2)]
    by (simp add: read_inbox_def and_then_def team_dir_key_eq lock_inbox_def inbox_messages_def lift_io_def write_cursor_def
        Let_def slice_from_nat)
qed

text \<open>C18. Every message is delivered exactly once and in the order it was sent. Take any history of
  calls, failed ones included and interleaved in any way, that starts with an empty inbox of a
  member and does not delete the team: the messages its unread reads handed out, followed by
  what one more unread read hands out, are exactly the messages that were successfully sent to
  that member. (No message may contain the character U+0085, see the next property but one.)\<close>

theorem messages_delivered_exactly_once:
  assumes "mailbox key name [] 0 s" "run cs s = (s', h)" "DeleteTeam key \<notin> set cs"
    and "\<forall>m\<in>set (concat (map (sent key name) h)). jsonl_ok m"
    and "safe_name name" "py_strip name = name" "safe_name (py_strip key)"
  shows "\<exists>s'' rest. read_inbox key name True s' = (s'', Inr rest) \<and>
     concat (map (received key name) h) @ rest = concat (map (sent key name) h)"
proof -
  obtain k where k: "mailbox key name (concat (map (sent key name) h)) k s'"
      "concat (map (sent key name) h) = concat (map (received key name) h) @ drop k (concat (map (sent key name) h))"
    using run_mail [OF assms(1-3)] assms(4) by auto
  show ?thesis using mailbox_unread [OF k(1) assms(4-7)] k(2) by metis
qed

definition example_now :: string where
  "example_now = ''1.5''"

definition example_teams :: team_store where
  "example_teams = fst (run [CreateTeam ''1'' example_now example_now ''core'' ''ship it'' ''ann'',
     AddMember example_now example_now ''team_1'' ''bob'' ''coder''] (empty_store ''runs''))"

definition example_send :: "string \<Rightarrow> string \<Rightarrow> team_call" where
  "example_send uid content = SendMessage uid example_now example_now ''team_1'' ''ann'' '' bob '' content None None"

lemma example_mailbox: "mailbox ''team_1'' ''bob'' [] 0 example_teams"
proof -
  have "td_team (dir_of ''team_1'' example_teams) \<noteq> None \<and> is_member (the (td_team (dir_of ''team_1'' example_teams))) ''bob'' \<and>
    td_inbox_dir (dir_of ''team_1'' example_teams) \<and>
    td_inboxes (dir_of ''team_1'' example_teams) ''bob'' = Some [] \<and> td_cursors (dir_of ''team_1'' example_teams) ''bob'' = Some []"
    by code_simp
  then show ?thesis by (auto simp: mailbox_def has_box_def read_cursor_def py_strip_def strip_chars_def lstrip_chars_def
        rstrip_chars_def py_int_def startswith_def is_decimal_def digits_value_def digit_value_def is_space_def)
qed

definition example_message :: pyval where
  "example_message = message_value ''1'' example_now ''team_1'' ''ann'' ''bob'' ''hi'' None None"

theorem messages_delivered_exactly_once_witness:
  "\<exists>s''. read_inbox ''team_1'' ''bob'' True (fst (exec (example_send ''1'' '' hi'') example_teams)) = (s'', Inr [example_message])"
proof -
  let ?c = "example_send ''1'' '' hi''"
  have r: "snd (exec ?c example_teams) = Inr (RMessage example_message)" by code_simp
  have run: "run [?c] example_teams = (fst (exec ?c example_teams), [(?c, Inr (RMessage example_message))])"
    using r by (cases "exec ?c example_teams") simp
  have sent: "concat (map (sent ''team_1'' ''bob'') [(?c, Inr (RMessage example_message))]) = [example_message]"
    by code_simp
  have ok: "jsonl_ok example_message" by code_simp
  have names: "safe_name ''bob''" "py_strip ''bob'' = ''bob''" "safe_name (py_strip ''team_1'')" by code_simp+
  have rec: "concat (map (received ''team_1'' ''bob'') [(?c, Inr (RMessage example_message))]) = []"
    by (simp add: example_send_def)
  have "DeleteTeam ''team_1'' \<notin> set [?c]" by (simp add: example_send_def)
  from messages_delivered_exactly_once [OF example_mailbox run this _ names] show ?thesis
    unfolding sent rec using ok by simp
qed

section \<open>U+0085 in a message\<close>
















section \<open>The documents stay consistent\<close>

definition members_ok :: "string \<Rightarrow> team_dir \<Rightarrow> team \<Rightarrow> bool" where
  "members_ok key d t \<longleftrightarrow> tm_id t = key \<and> td_inbox_dir d \<and> is_member t (tm_leader t) \<and> distinct (map fst (tm_members t)) \<and>
     (\<forall>n m. (n, m) \<in> set (tm_members t) \<longrightarrow> safe_name n \<and> mb_name m = n) \<and>
     (\<forall>n. is_member t n \<longrightarrow> td_inboxes d n \<noteq> None \<and> td_cursors d n \<noteq> None)"

definition task_ok :: "team_dir \<Rightarrow> team_task \<Rightarrow> bool" where
  "task_ok d t \<longleftrightarrow> tk_status t \<in> set task_statuses \<and>
     (\<forall>x. tk_owner t = Some x \<longrightarrow> (\<exists>team. td_team d = Some team \<and> is_member team x))"

definition dir_ok :: "string \<Rightarrow> team_dir \<Rightarrow> bool" where
  "dir_ok key d \<longleftrightarrow> (\<forall>t. td_team d = Some t \<longrightarrow> members_ok key d t) \<and>
     (\<forall>ts. td_tasks d = Some ts \<longrightarrow> (\<forall>t\<in>set ts. task_ok d t))"

definition store_ok :: "team_store \<Rightarrow> bool" where
  "store_ok s \<longleftrightarrow> (\<forall>key. dir_ok key (dir_of key s))"

text \<open>What \<open>tools/team.py\<close> passes: an empty owner or status is passed as \<open>None\<close>.\<close>

fun tool_call :: "team_call \<Rightarrow> bool" where
  "tool_call (CreateTask uid now ev tid title desc owner prio) \<longleftrightarrow> owner \<noteq> Some []"
| "tool_call (UpdateTask nnow now ev tid k actor status owner nt res) \<longleftrightarrow> owner \<noteq> Some [] \<and> status \<noteq> Some []"
| "tool_call _ \<longleftrightarrow> True"

definition keeps_ok :: "team_store \<Rightarrow> team_store \<Rightarrow> bool" where
  "keeps_ok s s' \<longleftrightarrow> (store_ok s \<longrightarrow> store_ok s')"

lemma keeps_ok_dir:
  "(\<And>d. dir_ok key d \<Longrightarrow> dir_ok key (f d)) \<Longrightarrow> keeps_ok s (update_dir key f s)"
  by (auto simp: keeps_ok_def store_ok_def)

lemma dir_ok_events: "dir_ok key d \<Longrightarrow> dir_ok key (d\<lparr>td_events := e\<rparr>)"
  by (auto simp: dir_ok_def members_ok_def task_ok_def)

lemma keeps_ok_event: "keeps_ok s (fst (append_event key now e p s))"
  unfolding append_event_def fst_conv by (intro keeps_ok_dir dir_ok_events)

interpretation consistent: query_frame keeps_ok
  by unfold_locales (auto simp: keeps_ok_def lock_dir_def store_ok_def)

lemma keeps_ok_lock_inbox: "keeps_ok s (fst (lock_inbox key s))"
  unfolding lock_inbox_def fst_conv
  by (intro keeps_ok_dir) (auto simp: dir_ok_def members_ok_def task_ok_def)

lemma keeps_ok_send: "keeps_ok s (fst (send_message uid now ev tid sender receiver content k kind s))"
proof (cases "send_message uid now ev tid sender receiver content k kind s")
  case (Pair s' r)
  show ?thesis
  proof (cases r)
    case (Inl e)
    with Pair send_message_Inl have "s' = s" by blast
    with Pair consistent.R_refl show ?thesis by simp
  next
    case (Inr m)
    have "keeps_ok s (fst (append_inbox tid (py_strip receiver) m s))"
      unfolding append_inbox_def fst_conv
      by (intro keeps_ok_dir) (auto simp: dir_ok_def members_ok_def task_ok_def)
    then have "keeps_ok s s'"
      using send_message_Inr [OF Pair [unfolded Inr]] consistent.R_trans [OF _ keeps_ok_event] by simp
    with Pair show ?thesis by simp
  qed
qed

lemma keeps_ok_read: "keeps_ok s (fst (read_inbox tid agent unread s))"
proof (cases "read_inbox tid agent unread s")
  case (Pair s' r)
  have c: "keeps_ok u (fst (write_cursor tid n k u))" for u n k
    unfolding write_cursor_def fst_conv by (intro keeps_ok_dir) (auto simp: dir_ok_def members_ok_def task_ok_def)
  from Pair have "keeps_ok s s'"
    using consistent.R_trans [OF keeps_ok_lock_inbox c] keeps_ok_lock_inbox consistent.R_refl
    by (cases rule: read_inbox_result) auto
  with Pair show ?thesis by simp
qed

lemma keeps_ok_create:
  "keeps_ok s (fst (create_team uid now ev nm goal leader s))"
proof (cases "create_team uid now ev nm goal leader s")
  case (Pair s' r)
  show ?thesis
  proof (cases "s' = s")
    case True
    with Pair consistent.R_refl show ?thesis by simp
  next
    case False
    let ?k = "''team_'' @ uid" and ?l = "py_strip (if leader = [] then ''leader'' else leader)"
    let ?t = "\<lparr>tm_id = ?k, tm_name = py_strip nm, tm_goal = py_strip goal, tm_leader = ?l, tm_created_at = now, tm_updated_at = now,
       tm_members = [(?l, \<lparr>mb_name = ?l, mb_role = ''leader'', mb_created_at = now, mb_updated_at = now\<rparr>)]\<rparr>"
    let ?d = "\<lambda>d. d\<lparr>td_team := Some ?t, td_tasks := Some [], td_inbox_dir := True,
         td_inboxes := touch_file ?l (td_inboxes d), td_cursors := touch_file ?l (td_cursors d)\<rparr>"
    have l: "safe_name ?l" and s': "s' = fst (append_event ?k ev ''team_created'' [(''leader'', PStr ?l), (''goal'', PStr (py_strip goal))]
          (update_dir ?k ?d s))"
      using Pair False
      by (auto simp: create_team_def and_then_def lift_def validate_id_def Let_def lock_inbox_def write_team_def write_tasks_def
          ensure_inbox_def append_event_def update_dir_def split: if_splits)
    have "dir_ok ?k (?d d)" for d
      using l by (simp add: dir_ok_def members_ok_def is_member_def del: append.simps)
    then have "keeps_ok s (update_dir ?k ?d s)" by (intro keeps_ok_dir) simp
    then have "keeps_ok s s'" unfolding s' using consistent.R_trans [OF _ keeps_ok_event] by blast
    with Pair show ?thesis by simp
  qed
qed

lemma keeps_ok_add: "keeps_ok s (fst (add_member now ev tid raw role s))"
proof (cases "add_member now ev tid raw role s")
  case (Pair s' r)
  show ?thesis
  proof (cases r)
    case (Inl e)
    with Pair add_member_Inl have "s' = s \<or> s' = fst (lock_dir tid s)" by blast
    with Pair consistent.R_lock consistent.R_refl show ?thesis by auto
  next
    case (Inr t')
    with Pair obtain t where t: "td_team (dir_of tid s) = Some t" "safe_name (py_strip raw)"
      "t' = t\<lparr>tm_members := put_member (py_strip raw) (py_strip role) now (tm_members t), tm_updated_at := now\<rparr>"
      "s' = fst (append_event tid ev ''member_added'' [(''name'', PStr (py_strip raw)), (''role'', PStr (py_strip role))]
         (fst (ensure_inbox tid (py_strip raw) (fst (write_team tid t' s)))))"
      by (metis add_member_Inr)
    let ?d = "(dir_of tid s)\<lparr>td_team := Some (tm_members_update (sort_key fst) t'), td_inbox_dir := True,
       td_inboxes := touch_file (py_strip raw) (td_inboxes (dir_of tid s)),
       td_cursors := touch_file (py_strip raw) (td_cursors (dir_of tid s))\<rparr>"
    have m: "is_member (tm_members_update (sort_key fst) t') x \<longleftrightarrow> x = py_strip raw \<or> is_member t x" for x
      unfolding is_member_written t(3) by (rule is_member_put)
    have "dir_ok tid ?d" if "dir_ok tid (dir_of tid s)"
    proof -
      from that have mo: "members_ok tid (dir_of tid s) t" and ts: "\<forall>ts. td_tasks (dir_of tid s) = Some ts \<longrightarrow> (\<forall>k\<in>set ts. task_ok (dir_of tid s) k)"
        using t(1) by (auto simp: dir_ok_def)
      have "task_ok ?d k" if "task_ok (dir_of tid s) k" for k
        using that t(1) m by (auto simp: task_ok_def)
      moreover have "distinct (map fst (put_member (py_strip raw) (py_strip role) now (tm_members t)))"
        using mo by (auto simp: put_member_names members_ok_def)
      moreover have "safe_name n \<and> mb_name b = n" if "(n, b) \<in> set (put_member (py_strip raw) (py_strip role) now (tm_members t))" for n b
        using that mo t(2) by (auto simp: put_member_def members_ok_def split: if_splits)
      ultimately show ?thesis
        using mo ts m by (auto simp: dir_ok_def members_ok_def t(3) distinct_map touch_file_Some)
    qed
    then have "keeps_ok s (update_dir tid (\<lambda>_. ?d) s)" by (auto simp: keeps_ok_def store_ok_def)
    moreover have "s' = fst (append_event tid ev ''member_added'' [(''name'', PStr (py_strip raw)), (''role'', PStr (py_strip role))]
        (update_dir tid (\<lambda>_. ?d) s))"
      unfolding t(4) by (simp add: ensure_inbox_def write_team_def append_event_def update_dir_def dir_of_def)
    ultimately have "keeps_ok s s'" using consistent.R_trans [OF _ keeps_ok_event] by simp
    with Pair show ?thesis by simp
  qed
qed

lemma create_task_cases:
  assumes "create_task uid now ev tid title desc owner prio s = (s', r)"
  obtains "s' = s \<or> s' = fst (lock_dir tid s)"
    | tasks t owner' where "td_tasks (dir_of tid s) = Some tasks" "snd (validate_owner tid owner s) = Inr owner'"
        "tk_owner t = owner'" "tk_status t \<in> {''pending'', ''assigned''}"
        "s' = fst (append_event tid ev ''task_created'' [(''task_id'', PStr (tk_id t)), (''owner'', opt_str owner')]
           (update_dir tid (td_tasks_update (\<lambda>_. Some (tasks @ [t]))) s))"
proof (cases r)
  case (Inl e)
  with assms that(1) show thesis
    by (auto simp: create_task_def and_then_Inl validate_owner_pure lift_def Let_def lock_dir_def team_dir_key_eq read_tasks_def
        write_tasks_def append_event_def dest!: validate_owner_same split: if_splits option.splits)
next
  case (Inr t)
  with assms obtain owner' where o: "snd (validate_owner tid owner s) = Inr owner'"
    and t: "tk_owner t = owner'" "tk_status t \<in> {''pending'', ''assigned''}"
    and w: "and_then (lock_dir tid) (\<lambda>_. and_then (read_tasks tid) (\<lambda>tasks. and_then (write_tasks tid (tasks @ [t])) (\<lambda>_.
        and_then (append_event tid ev ''task_created'' [(''task_id'', PStr (tk_id t)), (''owner'', opt_str owner')]) (\<lambda>_. ret t)))) s = (s', Inr t)"
    by (auto simp: create_task_def and_then_Inr validate_owner_pure lift_def Let_def team_dir_key_eq lock_dir_def read_tasks_def
        write_tasks_def append_event_def split: if_splits option.splits)
  from w obtain tasks where k: "td_tasks (dir_of tid s) = Some tasks"
    by (auto simp: and_then_Inr lock_dir_def read_tasks_def split: option.splits)
  then have "lock_dir tid s = (s, Inr ())"
    by (cases "st_dirs s tid") (auto simp: lock_dir_def update_dir_id dir_of_def empty_dir_def)
  with w k have "s' = fst (append_event tid ev ''task_created'' [(''task_id'', PStr (tk_id t)), (''owner'', opt_str owner')]
       (update_dir tid (td_tasks_update (\<lambda>_. Some (tasks @ [t]))) s))"
    by (simp add: and_then_def read_tasks_def write_tasks_def append_event_def)
  with k o t that(2) show thesis by blast
qed

lemma keeps_ok_tasks:
  assumes "td_tasks (dir_of tid s) = Some tasks"
    "\<And>t. t \<in> set ts \<Longrightarrow> t \<in> set tasks \<or> task_ok (dir_of tid s) t"
  shows "keeps_ok s (fst (append_event tid ev e p (update_dir tid (td_tasks_update (\<lambda>_. Some ts)) s)))"
proof -
  have "dir_ok tid ((dir_of tid s)\<lparr>td_tasks := Some ts\<rparr>)" if d: "dir_ok tid (dir_of tid s)"
  proof -
    have "task_ok (dir_of tid s) t" if "t \<in> set ts" for t
      using assms(2) [OF that] d assms(1) by (auto simp: dir_ok_def)
    then have "\<forall>t\<in>set ts. task_ok ((dir_of tid s)\<lparr>td_tasks := Some ts\<rparr>) t" by (simp add: task_ok_def)
    with d show ?thesis by (auto simp: dir_ok_def members_ok_def)
  qed
  then have "keeps_ok s (update_dir tid (td_tasks_update (\<lambda>_. Some ts)) s)" by (auto simp: keeps_ok_def store_ok_def)
  then show ?thesis using consistent.R_trans [OF _ keeps_ok_event] by blast
qed

lemma validated_owner_member:
  "snd (validate_owner tid owner s) = Inr (Some x) \<Longrightarrow> owner \<noteq> Some [] \<Longrightarrow> \<exists>t. td_team (dir_of tid s) = Some t \<and> is_member t x"
  by (drule validate_owner_Inr) (auto split: option.splits)

lemma keeps_ok_create_task:
  assumes "owner \<noteq> Some []"
  shows "keeps_ok s (fst (create_task uid now ev tid title desc owner prio s))"
proof (cases "create_task uid now ev tid title desc owner prio s")
  case (Pair s' r)
  from Pair have "keeps_ok s s'"
  proof (cases rule: create_task_cases)
    case 1
    with consistent.R_lock consistent.R_refl show ?thesis by auto
  next
    case (2 tasks t owner')
    have "task_ok (dir_of tid s) t"
      using 2(2-4) validated_owner_member [OF _ assms, of tid s] by (auto simp: task_ok_def task_statuses_def)
    then show ?thesis unfolding 2(5) by (intro keeps_ok_tasks [OF 2(1)]) auto
  qed
  with Pair show ?thesis by simp
qed

lemma set_update_first: "x \<in> set (update_first p y xs) \<Longrightarrow> x = y \<or> x \<in> set xs"
  by (induction xs) (auto split: if_splits)

lemma check_status_valid: "check_status status = Inr (Some x) \<Longrightarrow> status \<noteq> Some [] \<Longrightarrow> x \<in> set task_statuses"
  by (auto simp: check_status_def split: option.splits if_splits)

lemma keeps_ok_update_task:
  assumes "owner \<noteq> Some []" "status \<noteq> Some []"
  shows "keeps_ok s (fst (update_task nnow now ev tid k actor status owner nt res s))"
proof (cases "update_task nnow now ev tid k actor status owner nt res s")
  case (Pair s' r)
  have "store_ok s'" if ok: "store_ok s"
  proof (cases r)
    case (Inl e)
    with Pair update_task_Inl that show ?thesis by blast
  next
    case (Inr p)
    then obtain t' a where "update_task nnow now ev tid k actor status owner nt res s = (s', Inr (t', a))"
      using Pair by (cases p) auto
    then obtain team tasks t owner' status' where u:
      "td_team (dir_of tid s) = Some team" "td_tasks (dir_of tid s) = Some tasks"
      "find (\<lambda>t. tk_id t = k) tasks = Some t" "is_member team (py_strip actor)"
      "snd (validate_owner tid owner s) = Inr owner'" "check_status status = Inr status'"
      "apply_update nnow now (py_strip actor) (tm_leader team) status' owner' nt res t = (t', a)"
      "s' = fst (append_event tid ev ''task_updated'' [(''task_id'', PStr k), (''actor'', PStr (py_strip actor)),
          (''status'', PStr (tk_status t')), (''owner'', opt_str (tk_owner t'))]
          (update_dir tid (td_tasks_update (\<lambda>_. Some (update_first (\<lambda>t. tk_id t = k) t' tasks))) s))"
      by (rule update_task_Inr)
    have "t \<in> set tasks" using find_SomeD2 [OF u(3)] by simp
    with ok u(2) have told: "task_ok (dir_of tid s) t" by (auto simp: store_ok_def dir_ok_def)
    have "tk_status t' \<in> set task_statuses"
      using apply_update_owner(3) [OF u(7)] told check_status_valid [OF _ assms(2)] u(6)
      by (auto simp: task_ok_def task_statuses_def)
    moreover have "\<exists>team. td_team (dir_of tid s) = Some team \<and> is_member team x" if "tk_owner t' = Some x" for x
      using that apply_update_owner(2) [OF u(7)] told u(1,4,5) validated_owner_member [OF _ assms(1), of tid s]
      by (auto simp: task_ok_def split: if_splits)
    ultimately have "task_ok (dir_of tid s) t'" by (simp add: task_ok_def)
    then have "keeps_ok s s'" unfolding u(8) by (intro keeps_ok_tasks [OF u(2)]) (auto dest: set_update_first)
    with ok show ?thesis by (simp add: keeps_ok_def)
  qed
  with Pair show ?thesis by (simp add: keeps_ok_def)
qed

lemma keeps_ok_delete: "keeps_ok s (fst (delete_team tid s))"
  by (auto simp: delete_team_def and_then_def lift_def team_dir_key_eq keeps_ok_def store_ok_def dir_of_def dir_ok_def empty_dir_def)

lemma exec_ok: "tool_call c \<Longrightarrow> keeps_ok s (fst (exec c s))"
  by (cases c) (auto intro!: consistent.reply_kept keeps_ok_create keeps_ok_add consistent.reads_kept keeps_ok_create_task
      keeps_ok_update_task consistent.list_tasks_kept consistent.get_task_kept keeps_ok_send keeps_ok_read
      consistent.team_status_kept consistent.read_events_kept keeps_ok_delete)

definition team_step :: "team_store \<Rightarrow> team_store \<Rightarrow> bool" where
  "team_step s t \<longleftrightarrow> (\<exists>c. tool_call c \<and> t = fst (exec c s))"

interpretation teams: invariant_system "\<lambda>s. \<exists>r. s = empty_store r" team_step store_ok
proof
  show "\<exists>r. s = empty_store r \<Longrightarrow> store_ok s" for s
    by (auto simp: store_ok_def empty_store_def dir_of_def dir_ok_def empty_dir_def)
  show "store_ok s \<Longrightarrow> team_step s t \<Longrightarrow> store_ok t" for s t
    using exec_ok by (auto simp: team_step_def keeps_ok_def)
qed

text \<open>C21. The documents of every team stay consistent. In every store reached from an empty one by
  calls as the team tools make them, successful or not: a team document is stored under its own
  identifier, its leader is a member, member names are distinct valid names, every member has an
  inbox and a cursor file, every task has one of the five statuses and every owner of a task is
  a member.\<close>

theorem team_documents_consistent:
  assumes "team_step\<^sup>*\<^sup>* (empty_store r) s"
  shows "(\<forall>key t. td_team (dir_of key s) = Some t \<longrightarrow>
            tm_id t = key \<and> is_member t (tm_leader t) \<and> distinct (map fst (tm_members t)) \<and>
            (\<forall>n. is_member t n \<longrightarrow> safe_name n \<and> td_inboxes (dir_of key s) n \<noteq> None \<and> td_cursors (dir_of key s) n \<noteq> None)) \<and>
         (\<forall>key ts k. td_tasks (dir_of key s) = Some ts \<and> k \<in> set ts \<longrightarrow> tk_status k \<in> set task_statuses \<and>
            (\<forall>x. tk_owner k = Some x \<longrightarrow> (\<exists>t. td_team (dir_of key s) = Some t \<and> is_member t x)))"
proof (intro conjI allI impI)
  have ok: "dir_ok key (dir_of key s)" for key
    using teams.reachable_inv [OF _ assms] by (auto simp: store_ok_def)
  {
    fix key t assume "td_team (dir_of key s) = Some t"
    with ok have m: "members_ok key (dir_of key s) t" by (auto simp: dir_ok_def)
    then show "tm_id t = key" "is_member t (tm_leader t)" "distinct (map fst (tm_members t))"
      by (simp_all add: members_ok_def)
    fix n assume "is_member t n"
    with m show "safe_name n" "td_inboxes (dir_of key s) n \<noteq> None" "td_cursors (dir_of key s) n \<noteq> None"
      by (auto simp: members_ok_def) (auto simp: is_member_def)
  }
  fix key ts k assume "td_tasks (dir_of key s) = Some ts \<and> k \<in> set ts"
  with ok have "task_ok (dir_of key s) k" by (auto simp: dir_ok_def)
  then show "tk_status k \<in> set task_statuses" "\<And>x. tk_owner k = Some x \<Longrightarrow> \<exists>t. td_team (dir_of key s) = Some t \<and> is_member t x"
    by (auto simp: task_ok_def)
qed

lemma run_reachable: "\<forall>c\<in>set cs. tool_call c \<Longrightarrow> team_step\<^sup>*\<^sup>* s (fst (run cs s))"
proof (induction cs arbitrary: s)
  case (Cons c cs)
  have "team_step s (fst (exec c s))" using Cons.prems by (auto simp: team_step_def)
  moreover have "team_step\<^sup>*\<^sup>* (fst (exec c s)) (fst (run cs (fst (exec c s))))" using Cons by simp
  ultimately show ?case
    by (simp add: case_prod_beta converse_rtranclp_into_rtranclp [of team_step s "fst (exec c s)"])
qed simp

lemma example_reachable: "team_step\<^sup>*\<^sup>* (empty_store ''runs'') example_teams"
  unfolding example_teams_def by (rule run_reachable) simp

theorem team_documents_consistent_witness:
  "\<exists>t. td_team (dir_of ''team_1'' example_teams) = Some t \<and> is_member t (tm_leader t)"
proof -
  have "td_team (dir_of ''team_1'' example_teams) \<noteq> None" by code_simp
  then show ?thesis using team_documents_consistent [OF example_reachable] by blast
qed

end
