(* ===== verification/Regex.thy ===== *)
theory Regex
  imports Polaris_Prelude
begin

text \<open>
  The regular expressions that Python's \<open>re\<close> module is used with here, as a datatype with an
  executable matcher. Only whether \<open>search\<close> finds a match is asked, so the order in which a
  backtracking engine tries alternatives does not matter: the matcher returns every position a
  match can end at. A position is the character before it (if any) and the text after it. The
  matcher is proved equal to an inductive reference semantics.
\<close>

datatype rx =
    Eps
  | Pred "char \<Rightarrow> bool"
  | Seq rx rx
  | Alt rx rx
  | Star rx
  | Boundary
  | Start
  | Dollar

type_synonym position = "char option \<times> string"

text \<open>\<open>\w\<close> on the modelled characters: letters, digits, the Latin-1 letters and numeric signs, and
  the underscore.\<close>

definition word_char :: "char \<Rightarrow> bool" where
  "word_char c \<longleftrightarrow> is_alnum_ascii c \<or> c = CHR ''_'' \<or>
     (let n = (of_char c :: nat) in n \<in> set [170, 178, 179, 181, 185, 186, 188, 189, 190] \<or> (192 \<le> n \<and> n \<noteq> 215 \<and> n \<noteq> 247))"

definition word_at :: "string \<Rightarrow> bool" where
  "word_at s = (case s of [] \<Rightarrow> False | c # _ \<Rightarrow> word_char c)"

definition word_before :: "char option \<Rightarrow> bool" where
  "word_before p = (case p of None \<Rightarrow> False | Some c \<Rightarrow> word_char c)"

section \<open>The matcher\<close>

fun star_run :: "nat \<Rightarrow> (position \<Rightarrow> position list) \<Rightarrow> position \<Rightarrow> position list" where
  "star_run 0 f p = [p]"
| "star_run (Suc n) f p =
     remdups (p # concat (map (\<lambda>q. if length (snd q) < length (snd p) then star_run n f q else []) (f p)))"

fun rx_run :: "rx \<Rightarrow> position \<Rightarrow> position list" where
  "rx_run Eps p = [p]"
| "rx_run (Pred f) p = (case snd p of [] \<Rightarrow> [] | c # s \<Rightarrow> if f c then [(Some c, s)] else [])"
| "rx_run (Seq a b) p = remdups (concat (map (rx_run b) (rx_run a p)))"
| "rx_run (Alt a b) p = remdups (rx_run a p @ rx_run b p)"
| "rx_run (Star a) p = star_run (length (snd p)) (rx_run a) p"
| "rx_run Boundary p = (if word_before (fst p) \<noteq> word_at (snd p) then [p] else [])"
| "rx_run Start p = (if fst p = None then [p] else [])"
| "rx_run Dollar p = (if snd p = [] \<or> snd p = [CHR 0x0A] then [p] else [])"

fun search_from :: "rx \<Rightarrow> char option \<Rightarrow> string \<Rightarrow> bool" where
  "search_from r p [] = (rx_run r (p, []) \<noteq> [])"
| "search_from r p (c # s) = (rx_run r (p, c # s) \<noteq> [] \<or> search_from r (Some c) s)"

definition search :: "rx \<Rightarrow> string \<Rightarrow> bool" where
  "search r s = search_from r None s"

section \<open>Reference semantics\<close>

inductive rx_match :: "rx \<Rightarrow> position \<Rightarrow> position \<Rightarrow> bool" where
  eps: "rx_match Eps p p"
| pred: "f c \<Longrightarrow> rx_match (Pred f) (b, c # s) (Some c, s)"
| seq: "rx_match a p q \<Longrightarrow> rx_match b q t \<Longrightarrow> rx_match (Seq a b) p t"
| alt_left: "rx_match a p q \<Longrightarrow> rx_match (Alt a b) p q"
| alt_right: "rx_match b p q \<Longrightarrow> rx_match (Alt a b) p q"
| star_done: "rx_match (Star a) p p"
| star_more: "rx_match a p q \<Longrightarrow> rx_match (Star a) q t \<Longrightarrow> rx_match (Star a) p t"
| boundary: "word_before (fst p) \<noteq> word_at (snd p) \<Longrightarrow> rx_match Boundary p p"
| start: "rx_match Start (None, s) (None, s)"
| dollar: "snd p = [] \<or> snd p = [CHR 0x0A] \<Longrightarrow> rx_match Dollar p p"

inductive_cases Eps_E: "rx_match Eps p q"
inductive_cases Pred_E: "rx_match (Pred f) p q"
inductive_cases Seq_E: "rx_match (Seq a b) p q"
inductive_cases Alt_E: "rx_match (Alt a b) p q"
inductive_cases Boundary_E: "rx_match Boundary p q"
inductive_cases Start_E: "rx_match Start p q"
inductive_cases Dollar_E: "rx_match Dollar p q"

text \<open>A match moves forward, or it does not move at all.\<close>

lemma rx_match_progress: "rx_match r p q \<Longrightarrow> q = p \<or> length (snd q) < length (snd p)"
  by (induction rule: rx_match.induct) auto

lemma star_run_sound:
  "q \<in> set (star_run n f p) \<Longrightarrow> (\<And>x y. y \<in> set (f x) \<Longrightarrow> rx_match a x y) \<Longrightarrow> rx_match (Star a) p q"
proof (induction n f p rule: star_run.induct)
  case (1 f p)
  then show ?case by (simp add: star_done)
next
  case (2 n f p)
  from 2(2) consider "q = p" | x where "x \<in> set (f p)" "length (snd x) < length (snd p)" "q \<in> set (star_run n f x)"
    unfolding star_run.simps set_remdups by (auto split: if_splits)
  then show ?case
  proof cases
    case 2
    with "2.IH" "2.prems" show ?thesis by (blast intro: star_more)
  qed (simp add: star_done)
qed

lemma star_run_complete:
  assumes "rx_match (Star a) p q" "\<And>x y. rx_match a x y \<Longrightarrow> y \<in> set (f x)" "length (snd p) \<le> n"
  shows "q \<in> set (star_run n f p)"
  using assms
proof (induction "Star a" p q arbitrary: n rule: rx_match.induct)
  case (star_done p)
  then show ?case by (cases n) auto
next
  case (star_more p q t)
  show ?case
  proof (cases "q = p")
    case True
    with star_more show ?thesis by blast
  next
    case False
    with star_more.hyps(1) have less: "length (snd q) < length (snd p)" using rx_match_progress by blast
    with star_more.prems(2) obtain m where m: "n = Suc m" "length (snd q) \<le> m" by (cases n) auto
    have "t \<in> set (star_run m f q)" using star_more m(2) by blast
    with less star_more.prems(1) [OF star_more.hyps(1)] m(1) show ?thesis by auto
  qed
qed

theorem rx_run_iff: "q \<in> set (rx_run r p) \<longleftrightarrow> rx_match r p q"
proof (induction r arbitrary: p q)
  case (Pred f)
  show ?case by (cases p; cases "snd p") (auto intro: pred elim: Pred_E)
next
  case (Seq a b)
  have "q \<in> set (rx_run (Seq a b) p) \<longleftrightarrow> (\<exists>x. x \<in> set (rx_run a p) \<and> q \<in> set (rx_run b x))" by (simp add: Bex_def)
  then show ?case unfolding Seq.IH by (blast intro: seq elim: Seq_E)
next
  case (Alt a b)
  have "q \<in> set (rx_run (Alt a b) p) \<longleftrightarrow> q \<in> set (rx_run a p) \<or> q \<in> set (rx_run b p)" by simp
  then show ?case unfolding Alt.IH by (blast intro: alt_left alt_right elim: Alt_E)
next
  case (Star a)
  show ?case
    using star_run_sound [of q "length (snd p)" "rx_run a" p a] star_run_complete [of a p q "rx_run a" "length (snd p)"] Star
    by auto
next
  case Start
  show ?case by (cases p) (auto intro: start elim: Start_E)
qed (auto intro: eps boundary dollar elim: Eps_E Boundary_E Dollar_E)

lemma rx_run_found: "rx_run r p \<noteq> [] \<longleftrightarrow> (\<exists>q. rx_match r p q)"
  unfolding rx_run_iff [symmetric] by (metis last_in_set length_greater_0_conv length_pos_if_in_set)

lemma search_iff:
  "search r s \<longleftrightarrow> (\<exists>u v q. s = u @ v \<and> rx_match r (if u = [] then None else Some (last u), v) q)"
proof -
  have "search_from r p t \<longleftrightarrow> (\<exists>u v q. t = u @ v \<and> rx_match r (if u = [] then p else Some (last u), v) q)" for p t
  proof (induction t arbitrary: p)
    case Nil
    show ?case by (simp add: rx_run_found)
  next
    case (Cons c t)
    have split: "(\<exists>u v. c # t = u @ v \<and> P u v) \<longleftrightarrow> P [] (c # t) \<or> (\<exists>u v. t = u @ v \<and> P (c # u) v)" for P
      by (auto simp: Cons_eq_append_conv)
    have "(\<exists>u v q. c # t = u @ v \<and> rx_match r (if u = [] then p else Some (last u), v) q) \<longleftrightarrow>
        (\<exists>q. rx_match r (p, c # t) q) \<or> (\<exists>u v q. t = u @ v \<and> rx_match r (Some (if u = [] then c else last u), v) q)"
      using split [of "\<lambda>u v. \<exists>q. rx_match r (if u = [] then p else Some (last u), v) q"] by simp
    then show ?case using Cons [of "Some c"] by (simp add: rx_run_found if_distrib [of Some])
  qed
  then show ?thesis by (simp add: search_def)
qed

section \<open>Writing patterns\<close>

fun flip_case :: "char \<Rightarrow> char" where
  "flip_case (Char b0 b1 b2 b3 b4 b5 b6 b7) = Char b0 b1 b2 b3 b4 (\<not> b5) b6 b7"

text \<open>A literal character with and without \<open>(?i)\<close>.\<close>

definition chr :: "char \<Rightarrow> rx" where
  "chr x = Pred (\<lambda>c. c = x)"

definition chr_ci :: "char \<Rightarrow> rx" where
  "chr_ci x = (if is_alpha_ascii x then Pred (\<lambda>c. c = x \<or> c = flip_case x) else chr x)"

fun seqs :: "rx list \<Rightarrow> rx" where
  "seqs [] = Eps"
| "seqs [r] = r"
| "seqs (r # rs) = Seq r (seqs rs)"

fun alts :: "rx list \<Rightarrow> rx" where
  "alts [] = Pred (\<lambda>_. False)"
| "alts [r] = r"
| "alts (r # rs) = Alt r (alts rs)"

definition lit :: "string \<Rightarrow> rx" where
  "lit s = seqs (map chr_ci s)"

definition one_of :: "string \<Rightarrow> rx" where
  "one_of cs = Pred (\<lambda>c. c \<in> set cs)"

definition opt :: "rx \<Rightarrow> rx" where
  "opt r = Alt r Eps"

definition plus :: "rx \<Rightarrow> rx" where
  "plus r = Seq r (Star r)"

abbreviation space :: rx where
  "space \<equiv> Pred is_space"

abbreviation any_char :: rx where
  "any_char \<equiv> Pred (\<lambda>c. True)"

abbreviation dot :: rx where
  "dot \<equiv> Pred (\<lambda>c. c \<noteq> CHR 0x0A)"

abbreviation non_space :: rx where
  "non_space \<equiv> Pred (\<lambda>c. \<not> is_space c)"

abbreviation start_or_space :: rx where
  "start_or_space \<equiv> Alt Start space"

end
