(* ===== verification/Command_Security.thy ===== *)
theory Command_Security
  imports Regex Permission_Rules
begin

text \<open>
  \<^verbatim>\<open>agent_core/command_security.py\<close>: the static analysis that decides whether a shell command is
  read-only, needs approval or is prohibited, and the permission check of the shell tool that
  rests on it (\<^verbatim>\<open>tools/shell.py\<close>). The regular expressions are values of \<^typ>\<open>rx\<close>. The recursion
  into shell wrappers is bounded by the source itself (\<open>_depth > 3\<close>); the model counts the
  remaining depth down from 4.
\<close>

section \<open>Patterns\<close>

definition env_name :: rx where
  "env_name = alts [lit ''PATH'', Seq (lit ''LD_'') (Star (Pred (\<lambda>c. is_alnum_ascii c \<or> c = CHR ''_''))),
     Seq (lit ''DYLD_'') (Star (Pred (\<lambda>c. is_alnum_ascii c \<or> c = CHR ''_'')))]"

definition hijack_assignment :: rx where
  "hijack_assignment = seqs [start_or_space, env_name, lit ''='']"

definition powershell_hijack :: rx where
  "powershell_hijack = seqs [lit ''$env:'', env_name, Star space, lit ''='']"

definition dynamic_shell :: rx where
  "dynamic_shell = alts [lit ''`'', lit ''$('', lit ''<('', lit ''>('',
     seqs [Boundary, alts [lit ''eval'', lit ''Invoke-Expression''], Boundary]]"

definition network_to_shell :: rx where
  "network_to_shell = seqs [Boundary, alts [lit ''curl'', lit ''wget'', lit ''Invoke-WebRequest'', lit ''iwr''], Boundary,
     Star any_char, lit ''|'', Star space,
     alts [lit ''sh'', lit ''bash'', lit ''zsh'', lit ''pwsh'', lit ''powershell'', lit ''python''], Boundary]"

definition destructive :: "rx list" where
  "destructive =
     [seqs [Boundary, lit ''git'', plus space,
        alts [seqs [lit ''reset'', plus space, lit ''--hard''], seqs [lit ''clean'', plus space, lit ''-'', Star non_space, lit ''f'']],
        Boundary],
      seqs [Boundary, lit ''dd'', plus space, Star dot, Boundary, lit ''of=''],
      seqs [Boundary, lit ''Remove-Item'', Boundary, Star dot,
        alts [seqs [lit ''-Recurse'', Star dot, lit ''-Force''], seqs [lit ''-Force'', Star dot, lit ''-Recurse'']]],
      seqs [Boundary, lit ''rm'', plus space, lit ''-'', Star non_space, lit ''r'', Star non_space, lit ''f'', Star non_space,
        plus space, alts [lit ''/'', lit ''~'', seqs [Pred is_alpha_ascii, lit '':'', one_of [CHR 0x5C, CHR ''/'']]]]]"

definition destructive_executables :: "string list" where
  "destructive_executables = [''format'', ''mkfs'', ''diskpart'']"

definition persistence :: rx where
  "persistence = alts
     [seqs [lit ''.git'', one_of [CHR 0x5C, CHR ''/''], lit ''hooks''],
      seqs [lit ''schtasks'', plus space, lit ''/create''],
      seqs [Boundary, lit ''sc'', opt (lit ''.exe''), plus space, lit ''create''],
      seqs [Boundary, lit ''reg'', opt (lit ''.exe''), plus space, lit ''add'', Boundary, Star dot, lit [CHR 0x5C], lit ''Run'', Boundary],
      lit ''Set-ExecutionPolicy'']"

definition network :: rx where
  "network = seqs [Boundary,
     alts [lit ''curl'', lit ''wget'', lit ''Invoke-WebRequest'', lit ''iwr'', lit ''Invoke-RestMethod'', lit ''irm'',
       lit ''ssh'', lit ''scp'', lit ''ftp'', seqs [lit ''pip'', plus space, lit ''install''],
       seqs [lit ''npm'', plus space, alts [lit ''install'', lit ''publish'']],
       seqs [lit ''git'', plus space, alts [lit ''push'', lit ''fetch'', lit ''pull'', lit ''clone'']]],
     Boundary]"

definition file_mutation :: rx where
  "file_mutation = Alt
     (seqs [Boundary,
       alts [lit ''rm'', lit ''mv'', lit ''cp'', lit ''mkdir'', lit ''rmdir'', lit ''touch'', lit ''chmod'', lit ''chown'',
         seqs [lit ''sed'', plus space, lit ''-i''], lit ''tee'', lit ''Remove-Item'', lit ''Move-Item'', lit ''Copy-Item'',
         lit ''New-Item'', lit ''Set-Content'', lit ''Add-Content''],
       Boundary])
     (seqs [start_or_space, alts [Seq (lit ''>'') (opt (lit ''>'')), lit ''2>'']])"

abbreviation path_lead :: rx where
  "path_lead \<equiv> Alt Start (Pred (\<lambda>c. is_space c \<or> c \<in> set [CHR 0x22, CHR 0x27, CHR ''='', CHR '':'', CHR ''/'', CHR 0x5C]))"

abbreviation unquoted :: rx where
  "unquoted \<equiv> Pred (\<lambda>c. \<not> is_space c \<and> c \<noteq> CHR 0x22 \<and> c \<noteq> CHR 0x27)"

definition secret_path :: rx where
  "secret_path = Seq path_lead (alts
     [Seq (lit ''.env'') (opt (Seq (lit ''.'') (plus unquoted))),
      seqs [plus unquoted, lit ''.'', alts [lit ''pem'', lit ''key'', lit ''p12'', lit ''pfx'']],
      seqs [lit ''id_'', alts [lit ''rsa'', lit ''ed25519''], Star unquoted],
      Seq (lit ''credentials'') (opt (lit ''.json'')), lit ''.ssh'', lit ''.aws'', lit ''.gnupg'', lit ''.kube''])"

definition protected_path :: rx where
  "protected_path = seqs [path_lead,
     alts [lit ''.git'', lit ''.polaris'', lit ''.claude'', lit ''agent.toml'',
       seqs [lit ''settings'', opt (lit ''.local''), lit ''.json'']],
     Alt Dollar (Pred (\<lambda>c. is_space c \<or> c \<in> set [CHR 0x22, CHR 0x27, CHR ''/'', CHR 0x5C]))]"

definition shell_wrappers :: "string list" where
  "shell_wrappers = [''bash'', ''sh'', ''zsh'', ''pwsh'', ''powershell'', ''cmd'']"

section \<open>Segments\<close>

record command_analysis =
  an_behavior :: permission_behavior
  an_reason :: string
  an_segments :: "string list"
  an_category :: string
  an_classifier_approvable :: bool
  an_bypass_immune :: bool

definition analysis :: "permission_behavior \<Rightarrow> string \<Rightarrow> string list \<Rightarrow> string \<Rightarrow> bool \<Rightarrow> bool \<Rightarrow> command_analysis" where
  "analysis b r segs c approvable immune =
     \<lparr>an_behavior = b, an_reason = r, an_segments = segs, an_category = c, an_classifier_approvable = approvable, an_bypass_immune = immune\<rparr>"

definition removesuffix :: "string \<Rightarrow> string \<Rightarrow> string" where
  "removesuffix s suffix = (if suffix \<noteq> [] \<and> endswith s suffix then take (length s - length suffix) s else s)"

text \<open>\<open>tokens[0].replace("\", "/").rsplit("/", 1)[-1].casefold()\<close>.\<close>

definition executable_name :: "string \<Rightarrow> string" where
  "executable_name token = py_casefold (last (split_char (CHR ''/'') (replace_char (CHR 0x5C) (CHR ''/'') token)))"

fun option_payload :: "string list \<Rightarrow> string" where
  "option_payload [] = []"
| "option_payload (t # ts) =
     (if py_casefold t \<in> set [''-c'', ''-lc'', ''-command'', ''/c''] then join_str '' '' ts else option_payload ts)"

definition wrapped_command :: "string \<Rightarrow> string option" where
  "wrapped_command segment =
     (case shlex_split (normalize_subcommand segment) of
        Inl _ \<Rightarrow> Some []
      | Inr [] \<Rightarrow> None
      | Inr (t # ts) \<Rightarrow>
          if removesuffix (executable_name t) ''.exe'' \<in> set shell_wrappers then Some (option_payload ts) else None)"

definition segment_executable :: "string \<Rightarrow> string" where
  "segment_executable segment =
     (case shlex_split (normalize_subcommand segment) of
        Inl _ \<Rightarrow> []
      | Inr [] \<Rightarrow> []
      | Inr (t # ts) \<Rightarrow> removesuffix (removesuffix (removesuffix (executable_name t) ''.exe'') ''.com'') ''.bat'')"

definition is_destructive_executable :: "string \<Rightarrow> bool" where
  "is_destructive_executable segment \<longleftrightarrow>
     segment_executable segment \<in> set destructive_executables \<or> startswith (segment_executable segment) ''mkfs.''"

definition read_executable :: "string \<Rightarrow> string list \<Rightarrow> bool" where
  "read_executable executable args \<longleftrightarrow>
     executable \<in> set [''pwd'', ''ls'', ''dir'', ''rg'', ''grep'', ''findstr'', ''where'', ''whoami''] \<or>
     executable \<in> set [''get-childitem'', ''get-location'', ''select-string''] \<or>
     (executable = ''git'' \<and> args \<noteq> [] \<and>
       (hd args \<in> set [''status'', ''diff'', ''log'', ''show'', ''rev-parse''] \<or>
        (hd args = ''branch'' \<and> ''--show-current'' \<in> set args)))"

definition segment_category :: "string \<Rightarrow> string" where
  "segment_category segment =
     (let normalized = normalize_subcommand segment
      in if search network normalized then ''network''
         else if search file_mutation normalized then ''file_mutation''
         else (case shlex_split normalized of
                 Inl _ \<Rightarrow> ''unknown''
               | Inr [] \<Rightarrow> ''unknown''
               | Inr (t # ts) \<Rightarrow>
                   (if read_executable (executable_name t) (map py_casefold ts) then ''read''
                    else if executable_name t \<in> set [''python'', ''python.exe'', ''python3'', ''node'', ''pytest'', ''ruff'', ''mypy'']
                    then ''development'' else ''unknown'')))"

text \<open>The scan of \<open>_unbalanced_quotes\<close>: the open quotation mark and whether the next character is escaped.\<close>

fun quote_scan :: "char option \<Rightarrow> bool \<Rightarrow> string \<Rightarrow> bool" where
  "quote_scan q esc [] = (q \<noteq> None)"
| "quote_scan q True (c # s) = quote_scan q False s"
| "quote_scan q False (c # s) =
     (if c = CHR 0x5C \<and> q \<noteq> Some (CHR 0x27) then quote_scan q True s
      else (case q of
              Some x \<Rightarrow> quote_scan (if c = x then None else q) False s
            | None \<Rightarrow> quote_scan (if c = CHR 0x27 \<or> c = CHR 0x22 then Some c else None) False s))"

definition unbalanced_quotes :: "string \<Rightarrow> bool" where
  "unbalanced_quotes command = quote_scan None False command"

section \<open>The analysis\<close>

text \<open>The loop over the segments: an early result, or the analyses of the wrapped commands.\<close>

fun nested_scan :: "(string \<Rightarrow> command_analysis) \<Rightarrow> string list \<Rightarrow> string list \<Rightarrow> command_analysis + command_analysis list" where
  "nested_scan f segs [] = Inr []"
| "nested_scan f segs (s # ss) =
     (case wrapped_command s of
        None \<Rightarrow> nested_scan f segs ss
      | Some w \<Rightarrow>
          if w = [] then Inl (analysis PB_ASK ''shell wrapper payload cannot be approved statically'' segs ''dynamic'' False True)
          else (let nested = f w
                in if an_behavior nested = PB_DENY then Inl (analysis PB_DENY (an_reason nested) segs (an_category nested) False True)
                   else bind_res (nested_scan f segs ss) (\<lambda>rest. Inr (nested # rest))))"

text \<open>What precedes the loop, in order: the checks on the whole text.\<close>

definition text_checks :: "string \<Rightarrow> string list \<Rightarrow> command_analysis option" where
  "text_checks command segs =
     (if search network_to_shell command
      then Some (analysis PB_DENY ''download-and-execute pipeline is prohibited'' segs ''destructive'' False False)
      else if search persistence command
      then Some (analysis PB_DENY ''persistence operation is prohibited'' segs ''persistence'' False False)
      else if list_ex (\<lambda>p. search p command) destructive
      then Some (analysis PB_DENY ''destructive command is prohibited'' segs ''destructive'' False False)
      else if list_ex is_destructive_executable segs
      then Some (analysis PB_DENY ''destructive command is prohibited'' segs ''destructive'' False False)
      else if search hijack_assignment command \<or> search powershell_hijack command
      then Some (analysis PB_ASK ''binary-hijack environment assignments require explicit approval'' segs ''environment'' False True)
      else if search dynamic_shell command
      then Some (analysis PB_ASK ''dynamic shell evaluation cannot be approved statically'' segs ''dynamic'' False True)
      else None)"

text \<open>What follows the loop: paths, then the categories of the segments.\<close>

definition final_category :: "string \<Rightarrow> string list \<Rightarrow> command_analysis list \<Rightarrow> command_analysis" where
  "final_category command segs nested =
     (let categories = map segment_category (filter (\<lambda>s. wrapped_command s = None) segs) @ map an_category nested
      in if search secret_path command
         then analysis PB_ASK ''shell access to a secret path requires explicit approval'' segs ''secret'' False True
         else if search protected_path command \<and> search file_mutation command
         then analysis PB_ASK ''shell mutation of a protected path requires explicit approval'' segs ''protected'' False True
         else if list_all (\<lambda>c. c = ''read'') categories
         then analysis PB_ALLOW ''all command segments are read-only'' segs ''read'' False False
         else if list_ex (\<lambda>c. c = ''network'') categories
         then analysis PB_ASK ''network command requires explicit approval'' segs ''network'' False False
         else if list_ex (\<lambda>c. c = ''file_mutation'') categories
         then analysis PB_ASK ''shell file mutation requires approval'' segs ''file_mutation'' True False
         else analysis PB_ASK ''command semantics require automated or human review'' segs ''development'' True False)"

definition analyze_with :: "(string \<Rightarrow> command_analysis) option \<Rightarrow> string \<Rightarrow> command_analysis" where
  "analyze_with inner command =
     (if py_strip command = [] then analysis PB_DENY ''command must not be empty'' [] ''invalid'' False False
      else if unbalanced_quotes command then analysis PB_DENY ''command contains unbalanced quotes'' [] ''invalid'' False False
      else (case inner of
              None \<Rightarrow> analysis PB_ASK ''nested shell wrapper depth cannot be approved statically'' [] ''dynamic'' False True
            | Some f \<Rightarrow>
                (let segs = split_subcommands command
                 in if segs = [] then analysis PB_DENY ''command has no executable segment'' [] ''invalid'' False False
                    else (case text_checks command segs of
                            Some r \<Rightarrow> r
                          | None \<Rightarrow> (case nested_scan f segs segs of Inl r \<Rightarrow> r | Inr nested \<Rightarrow> final_category command segs nested)))))"

primrec analyze_at :: "nat \<Rightarrow> string \<Rightarrow> command_analysis" where
  "analyze_at 0 = analyze_with None"
| "analyze_at (Suc n) = analyze_with (Some (analyze_at n))"

definition analyze_command :: "string \<Rightarrow> command_analysis" where
  "analyze_command command = analyze_at 4 command"

section \<open>The shell tool's own check\<close>

definition shell_metadata :: "string \<Rightarrow> command_analysis \<Rightarrow> pydict" where
  "shell_metadata dialect a =
     [(''category'', PStr (an_category a)), (''segments'', PInt (int (length (an_segments a)))), (''dialect'', PStr dialect)]"

definition shell_check_permissions :: "string \<Rightarrow> bool \<Rightarrow> permission_mode \<Rightarrow> pydict \<Rightarrow> permission_result" where
  "shell_check_permissions dialect sandbox_enabled mode args =
     (let command = py_str (dict_get args ''command'' (PStr []));
          override = [(''dialect'', PStr dialect), (''sandbox_override'', PBool True)]
      in if py_truthy (dict_get args ''dangerously_disable_sandbox'' PNone)
         then (if sandbox_enabled
               then result_deny (''per-command sandbox bypass is forbidden; use the explicit '' @
                      ''--no-sandbox option for the whole session'') DS_TOOL None (Some override) None
               else result_ask ''disabling command isolation always requires explicit user approval'' DS_TOOL None (Some override)
                      None False True [])
         else
           (let a = analyze_command command;
                meta = Some (shell_metadata dialect a)
            in if an_behavior a = PB_DENY then result_deny (an_reason a) DS_TOOL None meta None
               else if an_behavior a = PB_ALLOW then (result_allow (an_reason a) DS_TOOL None None)\<lparr>metadata := meta\<rparr>
               else if mode = PM_BYPASS \<and> \<not> an_bypass_immune a then (result_passthrough (an_reason a) None)\<lparr>metadata := meta\<rparr>
               else if an_category a \<in> set [''development'', ''file_mutation'']
               then (result_passthrough (an_reason a) None)\<lparr>metadata := meta\<rparr>
               else result_ask (an_reason a) DS_TOOL None meta None (an_classifier_approvable a) (an_bypass_immune a) []))"

section \<open>What an ALLOW means\<close>

text \<open>First in the terms of the analysis: what its answer tells about each segment.\<close>

definition read_segment :: "string \<Rightarrow> bool" where
  "read_segment s \<longleftrightarrow> (let n = normalize_subcommand s
     in \<not> search network n \<and> \<not> search file_mutation n \<and>
        (\<exists>t ts. shlex_split n = Inr (t # ts) \<and> read_executable (executable_name t) (map py_casefold ts)))"

definition clean_text :: "string \<Rightarrow> bool" where
  "clean_text c \<longleftrightarrow> py_strip c \<noteq> [] \<and> \<not> unbalanced_quotes c \<and> \<not> search network_to_shell c \<and> \<not> search persistence c \<and>
     \<not> list_ex (\<lambda>p. search p c) destructive \<and> \<not> search hijack_assignment c \<and> \<not> search powershell_hijack c \<and>
     \<not> search dynamic_shell c \<and> \<not> search secret_path c \<and> \<not> (search protected_path c \<and> search file_mutation c)"

inductive read_only :: "string \<Rightarrow> bool" where
  read_onlyI: "clean_text c \<Longrightarrow> split_subcommands c \<noteq> [] \<Longrightarrow> \<not> list_ex is_destructive_executable (split_subcommands c) \<Longrightarrow>
    \<forall>s\<in>set (split_subcommands c). (wrapped_command s = None \<longrightarrow> read_segment s) \<and>
      (\<forall>w. wrapped_command s = Some w \<longrightarrow> w \<noteq> [] \<and> read_only w) \<Longrightarrow> read_only c"

lemma an_analysis [simp]:
  "an_behavior (analysis b r segs c a i) = b" "an_category (analysis b r segs c a i) = c"
  "an_bypass_immune (analysis b r segs c a i) = i"
  by (simp_all add: analysis_def)

lemma segment_category_read: "segment_category s = ''read'' \<longleftrightarrow> read_segment s"
  by (auto simp: segment_category_def read_segment_def Let_def split: sum.splits list.splits)

lemma text_checks_Some:
  assumes "text_checks c segs = Some r"
  shows "an_behavior r = PB_DENY \<or> an_behavior r = PB_ASK \<and> an_bypass_immune r" and "an_category r \<noteq> ''read''"
  using assms by (auto simp: text_checks_def split: if_splits)

lemma nested_scan_Inl:
  assumes "nested_scan f segs ss = Inl r"
  shows "an_behavior r = PB_DENY \<or> an_behavior r = PB_ASK \<and> an_bypass_immune r"
  using assms by (induction ss) (auto simp: Let_def bind_res_Inl_iff split: option.splits if_splits)

lemma nested_scan_category:
  assumes "nested_scan f segs ss = Inl r" "\<And>w. an_category (f w) = ''read'' \<Longrightarrow> an_behavior (f w) = PB_ALLOW"
  shows "an_category r \<noteq> ''read''"
proof -
  have "an_behavior (f w) = PB_DENY \<Longrightarrow> an_category (f w) \<noteq> ''read''" for w using assms(2) [of w] by auto
  with assms(1) show ?thesis
    by (induction ss) (auto simp: Let_def bind_res_Inl_iff split: option.splits if_splits)
qed

lemma nested_scan_Inr:
  assumes "nested_scan f segs ss = Inr nested" "s \<in> set ss" "wrapped_command s = Some w"
  shows "w \<noteq> [] \<and> an_behavior (f w) \<noteq> PB_DENY \<and> f w \<in> set nested"
  using assms
  by (induction ss arbitrary: nested) (auto simp: Let_def bind_res_Inr_iff split: option.splits if_splits)

lemma final_category_read:
  "an_category (final_category c segs nested) = ''read'' \<longleftrightarrow> an_behavior (final_category c segs nested) = PB_ALLOW"
  "an_behavior (final_category c segs nested) = PB_ALLOW \<longleftrightarrow>
     \<not> search secret_path c \<and> \<not> (search protected_path c \<and> search file_mutation c) \<and>
     (\<forall>s\<in>set segs. wrapped_command s = None \<longrightarrow> segment_category s = ''read'') \<and> (\<forall>a\<in>set nested. an_category a = ''read'')"
  by (auto simp: final_category_def Let_def list_all_iff)

lemma analyze_category:
  "an_category (analyze_at n c) = ''read'' \<Longrightarrow> an_behavior (analyze_at n c) = PB_ALLOW"
proof (induction n arbitrary: c)
  case 0
  then show ?case by (auto simp: analyze_with_def split: if_splits)
next
  case (Suc n)
  show ?case
    using Suc.prems text_checks_Some(2) nested_scan_category [of "analyze_at n", OF _ Suc.IH] final_category_read(1)
    by (auto simp: analyze_with_def Let_def split: if_splits option.splits sum.splits)
qed

lemma analyze_allow: "an_behavior (analyze_at n c) = PB_ALLOW \<Longrightarrow> read_only c"
proof (induction n arbitrary: c)
  case 0
  then show ?case by (auto simp: analyze_with_def split: if_splits)
next
  case (Suc n)
  let ?segs = "split_subcommands c"
  obtain nested where t: "py_strip c \<noteq> []" "\<not> unbalanced_quotes c" "?segs \<noteq> []" "text_checks c ?segs = None"
    and ns: "nested_scan (analyze_at n) ?segs ?segs = Inr nested"
    and fc: "an_behavior (final_category c ?segs nested) = PB_ALLOW"
    using Suc.prems text_checks_Some(1) nested_scan_Inl
    by (fastforce simp: analyze_with_def Let_def split: if_splits option.splits sum.splits)
  have "read_only w" if "s \<in> set ?segs" "wrapped_command s = Some w" for s w
  proof -
    from nested_scan_Inr [OF ns that] fc have "an_category (analyze_at n w) = ''read''"
      by (simp add: final_category_read(2))
    with analyze_category Suc.IH show ?thesis by blast
  qed
  moreover have "w \<noteq> []" if "s \<in> set ?segs" "wrapped_command s = Some w" for s w
    using nested_scan_Inr [OF ns that] by simp
  moreover have "clean_text c" and "\<not> list_ex is_destructive_executable ?segs"
    using t fc unfolding final_category_read(2) by (auto simp: clean_text_def text_checks_def split: if_splits)
  ultimately show ?case
    using t(3) fc by (intro read_onlyI) (auto simp: final_category_read(2) segment_category_read split: option.splits)
qed

text \<open>Then in plain terms, without the analysis and its patterns. The name of a program is the last
  component of the first word; the programs are listed again here.\<close>

definition last_component :: "string \<Rightarrow> string \<Rightarrow> bool" where
  "last_component path name \<longleftrightarrow> CHR ''/'' \<notin> set name \<and> CHR 0x5C \<notin> set name \<and>
     (\<exists>dir. path = dir @ name \<and> (dir = [] \<or> last dir = CHR ''/'' \<or> last dir = CHR 0x5C))"

definition runs_program :: "string \<Rightarrow> string \<Rightarrow> bool" where
  "runs_program word p \<longleftrightarrow> (\<exists>name. last_component word name \<and> py_casefold name = p)"

definition reading_call :: "string list \<Rightarrow> bool" where
  "reading_call ws \<longleftrightarrow> (\<exists>w args p. ws = w # args \<and> runs_program w p \<and>
     (p \<in> {''ls'', ''dir'', ''pwd'', ''where'', ''whoami'', ''grep'', ''rg'', ''findstr'', ''select-string'', ''get-childitem'', ''get-location''} \<or>
      p = ''git'' \<and> (\<exists>a rest. args = a # rest \<and>
        (py_casefold a \<in> {''diff'', ''log'', ''rev-parse'', ''show'', ''status''} \<or>
         py_casefold a = ''branch'' \<and> (\<exists>x\<in>set args. py_casefold x = ''--show-current'')))))"

definition word_in :: "string \<Rightarrow> string \<Rightarrow> bool" where
  "word_in w s \<longleftrightarrow> (\<exists>u v. s = u @ w @ v \<and> (u = [] \<or> \<not> word_char (last u)) \<and> (v = [] \<or> \<not> word_char (hd v)))"

definition fetching_words :: "string list" where
  "fetching_words = [''curl'', ''wget'', ''ssh'', ''scp'', ''ftp'']"

definition changing_words :: "string list" where
  "changing_words = [''rm'', ''mv'', ''cp'', ''mkdir'', ''rmdir'', ''touch'', ''chmod'', ''chown'', ''tee'']"

text \<open>No such word anywhere in a segment, and no redirection of output behind white space.\<close>

definition quiet_segment :: "string \<Rightarrow> bool" where
  "quiet_segment s \<longleftrightarrow> list_all (\<lambda>w. \<not> word_in w s) (fetching_words @ changing_words) \<and>
     \<not> (\<exists>u v. s = u @ CHR ''>'' # v \<and> (u = [] \<or> is_space (last u)))"

definition substitution_free :: "string \<Rightarrow> bool" where
  "substitution_free s \<longleftrightarrow> \<not> (\<exists>u v x. s = u @ x @ v \<and> x \<in> {''`'', ''$('', ''<('', ''>(''})"

definition shell_call :: "string list \<Rightarrow> string \<Rightarrow> bool" where
  "shell_call ws w \<longleftrightarrow> (\<exists>t pre opt post p. ws = t # pre @ opt # post \<and> runs_program t p \<and>
     (\<exists>q\<in>{''bash'', ''cmd'', ''powershell'', ''pwsh'', ''sh'', ''zsh''}. p = q \<or> p = q @ ''.exe'') \<and>
     py_casefold opt \<in> {''-c'', ''-lc'', ''-command'', ''/c''} \<and> w = join_str '' '' post)"

text \<open>Segments are those of \<open>_split_subcommands\<close>, their words those of \<open>shlex\<close> after
  \<open>_normalize_subcommand\<close> has taken environment assignments and harmless wrappers away.\<close>

inductive only_reads :: "string \<Rightarrow> bool" where
  "substitution_free c \<Longrightarrow> split_subcommands c \<noteq> [] \<Longrightarrow>
   \<forall>s\<in>set (split_subcommands c). \<exists>ws. shlex_split (normalize_subcommand s) = Inr ws \<and>
     (quiet_segment (normalize_subcommand s) \<and> reading_call ws \<or> (\<exists>w. shell_call ws w \<and> w \<noteq> [] \<and> only_reads w)) \<Longrightarrow>
   only_reads c"

lemma last_split_char: "\<exists>dir. s = dir @ last (split_char c s) \<and> (dir = [] \<or> last dir = c)"
proof (cases "c \<in> set s")
  case True
  then obtain a b where "s = a @ c # b" "c \<notin> set b" using split_list_last by metis
  then show ?thesis by (intro exI [of _ "a @ [c]"]) (simp add: split_char_append_sep split_char_no_sep)
qed (simp add: split_char_no_sep)

lemma executable_runs: "runs_program t (executable_name t)"
proof -
  let ?f = "\<lambda>c. if c = CHR 0x5C then CHR ''/'' else c"
  let ?n = "last (split_char (CHR ''/'') (map ?f t))"
  have slash: "CHR ''/'' \<notin> set ?n" by (rule split_char_pieces [of _ _ "map ?f t"]) simp
  from last_split_char [of "map ?f t" "CHR ''/''"] obtain dir where dir: "map ?f t = dir @ ?n" "dir = [] \<or> last dir = CHR ''/''" by blast
  then obtain d n where t: "t = d @ n" "dir = map ?f d" "?n = map ?f n" by (auto simp: map_eq_append_conv)
  have n: "CHR ''/'' \<notin> set n" "CHR 0x5C \<notin> set n" using slash unfolding t(3) by (auto simp: image_iff split: if_splits)
  then have "?n = n" unfolding t(3) by (intro map_idI) auto
  moreover have "d = [] \<or> last d = CHR ''/'' \<or> last d = CHR 0x5C"
    using dir(2) unfolding t(2) by (cases "d = []") (auto simp: last_map split: if_splits)
  ultimately have "last_component t ?n" using t(1) n unfolding last_component_def by auto
  then show ?thesis unfolding runs_program_def executable_name_def replace_char_def by blast
qed

lemma seqs_Cons: "rs \<noteq> [] \<Longrightarrow> seqs (r # rs) = Seq r (seqs rs)"
  by (cases rs) simp_all

lemma lit_match: "w \<noteq> [] \<Longrightarrow> rx_match (lit w) (p, w @ v) (Some (last w), v)"
proof (induction w arbitrary: p)
  case (Cons c w)
  have c: "rx_match (chr_ci c) (p, c # w @ v) (Some c, w @ v)" by (auto simp: chr_ci_def chr_def intro: pred)
  show ?case
  proof (cases "w = []")
    case True
    then show ?thesis using c by (simp add: lit_def)
  next
    case False
    then have "lit (c # w) = Seq (chr_ci c) (lit w)" by (simp add: lit_def seqs_Cons)
    with Cons.IH [OF False] c False show ?thesis by (auto intro: seq)
  qed
qed simp

lemma alts_match: "r \<in> set rs \<Longrightarrow> rx_match r p q \<Longrightarrow> rx_match (alts rs) p q"
  by (induction rs rule: alts.induct) (auto intro: alt_left alt_right)

lemma searchI: "s = u @ v \<Longrightarrow> rx_match r (if u = [] then None else Some (last u), v) q \<Longrightarrow> search r s"
  unfolding search_iff by blast

text \<open>A word between two boundaries.\<close>

lemma word_search:
  assumes w: "word_in w s" "lit w \<in> set rs" "w \<noteq> []" "word_char (hd w)" "word_char (last w)"
  shows "\<exists>u v q. s = u @ v \<and> rx_match (seqs [Boundary, alts rs, Boundary]) (if u = [] then None else Some (last u), v) q"
proof -
  from w(1) obtain u v where s: "s = u @ w @ v" "u = [] \<or> \<not> word_char (last u)" "v = [] \<or> \<not> word_char (hd v)"
    by (auto simp: word_in_def)
  let ?p = "(if u = [] then None else Some (last u), w @ v)"
  have "word_at (w @ v)" using w(3,4) by (cases w) (simp_all add: word_at_def)
  moreover have "\<not> word_before (fst ?p)" using s(2) by (auto simp: word_before_def)
  ultimately have "rx_match Boundary ?p ?p" by (intro boundary) simp
  moreover have "rx_match (alts rs) ?p (Some (last w), v)" using w(2) lit_match [OF w(3)] by (rule alts_match)
  moreover have "rx_match Boundary (Some (last w), v) (Some (last w), v)"
    by (rule boundary) (use s w(5) in \<open>auto simp: word_before_def word_at_def split: list.splits\<close>)
  ultimately have "rx_match (seqs [Boundary, alts rs, Boundary]) ?p (Some (last w), v)"
    unfolding seqs.simps by (blast intro: seq)
  with s(1) show ?thesis by blast
qed

lemma words_shape:
  assumes "w \<in> set (fetching_words @ changing_words)"
  shows "w \<noteq> []" "word_char (hd w)" "word_char (last w)"
proof -
  have "list_all (\<lambda>w. w \<noteq> [] \<and> is_alnum_ascii (hd w) \<and> is_alnum_ascii (last w)) (fetching_words @ changing_words)" by code_simp
  with assms have "w \<noteq> [] \<and> is_alnum_ascii (hd w) \<and> is_alnum_ascii (last w)" unfolding list_all_iff by blast
  then show "w \<noteq> []" "word_char (hd w)" "word_char (last w)" by (simp_all add: word_char_def)
qed

lemma fetching_word_found:
  assumes "w \<in> set fetching_words" "word_in w s"
  shows "search network s"
proof -
  define rs where "rs = [lit ''curl'', lit ''wget'', lit ''Invoke-WebRequest'', lit ''iwr'', lit ''Invoke-RestMethod'', lit ''irm'',
       lit ''ssh'', lit ''scp'', lit ''ftp'', seqs [lit ''pip'', plus space, lit ''install''],
       seqs [lit ''npm'', plus space, alts [lit ''install'', lit ''publish'']],
       seqs [lit ''git'', plus space, alts [lit ''push'', lit ''fetch'', lit ''pull'', lit ''clone'']]]"
  have "set (map lit fetching_words) \<subseteq> set rs" unfolding rs_def fetching_words_def list.map list.set by blast
  with assms(1) have "lit w \<in> set rs" by auto
  moreover have "w \<in> set (fetching_words @ changing_words)" using assms(1) by simp
  ultimately show ?thesis
    unfolding network_def rs_def [symmetric] search_iff by (intro word_search [OF assms(2)] words_shape)
qed

lemma changing_word_found:
  assumes "w \<in> set changing_words" "word_in w s"
  shows "search file_mutation s"
proof -
  define rs where "rs = [lit ''rm'', lit ''mv'', lit ''cp'', lit ''mkdir'', lit ''rmdir'', lit ''touch'', lit ''chmod'', lit ''chown'',
       seqs [lit ''sed'', plus space, lit ''-i''], lit ''tee'', lit ''Remove-Item'', lit ''Move-Item'', lit ''Copy-Item'',
       lit ''New-Item'', lit ''Set-Content'', lit ''Add-Content'']"
  have "set (map lit changing_words) \<subseteq> set rs" unfolding rs_def changing_words_def list.map list.set by blast
  with assms(1) have "lit w \<in> set rs" by auto
  moreover have "w \<in> set (fetching_words @ changing_words)" using assms(1) by simp
  ultimately have "\<exists>u v q. s = u @ v \<and> rx_match (seqs [Boundary, alts rs, Boundary]) (if u = [] then None else Some (last u), v) q"
    by (intro word_search [OF assms(2)] words_shape)
  then show ?thesis unfolding file_mutation_def rs_def [symmetric] search_iff by (blast intro: alt_left)
qed

lemma redirection_found:
  assumes "s = u @ CHR ''>'' # v" "u = [] \<or> is_space (last u)"
  shows "search file_mutation s"
proof -
  let ?rs = "[Seq (lit ''>'') (opt (lit ''>'')), lit ''2>'']"
  have gt: "rx_match (alts ?rs) (p, CHR ''>'' # v) (Some (CHR ''>''), v)" for p
  proof (rule alts_match)
    show "rx_match (Seq (lit ''>'') (opt (lit ''>''))) (p, CHR ''>'' # v) (Some (CHR ''>''), v)"
      using lit_match [of "''>''" p v] by (auto simp: opt_def intro: seq alt_right eps)
  qed simp
  have "\<exists>x y q. s = x @ y \<and> rx_match (seqs [start_or_space, alts ?rs]) (if x = [] then None else Some (last x), y) q"
  proof (cases "u = []")
    case True
    have "rx_match start_or_space (None, s) (None, s)" by (intro alt_left start)
    moreover have "s = CHR ''>'' # v" using assms(1) True by simp
    ultimately have "rx_match (seqs [start_or_space, alts ?rs]) (None, s) (Some (CHR ''>''), v)"
      using gt [of None] unfolding seqs.simps by (auto intro: seq)
    then show ?thesis by (intro exI [of _ "[]"] exI [of _ s] exI [of _ "(Some (CHR ''>''), v)"]) simp
  next
    case False
    then obtain x c where u: "u = x @ [c]" by (cases u rule: rev_cases) auto
    let ?p = "if x = [] then None else Some (last x)"
    have "is_space c" using assms(2) False by (simp add: u)
    then have "rx_match start_or_space (?p, c # CHR ''>'' # v) (Some c, CHR ''>'' # v)" by (intro alt_right pred)
    then have "rx_match (seqs [start_or_space, alts ?rs]) (?p, c # CHR ''>'' # v) (Some (CHR ''>''), v)"
      using gt [of "Some c"] unfolding seqs.simps by (rule seq)
    moreover have "s = x @ c # CHR ''>'' # v" using assms(1) u by simp
    ultimately show ?thesis by blast
  qed
  then show ?thesis unfolding file_mutation_def search_iff by (blast intro: alt_right)
qed

lemma substitution_found: "\<not> search dynamic_shell c \<Longrightarrow> substitution_free c"
proof (unfold substitution_free_def, intro notI, elim exE conjE)
  fix u v x assume no: "\<not> search dynamic_shell c" and c: "c = u @ x @ v" and x: "x \<in> {''`'', ''$('', ''<('', ''>(''}"
  have "rx_match dynamic_shell (if u = [] then None else Some (last u), x @ v) (Some (last x), v)"
    unfolding dynamic_shell_def by (rule alts_match [of "lit x"]) (use x lit_match [of x] in auto)
  from searchI [OF c this] no show False by simp
qed

lemma read_segment_plain:
  assumes "read_segment s"
  shows "\<exists>ws. shlex_split (normalize_subcommand s) = Inr ws \<and> quiet_segment (normalize_subcommand s) \<and> reading_call ws"
proof -
  let ?n = "normalize_subcommand s"
  from assms obtain t ts where n: "\<not> search network ?n" "\<not> search file_mutation ?n" "shlex_split ?n = Inr (t # ts)"
    and r: "read_executable (executable_name t) (map py_casefold ts)" by (auto simp: read_segment_def Let_def)
  have "quiet_segment ?n"
    using n(1,2) fetching_word_found changing_word_found redirection_found
    unfolding quiet_segment_def list_all_iff set_append by blast
  moreover have "reading_call (t # ts)"
    unfolding reading_call_def
    by (rule exI [of _ t], rule exI [of _ ts], rule exI [of _ "executable_name t"])
      (use r executable_runs [of t] in \<open>cases ts; auto simp: read_executable_def\<close>)
  ultimately show ?thesis using n(3) by blast
qed

lemma option_payload_split:
  "option_payload ts \<noteq> [] \<Longrightarrow> \<exists>pre opt post. ts = pre @ opt # post \<and> py_casefold opt \<in> {''-c'', ''-lc'', ''-command'', ''/c''} \<and>
     option_payload ts = join_str '' '' post"
proof (induction ts)
  case (Cons t ts)
  show ?case
  proof (cases "py_casefold t \<in> set [''-c'', ''-lc'', ''-command'', ''/c'']")
    case True
    then show ?thesis by (intro exI [of _ "[]"] exI [of _ t] exI [of _ ts]) auto
  next
    case False
    with Cons obtain pre opt post where "ts = pre @ opt # post" "py_casefold opt \<in> {''-c'', ''-lc'', ''-command'', ''/c''}"
      "option_payload ts = join_str '' '' post" by auto
    with False show ?thesis by (intro exI [of _ "t # pre"] exI [of _ opt] exI [of _ post]) auto
  qed
qed simp

lemma wrapped_call:
  assumes "wrapped_command s = Some w" "w \<noteq> []"
  shows "\<exists>ws. shlex_split (normalize_subcommand s) = Inr ws \<and> shell_call ws w"
proof -
  from assms obtain t ts where t: "shlex_split (normalize_subcommand s) = Inr (t # ts)" "w = option_payload ts"
    and q: "removesuffix (executable_name t) ''.exe'' \<in> set shell_wrappers"
    by (auto simp: wrapped_command_def split: sum.splits list.splits if_splits)
  from assms(2) option_payload_split [of ts] obtain pre opt post where
    ts: "ts = pre @ opt # post" "py_casefold opt \<in> {''-c'', ''-lc'', ''-command'', ''/c''}" "w = join_str '' '' post"
    unfolding t(2) by blast
  let ?e = "executable_name t" and ?q = "removesuffix (executable_name t) ''.exe''"
  have "?e = ?q \<or> ?e = ?q @ ''.exe''" by (auto simp: removesuffix_def endswith_iff)
  moreover have "?q \<in> {''bash'', ''cmd'', ''powershell'', ''pwsh'', ''sh'', ''zsh''}" using q by (auto simp: shell_wrappers_def)
  ultimately show ?thesis using t(1) ts executable_runs [of t] unfolding shell_call_def by blast
qed

lemma read_only_plain: "read_only c \<Longrightarrow> only_reads c"
proof (induction rule: read_only.induct)
  case (read_onlyI c)
  have "substitution_free c" using read_onlyI by (intro substitution_found) (simp add: clean_text_def)
  moreover have "\<exists>ws. shlex_split (normalize_subcommand s) = Inr ws \<and>
      (quiet_segment (normalize_subcommand s) \<and> reading_call ws \<or> (\<exists>w. shell_call ws w \<and> w \<noteq> [] \<and> only_reads w))"
    if "s \<in> set (split_subcommands c)" for s
  proof (cases "wrapped_command s")
    case None
    with read_onlyI that read_segment_plain show ?thesis by blast
  next
    case (Some w)
    with read_onlyI that wrapped_call show ?thesis by blast
  qed
  ultimately show ?case using read_onlyI by (intro only_reads.intros) blast+
qed

text \<open>C24. What an ALLOW of the shell tool's own check guarantees, in any mode: the call does not ask for
  the sandbox to be switched off, the command contains no command or process substitution, and every
  segment that \<open>_split_subcommands\<close> finds begins with one of eleven listed programs or a listed read-only
  \<open>git\<close> command, has none of fourteen writing or network words in it and no redirection behind white
  space, or hands such a command to a shell, to any depth. The guarantee is about the segments that the
  code sees: it does not split at \<open>&\<close>, nor see \<open>>\<close> inside a word (\<open>read_only_evaded\<close>).\<close>

theorem shell_allow_is_read_only:
  assumes "behavior (shell_check_permissions dialect enabled mode args) = PB_ALLOW"
  shows "only_reads (py_str (dict_get args ''command'' (PStr []))) \<and>
         \<not> py_truthy (dict_get args ''dangerously_disable_sandbox'' PNone)"
proof -
  let ?c = "py_str (dict_get args ''command'' (PStr []))"
  have "\<not> py_truthy (dict_get args ''dangerously_disable_sandbox'' PNone)" "an_behavior (analyze_command ?c) = PB_ALLOW"
    using assms by (auto simp: shell_check_permissions_def Let_def result_defs split: if_splits)
  then show ?thesis using read_only_plain [OF analyze_allow] by (simp add: analyze_command_def)
qed

theorem shell_allow_is_read_only_witness: "only_reads ''git status''"
proof -
  have "behavior (shell_check_permissions ''bash'' True PM_DEFAULT [(''command'', PStr ''git status'')]) = PB_ALLOW"
    by code_simp
  from shell_allow_is_read_only [OF this] show ?thesis by (simp add: dict_get_def)
qed

text \<open>A prohibited command cannot be laundered through a shell wrapper: if some segment hands a
  command to a shell that would itself be denied one level further down, the whole command is
  denied, or it is a question that no bypass mode can skip.\<close>

theorem wrapped_denial_survives:
  assumes "s \<in> set (split_subcommands c)" "wrapped_command s = Some w" "an_behavior (analyze_at n w) = PB_DENY"
  shows "an_behavior (analyze_at (Suc n) c) = PB_DENY \<or>
         an_behavior (analyze_at (Suc n) c) = PB_ASK \<and> an_bypass_immune (analyze_at (Suc n) c)"
proof (cases "nested_scan (analyze_at n) (split_subcommands c) (split_subcommands c)")
  case (Inl r)
  then show ?thesis
    using text_checks_Some(1) nested_scan_Inl by (auto simp: analyze_with_def Let_def split: option.splits)
next
  case (Inr nested)
  from nested_scan_Inr [OF this assms(1,2)] assms(3) show ?thesis by simp
qed

theorem wrapped_denial_survives_witness:
  "an_behavior (analyze_at (Suc 3) ''bash -c mkfs'') = PB_DENY \<or>
   an_behavior (analyze_at (Suc 3) ''bash -c mkfs'') = PB_ASK \<and> an_bypass_immune (analyze_at (Suc 3) ''bash -c mkfs'')"
proof -
  have "''bash -c mkfs'' \<in> set (split_subcommands ''bash -c mkfs'')" "wrapped_command ''bash -c mkfs'' = Some ''mkfs''"
    by code_simp+
  moreover have "an_behavior (analyze_at 3 ''mkfs'') = PB_DENY" by code_simp
  ultimately show ?thesis by (rule wrapped_denial_survives)
qed

text \<open>The analysis takes some commands for read-only that are not. Neither the background operator
  \<open>&\<close> nor a redirection without a space before it is seen: running an arbitrary program in the
  background of \<open>ls\<close> and overwriting a file with the output of \<open>ls\<close> are allowed without a
  question, in every mode.\<close>

theorem read_only_evaded:
  "behavior (shell_check_permissions ''bash'' enabled mode [(''command'', PStr ''ls & python x.py'')]) = PB_ALLOW \<and>
   behavior (shell_check_permissions ''bash'' enabled mode [(''command'', PStr ''ls a>b'')]) = PB_ALLOW"
proof -
  have "an_behavior (analyze_command ''ls & python x.py'') = PB_ALLOW" "an_behavior (analyze_command ''ls a>b'') = PB_ALLOW"
    by code_simp+
  then show ?thesis by (simp add: shell_check_permissions_def Let_def dict_get_def result_defs)
qed

end
