(* ===== verification/Execution_Scope.thy ===== *)
theory Execution_Scope
  imports Polaris_Prelude
begin

text \<open>
  \<^verbatim>\<open>agent_core/execution.py\<close> and \<^verbatim>\<open>agent_core/codeintel/budget.py\<close>: the authority and the lifetime that
  one execution tree shares, and the consumable budget of a code query. A cancellation token is a
  mutable object: a scope holds its address (\<open>sc_token\<close>), and the operations pass the store of
  tokens along. The monotonic clock and the answer of a cancellation probe are arguments. Awaiting
  (\<open>run_awaitable\<close>, \<open>sleep\<close>), the registry of asynchronous tasks and the context variable belong to
  the event loop and are not modelled.
\<close>

section \<open>Cancellation\<close>

datatype scope_error = CancelledError string | TimeoutError string | BudgetExceeded string

record cancellation_token =
  tk_event :: bool
  tk_reason :: string

definition new_token :: cancellation_token where
  "new_token = \<lparr>tk_event = False, tk_reason = ''cancelled''\<rparr>"

definition cancel :: "string \<Rightarrow> cancellation_token \<Rightarrow> cancellation_token" where
  "cancel reason t = \<lparr>tk_event = True, tk_reason = (if reason = [] then ''cancelled'' else reason)\<rparr>"

definition token_raise :: "cancellation_token \<Rightarrow> scope_error + unit" where
  "token_raise t = (if tk_event t then Inl (CancelledError (tk_reason t)) else Inr ())"

type_synonym tokens = "nat \<Rightarrow> cancellation_token"

section \<open>Scopes\<close>

record execution_scope =
  sc_workspace :: string
  sc_git_common_dir :: "string option"
  sc_read_only_roots :: "string list"
  sc_writable_roots :: "string list"
  sc_private_temp :: "string option"
  sc_network_allow :: bool
  sc_workspace_writable :: bool
  sc_deadline :: "real option"
  sc_token :: nat
  sc_has_probe :: bool
  sc_recovery_context :: "(string \<times> string) list"
  sc_cleanup_timeout :: real

text \<open>\<open>for_workspace\<close>; \<open>resolve\<close> is \<open>Path.resolve\<close> on the file system, and \<open>token\<close> the address of the token that
  is passed in or, without one, of a new one.\<close>

definition for_workspace ::
  "(string \<Rightarrow> string) \<Rightarrow> string \<Rightarrow> string option \<Rightarrow> string list \<Rightarrow> string list \<Rightarrow> string option \<Rightarrow> bool \<Rightarrow> bool \<Rightarrow>
   real option \<Rightarrow> nat \<Rightarrow> bool \<Rightarrow> (string \<times> string) list option \<Rightarrow> real \<Rightarrow> execution_scope" where
  "for_workspace resolve workspace git_common read_only writable_roots private_temp network writable deadline
     token probe context cleanup =
     \<lparr>sc_workspace = resolve workspace,
      sc_git_common_dir = map_option resolve git_common,
      sc_read_only_roots = map resolve read_only,
      sc_writable_roots = map resolve writable_roots,
      sc_private_temp = map_option resolve private_temp,
      sc_network_allow = network,
      sc_workspace_writable = writable,
      sc_deadline = deadline,
      sc_token = token,
      sc_has_probe = probe,
      sc_recovery_context = (case context of None \<Rightarrow> [] | Some c \<Rightarrow> c),
      sc_cleanup_timeout = max (1 / 100) cleanup\<rparr>"

definition scope_cancelled :: "bool \<Rightarrow> execution_scope \<Rightarrow> tokens \<Rightarrow> bool" where
  "scope_cancelled probe s ts \<longleftrightarrow> tk_event (ts (sc_token s)) \<or> sc_has_probe s \<and> probe"

definition raise_if_cancelled ::
  "real \<Rightarrow> bool \<Rightarrow> execution_scope \<Rightarrow> tokens \<Rightarrow> tokens \<times> (scope_error + unit)" where
  "raise_if_cancelled now probe s ts =
     (if scope_cancelled probe s ts then
        (let ts' = (if tk_event (ts (sc_token s)) then ts
                    else ts(sc_token s := cancel ''cancel probe requested cancellation'' (ts (sc_token s))))
         in (ts', token_raise (ts' (sc_token s))))
      else (ts, case sc_deadline s of
                 Some d \<Rightarrow> if now \<ge> d then Inl (TimeoutError ''execution deadline exceeded'') else Inr ()
               | None \<Rightarrow> Inr ()))"

definition remaining_budget :: "real \<Rightarrow> real option \<Rightarrow> execution_scope \<Rightarrow> real option" where
  "remaining_budget now requested s =
     (let remaining = map_option (\<lambda>d. max 0 (d - now)) (sc_deadline s)
      in case requested of
           None \<Rightarrow> remaining
         | Some r \<Rightarrow> (case remaining of None \<Rightarrow> Some (max 0 r) | Some m \<Rightarrow> Some (min (max 0 r) m)))"

text \<open>\<open>dict.update\<close>.\<close>

fun ctx_put :: "(string \<times> string) list \<Rightarrow> string \<Rightarrow> string \<Rightarrow> (string \<times> string) list" where
  "ctx_put [] k v = [(k, v)]"
| "ctx_put ((k', v') # d) k v = (if k' = k then (k, v) # d else (k', v') # ctx_put d k v)"

record child_request =
  cr_deadline :: "real option"
  cr_workspace :: "string option"
  cr_network :: "bool option"
  cr_workspace_writable :: "bool option"
  cr_recovery_context :: "(string \<times> string) list option"

text \<open>\<open>dataclasses.replace\<close> hands on every field that is not named, the token with it.\<close>

definition child :: "(string \<Rightarrow> string) \<Rightarrow> child_request \<Rightarrow> execution_scope \<Rightarrow> execution_scope" where
  "child resolve r s =
     (let child_deadline = (case sc_deadline s of
            None \<Rightarrow> cr_deadline r
          | Some d \<Rightarrow> (case cr_deadline r of None \<Rightarrow> Some d | Some e \<Rightarrow> Some (min d e)));
          wanted_network = (case cr_network r of None \<Rightarrow> sc_network_allow s | Some n \<Rightarrow> n);
          child_network = (if \<not> sc_network_allow s \<and> wanted_network then False else wanted_network);
          wanted_writable = (case cr_workspace_writable r of None \<Rightarrow> sc_workspace_writable s | Some w \<Rightarrow> w);
          child_writable = (if \<not> sc_workspace_writable s then False else wanted_writable);
          context = fold (\<lambda>(k, v) d. ctx_put d k v)
            (case cr_recovery_context r of None \<Rightarrow> [] | Some c \<Rightarrow> c) (sc_recovery_context s)
      in s\<lparr>sc_workspace := (case cr_workspace r of Some w \<Rightarrow> resolve w | None \<Rightarrow> sc_workspace s),
           sc_network_allow := child_network,
           sc_workspace_writable := child_writable,
           sc_deadline := child_deadline,
           sc_recovery_context := context\<rparr>)"

text \<open>\<open>close\<close>, as far as the token is concerned.\<close>

definition close_scope :: "execution_scope \<Rightarrow> tokens \<Rightarrow> tokens" where
  "close_scope s ts = ts(sc_token s := cancel ''execution scope closed'' (ts (sc_token s)))"

section \<open>The budget of a code query\<close>

record codeintel_limits =
  cf_query_seconds :: real
  cf_max_files :: int
  cf_max_bytes :: int
  cf_max_candidates :: int
  cf_max_edges :: int
  cf_max_context_tokens :: int

record query_budget =
  qb_limits :: codeintel_limits
  qb_scope :: "execution_scope option"
  qb_started :: real
  qb_deadline :: real
  qb_files :: int
  qb_bytes :: int
  qb_candidates :: int
  qb_edges :: int
  qb_output_bytes :: int
  qb_cancelled :: bool

definition new_budget :: "real \<Rightarrow> codeintel_limits \<Rightarrow> execution_scope option \<Rightarrow> query_budget" where
  "new_budget now limits scope =
     (let deadline = now + cf_query_seconds limits
      in \<lparr>qb_limits = limits, qb_scope = scope, qb_started = now,
          qb_deadline = (case scope of
             Some s \<Rightarrow> (case sc_deadline s of Some d \<Rightarrow> min deadline d | None \<Rightarrow> deadline)
           | None \<Rightarrow> deadline),
          qb_files = 0, qb_bytes = 0, qb_candidates = 0, qb_edges = 0, qb_output_bytes = 0,
          qb_cancelled = False\<rparr>)"

definition check :: "real \<Rightarrow> bool \<Rightarrow> query_budget \<Rightarrow> tokens \<Rightarrow> tokens \<times> (scope_error + unit)" where
  "check now probe b t =
     (if qb_cancelled b then (t, Inl (BudgetExceeded ''cancelled''))
      else case (case qb_scope b of Some s \<Rightarrow> raise_if_cancelled now probe s t | None \<Rightarrow> (t, Inr ())) of
             (t', Inl e) \<Rightarrow> (t', Inl e)
           | (t', Inr _) \<Rightarrow> (t', if now \<ge> qb_deadline b then Inl (BudgetExceeded ''deadline'') else Inr ()))"

fun first_exceeded :: "(string \<times> int \<times> int \<times> int) list \<Rightarrow> scope_error + unit" where
  "first_exceeded [] = Inr ()"
| "first_exceeded ((key, used, amount, limit) # rest) =
     (if used + amount > limit then Inl (BudgetExceeded (''max_'' @ key)) else first_exceeded rest)"

definition consume ::
  "real \<Rightarrow> bool \<Rightarrow> int \<Rightarrow> int \<Rightarrow> int \<Rightarrow> int \<Rightarrow> query_budget \<Rightarrow> tokens \<Rightarrow>
   query_budget \<times> tokens \<times> (scope_error + unit)" where
  "consume now probe files bytes candidates edges b t =
     (case check now probe b t of
        (t', Inl e) \<Rightarrow> (b, t', Inl e)
      | (t', Inr _) \<Rightarrow>
          (case first_exceeded
                 [(''files'', qb_files b, files, cf_max_files (qb_limits b)),
                  (''bytes'', qb_bytes b, bytes, cf_max_bytes (qb_limits b)),
                  (''candidates'', qb_candidates b, candidates, cf_max_candidates (qb_limits b)),
                  (''edges'', qb_edges b, edges, cf_max_edges (qb_limits b))] of
             Inl e \<Rightarrow> (b, t', Inl e)
           | Inr _ \<Rightarrow> (b\<lparr>qb_files := qb_files b + files, qb_bytes := qb_bytes b + bytes,
                        qb_candidates := qb_candidates b + candidates, qb_edges := qb_edges b + edges\<rparr>, t', Inr ())))"

text \<open>\<open>output\<close> counts the UTF-8 bytes of a text: one for a code point below 128, two for the others
  of the modelled range.\<close>

definition utf8_size :: "string \<Rightarrow> int" where
  "utf8_size s = sum_list (map (\<lambda>c. if (of_char c :: nat) < 128 then 1 else 2) s)"

definition budget_output :: "string \<Rightarrow> query_budget \<Rightarrow> query_budget \<times> (scope_error + unit)" where
  "budget_output s b =
     (if qb_output_bytes b + utf8_size s > cf_max_context_tokens (qb_limits b)
      then (b, Inl (BudgetExceeded ''context_tokens''))
      else (b\<lparr>qb_output_bytes := qb_output_bytes b + utf8_size s\<rparr>, Inr ()))"

section \<open>A child scope never has more than its parent\<close>

text \<open>What a scope lets the code under it do and until when; \<open>None\<close> is no deadline.\<close>

definition no_later :: "real option \<Rightarrow> real option \<Rightarrow> bool" where
  "no_later d e \<longleftrightarrow> (case e of None \<Rightarrow> True | Some y \<Rightarrow> (case d of None \<Rightarrow> False | Some x \<Rightarrow> x \<le> y))"

definition confined_by :: "execution_scope \<Rightarrow> execution_scope \<Rightarrow> bool" where
  "confined_by c s \<longleftrightarrow>
     (sc_network_allow c \<longrightarrow> sc_network_allow s) \<and>
     (sc_workspace_writable c \<longrightarrow> sc_workspace_writable s) \<and>
     no_later (sc_deadline c) (sc_deadline s) \<and>
     sc_read_only_roots c = sc_read_only_roots s \<and> sc_writable_roots c = sc_writable_roots s \<and>
     sc_private_temp c = sc_private_temp s \<and> sc_token c = sc_token s \<and> sc_has_probe c = sc_has_probe s"

lemma confined_by_refl: "confined_by s s"
  by (auto simp: confined_by_def no_later_def split: option.splits)

lemma confined_by_trans: "confined_by a b \<Longrightarrow> confined_by b c \<Longrightarrow> confined_by a c"
  by (auto simp: confined_by_def no_later_def split: option.splits)

lemma child_within: "confined_by (child resolve r s) s"
  by (simp add: child_def Let_def confined_by_def no_later_def split: option.splits)

lemma descendant_within: "confined_by (fold (child resolve) rs s) s"
proof (induction rs arbitrary: s)
  case (Cons r rs)
  from confined_by_trans [OF Cons.IH child_within] show ?case by simp
qed (simp add: confined_by_refl)

lemma no_later_remaining:
  assumes "confined_by c s" "remaining_budget now q s = Some m"
  shows "\<exists>k. remaining_budget now q c = Some k \<and> k \<le> m"
proof (cases "sc_deadline s")
  case None
  with assms(2) show ?thesis
    by (cases q; cases "sc_deadline c") (auto simp: remaining_budget_def)
next
  case (Some d)
  with assms(1) obtain e where "sc_deadline c = Some e" "e \<le> d"
    by (auto simp: confined_by_def no_later_def split: option.splits)
  with Some assms(2) show ?thesis by (cases q) (auto simp: remaining_budget_def)
qed

lemma cancelled_everywhere:
  assumes "tk_event (ts (sc_token s))"
  shows "raise_if_cancelled now probe s ts = (ts, Inl (CancelledError (tk_reason (ts (sc_token s)))))"
  using assms by (simp add: raise_if_cancelled_def scope_cancelled_def token_raise_def)

lemma deadline_everywhere:
  assumes "confined_by c s" "sc_deadline s = Some d" "now \<ge> d"
  shows "snd (raise_if_cancelled now probe c t) \<noteq> Inr ()"
  using assms
  by (auto simp: raise_if_cancelled_def Let_def token_raise_def cancel_def scope_cancelled_def confined_by_def no_later_def
      split: option.splits)

text \<open>C26. Authority only shrinks down a tree of scopes. However a descendant was derived, through any
  number of children with any requests: it has the network or a writable workspace only if the
  ancestor has, its roots are the ancestor's, what it gets of any requested time is at most what
  the ancestor gets, it stops when the ancestor's deadline has passed, and closing the ancestor stops
  it. The token is shared, so closing the descendant stops the ancestor as well.\<close>

theorem descendant_scope_confined:
  assumes "c = fold (child resolve) requests s"
  shows "(sc_network_allow c \<longrightarrow> sc_network_allow s) \<and> (sc_workspace_writable c \<longrightarrow> sc_workspace_writable s) \<and>
    sc_read_only_roots c = sc_read_only_roots s \<and> sc_writable_roots c = sc_writable_roots s \<and>
    (\<forall>m. remaining_budget now q s = Some m \<longrightarrow> (\<exists>k. remaining_budget now q c = Some k \<and> k \<le> m)) \<and>
    (\<forall>d. sc_deadline s = Some d \<and> d \<le> now \<longrightarrow> snd (raise_if_cancelled now probe c t) \<noteq> Inr ()) \<and>
    snd (raise_if_cancelled now probe c (close_scope s t)) = Inl (CancelledError ''execution scope closed'') \<and>
    snd (raise_if_cancelled now probe s (close_scope c t)) = Inl (CancelledError ''execution scope closed'')"
proof -
  have w: "confined_by c s" using assms descendant_within by simp
  then have "sc_token c = sc_token s" by (simp add: confined_by_def)
  then have "snd (raise_if_cancelled now probe c (close_scope s t)) = Inl (CancelledError ''execution scope closed'')"
    "snd (raise_if_cancelled now probe s (close_scope c t)) = Inl (CancelledError ''execution scope closed'')"
    by (simp_all add: cancelled_everywhere close_scope_def cancel_def)
  with w no_later_remaining [OF w] deadline_everywhere [OF w] show ?thesis
    by (simp add: confined_by_def)
qed

definition example_scope :: execution_scope where
  "example_scope = for_workspace (\<lambda>p. p) ''/w'' None [] [] None False True (Some 10) 0 False None 5"

definition example_child :: child_request where
  "example_child = \<lparr>cr_deadline = Some 20, cr_workspace = None, cr_network = Some True,
     cr_workspace_writable = None, cr_recovery_context = None\<rparr>"

theorem descendant_scope_confined_witness:
  "\<not> sc_network_allow (fold (child (\<lambda>p. p)) [example_child] example_scope)"
  using descendant_scope_confined [OF refl, where resolve = "\<lambda>p. p" and requests = "[example_child]" and s = example_scope]
  by (simp add: example_scope_def for_workspace_def)

section \<open>A query never spends more than its budget\<close>

datatype budget_call =
    Consume real bool int int int int
  | Output string
  | CancelBudget

fun budget_step :: "budget_call \<Rightarrow> query_budget \<times> tokens \<Rightarrow> query_budget \<times> tokens" where
  "budget_step (Consume now probe f n c e) (b, t) =
     (case consume now probe f n c e b t of (b', t', _) \<Rightarrow> (b', t'))"
| "budget_step (Output s) (b, t) = (fst (budget_output s b), t)"
| "budget_step CancelBudget (b, t) = (b\<lparr>qb_cancelled := True\<rparr>, t)"

definition spent_ok :: "query_budget \<Rightarrow> bool" where
  "spent_ok b \<longleftrightarrow> qb_files b \<le> cf_max_files (qb_limits b) \<and> qb_bytes b \<le> cf_max_bytes (qb_limits b) \<and>
     qb_candidates b \<le> cf_max_candidates (qb_limits b) \<and> qb_edges b \<le> cf_max_edges (qb_limits b) \<and>
     qb_output_bytes b \<le> cf_max_context_tokens (qb_limits b)"

lemma check_passed: "check now probe b t = (t', Inr u) \<Longrightarrow> \<not> qb_cancelled b \<and> now < qb_deadline b"
  by (auto simp: check_def split: if_splits prod.splits sum.splits)

lemma first_exceeded_None:
  "first_exceeded xs = Inr u \<longleftrightarrow> (\<forall>(key, used, amount, limit) \<in> set xs. used + amount \<le> limit)"
  by (induction xs rule: first_exceeded.induct) auto

lemma consume_cases:
  obtains (refused) t' e where "consume now probe f n c g b t = (b, t', Inl e)"
  | (spent) t' where "consume now probe f n c g b t =
        (b\<lparr>qb_files := qb_files b + f, qb_bytes := qb_bytes b + n, qb_candidates := qb_candidates b + c,
           qb_edges := qb_edges b + g\<rparr>, t', Inr ())"
      "qb_files b + f \<le> cf_max_files (qb_limits b)" "qb_bytes b + n \<le> cf_max_bytes (qb_limits b)"
      "qb_candidates b + c \<le> cf_max_candidates (qb_limits b)" "qb_edges b + g \<le> cf_max_edges (qb_limits b)"
      "\<not> qb_cancelled b" "now < qb_deadline b"
proof (cases "check now probe b t")
  case (Pair t' r)
  show thesis
  proof (cases r)
    case (Inl e)
    with Pair show thesis by (intro refused) (simp add: consume_def)
  next
    case (Inr u)
    let ?xs = "[(''files'', qb_files b, f, cf_max_files (qb_limits b)), (''bytes'', qb_bytes b, n, cf_max_bytes (qb_limits b)),
      (''candidates'', qb_candidates b, c, cf_max_candidates (qb_limits b)), (''edges'', qb_edges b, g, cf_max_edges (qb_limits b))]"
    show thesis
    proof (cases "first_exceeded ?xs")
      case (Inl e)
      with Pair Inr show thesis by (intro refused) (simp add: consume_def del: first_exceeded.simps)
    next
      case ok: (Inr v)
      from ok [unfolded first_exceeded_None] check_passed [OF Pair [unfolded Inr]] Pair Inr ok show thesis
        by (intro spent) (simp_all add: consume_def del: first_exceeded.simps)
    qed
  qed
qed

lemma budget_step_ok: "spent_ok (fst bt) \<Longrightarrow> spent_ok (fst (budget_step x bt)) \<and> qb_limits (fst (budget_step x bt)) = qb_limits (fst bt)"
proof (cases bt)
  case (Pair b t)
  assume ok: "spent_ok (fst bt)"
  show ?thesis
  proof (cases x)
    case (Consume now probe f n c e)
    show ?thesis
      by (rule consume_cases [of now probe f n c e b t]) (use ok Pair Consume in \<open>simp_all add: spent_ok_def\<close>)
  next
    case (Output s)
    with ok Pair show ?thesis by (simp add: budget_output_def spent_ok_def)
  next
    case CancelBudget
    with ok Pair show ?thesis by (simp add: spent_ok_def)
  qed
qed

lemma budget_steps_ok:
  "spent_ok (fst bt) \<Longrightarrow> spent_ok (fst (fold budget_step xs bt)) \<and> qb_limits (fst (fold budget_step xs bt)) = qb_limits (fst bt)"
proof (induction xs arbitrary: bt)
  case (Cons x xs)
  from budget_step_ok [OF Cons.prems] Cons.IH show ?case by simp
qed simp

text \<open>C31. One budget covers every stage of a query. After any sequence of calls on a fresh budget, with
  whatever amounts, no counter exceeds its limit; and a consumption that goes through happens
  before the deadline of the query, which is never after that of its scope, and not after it was
  cancelled, while a refused one changes no counter.\<close>

theorem budget_never_exceeded:
  assumes "0 \<le> cf_max_files l" "0 \<le> cf_max_bytes l" "0 \<le> cf_max_candidates l" "0 \<le> cf_max_edges l"
    "0 \<le> cf_max_context_tokens l"
    and "fold budget_step calls (new_budget start l scope, tok) = (b, t)"
  shows "qb_files b \<le> cf_max_files l \<and> qb_bytes b \<le> cf_max_bytes l \<and> qb_candidates b \<le> cf_max_candidates l \<and>
    qb_edges b \<le> cf_max_edges l \<and> qb_output_bytes b \<le> cf_max_context_tokens l \<and>
    (case consume now probe f n c e b t of
       (b', _, Inr _) \<Rightarrow> now < qb_deadline b \<and> \<not> qb_cancelled b \<and> qb_files b' = qb_files b + f
     | (b', _, Inl _) \<Rightarrow> b' = b) \<and>
    (case new_budget start l scope of fresh \<Rightarrow>
       qb_deadline fresh \<le> start + cf_query_seconds l \<and>
       (\<forall>s d. scope = Some s \<and> sc_deadline s = Some d \<longrightarrow> qb_deadline fresh \<le> d))"
proof -
  have fresh: "spent_ok (new_budget start l scope)" "qb_limits (new_budget start l scope) = l"
    using assms(1-5) by (simp_all add: new_budget_def spent_ok_def Let_def)
  from budget_steps_ok [of "(new_budget start l scope, tok)" calls] fresh assms(6)
  have ok: "spent_ok b" "qb_limits b = l" by simp_all
  have "case consume now probe f n c e b t of
       (b', _, Inr _) \<Rightarrow> now < qb_deadline b \<and> \<not> qb_cancelled b \<and> qb_files b' = qb_files b + f
     | (b', _, Inl _) \<Rightarrow> b' = b"
    by (rule consume_cases [of now probe f n c e b t]) simp_all
  moreover have "qb_deadline (new_budget start l scope) \<le> start + cf_query_seconds l \<and>
       (\<forall>s d. scope = Some s \<and> sc_deadline s = Some d \<longrightarrow> qb_deadline (new_budget start l scope) \<le> d)"
    by (auto simp: new_budget_def Let_def split: option.splits)
  ultimately show ?thesis using ok by (simp add: spent_ok_def)
qed

definition example_limits :: codeintel_limits where
  "example_limits = \<lparr>cf_query_seconds = 5, cf_max_files = 2, cf_max_bytes = 100, cf_max_candidates = 10,
     cf_max_edges = 10, cf_max_context_tokens = 4\<rparr>"

theorem budget_never_exceeded_witness:
  "qb_files (fst (fold budget_step [Consume 1 False 2 50 0 0, Consume 2 False 1 0 0 0, Output ''abc'']
     (new_budget 0 example_limits (Some example_scope), \<lambda>_. new_token))) \<le> 2"
proof -
  have lim: "0 \<le> cf_max_files example_limits" "0 \<le> cf_max_bytes example_limits" "0 \<le> cf_max_candidates example_limits"
    "0 \<le> cf_max_edges example_limits" "0 \<le> cf_max_context_tokens example_limits" "cf_max_files example_limits = 2"
    by (simp_all add: example_limits_def)
  show ?thesis
    using budget_never_exceeded [OF lim(1-5) surjective_pairing,
        where calls = "[Consume 1 False 2 50 0 0, Consume 2 False 1 0 0 0, Output ''abc'']"
          and start = 0 and scope = "Some example_scope" and tok = "\<lambda>_. new_token"] lim(6) by simp
qed

end
