(* ===== verification/Candidate_Pool.thy ===== *)
theory Candidate_Pool
  imports Json
begin

text \<open>
  \<^verbatim>\<open>agent_core/codeintel/candidate_pool.py\<close>: the records a task keeps about places in the code it may
  want to edit. A record is a dictionary, as in the code, because records are also read back from
  stored sessions. \<open>sha256(json.dumps(v))\<close> is the argument \<open>digest\<close>. Python compares dictionaries
  without regard to order (\<open>dict_eq\<close>, one level deep: versions are flat).
\<close>

section \<open>Dictionary access\<close>

definition get_list :: "pydict \<Rightarrow> string \<Rightarrow> pyval list" where
  "get_list r k = (case dict_get r k PNone of PList xs \<Rightarrow> xs | _ \<Rightarrow> [])"

definition get_dict :: "pydict \<Rightarrow> string \<Rightarrow> pydict" where
  "get_dict r k = (case dict_get r k PNone of PDict d \<Rightarrow> d | _ \<Rightarrow> [])"

lemma get_dict_put:
  "get_dict (dict_put d k v) j = (if j = k then (case v of PDict e \<Rightarrow> e | _ \<Rightarrow> []) else get_dict d j)"
  by (simp add: get_dict_def)

definition dict_eq :: "pydict \<Rightarrow> pydict \<Rightarrow> bool" where
  "dict_eq d e \<longleftrightarrow> list_all (\<lambda>k. map_of d k = map_of e k) (map fst d @ map fst e)"

lemma dict_eq_iff: "dict_eq d e \<longleftrightarrow> map_of d = map_of e"
proof
  assume eq: "dict_eq d e"
  show "map_of d = map_of e"
  proof
    fix k
    show "map_of d k = map_of e k"
    proof (cases "k \<in> set (map fst d @ map fst e)")
      case True
      with eq show ?thesis by (simp add: dict_eq_def list_all_iff)
    next
      case False
      then have "map_of d k = None" "map_of e k = None" by (auto simp: map_of_eq_None_iff)
      then show ?thesis by simp
    qed
  qed
qed (simp add: dict_eq_def list_all_iff)

text \<open>\<open>v == n\<close> for an integer \<open>n\<close>: Python's \<open>True\<close> is 1 and \<open>2.0\<close> is 2.\<close>

definition num_eq :: "pyval \<Rightarrow> int \<Rightarrow> bool" where
  "num_eq v n \<longleftrightarrow> v = PInt n \<or> v = PFloat (int_str n @ ''.0'') \<or> (case v of PBool b \<Rightarrow> n = of_bool b | _ \<Rightarrow> False)"

text \<open>\<open>v in s\<close> for a frozen set of strings: a list or a dictionary is not hashable.\<close>

fun in_frozenset :: "string list \<Rightarrow> pyval \<Rightarrow> bool py_result" where
  "in_frozenset s (PList _) = Inl (TypeError ''unhashable type: list'')"
| "in_frozenset s (PDict _) = Inl (TypeError ''unhashable type: dict'')"
| "in_frozenset s (PStr x) = Inr (x \<in> set s)"
| "in_frozenset s _ = Inr False"

text \<open>\<open>v[:n]\<close>.\<close>

fun py_prefix :: "nat \<Rightarrow> pyval \<Rightarrow> pyval py_result" where
  "py_prefix n (PStr s) = Inr (PStr (take n s))"
| "py_prefix n (PList xs) = Inr (PList (take n xs))"
| "py_prefix n _ = Inl (TypeError ''object is not subscriptable'')"

definition opt_str :: "string option \<Rightarrow> pyval" where
  "opt_str s = (case s of None \<Rightarrow> PNone | Some x \<Rightarrow> PStr x)"

section \<open>Records\<close>

definition roles :: "string list" where
  "roles = [''target'', ''dependency'', ''test'', ''unknown'']"

definition validation_states :: "string list" where
  "validation_states = [''needs_revalidation'', ''anchor_valid'', ''stale'', ''invalid'']"

definition max_evidence :: nat where "max_evidence = 16"
definition max_text :: nat where "max_text = 512"

definition range_value :: "(int \<times> int) option \<Rightarrow> pyval" where
  "range_value r = (case r of None \<Rightarrow> PNone | Some (a, b) \<Rightarrow> PList [PInt a, PInt b])"

definition candidate_id :: "(pyval \<Rightarrow> string) \<Rightarrow> string \<Rightarrow> pydict option \<Rightarrow> (int \<times> int) option \<Rightarrow> string" where
  "candidate_id digest path symbol line_range =
     (let symbol_key = (case symbol of
            Some s \<Rightarrow> PList [dict_get s ''qualified'' PNone, dict_get s ''kind'' PNone, dict_get s ''range'' PNone]
          | None \<Rightarrow> PNone)
      in take 24 (digest (PList [PStr path, symbol_key, range_value line_range])))"

definition bounded_text :: "string option \<Rightarrow> string option" where
  "bounded_text v = (case v of Some s \<Rightarrow> if py_strip s \<noteq> [] then Some (take max_text s) else None | None \<Rightarrow> None)"

fun bounded_refs_loop :: "pyval list \<Rightarrow> string list \<Rightarrow> string list" where
  "bounded_refs_loop [] result = result"
| "bounded_refs_loop (v # vs) result =
     (let result' = (case v of
            PStr s \<Rightarrow> if py_strip s \<noteq> [] \<and> take max_text s \<notin> set result then result @ [take max_text s] else result
          | _ \<Rightarrow> result)
      in if length result' \<ge> max_evidence then result' else bounded_refs_loop vs result')"

definition bounded_refs :: "pyval \<Rightarrow> string list" where
  "bounded_refs v = (case v of PList vs \<Rightarrow> bounded_refs_loop vs [] | _ \<Rightarrow> [])"

definition new_candidate ::
  "(pyval \<Rightarrow> string) \<Rightarrow> string \<Rightarrow> pydict \<Rightarrow> pydict option \<Rightarrow> (int \<times> int) option \<Rightarrow> string \<Rightarrow> string \<Rightarrow> pydict py_result" where
  "new_candidate digest path version symbol line_range origin role =
     (if role \<notin> set roles then Inl (ValueError ''invalid candidate role'')
      else Inr
        [(''schema_version'', PInt 1),
         (''id'', PStr (candidate_id digest path symbol line_range)),
         (''path'', PStr path),
         (''expected_version'', PDict version),
         (''symbol'', case symbol of None \<Rightarrow> PNone | Some s \<Rightarrow> PDict s),
         (''range'', range_value line_range),
         (''role'', PStr role),
         (''evidence_refs'', PList []),
         (''supporting'', PList []),
         (''contradicting'', PList []),
         (''assessment'', PStr []),
         (''anchor_validation'', PNone),
         (''relevance_validation'', PNone),
         (''validation_state'', PStr ''needs_revalidation''),
         (''invalidation_reason'', PNone),
         (''origin'', PStr (take max_text origin))])"

text \<open>\<open>validate_record\<close> decides whether a stored record is taken back. The test of a state or role
  that is a list or a dictionary raises.\<close>

definition str_upto :: "nat \<Rightarrow> pyval \<Rightarrow> bool" where
  "str_upto n v \<longleftrightarrow> (case v of PStr s \<Rightarrow> 0 < length s \<and> length s \<le> n | _ \<Rightarrow> False)"

definition is_str :: "pyval \<Rightarrow> bool" where
  "is_str v \<longleftrightarrow> (case v of PStr _ \<Rightarrow> True | _ \<Rightarrow> False)"

definition is_dict :: "pyval \<Rightarrow> bool" where
  "is_dict v \<longleftrightarrow> (case v of PDict _ \<Rightarrow> True | _ \<Rightarrow> False)"

definition version_ok :: "pyval \<Rightarrow> pyval \<Rightarrow> bool" where
  "version_ok path v \<longleftrightarrow>
     (case v of
        PDict ver \<Rightarrow> dict_get ver ''path'' PNone = path \<and> is_str (dict_get ver ''worktree_id'' PNone) \<and>
          (case dict_get ver ''sha256'' PNone of PStr h \<Rightarrow> length h = 64 | _ \<Rightarrow> False)
      | _ \<Rightarrow> False)"

definition evidence_list_ok :: "pyval \<Rightarrow> bool" where
  "evidence_list_ok v \<longleftrightarrow> (case v of PList xs \<Rightarrow> length xs \<le> max_evidence | _ \<Rightarrow> False)"

definition range_ok :: "pyval \<Rightarrow> bool" where
  "range_ok v \<longleftrightarrow>
     (case v of PNone \<Rightarrow> True
      | PList xs \<Rightarrow> length xs = 2 \<and> list_all (\<lambda>x. case x of PInt i \<Rightarrow> i \<ge> 1 | _ \<Rightarrow> False) xs
      | _ \<Rightarrow> False)"

definition validate_record :: "pyval \<Rightarrow> bool py_result" where
  "validate_record record =
     (case record of
        PDict r \<Rightarrow>
          (if \<not> num_eq (dict_get r ''schema_version'' PNone) 1 then Inr False
           else if \<not> str_upto 64 (dict_get r ''id'' PNone) \<or> \<not> str_upto 4096 (dict_get r ''path'' PNone) then Inr False
           else if \<not> version_ok (dict_get r ''path'' PNone) (dict_get r ''expected_version'' PNone) then Inr False
           else bind_res (in_frozenset roles (dict_get r ''role'' PNone)) (\<lambda>known_role.
             if \<not> known_role then Inr False
             else bind_res (in_frozenset validation_states (dict_get r ''validation_state'' PNone)) (\<lambda>known_state.
               Inr (known_state \<and>
                 list_all (\<lambda>k. evidence_list_ok (dict_get r k PNone)) [''evidence_refs'', ''supporting'', ''contradicting''] \<and>
                 list_all (\<lambda>k. dict_get r k PNone = PNone \<or> is_str (dict_get r k PNone))
                   [''assessment'', ''invalidation_reason'', ''origin''] \<and>
                 (dict_get r ''symbol'' PNone = PNone \<or> is_dict (dict_get r ''symbol'' PNone)) \<and>
                 range_ok (dict_get r ''range'' PNone) \<and>
                 list_all (\<lambda>k. dict_get r k PNone = PNone \<or> is_dict (dict_get r k PNone))
                   [''anchor_validation'', ''relevance_validation'']))))
      | _ \<Rightarrow> Inr False)"

section \<open>Merging evidence\<close>

text \<open>The append to a bounded list without duplicates that \<open>merge_evidence\<close> makes twice.\<close>

definition append_new :: "string \<Rightarrow> string \<Rightarrow> pydict \<Rightarrow> pydict \<times> bool" where
  "append_new k s r =
     (if PStr s \<notin> set (get_list r k) \<and> length (get_list r k) < max_evidence
      then (dict_put r k (PList (get_list r k @ [PStr s])), True) else (r, False))"

definition assign_role :: "string \<Rightarrow> pydict \<Rightarrow> pydict \<times> bool" where
  "assign_role x r =
     (if x \<in> set roles \<and> dict_get r ''role'' PNone = PStr ''unknown'' then (dict_put r ''role'' (PStr x), True) else (r, False))"

definition observe_version :: "pydict \<Rightarrow> pydict \<Rightarrow> pydict \<times> bool" where
  "observe_version v r =
     (if \<not> dict_eq v (get_dict r ''expected_version'') then
        (let r' = dict_put r ''expected_version'' (PDict v)
         in (if dict_get r' ''validation_state'' PNone = PStr ''anchor_valid''
             then dict_put (dict_put r' ''validation_state'' (PStr ''needs_revalidation''))
                    ''invalidation_reason'' (PStr ''observed version changed'')
             else r', True))
      else (r, False))"

definition contradict :: "string option \<Rightarrow> pydict \<Rightarrow> pydict" where
  "contradict note_text r =
     dict_put
       (dict_put r ''validation_state''
          (PStr (if dict_get r ''validation_state'' PNone \<noteq> PStr ''stale'' then ''invalid'' else ''stale'')))
       ''invalidation_reason'' (PStr (case note_text of Some t \<Rightarrow> t | None \<Rightarrow> ''contradicting evidence''))"

definition merge_evidence ::
  "string \<Rightarrow> string option \<Rightarrow> bool \<Rightarrow> string option \<Rightarrow> pydict option \<Rightarrow> pydict \<Rightarrow> pydict \<times> bool" where
  "merge_evidence evidence_ref note_arg contradicts role version r0 =
     (let (r1, c1) = append_new ''evidence_refs'' (take max_text evidence_ref) r0;
          note_text = bounded_text note_arg;
          (r2, c2) = (case note_text of
             Some t \<Rightarrow> append_new (if contradicts then ''contradicting'' else ''supporting'') t r1
           | None \<Rightarrow> (r1, False));
          (r3, c3) = (case role of Some x \<Rightarrow> assign_role x r2 | None \<Rightarrow> (r2, False));
          (r4, c4) = (case version of Some v \<Rightarrow> observe_version v r3 | None \<Rightarrow> (r3, False))
      in if contradicts then (contradict note_text r4, True) else (r4, c1 \<or> c2 \<or> c3 \<or> c4))"

definition anchor_outcome :: "bool \<Rightarrow> pyval \<Rightarrow> string option \<Rightarrow> string option \<Rightarrow> pyval" where
  "anchor_outcome ok version_sha256 anchor_sha256 detail =
     PDict [(''status'', PStr (if ok then ''valid'' else ''invalid'')),
            (''version_sha256'', version_sha256),
            (''anchor_sha256'', PStr (take 64 (case anchor_sha256 of Some a \<Rightarrow> a | None \<Rightarrow> []))),
            (''detail'', opt_str (bounded_text detail))]"

definition anchor_failed :: "string option \<Rightarrow> pydict \<Rightarrow> pydict" where
  "anchor_failed detail r =
     dict_put
       (if dict_get r ''validation_state'' PNone \<noteq> PStr ''stale'' then dict_put r ''validation_state'' (PStr ''invalid'') else r)
       ''invalidation_reason'' (PStr (case bounded_text detail of Some t \<Rightarrow> t | None \<Rightarrow> ''anchor validation failed''))"

definition record_anchor_validation ::
  "bool \<Rightarrow> pydict \<Rightarrow> string option \<Rightarrow> string option \<Rightarrow> pydict \<Rightarrow> pydict py_result" where
  "record_anchor_validation ok version anchor_sha256 detail r =
     bind_res (py_prefix 64 (dict_get version ''sha256'' (PStr []))) (\<lambda>version_sha256.
       let r1 = dict_put r ''anchor_validation'' (anchor_outcome ok version_sha256 anchor_sha256 detail)
       in if ok then
            Inr (dict_put (dict_put (dict_put r1 ''expected_version'' (PDict version))
                   ''validation_state'' (PStr ''anchor_valid'')) ''invalidation_reason'' PNone)
          else
            (let r2 = anchor_failed detail r1
             in Inr (if detail \<noteq> None \<and> detail \<noteq> Some [] then fst (merge_evidence ''code_validate'' detail True None None r2)
                     else r2)))"

definition invalidate :: "string \<Rightarrow> pydict \<Rightarrow> pydict" where
  "invalidate reason r =
     dict_put (dict_put r ''validation_state'' (PStr ''stale'')) ''invalidation_reason'' (PStr (take max_text reason))"

section \<open>What an operation can change\<close>

definition state_of :: "pydict \<Rightarrow> pyval" where
  "state_of r = dict_get r ''validation_state'' PNone"

definition path_of :: "pydict \<Rightarrow> pyval" where
  "path_of r = dict_get r ''path'' PNone"

text \<open>The anchor invariant: a record counts as valid only on the strength of a successful check of
  exactly the version it names.\<close>

definition vouches :: "pyval \<Rightarrow> pydict \<Rightarrow> bool" where
  "vouches check version \<longleftrightarrow>
     (case check of
        PDict a \<Rightarrow> dict_get a ''status'' PNone = PStr ''valid'' \<and>
          Inr (dict_get a ''version_sha256'' PNone) = py_prefix 64 (dict_get version ''sha256'' (PStr []))
      | _ \<Rightarrow> False)"

definition anchor_sound :: "pydict \<Rightarrow> bool" where
  "anchor_sound r \<longleftrightarrow> (state_of r = PStr ''anchor_valid'' \<longrightarrow>
     dict_get r ''invalidation_reason'' PNone = PNone \<and>
     vouches (dict_get r ''anchor_validation'' PNone) (get_dict r ''expected_version''))"

text \<open>Every operation on a record is a composition of five updates, so a property that these keep
  is kept by all.\<close>

lemma append_new_fst:
  "fst (append_new k s r) = r \<or> (\<exists>xs. fst (append_new k s r) = dict_put r k (PList xs) \<and> length xs \<le> max_evidence)"
  by (auto simp: append_new_def)

lemma merge_evidence_fst:
  "fst (merge_evidence ref note_arg contradicts role ver r) =
     (let r1 = fst (append_new ''evidence_refs'' (take max_text ref) r);
          r2 = (case bounded_text note_arg of
             Some t \<Rightarrow> fst (append_new (if contradicts then ''contradicting'' else ''supporting'') t r1) | None \<Rightarrow> r1);
          r3 = (case role of Some x \<Rightarrow> fst (assign_role x r2) | None \<Rightarrow> r2);
          r4 = (case ver of Some v \<Rightarrow> fst (observe_version v r3) | None \<Rightarrow> r3)
      in if contradicts then contradict (bounded_text note_arg) r4 else r4)"
  unfolding merge_evidence_def Let_def by (simp add: case_prod_beta split: option.split)

locale record_property =
  fixes P :: "pydict \<Rightarrow> bool" and vok :: "pydict \<Rightarrow> bool"
  assumes evidence: "P r \<Longrightarrow> k \<in> {''evidence_refs'', ''supporting'', ''contradicting''} \<Longrightarrow> length xs \<le> max_evidence \<Longrightarrow>
       P (dict_put r k (PList xs))"
    and role: "P r \<Longrightarrow> x \<in> set roles \<Longrightarrow> P (dict_put r ''role'' (PStr x))"
    and version: "P r \<Longrightarrow> vok v \<Longrightarrow> P (fst (observe_version v r))"
    and conflict: "P r \<Longrightarrow> P (contradict t r)"
begin

lemma append_P: "P r \<Longrightarrow> k \<in> {''evidence_refs'', ''supporting'', ''contradicting''} \<Longrightarrow> P (fst (append_new k s r))"
  using append_new_fst [of k s r] evidence by auto

lemma role_P: "P r \<Longrightarrow> P (fst (assign_role x r))"
  by (simp add: assign_role_def role)

lemma merge_P:
  assumes "P r" "\<And>v. ver = Some v \<Longrightarrow> vok v"
  shows "P (fst (merge_evidence ref note_arg contradicts role_arg ver r))"
proof -
  define r1 where "r1 = fst (append_new ''evidence_refs'' (take max_text ref) r)"
  define r2 where "r2 = (case bounded_text note_arg of
     Some t \<Rightarrow> fst (append_new (if contradicts then ''contradicting'' else ''supporting'') t r1) | None \<Rightarrow> r1)"
  define r3 where "r3 = (case role_arg of Some x \<Rightarrow> fst (assign_role x r2) | None \<Rightarrow> r2)"
  define r4 where "r4 = (case ver of Some v \<Rightarrow> fst (observe_version v r3) | None \<Rightarrow> r3)"
  have "P r1" using assms(1) by (simp add: r1_def append_P)
  then have "P r2" by (simp add: r2_def append_P split: option.split)
  then have "P r3" by (simp add: r3_def role_P split: option.split)
  then have "P r4" using assms(2) version by (simp add: r4_def split: option.split)
  then show ?thesis
    unfolding merge_evidence_fst Let_def r1_def [symmetric] r2_def [symmetric] r3_def [symmetric] r4_def [symmetric]
    by (simp add: conflict)
qed

end

lemmas field_simps2 = state_of_def path_of_def get_dict_def

lemma observe_version_fst:
  "fst (observe_version v r) =
     (if dict_eq v (get_dict r ''expected_version'') then r
      else if state_of r = PStr ''anchor_valid''
      then dict_put (dict_put (dict_put r ''expected_version'' (PDict v)) ''validation_state'' (PStr ''needs_revalidation''))
             ''invalidation_reason'' (PStr ''observed version changed'')
      else dict_put r ''expected_version'' (PDict v))"
  by (simp add: observe_version_def state_of_def)

section \<open>The path of a record never changes\<close>

interpretation path_kept: record_property "\<lambda>r. path_of r = p" "\<lambda>_. True"
  by unfold_locales (auto simp: path_of_def observe_version_fst contradict_def)

interpretation not_valid: record_property "\<lambda>r. state_of r \<noteq> PStr ''anchor_valid''" "\<lambda>_. True"
  by unfold_locales (auto simp: state_of_def observe_version_fst contradict_def)

lemma anchor_sound_other: "state_of r \<noteq> PStr ''anchor_valid'' \<Longrightarrow> anchor_sound r"
  by (simp add: anchor_sound_def)

lemma anchor_sound_put:
  "anchor_sound r \<Longrightarrow> ''validation_state'' \<noteq> k \<Longrightarrow> ''invalidation_reason'' \<noteq> k \<Longrightarrow> ''anchor_validation'' \<noteq> k \<Longrightarrow>
   ''expected_version'' \<noteq> k \<Longrightarrow> anchor_sound (dict_put r k v)"
  by (simp add: anchor_sound_def state_of_def get_dict_put)

lemma state_of_contradict: "state_of (contradict t r) \<noteq> PStr ''anchor_valid''"
  by (simp add: contradict_def state_of_def)

lemma state_of_observe:
  "\<not> dict_eq v (get_dict r ''expected_version'') \<Longrightarrow> state_of (fst (observe_version v r)) \<noteq> PStr ''anchor_valid''"
  by (simp add: observe_version_fst state_of_def)

interpretation anchored: record_property anchor_sound "\<lambda>_. True"
proof unfold_locales
  fix r v
  assume "anchor_sound r"
  then show "anchor_sound (fst (observe_version v r))"
    using anchor_sound_other [OF state_of_observe, of v r]
    by (cases "dict_eq v (get_dict r ''expected_version'')") (simp_all add: observe_version_def)
qed (auto intro: anchor_sound_other [OF state_of_contradict] anchor_sound_put)

section \<open>Records stay well formed\<close>

lemma in_frozenset_True: "in_frozenset s v = Inr True \<longleftrightarrow> (\<exists>x. v = PStr x \<and> x \<in> set s)"
  by (cases v) auto

definition optional :: "(pyval \<Rightarrow> bool) \<Rightarrow> pyval \<Rightarrow> bool" where
  "optional q v \<longleftrightarrow> v = PNone \<or> q v"

lemma validate_record_True:
  "validate_record (PDict r) = Inr True \<longleftrightarrow>
     num_eq (dict_get r ''schema_version'' PNone) 1 \<and> str_upto 64 (dict_get r ''id'' PNone) \<and>
     str_upto 4096 (dict_get r ''path'' PNone) \<and>
     version_ok (dict_get r ''path'' PNone) (dict_get r ''expected_version'' PNone) \<and>
     in_frozenset roles (dict_get r ''role'' PNone) = Inr True \<and>
     in_frozenset validation_states (dict_get r ''validation_state'' PNone) = Inr True \<and>
     evidence_list_ok (dict_get r ''evidence_refs'' PNone) \<and> evidence_list_ok (dict_get r ''supporting'' PNone) \<and>
     evidence_list_ok (dict_get r ''contradicting'' PNone) \<and>
     optional is_str (dict_get r ''assessment'' PNone) \<and> optional is_str (dict_get r ''invalidation_reason'' PNone) \<and>
     optional is_str (dict_get r ''origin'' PNone) \<and> optional is_dict (dict_get r ''symbol'' PNone) \<and>
     range_ok (dict_get r ''range'' PNone) \<and> optional is_dict (dict_get r ''anchor_validation'' PNone) \<and>
     optional is_dict (dict_get r ''relevance_validation'' PNone)"
  by (auto simp: validate_record_def bind_res_Inr_iff optional_def)

definition record_ok :: "string \<Rightarrow> pydict \<Rightarrow> bool" where
  "record_ok p r \<longleftrightarrow> path_of r = PStr p \<and> validate_record (PDict r) = Inr True"

lemma record_ok_iff:
  "record_ok p r \<longleftrightarrow> dict_get r ''path'' PNone = PStr p \<and>
     num_eq (dict_get r ''schema_version'' PNone) 1 \<and> str_upto 64 (dict_get r ''id'' PNone) \<and>
     str_upto 4096 (PStr p) \<and>
     version_ok (PStr p) (dict_get r ''expected_version'' PNone) \<and>
     in_frozenset roles (dict_get r ''role'' PNone) = Inr True \<and>
     in_frozenset validation_states (dict_get r ''validation_state'' PNone) = Inr True \<and>
     evidence_list_ok (dict_get r ''evidence_refs'' PNone) \<and> evidence_list_ok (dict_get r ''supporting'' PNone) \<and>
     evidence_list_ok (dict_get r ''contradicting'' PNone) \<and>
     optional is_str (dict_get r ''assessment'' PNone) \<and> optional is_str (dict_get r ''invalidation_reason'' PNone) \<and>
     optional is_str (dict_get r ''origin'' PNone) \<and> optional is_dict (dict_get r ''symbol'' PNone) \<and>
     range_ok (dict_get r ''range'' PNone) \<and> optional is_dict (dict_get r ''anchor_validation'' PNone) \<and>
     optional is_dict (dict_get r ''relevance_validation'' PNone)"
  by (auto simp: record_ok_def validate_record_True path_of_def)

lemmas record_ok_simps = record_ok_iff path_of_def

lemma evidence_list_ok_PList [simp]: "evidence_list_ok (PList xs) \<longleftrightarrow> length xs \<le> max_evidence"
  by (simp add: evidence_list_ok_def)

lemma optional_simps [simp]: "optional q PNone" "optional is_str (PStr s)" "optional is_dict (PDict d)"
  by (simp_all add: optional_def is_str_def is_dict_def)

lemma validation_states_known [simp]:
  "''stale'' \<in> set validation_states" "''invalid'' \<in> set validation_states" "''anchor_valid'' \<in> set validation_states"
  "''needs_revalidation'' \<in> set validation_states"
  by (simp_all add: validation_states_def)

interpretation well_formed: record_property "record_ok p" "\<lambda>v. version_ok (PStr p) (PDict v)" for p
proof unfold_locales
  fix r v
  assume "record_ok p r" "version_ok (PStr p) (PDict v)"
  then show "record_ok p (fst (observe_version v r))"
    by (auto simp: observe_version_fst record_ok_simps)
next
  fix r t
  assume "record_ok p r"
  then show "record_ok p (contradict t r)" by (auto simp: contradict_def record_ok_simps)
next
  fix r k and xs :: "pyval list"
  assume r: "record_ok p r" and k: "k \<in> {''evidence_refs'', ''supporting'', ''contradicting''}" and n: "length xs \<le> max_evidence"
  from k consider "k = ''evidence_refs''" | "k = ''supporting''" | "k = ''contradicting''" by blast
  then show "record_ok p (dict_put r k (PList xs))"
    by cases (use r n in \<open>simp_all add: record_ok_simps\<close>)
next
  fix r x
  assume "record_ok p r" "x \<in> set roles"
  then show "record_ok p (dict_put r ''role'' (PStr x))" by (simp add: record_ok_simps)
qed

lemma new_candidate_fields:
  assumes "new_candidate digest path version symbol line_range origin role = Inr r"
  shows "path_of r = PStr path" "state_of r = PStr ''needs_revalidation''"
    "dict_get r ''id'' PNone = PStr (candidate_id digest path symbol line_range)"
  using assms by (auto simp: new_candidate_def path_of_def state_of_def split: if_splits)

lemma range_ok_value: "(\<And>a b. rg = Some (a, b) \<Longrightarrow> 1 \<le> a \<and> 1 \<le> b) \<Longrightarrow> range_ok (range_value rg)"
  by (cases rg) (auto simp: range_ok_def range_value_def)

lemma new_candidate_ok:
  assumes "new_candidate digest path version symbol line_range origin role = Inr r"
    and "path \<noteq> []" "length path \<le> 4096" "version_ok (PStr path) (PDict version)" "\<And>v. digest v \<noteq> []"
    and "\<And>a b. line_range = Some (a, b) \<Longrightarrow> 1 \<le> a \<and> 1 \<le> b"
  shows "record_ok path r"
proof -
  have "take 24 (digest v) \<noteq> []" "length (take 24 (digest v)) \<le> 64" for v using assms(5) by simp_all
  then have i: "str_upto 64 (PStr (candidate_id digest path symbol line_range))"
    by (simp add: str_upto_def candidate_id_def Let_def)
  have p: "str_upto 4096 (PStr path)" using assms(2,3) by (simp add: str_upto_def)
  have s: "optional is_dict (case symbol of None \<Rightarrow> PNone | Some s \<Rightarrow> PDict s)" by (simp split: option.split)
  show ?thesis
    using assms(1,4) i p s range_ok_value [OF assms(6)]
    by (auto simp: new_candidate_def record_ok_simps num_eq_def split: if_splits)
qed

lemma anchor_outcome_dict [simp]: "optional is_dict (anchor_outcome ok sha a d)"
  by (simp add: anchor_outcome_def)

lemma anchor_failed_keeps:
  "state_of (anchor_failed d r) \<noteq> PStr ''anchor_valid''" "path_of (anchor_failed d r) = path_of r"
  "record_ok p r \<Longrightarrow> record_ok p (anchor_failed d r)"
  by (auto simp: anchor_failed_def state_of_def path_of_def) (auto simp: record_ok_simps)

lemma record_anchor_cases:
  assumes "record_anchor_validation ok version anchor detail r = Inr r'"
  obtains (passed) sha where "ok" "py_prefix 64 (dict_get version ''sha256'' (PStr [])) = Inr sha"
      "r' = dict_put (dict_put (dict_put (dict_put r ''anchor_validation'' (anchor_outcome True sha anchor detail))
            ''expected_version'' (PDict version)) ''validation_state'' (PStr ''anchor_valid'')) ''invalidation_reason'' PNone"
  | (failed) r2 sha where "\<not> ok" "r2 = anchor_failed detail (dict_put r ''anchor_validation'' (anchor_outcome False sha anchor detail))"
      "r' = r2 \<or> r' = fst (merge_evidence ''code_validate'' detail True None None r2)"
proof -
  from assms obtain sha where sha: "py_prefix 64 (dict_get version ''sha256'' (PStr [])) = Inr sha"
    by (auto simp: record_anchor_validation_def bind_res_Inr_iff)
  show thesis
  proof (cases ok)
    case True
    with assms sha show thesis by (intro passed [of sha]) (simp_all add: record_anchor_validation_def Let_def)
  next
    case False
    from False assms sha show thesis
      by (intro failed [OF False refl, of sha]) (simp add: record_anchor_validation_def Let_def split: if_splits)
  qed
qed

text \<open>What a check does to a record: it keeps the path, leaves a well-formed record well formed (a
  successful one if the version it reports is), and only success makes a record valid.\<close>

lemma record_anchor_keeps:
  assumes "record_anchor_validation ok version anchor detail r = Inr r'"
  shows "path_of r' = path_of r" "anchor_sound r'" "state_of r' = PStr ''anchor_valid'' \<Longrightarrow> ok"
    "record_ok p r \<Longrightarrow> ok \<longrightarrow> version_ok (PStr p) (PDict version) \<Longrightarrow> record_ok p r'"
proof -
  have "path_of r' = path_of r \<and> anchor_sound r' \<and> (state_of r' = PStr ''anchor_valid'' \<longrightarrow> ok) \<and>
    (record_ok p r \<longrightarrow> (ok \<longrightarrow> version_ok (PStr p) (PDict version)) \<longrightarrow> record_ok p r')"
    using assms
  proof (cases rule: record_anchor_cases)
    case (passed sha)
    then show ?thesis
      by (auto simp: path_of_def anchor_sound_def vouches_def anchor_outcome_def get_dict_put) (auto simp: record_ok_simps)
  next
    case (failed r2 sha)
    let ?r1 = "dict_put r ''anchor_validation'' (anchor_outcome False sha anchor detail)"
    have "path_of r2 = path_of r" "state_of r2 \<noteq> PStr ''anchor_valid''" using failed(2) anchor_failed_keeps
      by (simp_all add: path_of_def)
    moreover have "record_ok p r2" if "record_ok p r"
      unfolding failed(2) by (rule anchor_failed_keeps(3)) (use that in \<open>auto simp: record_ok_simps\<close>)
    ultimately show ?thesis
      using failed(1,3) path_kept.merge_P not_valid.merge_P well_formed.merge_P [of p r2 None]
      by (auto intro: anchor_sound_other)
  qed
  then show "path_of r' = path_of r" "anchor_sound r'" "state_of r' = PStr ''anchor_valid'' \<Longrightarrow> ok"
    "record_ok p r \<Longrightarrow> ok \<longrightarrow> version_ok (PStr p) (PDict version) \<Longrightarrow> record_ok p r'" by auto
qed

lemma invalidate_keeps:
  "path_of (invalidate reason r) = path_of r" "state_of (invalidate reason r) = PStr ''stale''"
  "anchor_sound (invalidate reason r)" "record_ok p r \<Longrightarrow> record_ok p (invalidate reason r)"
  by (auto simp: invalidate_def path_of_def state_of_def anchor_sound_def) (auto simp: record_ok_simps)

end
