(* ===== verification/Code_Cache.thy ===== *)
theory Code_Cache
  imports Polaris_Prelude
begin

text \<open>
  Python's \<open>OrderedDict\<close> as an association list from the oldest to the newest key, and
  \<^verbatim>\<open>agent_core/codeintel/cache.py\<close>, the content-addressed line cache on top of it. A byte string is a
  list of bytes; \<open>data.decode("utf-8").splitlines()\<close> is the argument \<open>decode\<close>, since its lines may
  hold code points outside the modelled range. The lock makes a call one atomic step.
\<close>

section \<open>Ordered dictionaries\<close>

definition od_pop :: "'k \<Rightarrow> ('k \<times> 'v) list \<Rightarrow> ('k \<times> 'v) list" where
  "od_pop k d = filter (\<lambda>kv. fst kv \<noteq> k) d"

fun od_set :: "'k \<Rightarrow> 'v \<Rightarrow> ('k \<times> 'v) list \<Rightarrow> ('k \<times> 'v) list" where
  "od_set k v [] = [(k, v)]"
| "od_set k v ((j, w) # d) = (if j = k then (j, v) # d else (j, w) # od_set k v d)"

text \<open>\<open>while len(d) > n: d.popitem(last=False)\<close>.\<close>

fun od_trim :: "nat \<Rightarrow> ('k \<times> 'v) list \<Rightarrow> ('k \<times> 'v) list" where
  "od_trim n [] = []"
| "od_trim n (kv # d) = (if length (kv # d) > n then od_trim n d else kv # d)"

definition od_keys :: "('k \<times> 'v) list \<Rightarrow> 'k list" where
  "od_keys d = map fst d"

named_theorems od_simps

lemma od_keys_simps [od_simps]: "od_keys [] = []" "od_keys (kv # d) = fst kv # od_keys d" "od_keys (d @ e) = od_keys d @ od_keys e"
  by (simp_all add: od_keys_def)

lemma map_of_od_pop [od_simps]: "map_of (od_pop k d) j = (if j = k then None else map_of d j)"
  by (induction d) (auto simp: od_pop_def)

lemma od_pop_keys [od_simps]: "od_keys (od_pop k d) = filter (\<lambda>j. j \<noteq> k) (od_keys d)"
  by (induction d) (auto simp: od_pop_def od_keys_def)

lemma map_of_od_set [od_simps]: "map_of (od_set k v d) j = (if j = k then Some v else map_of d j)"
  by (induction k v d rule: od_set.induct) auto

lemma od_set_keys [od_simps]: "od_keys (od_set k v d) = (if k \<in> set (od_keys d) then od_keys d else od_keys d @ [k])"
  by (induction k v d rule: od_set.induct) (auto simp: od_keys_def)

lemma set_od_set: "set (od_set k v d) \<subseteq> insert (k, v) (set d)"
  by (induction k v d rule: od_set.induct) auto

lemma od_trim_drop: "od_trim n d = drop (length d - n) d"
  by (induction n d rule: od_trim.induct) (auto simp: Suc_diff_le)

lemma length_od_trim: "length (od_trim n d) = min n (length d)"
  by (simp add: od_trim_drop)

lemma set_od_trim: "set (od_trim n d) \<subseteq> set d"
  by (simp add: od_trim_drop set_drop_subset)

lemma od_trim_keeps_newest: "0 < n \<Longrightarrow> kv \<in> set (od_trim n (d @ [kv]))"
  by (simp add: od_trim_drop)

lemma distinct_od_trim: "distinct (od_keys d) \<Longrightarrow> distinct (od_keys (od_trim n d))"
  by (simp add: od_trim_drop od_keys_def drop_map [symmetric])

lemma od_keys_map_snd: "od_keys (map (\<lambda>(k, v). (k, f k v)) d) = od_keys d"
  by (induction d) (auto simp: od_keys_def)

section \<open>The line cache\<close>

record 'l code_cache =
  cc_max_entries :: nat
  cc_max_bytes :: int
  cc_size :: int
  cc_items :: "(string \<times> 'l list \<times> int) list"

definition new_cache :: "nat \<Rightarrow> int \<Rightarrow> 'l code_cache" where
  "new_cache entries bytes = \<lparr>cc_max_entries = entries, cc_max_bytes = bytes, cc_size = 0, cc_items = []\<rparr>"

text \<open>The eviction loop; \<open>popitem\<close> on an empty dictionary raises.\<close>

fun evict :: "nat \<Rightarrow> int \<Rightarrow> int \<Rightarrow> (string \<times> 'l list \<times> int) list \<Rightarrow> (int \<times> (string \<times> 'l list \<times> int) list) py_result" where
  "evict entries bytes sz [] = (if sz > bytes then Inl (KeyError ''dictionary is empty'') else Inr (sz, []))"
| "evict entries bytes sz ((k, l, removed) # d) =
     (if length ((k, l, removed) # d) > entries \<or> sz > bytes then evict entries bytes (sz - removed) d
      else Inr (sz, (k, l, removed) # d))"

definition lines ::
  "(string \<Rightarrow> 'l list py_result) \<Rightarrow> string \<Rightarrow> string \<Rightarrow> 'l code_cache \<Rightarrow> 'l code_cache \<times> 'l list py_result" where
  "lines decode digest data c =
     (case map_of (cc_items c) digest of
        Some existing \<Rightarrow> (c\<lparr>cc_items := od_pop digest (cc_items c) @ [(digest, existing)]\<rparr>, Inr (fst existing))
      | None \<Rightarrow>
          (case decode data of
             Inl e \<Rightarrow> (c, Inl e)
           | Inr ls \<Rightarrow>
               (let size = int (length data) * 4 + int (length ls) * 80
                in if size \<le> cc_max_bytes c then
                     (case evict (cc_max_entries c) (cc_max_bytes c) (cc_size c + size) (cc_items c @ [(digest, ls, size)]) of
                        Inl e \<Rightarrow> (c, Inl e)
                      | Inr (used, kept) \<Rightarrow> (c\<lparr>cc_size := used, cc_items := kept\<rparr>, Inr ls))
                   else (c, Inr ls))))"

definition total_size :: "(string \<times> 'l list \<times> int) list \<Rightarrow> int" where
  "total_size d = sum_list (map (\<lambda>(k, l, n). n) d)"

definition cache_ok :: "'l code_cache \<Rightarrow> bool" where
  "cache_ok c \<longleftrightarrow> cc_size c = total_size (cc_items c) \<and> cc_size c \<le> cc_max_bytes c \<and>
     length (cc_items c) \<le> cc_max_entries c \<and> distinct (od_keys (cc_items c)) \<and>
     (\<forall>(k, l, n) \<in> set (cc_items c). 0 \<le> n)"

lemma total_size_simps [simp]: "total_size [] = 0" "total_size (d @ e) = total_size d + total_size e"
  "total_size ((k, l, n) # d) = n + total_size d"
  by (simp_all add: total_size_def)

lemma total_size_pop:
  "distinct (od_keys d) \<Longrightarrow> map_of d k = Some (l, n) \<Longrightarrow> total_size (od_pop k d) = total_size d - n"
proof (induction d)
  case (Cons x d)
  obtain j m i where x: "x = (j, m, i)" by (cases x) auto
  show ?case
  proof (cases "j = k")
    case True
    with Cons.prems x have "k \<notin> fst ` set d" by (auto simp: od_keys_def)
    then have "od_pop k d = d" by (auto simp: od_pop_def intro!: filter_True)
    with True x Cons.prems show ?thesis by (simp add: od_pop_def)
  next
    case False
    with Cons x show ?thesis by (simp add: od_pop_def od_keys_def)
  qed
qed simp

text \<open>The loop drops a front part and never runs into the empty dictionary.\<close>

lemma evict_result:
  assumes "sz = total_size d" "0 \<le> bytes"
  shows "\<exists>n. evict entries bytes sz d = Inr (total_size (drop n d), drop n d) \<and>
           length (drop n d) \<le> entries \<and> total_size (drop n d) \<le> bytes"
  using assms
proof (induction entries bytes sz d rule: evict.induct)
  case (1 entries bytes sz)
  then show ?case by simp
next
  case (2 entries bytes sz k l removed d)
  show ?case
  proof (cases "length ((k, l, removed) # d) > entries \<or> sz > bytes")
    case True
    with 2 obtain n where "evict entries bytes (sz - removed) d = Inr (total_size (drop n d), drop n d)"
      "length (drop n d) \<le> entries" "total_size (drop n d) \<le> bytes" by auto
    with True show ?thesis by (intro exI [of _ "Suc n"]) auto
  next
    case False
    with 2 show ?thesis by (intro exI [of _ 0]) auto
  qed
qed

lemma evict_keeps_newest:
  assumes "sz = total_size (d @ [(k, l, n)])" "0 < entries" "n \<le> bytes" "evict entries bytes sz (d @ [(k, l, n)]) = Inr r"
  shows "(k, l, n) \<in> set (snd r)"
  using assms
proof (induction d arbitrary: sz)
  case Nil
  then show ?case by auto
next
  case (Cons x d)
  obtain j m i where x: "x = (j, m, i)" by (cases x) auto
  show ?case
  proof (cases "length (x # d @ [(k, l, n)]) > entries \<or> sz > bytes")
    case True
    with Cons.prems x have "evict entries bytes (sz - i) (d @ [(k, l, n)]) = Inr r" by simp
    with Cons.prems x show ?thesis by (intro Cons.IH [of "sz - i"]) simp_all
  next
    case False
    then have "evict entries bytes sz ((x # d) @ [(k, l, n)]) = Inr (sz, (x # d) @ [(k, l, n)])" by (simp add: x)
    with Cons.prems(4) show ?thesis by auto
  qed
qed

section \<open>A cache that cannot be observed\<close>

text \<open>What a memoising store promises its clients: a hit returns what is stored, a miss what would
  be computed, and a call stores nothing but what it computed under the key it was given.\<close>

locale memo_store =
  fixes fetch :: "'k \<Rightarrow> 'd \<Rightarrow> 'c \<Rightarrow> 'c \<times> 'v py_result"
    and stored :: "'c \<Rightarrow> 'k \<Rightarrow> 'v option"
    and compute :: "'d \<Rightarrow> 'v py_result"
    and inv :: "'c \<Rightarrow> bool"
  assumes hit: "inv c \<Longrightarrow> stored c k = Some v \<Longrightarrow> snd (fetch k d c) = Inr v"
    and miss: "inv c \<Longrightarrow> stored c k = None \<Longrightarrow> snd (fetch k d c) = compute d"
    and keeps: "inv c \<Longrightarrow> stored (fst (fetch k d c)) j = Some v \<Longrightarrow>
       stored c j = Some v \<or> j = k \<and> stored c k = None \<and> compute d = Inr v"
    and fetch_inv: "inv c \<Longrightarrow> inv (fst (fetch k d c))"
begin

fun fetch_all :: "('d \<Rightarrow> 'k) \<Rightarrow> 'd list \<Rightarrow> 'c \<Rightarrow> 'c \<times> 'v py_result list" where
  "fetch_all key [] c = (c, [])"
| "fetch_all key (d # ds) c =
     (let (c1, r) = fetch (key d) d c; (c2, rs) = fetch_all key ds c1 in (c2, r # rs))"

definition faithful :: "('d \<Rightarrow> 'k) \<Rightarrow> 'd set \<Rightarrow> 'c \<Rightarrow> bool" where
  "faithful key D c \<longleftrightarrow> inv c \<and> (\<forall>k v. stored c k = Some v \<longrightarrow> (\<exists>d\<in>D. key d = k \<and> compute d = Inr v))"

lemma fetch_faithful:
  assumes "faithful key D c" "d \<in> D" "inj_on key D"
  shows "snd (fetch (key d) d c) = compute d" and "faithful key D (fst (fetch (key d) d c))"
proof -
  have i: "inv c" using assms(1) by (simp add: faithful_def)
  show "snd (fetch (key d) d c) = compute d"
  proof (cases "stored c (key d)")
    case None
    with miss i show ?thesis by blast
  next
    case (Some v)
    with assms obtain e where "e \<in> D" "key e = key d" "compute e = Inr v" by (auto simp: faithful_def)
    with assms hit [OF i Some] show ?thesis by (auto dest: inj_onD)
  qed
  show "faithful key D (fst (fetch (key d) d c))"
    using assms(1,2) keeps [OF i] fetch_inv [OF i] unfolding faithful_def by metis
qed

lemma fetch_all_transparent:
  assumes "inj_on key D" "set ds \<subseteq> D" "faithful key D c"
  shows "snd (fetch_all key ds c) = map compute ds \<and> inv (fst (fetch_all key ds c))"
  using assms(2,3)
proof (induction ds arbitrary: c)
  case Nil
  then show ?case by (simp add: faithful_def)
next
  case (Cons d ds)
  then have d: "d \<in> D" "set ds \<subseteq> D" by auto
  note f = fetch_faithful [OF Cons.prems(2) d(1) assms(1)]
  from Cons.IH [OF d(2) f(2)] f(1) show ?case by (simp add: case_prod_beta Let_def)
qed

end

definition stored_lines :: "'l code_cache \<Rightarrow> string \<Rightarrow> 'l list option" where
  "stored_lines c k = map_option fst (map_of (cc_items c) k)"

definition usable :: "'l code_cache \<Rightarrow> bool" where
  "usable c \<longleftrightarrow> cache_ok c \<and> 0 \<le> cc_max_bytes c"

lemma map_of_drop: "distinct (od_keys d) \<Longrightarrow> map_of (drop n d) k = Some v \<Longrightarrow> map_of d k = Some v"
proof -
  assume d: "distinct (od_keys d)" and m: "map_of (drop n d) k = Some v"
  have "(k, v) \<in> set d" using map_of_SomeD [OF m] by (meson in_set_dropD)
  with d show "map_of d k = Some v" by (simp add: od_keys_def)
qed

lemma lines_cases:
  assumes "usable c"
  obtains (hit) v n where "map_of (cc_items c) k = Some (v, n)"
      "lines decode k data c = (c\<lparr>cc_items := od_pop k (cc_items c) @ [(k, v, n)]\<rparr>, Inr v)"
  | (failed) e where "map_of (cc_items c) k = None" "decode data = Inl e" "lines decode k data c = (c, Inl e)"
  | (large) v where "map_of (cc_items c) k = None" "decode data = Inr v" "lines decode k data c = (c, Inr v)"
  | (added) v sz n where "map_of (cc_items c) k = None" "decode data = Inr v" "0 \<le> sz"
      "length (drop n (cc_items c @ [(k, v, sz)])) \<le> cc_max_entries c"
      "total_size (drop n (cc_items c @ [(k, v, sz)])) \<le> cc_max_bytes c"
      "lines decode k data c = (c\<lparr>cc_size := total_size (drop n (cc_items c @ [(k, v, sz)])),
         cc_items := drop n (cc_items c @ [(k, v, sz)])\<rparr>, Inr v)"
proof (cases "map_of (cc_items c) k")
  case (Some x)
  then show thesis using hit by (cases x) (simp add: lines_def)
next
  case None
  show thesis
  proof (cases "decode data")
    case (Inl e)
    with None show thesis by (intro failed) (simp_all add: lines_def)
  next
    case (Inr v)
    let ?sz = "int (length data) * 4 + int (length v) * 80"
    show thesis
    proof (cases "?sz \<le> cc_max_bytes c")
      case True
      have "cc_size c + ?sz = total_size (cc_items c @ [(k, v, ?sz)])" "0 \<le> cc_max_bytes c"
        using assms by (simp_all add: usable_def cache_ok_def)
      from evict_result [OF this, of "cc_max_entries c"] obtain n where n:
        "evict (cc_max_entries c) (cc_max_bytes c) (cc_size c + ?sz) (cc_items c @ [(k, v, ?sz)]) =
           Inr (total_size (drop n (cc_items c @ [(k, v, ?sz)])), drop n (cc_items c @ [(k, v, ?sz)]))"
        "length (drop n (cc_items c @ [(k, v, ?sz)])) \<le> cc_max_entries c"
        "total_size (drop n (cc_items c @ [(k, v, ?sz)])) \<le> cc_max_bytes c" by blast
      have "lines decode k data c = (c\<lparr>cc_size := total_size (drop n (cc_items c @ [(k, v, ?sz)])),
          cc_items := drop n (cc_items c @ [(k, v, ?sz)])\<rparr>, Inr v)"
        using None Inr True n(1) by (simp add: lines_def Let_def del: drop_append)
      with None Inr n show thesis by (intro added [of v ?sz n]) simp_all
    next
      case False
      with None Inr show thesis by (intro large) (simp_all add: lines_def Let_def)
    qed
  qed
qed

lemma lines_usable: "usable c \<Longrightarrow> usable (fst (lines decode k data c))"
proof -
  assume u: "usable c"
  then show ?thesis
  proof (cases rule: lines_cases [where k = k and decode = decode and data = data])
    case (hit v n)
    have ok: "distinct (od_keys (cc_items c))" using u by (simp add: usable_def cache_ok_def)
    have "length (od_pop k (cc_items c)) < length (cc_items c)"
      using hit(1) unfolding od_pop_def by (intro length_filter_less [where x = "(k, v, n)"]) (auto dest: map_of_SomeD)
    moreover have "(k, v, n) \<in> set (cc_items c)" using hit(1) by (rule map_of_SomeD)
    ultimately show ?thesis
      using u hit(2) total_size_pop [OF ok hit(1)]
      by (auto simp: usable_def cache_ok_def od_simps) (auto simp: od_pop_def)
  next
    case (added v sz n)
    let ?d = "cc_items c @ [(k, v, sz)]"
    have "distinct (od_keys ?d)" using u added(1) by (auto simp: usable_def cache_ok_def od_simps map_of_eq_None_iff od_keys_def)
    then have "distinct (od_keys (drop n ?d))" by (simp add: od_keys_def drop_map [symmetric] del: drop_append)
    moreover have "\<forall>(k, l, n) \<in> set ?d. 0 \<le> n" using u added(3) by (auto simp: usable_def cache_ok_def)
    then have "\<forall>(k, l, n) \<in> set (drop n ?d). 0 \<le> n" by (meson in_set_dropD)
    ultimately show ?thesis using u added(4-6) by (simp add: usable_def cache_ok_def del: drop_append)
  qed (use u in simp_all)
qed

lemma stored_lines_hit: "usable c \<Longrightarrow> stored_lines c k = Some v \<Longrightarrow> snd (lines decode k d c) = Inr v"
  by (auto simp: stored_lines_def lines_def)

lemma stored_lines_miss:
  assumes "usable c" "stored_lines c k = None"
  shows "snd (lines decode k d c) = decode d"
  using assms(1)
proof (cases rule: lines_cases [where k = k and decode = decode and data = d])
qed (use assms(2) in \<open>simp_all add: stored_lines_def\<close>)

lemma stored_lines_keeps:
  assumes "usable c" "stored_lines (fst (lines decode k d c)) j = Some v"
  shows "stored_lines c j = Some v \<or> j = k \<and> stored_lines c k = None \<and> decode d = Inr v"
  using assms(1)
proof (cases rule: lines_cases [where k = k and decode = decode and data = d])
  case (hit w n)
  with assms(2) show ?thesis by (auto simp: stored_lines_def map_add_def od_simps split: option.splits if_splits)
next
  case (added w sz n)
  let ?d = "cc_items c @ [(k, w, sz)]"
  have "distinct (od_keys ?d)"
    using assms(1) added(1) by (auto simp: usable_def cache_ok_def od_simps map_of_eq_None_iff od_keys_def)
  moreover obtain m where "map_of (drop n ?d) j = Some (v, m)"
    using assms(2) added(6) by (auto simp: stored_lines_def simp del: drop_append)
  ultimately have "map_of ?d j = Some (v, m)" by (rule map_of_drop)
  with added(1,2) show ?thesis by (auto simp: stored_lines_def map_add_def split: option.splits if_splits)
qed (use assms in simp_all)

interpretation line_cache: memo_store "lines decode" stored_lines decode usable
  using stored_lines_hit stored_lines_miss stored_lines_keeps lines_usable by unfold_locales blast+

text \<open>A history of lookups, each with the content and its digest.\<close>

fun lookups :: "(string \<Rightarrow> 'l list py_result) \<Rightarrow> (string \<Rightarrow> string) \<Rightarrow> string list \<Rightarrow> 'l code_cache \<Rightarrow> 'l code_cache \<times> 'l list py_result list" where
  "lookups decode digest [] c = (c, [])"
| "lookups decode digest (d # ds) c =
     (let (c1, r) = lines decode (digest d) d c; (c2, rs) = lookups decode digest ds c1 in (c2, r # rs))"

lemma lookups_fetch_all: "lookups decode digest ds c = line_cache.fetch_all decode digest ds c"
  by (induction ds arbitrary: c) (simp_all add: line_cache.fetch_all.simps)

lemma lines_limits:
  "cc_max_entries (fst (lines decode k d c)) = cc_max_entries c \<and> cc_max_bytes (fst (lines decode k d c)) = cc_max_bytes c"
  by (simp add: lines_def Let_def split: option.splits sum.splits)

lemma lookups_limits:
  "cc_max_entries (fst (lookups decode digest ds c)) = cc_max_entries c \<and>
   cc_max_bytes (fst (lookups decode digest ds c)) = cc_max_bytes c"
  by (induction ds arbitrary: c) (simp_all add: lines_limits case_prod_beta Let_def)

lemma new_cache_usable: "0 \<le> bytes \<Longrightarrow> usable (new_cache entries bytes)"
  by (simp add: usable_def cache_ok_def new_cache_def od_keys_def)

lemma new_cache_faithful: "0 \<le> bytes \<Longrightarrow> line_cache.faithful decode key D (new_cache entries bytes)"
  using new_cache_usable by (simp add: line_cache.faithful_def) (simp add: stored_lines_def new_cache_def)

text \<open>C29. The line cache is transparent and bounded: over any history of lookups whose digests tell
  the contents apart, every answer (or decoding error) is the one a direct decoding gives, the
  eviction loop never raises, the number of entries and the accounted bytes stay within their
  limits, and the accounted bytes are exactly those of the entries kept.\<close>

theorem cache_transparent_and_bounded:
  assumes "inj_on digest (set contents)" "0 \<le> bytes"
  shows "case lookups decode digest contents (new_cache entries bytes) of (c, answers) \<Rightarrow>
    answers = map decode contents \<and> cc_size c = total_size (cc_items c) \<and> distinct (od_keys (cc_items c)) \<and>
    length (cc_items c) \<le> entries \<and> cc_size c \<le> bytes"
proof -
  from lookups_limits [of decode digest contents "new_cache entries bytes"]
    line_cache.fetch_all_transparent [OF assms(1) order_refl new_cache_faithful [OF assms(2)], of decode entries]
  show ?thesis by (auto simp: lookups_fetch_all new_cache_def usable_def cache_ok_def split: prod.splits)
qed

theorem cache_transparent_and_bounded_witness:
  "snd (lookups (\<lambda>d. Inr (splitlines d)) (\<lambda>d. d) [''a'', ''b'', ''a''] (new_cache 1 1000)) =
   [Inr [''a''], Inr [''b''], Inr [''a'']]"
proof -
  have "map (\<lambda>d. Inr (splitlines d)) [''a'', ''b'', ''a''] = [Inr [''a''], Inr [''b''], Inr [''a''] :: string list py_result]"
    by code_simp
  then show ?thesis
    using cache_transparent_and_bounded [of "\<lambda>d. d" "[''a'', ''b'', ''a'']" 1000 "\<lambda>d. Inr (splitlines d)" 1]
    by (simp only: split: prod.splits) auto
qed

end
