(* ===== verification/Code_Evidence.thy ===== *)
theory Code_Evidence
  imports Candidate_Pool Code_Cache Execution_Scope Permission_Safety
begin

text \<open>
  \<^verbatim>\<open>agent_core/codeintel/strategy.py\<close> and \<^verbatim>\<open>agent_core/codeintel/working_set.py\<close>: what a task remembers
  about the code it has looked at. Queries, evidence references and candidate records are bounded
  ordered dictionaries; invalidation marks them, and what comes back from a stored session is
  checked field by field. \<open>sha256\<close> of a JSON value is the argument \<open>digest\<close>; \<open>json.loads(json.dumps(v))\<close>
  is a deep copy of the JSON value \<open>v\<close>, that is, \<open>v\<close> itself here.
\<close>

section \<open>Versions, hits and requests\<close>

record file_version =
  fv_worktree_id :: string
  fv_path :: string
  fv_sha256 :: string
  fv_revision :: int

definition version_dict :: "file_version \<Rightarrow> pydict" where
  "version_dict v =
     [(''worktree_id'', PStr (fv_worktree_id v)), (''path'', PStr (fv_path v)), (''sha256'', PStr (fv_sha256 v)),
      (''revision'', PInt (fv_revision v))]"

record code_hit =
  ch_path :: string
  ch_start_line :: "int option"
  ch_end_line :: "int option"
  ch_text :: string
  ch_version :: file_version
  ch_kind :: string
  ch_precision :: string
  ch_module :: string
  ch_source_symbol :: "string option"
  ch_target_symbol :: "string option"
  ch_symbol :: "pydict option"

record search_coverage =
  co_requested :: "string list"
  co_checked :: "string list"
  co_unchecked :: "string list"
  co_reasons :: "string list"
  co_advisories :: "string list"
  co_excluded :: "string list"
  co_complete :: bool
  co_freshness :: string

definition add_reason :: "string \<Rightarrow> search_coverage \<Rightarrow> search_coverage" where
  "add_reason why c =
     (if why \<in> set (co_reasons c) then c
      else if length (co_reasons c) < 16 then c\<lparr>co_reasons := co_reasons c @ [take 200 why]\<rparr>
      else if last (co_reasons c) \<noteq> ''additional_diagnostics_omitted''
      then c\<lparr>co_reasons := co_reasons c @ [''additional_diagnostics_omitted'']\<rparr> else c)"

record search_page =
  pg_hits :: "code_hit list"
  pg_coverage :: search_coverage
  pg_generation :: int
  pg_cursor :: "string option"
  pg_scan_complete :: bool

record search_request =
  rq_query :: string
  rq_kind :: string
  rq_path :: string
  rq_modules :: "string list"
  rq_language :: "string option"
  rq_regex :: bool
  rq_ignore_case :: bool
  rq_limit :: int
  rq_cursor :: "string option"
  rq_direction :: string
  rq_expand_scope :: bool

definition str_list :: "string list \<Rightarrow> pyval" where
  "str_list xs = PList (map PStr xs)"

definition opt_int :: "int option \<Rightarrow> pyval" where
  "opt_int v = (case v of None \<Rightarrow> PNone | Some i \<Rightarrow> PInt i)"

definition request_value :: "search_request \<Rightarrow> pyval" where
  "request_value r = PDict
     [(''query'', PStr (rq_query r)), (''kind'', PStr (rq_kind r)), (''path'', PStr (rq_path r)),
      (''modules'', str_list (rq_modules r)), (''language'', opt_str (rq_language r)), (''regex'', PBool (rq_regex r)),
      (''ignore_case'', PBool (rq_ignore_case r)), (''limit'', PInt (rq_limit r)), (''cursor'', opt_str (rq_cursor r)),
      (''direction'', PStr (rq_direction r)), (''expand_scope'', PBool (rq_expand_scope r))]"

definition coverage_value :: "search_coverage \<Rightarrow> pyval" where
  "coverage_value c = PDict
     [(''requested'', str_list (co_requested c)), (''checked'', str_list (co_checked c)),
      (''unchecked'', str_list (co_unchecked c)), (''reasons'', str_list (co_reasons c)),
      (''advisories'', str_list (co_advisories c)), (''excluded'', str_list (co_excluded c)),
      (''complete'', PBool (co_complete c)), (''freshness'', PStr (co_freshness c))]"

section \<open>Exploration: which queries were asked\<close>

record exploration =
  ex_max_entries :: nat
  ex_queries :: "(string \<times> pydict) list"

definition new_exploration :: exploration where
  "new_exploration = \<lparr>ex_max_entries = 64, ex_queries = []\<rparr>"

definition hit_value :: "code_hit \<Rightarrow> pyval" where
  "hit_value h = PList [PStr (ch_path h), opt_int (ch_start_line h), opt_int (ch_end_line h), PStr (fv_sha256 (ch_version h)),
     PStr (ch_kind h), opt_str (ch_source_symbol h), opt_str (ch_target_symbol h)]"

definition get_int :: "pydict \<Rightarrow> string \<Rightarrow> int" where
  "get_int d k = (case dict_get d k (PInt 0) of PInt i \<Rightarrow> i | _ \<Rightarrow> 0)"

definition query_key :: "(pyval \<Rightarrow> string) \<Rightarrow> string \<Rightarrow> search_request \<Rightarrow> int \<Rightarrow> string" where
  "query_key digest tool request depth = digest (PList [PStr tool, request_value request, PInt depth])"

definition page_result :: "(pyval \<Rightarrow> string) \<Rightarrow> search_page \<Rightarrow> string" where
  "page_result digest page = digest (PList
     [PList (map hit_value (pg_hits page)), coverage_value (pg_coverage page), opt_str (pg_cursor page),
      PBool (pg_scan_complete page)])"

definition next_action :: "search_page \<Rightarrow> string" where
  "next_action page =
     (if (case pg_cursor page of None \<Rightarrow> False | Some c \<Rightarrow> c \<noteq> []) then ''continue_cursor''
      else if \<not> co_complete (pg_coverage page) then ''refresh_or_narrow_scope''
      else if pg_hits page \<noteq> [] then ''read_candidate_context'' else ''change_query_or_expand_scope'')"

definition record_query ::
  "(pyval \<Rightarrow> string) \<Rightarrow> search_request \<Rightarrow> search_page \<Rightarrow> string \<Rightarrow> int \<Rightarrow> int \<Rightarrow> exploration \<Rightarrow> exploration \<times> pydict" where
  "record_query digest request page tool depth new_evidence ex =
     (let key = query_key digest tool request depth;
          result = page_result digest page;
          previous = (case map_of (ex_queries ex) key of Some p \<Rightarrow> p | None \<Rightarrow> []);
          unchanged = (dict_get previous ''freshness'' PNone = PStr ''observed'' \<and>
            dict_get previous ''generation'' PNone = PInt (pg_generation page) \<and>
            dict_get previous ''result'' PNone = PStr result \<and> new_evidence = 0);
          checked = co_checked (pg_coverage page);
          entry =
            [(''query_id'', PStr key), (''result'', PStr result), (''kind'', PStr (rq_kind request)),
             (''path'', PStr (take 512 (rq_path request))),
             (''modules'', str_list (map (take 512) (take 16 (rq_modules request)))),
             (''checked'', str_list (map (take 512) (take 16 checked))),
             (''scope_truncated'', PBool (length (rq_path request) > 512 \<or> length (rq_modules request) > 16 \<or>
                length checked > 16 \<or> list_ex (\<lambda>s. length s > 512) (rq_modules request @ checked))),
             (''generation'', PInt (pg_generation page)),
             (''attempts'', PInt (min 1000000 (get_int previous ''attempts'' + 1))),
             (''no_gain_repeats'', PInt (if unchanged then min 1000000 (get_int previous ''no_gain_repeats'' + 1) else 0)),
             (''new_evidence'', PInt new_evidence), (''hit_count'', PInt (int (length (pg_hits page)))),
             (''coverage_complete'', PBool (co_complete (pg_coverage page))), (''next_action'', PStr (next_action page)),
             (''freshness'', PStr ''observed'')];
          queries = od_trim (ex_max_entries ex) (od_pop key (ex_queries ex) @ [(key, entry)])
      in (ex\<lparr>ex_queries := queries\<rparr>,
          filter (\<lambda>kv. fst kv \<noteq> ''result'') entry @
          [(''advisory'', PStr (if unchanged then ''Repeated query produced no new evidence; change strategy.''
                               else ''Coverage is observational; re-read candidates before editing.''))]))"

definition map_values :: "('v \<Rightarrow> 'w) \<Rightarrow> ('k \<times> 'v) list \<Rightarrow> ('k \<times> 'w) list" where
  "map_values f d = map (\<lambda>(k, v). (k, f v)) d"

definition invalidate_queries :: "exploration \<Rightarrow> exploration" where
  "invalidate_queries ex = ex\<lparr>ex_queries := map_values (\<lambda>q. dict_put q ''freshness'' (PStr ''stale'')) (ex_queries ex)\<rparr>"

text \<open>Taking stored queries back. Unknown fields are dropped.\<close>

definition hex64 :: "pyval \<Rightarrow> bool" where
  "hex64 v \<longleftrightarrow> (case v of PStr s \<Rightarrow> length s = 64 \<and> list_all (\<lambda>c. c \<in> set ''0123456789abcdef'') s | _ \<Rightarrow> False)"

definition int_between :: "int \<Rightarrow> int \<Rightarrow> pyval \<Rightarrow> bool" where
  "int_between lo hi v \<longleftrightarrow> (case v of PInt i \<Rightarrow> lo \<le> i \<and> i \<le> hi | _ \<Rightarrow> False)"

definition str_max :: "nat \<Rightarrow> pyval \<Rightarrow> bool" where
  "str_max n v \<longleftrightarrow> (case v of PStr s \<Rightarrow> length s \<le> n | _ \<Rightarrow> False)"

definition scope_list_ok :: "pyval \<Rightarrow> bool" where
  "scope_list_ok v \<longleftrightarrow> (case v of PList xs \<Rightarrow> length xs \<le> 16 \<and> list_all (str_max 512) xs | _ \<Rightarrow> False)"

definition kept_query_fields :: "pydict \<Rightarrow> pydict" where
  "kept_query_fields r =
     map (\<lambda>k. (k, dict_get r k PNone))
       [''query_id'', ''result'', ''kind'', ''path'', ''generation'', ''attempts'', ''no_gain_repeats'',
        ''new_evidence'', ''hit_count'', ''coverage_complete'', ''next_action''] @
     [(''freshness'', PStr ''needs_revalidation''), (''modules'', dict_get r ''modules'' (PList [])),
      (''checked'', dict_get r ''checked'' (PList [])),
      (''scope_truncated'', dict_get r ''scope_truncated'' (PBool False))]"

definition restore_query :: "pyval \<Rightarrow> (string \<times> pydict) py_result" where
  "restore_query v =
     (case v of
        PDict r \<Rightarrow>
          (if \<not> hex64 (dict_get r ''query_id'' PNone) \<or> \<not> hex64 (dict_get r ''result'' PNone)
           then Inl (ValueError ''invalid exploration fingerprint'')
           else if \<not> list_all (\<lambda>k. int_between 0 1000000 (dict_get r k PNone))
                     [''attempts'', ''no_gain_repeats'', ''new_evidence'', ''hit_count'']
           then Inl (ValueError ''invalid exploration counts'')
           else if (case dict_get r ''generation'' PNone of PInt g \<Rightarrow> g < 0 | _ \<Rightarrow> True)
             \<or> (case dict_get r ''coverage_complete'' PNone of PBool _ \<Rightarrow> False | _ \<Rightarrow> True)
             \<or> \<not> list_all (\<lambda>k. str_max 512 (dict_get r k PNone)) [''kind'', ''path'', ''next_action'']
           then Inl (ValueError ''invalid exploration fields'')
           else if \<not> list_all (\<lambda>k. scope_list_ok (dict_get r k (PList []))) [''modules'', ''checked'']
           then Inl (ValueError ''invalid exploration scope'')
           else if (case dict_get r ''scope_truncated'' (PBool False) of PBool _ \<Rightarrow> False | _ \<Rightarrow> True)
           then Inl (ValueError ''invalid exploration scope disclosure'')
           else Inr (py_str (dict_get r ''query_id'' PNone),
             kept_query_fields r))
      | _ \<Rightarrow> Inl (ValueError ''invalid exploration query''))"

fun restore_each :: "pyval list \<Rightarrow> exploration \<Rightarrow> exploration \<times> unit py_result" where
  "restore_each [] ex = (ex, Inr ())"
| "restore_each (v # vs) ex =
     (case restore_query v of
        Inl e \<Rightarrow> (ex, Inl e)
      | Inr (key, q) \<Rightarrow> restore_each vs (ex\<lparr>ex_queries := od_set key q (ex_queries ex)\<rparr>))"

definition restore_queries :: "pyval \<Rightarrow> exploration \<Rightarrow> exploration \<times> unit py_result" where
  "restore_queries v ex =
     (case v of
        PList vs \<Rightarrow> if length vs > ex_max_entries ex then (ex, Inl (ValueError ''invalid exploration query history''))
                   else restore_each vs ex
      | _ \<Rightarrow> (ex, Inl (ValueError ''invalid exploration query history'')))"

section \<open>The retrieval controller\<close>

record decision =
  de_stage_seq :: nat
  de_decision :: string
  de_reason :: string
  de_fingerprint :: "string option"

record retrieval =
  rc_stages :: nat
  rc_seen :: "string list"
  rc_decisions :: "decision list"

definition new_retrieval :: retrieval where
  "new_retrieval = \<lparr>rc_stages = 0, rc_seen = [], rc_decisions = []\<rparr>"

definition max_stages :: nat where "max_stages = 16"

definition note_decision :: "(pyval \<Rightarrow> string) \<Rightarrow> string \<Rightarrow> string \<Rightarrow> string \<Rightarrow> retrieval \<Rightarrow> retrieval" where
  "note_decision digest what why query c =
     c\<lparr>rc_decisions := rc_decisions c @
         [\<lparr>de_stage_seq = rc_stages c, de_decision = what, de_reason = take 256 why,
           de_fingerprint = (if query \<noteq> [] then Some (take 16 (digest (PStr query))) else None)\<rparr>]\<rparr>"

text \<open>\<open>str.isidentifier\<close>: ASCII letters, digits and the underscore, and the letters of Latin-1 (the
  middle dot may continue an identifier).\<close>

definition id_start :: "char \<Rightarrow> bool" where
  "id_start c \<longleftrightarrow> is_alpha_ascii c \<or> c = CHR ''_'' \<or>
     (let n = (of_char c :: nat) in n \<in> {170, 181, 186} \<or> 192 \<le> n \<and> n \<noteq> 215 \<and> n \<noteq> 247)"

definition is_identifier :: "string \<Rightarrow> bool" where
  "is_identifier s \<longleftrightarrow> s \<noteq> [] \<and> id_start (hd s) \<and>
     list_all (\<lambda>c. id_start c \<or> c \<in> set ''0123456789'' \<or> (of_char c :: nat) = 183) (tl s)"

definition stages_for :: "(pyval \<Rightarrow> string) \<Rightarrow> string \<Rightarrow> retrieval \<Rightarrow> retrieval \<times> string list" where
  "stages_for digest query c =
     (if rc_stages c \<ge> max_stages then (note_decision digest ''stop'' ''stage budget exhausted'' query c, [])
      else
        (let path_shaped = (CHR ''/'' \<in> set query \<or> CHR ''*'' \<in> set query \<or>
               CHR ''.'' \<in> set (last (split_char (CHR ''/'') query)));
             route = (if path_shaped then [''path'', ''text''] else if is_identifier query then [''symbol'', ''text'']
                      else [''text''])
         in (note_decision digest ''route'' (hd route @ ''-first'') query c, route)))"

definition allow_execution :: "(pyval \<Rightarrow> string) \<Rightarrow> search_request \<Rightarrow> string \<Rightarrow> retrieval \<Rightarrow> retrieval \<times> bool" where
  "allow_execution digest request tool c =
     (let key = query_key digest tool request 1
      in if key \<in> set (rc_seen c)
         then (note_decision digest ''dedupe'' ''identical query already executed in this plan; converging'' [] c, False)
         else (c\<lparr>rc_seen := key # rc_seen c\<rparr>, True))"

definition may_proceed :: "(pyval \<Rightarrow> string) \<Rightarrow> search_page \<Rightarrow> retrieval \<Rightarrow> retrieval \<times> bool" where
  "may_proceed digest page c =
     (if rc_stages c \<ge> max_stages then (note_decision digest ''stop'' ''stage budget exhausted'' [] c, False)
      else if pg_hits page = [] \<and> pg_scan_complete page \<and> co_complete (pg_coverage page)
      then (note_decision digest ''stop'' ''complete coverage with no hits; remaining stages cannot help'' [] c, False)
      else (c, True))"

definition stage_done :: "(pyval \<Rightarrow> string) \<Rightarrow> string \<Rightarrow> search_page \<Rightarrow> retrieval \<Rightarrow> retrieval" where
  "stage_done digest stage page c =
     note_decision digest ''stage''
       (stage @ '': hits='' @ nat_str (length (pg_hits page)) @ '' complete='' @ py_repr (PBool (co_complete (pg_coverage page))))
       [] (c\<lparr>rc_stages := rc_stages c + 1\<rparr>)"

section \<open>The working set of a task\<close>

type_synonym entry_key = "string \<times> int option \<times> int option"

record working_set =
  ws_max_entries :: nat
  ws_entries :: "(entry_key \<times> pydict) list"
  ws_candidates :: "(string \<times> pydict) list"
  ws_exploration :: exploration
  ws_binding :: "(string \<times> string) option"

definition max_candidates :: nat where "max_candidates = 64"

definition new_working_set :: "nat \<Rightarrow> working_set" where
  "new_working_set n =
     \<lparr>ws_max_entries = n, ws_entries = [], ws_candidates = [], ws_exploration = new_exploration, ws_binding = None\<rparr>"

definition add_hit :: "code_hit \<Rightarrow> string \<Rightarrow> working_set \<Rightarrow> working_set \<times> bool" where
  "add_hit hit why ws =
     (let key = (ch_path hit, ch_start_line hit, ch_end_line hit);
          previous = map_of (ws_entries ws) key;
          entry = [(''path'', PStr (ch_path hit)), (''start_line'', opt_int (ch_start_line hit)),
                   (''end_line'', opt_int (ch_end_line hit)), (''version'', PDict (version_dict (ch_version hit))),
                   (''module'', PStr (ch_module hit)), (''reason'', PStr why), (''freshness'', PStr ''observed'')]
      in (ws\<lparr>ws_entries := od_trim (ws_max_entries ws) (od_pop key (ws_entries ws) @ [(key, entry)])\<rparr>,
          case previous of
            None \<Rightarrow> True
          | Some p \<Rightarrow> \<not> dict_eq (get_dict p ''version'') (version_dict (ch_version hit)) \<or>
                      dict_get p ''freshness'' PNone \<noteq> PStr ''observed''))"

definition hit_range :: "code_hit \<Rightarrow> (int \<times> int) option" where
  "hit_range hit = (case (ch_start_line hit, ch_end_line hit) of (Some a, Some b) \<Rightarrow> Some (a, b) | _ \<Rightarrow> None)"

definition symbol_part :: "pydict \<Rightarrow> pydict" where
  "symbol_part s = map (\<lambda>k. (k, dict_get s k PNone)) (filter (\<lambda>k. py_truthy (dict_get s k PNone)) [''qualified_name'', ''kind''])"

definition hit_symbol :: "code_hit \<Rightarrow> pydict option" where
  "hit_symbol hit =
     (case ch_symbol hit of
        None \<Rightarrow> None
      | Some s \<Rightarrow> Some (symbol_part s @
          (case hit_range hit of Some (a, b) \<Rightarrow> [(''range'', PList [PInt a, PInt b])] | None \<Rightarrow> [])))"

text \<open>A record is kept under its key while it is updated in place; a new one is put in and the
  oldest ones go. \<open>result\<close> is what the operation returns.\<close>

definition put_candidate :: "string \<Rightarrow> pydict \<Rightarrow> working_set \<Rightarrow> working_set" where
  "put_candidate key r ws = ws\<lparr>ws_candidates := od_trim max_candidates (od_set key r (ws_candidates ws))\<rparr>"

definition update_candidate :: "string \<Rightarrow> pydict \<Rightarrow> working_set \<Rightarrow> working_set" where
  "update_candidate key r ws =
     ws\<lparr>ws_candidates := (if key \<in> set (od_keys (ws_candidates ws)) then od_set key r (ws_candidates ws) else ws_candidates ws)\<rparr>"

definition add_candidate ::
  "(pyval \<Rightarrow> string) \<Rightarrow> code_hit \<Rightarrow> string \<Rightarrow> string \<Rightarrow> string option \<Rightarrow> working_set \<Rightarrow> working_set \<times> pydict py_result" where
  "add_candidate digest hit origin evidence_ref role ws =
     (let symbol = hit_symbol hit;
          line_range = hit_range hit;
          key = candidate_id digest (ch_path hit) symbol line_range;
          merge = (\<lambda>r. fst (merge_evidence evidence_ref
             (Some (take 12 (fv_sha256 (ch_version hit)) @ ''@'' @ ch_module hit)) False role
             (Some (version_dict (ch_version hit))) r))
      in case map_of (ws_candidates ws) key of
           Some r \<Rightarrow> (update_candidate key (merge r) ws, Inr (merge r))
         | None \<Rightarrow>
             (case new_candidate digest (ch_path hit) (version_dict (ch_version hit)) symbol line_range origin ''unknown'' of
                Inl e \<Rightarrow> (ws, Inl e)
              | Inr r \<Rightarrow> (update_candidate key (merge r) (put_candidate key r ws), Inr (merge r))))"

text \<open>The record with the key under which it is stored.\<close>

definition candidate_for ::
  "(pyval \<Rightarrow> string) \<Rightarrow> string \<Rightarrow> pydict option \<Rightarrow> (int \<times> int) option \<Rightarrow> working_set \<Rightarrow> (string \<times> pydict) option" where
  "candidate_for digest path symbol line_range ws =
     (if symbol \<noteq> None \<or> line_range \<noteq> None then
        (let key = candidate_id digest path symbol line_range
         in map_option (\<lambda>r. (key, r)) (map_of (ws_candidates ws) key))
      else find (\<lambda>kr. path_of (snd kr) = PStr path) (rev (ws_candidates ws)))"

definition record_validation ::
  "(pyval \<Rightarrow> string) \<Rightarrow> string \<Rightarrow> bool \<Rightarrow> pydict \<Rightarrow> string option \<Rightarrow> string option \<Rightarrow> pydict option \<Rightarrow> working_set \<Rightarrow>
   working_set \<times> pydict py_result" where
  "record_validation digest path ok version anchor_sha256 detail symbol ws =
     (case (case candidate_for digest path symbol None ws of
              Some (key, r) \<Rightarrow> Inr (ws, key, r)
            | None \<Rightarrow>
                (case new_candidate digest path version symbol None ''code_validate'' ''unknown'' of
                   Inl e \<Rightarrow> Inl e
                 | Inr r \<Rightarrow> (let key = candidate_id digest path symbol None in Inr (put_candidate key r ws, key, r)))) of
        Inl e \<Rightarrow> (ws, Inl e)
      | Inr (ws1, key, r) \<Rightarrow>
          (case record_anchor_validation ok version anchor_sha256 detail r of
             Inl e \<Rightarrow> (ws1, Inl e)
           | Inr r1 \<Rightarrow> (update_candidate key r1 ws1, Inr r1)))"

definition invalidate_paths :: "string list \<Rightarrow> working_set \<Rightarrow> working_set" where
  "invalidate_paths changed ws =
     ws\<lparr>ws_entries := map (\<lambda>(key, e). (key, if fst key \<in> set changed then dict_put e ''freshness'' (PStr ''stale'') else e))
           (ws_entries ws),
        ws_candidates := map_values
           (\<lambda>r. if path_of r \<in> PStr ` set changed then invalidate ''committed paths changed'' r else r) (ws_candidates ws),
        ws_exploration := invalidate_queries (ws_exploration ws)\<rparr>"

definition modules :: "working_set \<Rightarrow> string list" where
  "modules ws = rev (remdups (map (\<lambda>kv. py_str (dict_get (snd kv) ''module'' PNone)) (ws_entries ws)))"

section \<open>Storing and taking back\<close>

definition state_budget :: int where "state_budget = 128 * 1024"

definition json_bytes :: "pyval \<Rightarrow> int" where
  "json_bytes v = utf8_size (json_dumps v)"

definition state_value ::
  "string \<times> string \<Rightarrow> bool \<Rightarrow> pyval list \<Rightarrow> pyval list \<Rightarrow> pyval list \<Rightarrow> pyval" where
  "state_value binding with_candidates candidates queries evidence = PDict
     ([(''v'', PInt (if with_candidates then 2 else 1)), (''workspace'', PStr (fst binding)), (''policy'', PStr (snd binding)),
       (''evidence'', PList evidence), (''queries'', PList queries)] @
      (if with_candidates then [(''candidates'', PList candidates)] else []))"

fun shrink ::
  "(pyval list \<Rightarrow> pyval list \<Rightarrow> pyval list \<Rightarrow> pyval) \<Rightarrow> pyval list \<Rightarrow> pyval list \<Rightarrow> pyval list \<Rightarrow> pyval py_result" where
  "shrink build candidates queries evidence =
     (if json_bytes (build candidates queries evidence) \<le> state_budget then Inr (build candidates queries evidence)
      else case candidates of
             _ # rest \<Rightarrow> shrink build rest queries evidence
           | [] \<Rightarrow>
               (case queries of
                  _ # rest \<Rightarrow> shrink build [] rest evidence
                | [] \<Rightarrow>
                    (case evidence of
                       _ # rest \<Rightarrow> shrink build [] [] rest
                     | [] \<Rightarrow> Inl (ValueError ''exploration binding exceeds budget''))))"

declare shrink.simps [simp del]

definition to_state :: "working_set \<Rightarrow> pyval py_result" where
  "to_state ws =
     (case ws_binding ws of
        None \<Rightarrow> Inr (PDict [])
      | Some binding \<Rightarrow>
          if ws_entries ws = [] \<and> ex_queries (ws_exploration ws) = [] \<and> ws_candidates ws = [] then Inr (PDict [])
          else shrink (state_value binding (ws_candidates ws \<noteq> []))
                 (map (\<lambda>kr. PDict (snd kr)) (ws_candidates ws)) (map (\<lambda>kr. PDict (snd kr)) (ex_queries (ws_exploration ws)))
                 (map (\<lambda>kr. PDict (snd kr)) (ws_entries ws)))"

text \<open>A stored path: relative, in POSIX form, without empty, \<open>.\<close> or \<open>..\<close> parts, without a drive, a
  colon or a backslash, and not a secret.\<close>

definition has_drive :: "string \<Rightarrow> bool" where
  "has_drive p \<longleftrightarrow> (case p of _ # d # _ \<Rightarrow> d = CHR '':'' | _ \<Rightarrow> False)"

definition stored_path_ok :: "string \<Rightarrow> bool" where
  "stored_path_ok p \<longleftrightarrow> \<not> (startswith p ''/'' \<or> has_drive p \<or> CHR 0x5C \<in> set p \<or> CHR '':'' \<in> set p \<or>
     list_ex (\<lambda>c. c \<in> {'''', ''.'', ''..''}) (split_char (CHR ''/'') p) \<or> is_secret_path p)"

definition evidence_identity_ok :: "string \<Rightarrow> pydict \<Rightarrow> bool" where
  "evidence_identity_ok worktree e \<longleftrightarrow>
     (case (dict_get e ''path'' PNone, dict_get e ''version'' PNone) of
        (PStr p, PDict v) \<Rightarrow>
          p \<noteq> [] \<and> length p \<le> 4096 \<and> stored_path_ok p \<and> dict_get v ''path'' PNone = PStr p \<and>
          dict_get v ''worktree_id'' PNone = PStr worktree \<and> hex64 (dict_get v ''sha256'' PNone) \<and>
          (case dict_get v ''revision'' PNone of PInt i \<Rightarrow> i \<ge> 0 | _ \<Rightarrow> False)
      | _ \<Rightarrow> False)"

definition line_of :: "pydict \<Rightarrow> string \<Rightarrow> int option py_result" where
  "line_of e k = (case map_of e k of None \<Rightarrow> Inl (KeyError k) | Some (PInt i) \<Rightarrow> Inr (Some i) | Some _ \<Rightarrow> Inr None)"

definition restore_entry :: "string \<Rightarrow> (string \<Rightarrow> bool) \<Rightarrow> pyval \<Rightarrow> (entry_key \<times> pydict) option py_result" where
  "restore_entry worktree allowed v =
     (case v of
        PDict e \<Rightarrow>
          (if \<not> evidence_identity_ok worktree e then Inl (ValueError ''invalid evidence identity'')
           else if list_ex (\<lambda>k. case dict_get e k PNone of PNone \<Rightarrow> False | PInt i \<Rightarrow> i < 1 | _ \<Rightarrow> True) [''start_line'', ''end_line'']
           then Inl (ValueError ''invalid evidence range'')
           else if \<not> list_all (\<lambda>k. str_max 4096 (dict_get e k PNone)) [''module'', ''reason'']
           then Inl (ValueError ''invalid evidence annotation'')
           else if allowed (py_str (dict_get e ''path'' PNone)) then
             bind_res (line_of e ''start_line'') (\<lambda>first. bind_res (line_of e ''end_line'') (\<lambda>last_line.
               let version = get_dict e ''version''
               in Inr (Some ((py_str (dict_get e ''path'' PNone), first, last_line),
                    map (\<lambda>k. (k, dict_get e k PNone)) [''path'', ''start_line'', ''end_line'', ''module'', ''reason''] @
                    [(''version'', PDict (map (\<lambda>k. (k, dict_get version k PNone)) [''worktree_id'', ''path'', ''sha256'', ''revision''])),
                     (''freshness'', PStr ''needs_revalidation'')]))))
           else Inr None)
      | _ \<Rightarrow> Inl (ValueError ''invalid evidence reference''))"

fun restore_entries :: "string \<Rightarrow> (string \<Rightarrow> bool) \<Rightarrow> pyval list \<Rightarrow> working_set \<Rightarrow> working_set \<times> unit py_result" where
  "restore_entries worktree allowed [] ws = (ws, Inr ())"
| "restore_entries worktree allowed (v # vs) ws =
     (case restore_entry worktree allowed v of
        Inl e \<Rightarrow> (ws, Inl e)
      | Inr None \<Rightarrow> restore_entries worktree allowed vs ws
      | Inr (Some (key, e)) \<Rightarrow> restore_entries worktree allowed vs (ws\<lparr>ws_entries := od_set key e (ws_entries ws)\<rparr>))"

definition restore_candidate :: "string \<Rightarrow> (string \<Rightarrow> bool) \<Rightarrow> pyval \<Rightarrow> (string \<times> pydict) option py_result" where
  "restore_candidate worktree allowed v =
     bind_res (validate_record v) (\<lambda>valid.
       case v of
         PDict r \<Rightarrow>
           (if \<not> valid then Inl (ValueError ''invalid persisted candidate record'')
            else if \<not> stored_path_ok (py_str (path_of r)) \<or>
              dict_get (get_dict r ''expected_version'') ''worktree_id'' PNone \<noteq> PStr worktree
            then Inl (ValueError ''invalid persisted candidate identity'')
            else if allowed (py_str (path_of r)) then
              Inr (Some (py_str (dict_get r ''id'' PNone),
                dict_put (dict_put r ''validation_state'' (PStr ''needs_revalidation''))
                  ''invalidation_reason'' (PStr ''restored from history'')))
            else Inr None)
       | _ \<Rightarrow> Inl (ValueError ''invalid persisted candidate record''))"

fun restore_candidates :: "string \<Rightarrow> (string \<Rightarrow> bool) \<Rightarrow> pyval list \<Rightarrow> working_set \<Rightarrow> working_set \<times> unit py_result" where
  "restore_candidates worktree allowed [] ws = (ws, Inr ())"
| "restore_candidates worktree allowed (v # vs) ws =
     (case restore_candidate worktree allowed v of
        Inl e \<Rightarrow> (ws, Inl e)
      | Inr None \<Rightarrow> restore_candidates worktree allowed vs ws
      | Inr (Some (key, r)) \<Rightarrow>
          restore_candidates worktree allowed vs (ws\<lparr>ws_candidates := od_set key r (ws_candidates ws)\<rparr>))"

definition list_upto :: "nat \<Rightarrow> pyval \<Rightarrow> pyval list option" where
  "list_upto n v = (case v of PList xs \<Rightarrow> if length xs \<le> n then Some xs else None | _ \<Rightarrow> None)"

text \<open>\<open>restore\<close>; a failure leaves what was taken back so far (the caller then starts afresh).\<close>

definition restore :: "(string \<Rightarrow> bool) \<Rightarrow> pyval \<Rightarrow> working_set \<Rightarrow> working_set \<times> unit py_result" where
  "restore allowed v ws =
     (case v of
        PDict d \<Rightarrow>
          (if \<not> (num_eq (dict_get d ''v'' PNone) 1 \<or> num_eq (dict_get d ''v'' PNone) 2) \<or> json_bytes v > state_budget
           then (ws, Inl (ValueError ''invalid exploration state''))
           else (case ws_binding ws of
             None \<Rightarrow> (ws, Inr ())
           | Some (worktree, policy) \<Rightarrow>
               if (dict_get d ''workspace'' PNone, dict_get d ''policy'' PNone) \<noteq> (PStr worktree, PStr policy) then (ws, Inr ())
               else (case list_upto (ws_max_entries ws) (dict_get d ''evidence'' PNone) of
                 None \<Rightarrow> (ws, Inl (ValueError ''invalid persisted evidence''))
               | Some evidence \<Rightarrow>
                   (case restore_entries worktree allowed evidence ws of
                      (ws1, Inl e) \<Rightarrow> (ws1, Inl e)
                    | (ws1, Inr _) \<Rightarrow>
                        (case list_upto max_candidates (dict_get d ''candidates'' (PList [])) of
                           None \<Rightarrow> (ws1, Inl (ValueError ''invalid persisted candidates''))
                         | Some candidates \<Rightarrow>
                             (case restore_candidates worktree allowed candidates ws1 of
                                (ws2, Inl e) \<Rightarrow> (ws2, Inl e)
                              | (ws2, Inr _) \<Rightarrow>
                                  (case restore_queries (dict_get d ''queries'' (PList [])) (ws_exploration ws2) of
                                     (ex, r) \<Rightarrow> (ws2\<lparr>ws_exploration := ex\<rparr>, r))))))))
      | _ \<Rightarrow> (ws, Inl (ValueError ''invalid exploration state'')))"

end
