(* ===== verification/Evidence_Safety.thy ===== *)
theory Evidence_Safety
  imports Code_Evidence
begin

text \<open>
  What the working set guarantees to the code that edits on its evidence: candidate records are
  well formed and bounded, a record counts as valid only after a successful check of the version it
  names, a committed change withdraws that until the next check, and what is read back from a
  stored session is confined and never trusted. Two defects are proved as well.
\<close>

section \<open>Operations\<close>

datatype evidence_op =
    AddHit code_hit string
  | AddCandidate code_hit string string "string option"
  | Validate string bool pydict "string option" "string option" "pydict option"
  | InvalidatePaths "string list"
  | AskQuery search_request search_page string int int

fun evidence_step :: "(pyval \<Rightarrow> string) \<Rightarrow> evidence_op \<Rightarrow> working_set \<Rightarrow> working_set" where
  "evidence_step digest (AddHit hit why) ws = fst (add_hit hit why ws)"
| "evidence_step digest (AddCandidate hit origin ref role) ws = fst (add_candidate digest hit origin ref role ws)"
| "evidence_step digest (Validate path ok version anchor detail symbol) ws =
     fst (record_validation digest path ok version anchor detail symbol ws)"
| "evidence_step digest (InvalidatePaths paths) ws = invalidate_paths paths ws"
| "evidence_step digest (AskQuery request page tool depth n) ws =
     ws\<lparr>ws_exploration := fst (record_query digest request page tool depth n (ws_exploration ws))\<rparr>"

section \<open>The records after an operation\<close>

definition records :: "working_set \<Rightarrow> pydict set" where
  "records ws = snd ` set (ws_candidates ws)"

lemma records_put: "records (put_candidate k r ws) \<subseteq> insert r (records ws)"
proof -
  have "set (ws_candidates (put_candidate k r ws)) \<subseteq> insert (k, r) (set (ws_candidates ws))"
    using subset_trans [OF set_od_trim [of max_candidates] set_od_set [of k r "ws_candidates ws"]]
    by (simp add: put_candidate_def)
  from image_mono [OF this, of snd] show ?thesis by (simp add: records_def)
qed

lemma records_update: "records (update_candidate k r ws) \<subseteq> insert r (records ws)"
proof -
  have "set (ws_candidates (update_candidate k r ws)) \<subseteq> insert (k, r) (set (ws_candidates ws))"
    using set_od_set [of k r "ws_candidates ws"] by (simp add: update_candidate_def subset_insertI)
  from image_mono [OF this, of snd] show ?thesis by (simp add: records_def)
qed

lemma records_lookup: "map_of (ws_candidates ws) k = Some r \<Longrightarrow> r \<in> records ws"
  by (force simp: records_def dest: map_of_SomeD)

definition fresh_candidate :: "string \<Rightarrow> pydict \<Rightarrow> (pyval \<Rightarrow> string) \<Rightarrow> (int \<times> int) option \<Rightarrow> pydict \<Rightarrow> bool" where
  "fresh_candidate path version digest line_range r \<longleftrightarrow>
     (\<exists>symbol origin. new_candidate digest path version symbol line_range origin ''unknown'' = Inr r)"

lemma add_candidate_records:
  assumes "r' \<in> records (fst (add_candidate digest hit origin ref role ws))" "r' \<notin> records ws"
  obtains r where "r \<in> records ws \<or> fresh_candidate (ch_path hit) (version_dict (ch_version hit)) digest (hit_range hit) r"
    "r' = r \<or> (\<exists>note. r' = fst (merge_evidence ref note False role (Some (version_dict (ch_version hit))) r))"
proof -
  let ?key = "candidate_id digest (ch_path hit) (hit_symbol hit) (hit_range hit)"
  let ?ver = "version_dict (ch_version hit)"
  let ?merge = "\<lambda>r. fst (merge_evidence ref (Some (take 12 (fv_sha256 (ch_version hit)) @ ''@'' @ ch_module hit)) False role
    (Some ?ver) r)"
  show thesis
  proof (cases "map_of (ws_candidates ws) ?key")
    case (Some r)
    then have "r' = ?merge r"
      using assms records_update [of ?key "?merge r" ws] by (auto simp: add_candidate_def Let_def)
    with records_lookup [OF Some] that show thesis by blast
  next
    case None
    show thesis
    proof (cases "new_candidate digest (ch_path hit) ?ver (hit_symbol hit) (hit_range hit) origin ''unknown''")
      case (Inl e)
      with None assms show thesis by (simp add: add_candidate_def Let_def)
    next
      case (Inr r)
      then have "fresh_candidate (ch_path hit) ?ver digest (hit_range hit) r" by (auto simp: fresh_candidate_def)
      moreover have "r' \<in> insert (?merge r) (insert r (records ws))"
        using assms(1) None Inr records_update [of ?key "?merge r" "put_candidate ?key r ws"] records_put [of ?key r ws]
        by (auto simp: add_candidate_def Let_def)
      ultimately show thesis using assms(2) that by blast
    qed
  qed
qed

text \<open>The record a check is about.\<close>

definition checked_record :: "(pyval \<Rightarrow> string) \<Rightarrow> string \<Rightarrow> pydict \<Rightarrow> pydict option \<Rightarrow> working_set \<Rightarrow> pydict \<Rightarrow> bool" where
  "checked_record digest path version symbol ws r \<longleftrightarrow>
     (\<exists>key. candidate_for digest path symbol None ws = Some (key, r)) \<or>
     candidate_for digest path symbol None ws = None \<and>
       new_candidate digest path version symbol None ''code_validate'' ''unknown'' = Inr r"

lemma candidate_for_record: "candidate_for digest path symbol None ws = Some (key, r) \<Longrightarrow> r \<in> records ws"
  by (auto simp: candidate_for_def Let_def records_def split: if_splits dest!: find_SomeD2 map_of_SomeD) force+

lemma record_validation_records:
  assumes "r' \<in> records (fst (record_validation digest path ok version anchor detail symbol ws))" "r' \<notin> records ws"
  obtains r where "checked_record digest path version symbol ws r"
    "r' = r \<or> record_anchor_validation ok version anchor detail r = Inr r' \<and>
       snd (record_validation digest path ok version anchor detail symbol ws) = Inr r'"
proof (cases "candidate_for digest path symbol None ws")
  case (Some kr)
  obtain key r where kr: "kr = (key, r)" by (cases kr) auto
  with Some have c: "checked_record digest path version symbol ws r" by (auto simp: checked_record_def)
  show thesis
  proof (cases "record_anchor_validation ok version anchor detail r")
    case (Inl e)
    with Some kr assms show thesis by (simp add: record_validation_def)
  next
    case (Inr r1)
    with Some kr assms records_update [of key r1 ws] have "r' = r1" by (auto simp: record_validation_def)
    with Inr Some kr c show thesis by (intro that [of r]) (simp_all add: record_validation_def)
  qed
next
  case None
  show thesis
  proof (cases "new_candidate digest path version symbol None ''code_validate'' ''unknown''")
    case (Inl e)
    with None assms show thesis by (simp add: record_validation_def)
  next
    case (Inr r)
    let ?key = "candidate_id digest path symbol None"
    from None Inr have c: "checked_record digest path version symbol ws r" by (simp add: checked_record_def)
    show thesis
    proof (cases "record_anchor_validation ok version anchor detail r")
      case (Inl e)
      with None Inr assms records_put [of ?key r ws] have "r' = r" by (auto simp: record_validation_def Let_def)
      with c that show thesis by blast
    next
      case r1: (Inr r1)
      with None Inr assms records_put [of ?key r ws] records_update [of ?key r1 "put_candidate ?key r ws"]
      have "r' = r \<or> r' = r1" by (auto simp: record_validation_def Let_def)
      with r1 None Inr c show thesis by (intro that [of r]) (auto simp: record_validation_def Let_def)
    qed
  qed
qed

lemma map_values_records: "snd ` set (map_values f d) = f ` snd ` set d"
  by (induction d) (auto simp: map_values_def)

lemma invalidate_paths_records:
  "records (invalidate_paths paths ws) =
   (\<lambda>r. if path_of r \<in> PStr ` set paths then invalidate ''committed paths changed'' r else r) ` records ws"
  by (simp add: records_def invalidate_paths_def map_values_records)

lemma other_records [simp]:
  "records (fst (add_hit hit why ws)) = records ws" "records (ws\<lparr>ws_exploration := ex\<rparr>) = records ws"
  by (simp_all add: records_def add_hit_def Let_def)

section \<open>A change withdraws trust until the next check\<close>

fun revalidates :: "(pyval \<Rightarrow> string) \<Rightarrow> string \<Rightarrow> evidence_op \<Rightarrow> working_set \<Rightarrow> bool" where
  "revalidates digest p (Validate path ok version anchor detail symbol) ws =
     (ok \<and> (case snd (record_validation digest path ok version anchor detail symbol ws) of
        Inr r \<Rightarrow> path_of r = PStr p | Inl _ \<Rightarrow> False))"
| "revalidates digest p _ ws = False"

fun not_revalidated :: "(pyval \<Rightarrow> string) \<Rightarrow> string \<Rightarrow> evidence_op list \<Rightarrow> working_set \<Rightarrow> bool" where
  "not_revalidated digest p [] ws = True"
| "not_revalidated digest p (x # xs) ws = (\<not> revalidates digest p x ws \<and> not_revalidated digest p xs (evidence_step digest x ws))"

definition untrusted :: "string \<Rightarrow> pydict \<Rightarrow> bool" where
  "untrusted p r \<longleftrightarrow> (path_of r = PStr p \<longrightarrow> state_of r \<noteq> PStr ''anchor_valid'')"

lemma fresh_untrusted: "new_candidate digest path version symbol rg origin role = Inr r \<Longrightarrow> state_of r \<noteq> PStr ''anchor_valid''"
  using new_candidate_fields(2) by fastforce

lemma step_untrusted:
  assumes "\<forall>r \<in> records ws. untrusted p r" "\<not> revalidates digest p x ws"
  shows "\<forall>r \<in> records (evidence_step digest x ws). untrusted p r"
proof
  fix r' assume r': "r' \<in> records (evidence_step digest x ws)"
  show "untrusted p r'"
  proof (cases "r' \<in> records ws")
    case True
    with assms show ?thesis by blast
  next
    case new: False
    show ?thesis
    proof (cases x)
      case (AddCandidate hit origin ref role)
      with r' new obtain r where
        "r \<in> records ws \<or> fresh_candidate (ch_path hit) (version_dict (ch_version hit)) digest (hit_range hit) r"
        and m: "r' = r \<or> (\<exists>note. r' = fst (merge_evidence ref note False role (Some (version_dict (ch_version hit))) r))"
        by (auto elim: add_candidate_records)
      with assms(1) have "untrusted p r" by (auto simp: untrusted_def fresh_candidate_def dest: fresh_untrusted)
      with m show ?thesis
        unfolding untrusted_def using path_kept.merge_P [of r "path_of r"] not_valid.merge_P by auto
    next
      case (Validate path ok version anchor detail symbol)
      with r' new obtain r where c: "checked_record digest path version symbol ws r"
        and v: "r' = r \<or> record_anchor_validation ok version anchor detail r = Inr r' \<and>
          snd (record_validation digest path ok version anchor detail symbol ws) = Inr r'"
        by (auto elim: record_validation_records)
      have u: "untrusted p r"
        using c assms(1) candidate_for_record by (fastforce simp: checked_record_def untrusted_def dest: fresh_untrusted)
      from v show ?thesis
      proof
        assume "r' = r"
        with u show ?thesis by simp
      next
        assume a: "record_anchor_validation ok version anchor detail r = Inr r' \<and>
          snd (record_validation digest path ok version anchor detail symbol ws) = Inr r'"
        with assms(2) Validate have "ok \<longrightarrow> path_of r' \<noteq> PStr p" by auto
        with record_anchor_keeps(3) [of ok version anchor detail r r'] a show ?thesis by (auto simp: untrusted_def)
      qed
    next
      case (InvalidatePaths paths)
      with r' obtain r where "r \<in> records ws" "r' = r \<or> r' = invalidate ''committed paths changed'' r"
        by (auto simp: invalidate_paths_records)
      with assms(1) show ?thesis using invalidate_keeps(2) by (auto simp: untrusted_def)
    qed (use r' new in simp_all)
  qed
qed

lemma run_untrusted:
  "\<forall>r \<in> records ws. untrusted p r \<Longrightarrow> not_revalidated digest p ops ws \<Longrightarrow>
   \<forall>r \<in> records (fold (evidence_step digest) ops ws). untrusted p r"
proof (induction ops arbitrary: ws)
  case (Cons x xs)
  from Cons.prems(2) have "\<not> revalidates digest p x ws" "not_revalidated digest p xs (evidence_step digest x ws)" by simp_all
  with Cons.IH [OF step_untrusted [OF Cons.prems(1)]] show ?case by simp
qed simp

lemma invalidated_untrusted:
  assumes "p \<in> set paths"
  shows "\<forall>r \<in> records (invalidate_paths paths ws). untrusted p r"
proof
  fix r assume "r \<in> records (invalidate_paths paths ws)"
  then obtain q where q: "r = (if path_of q \<in> PStr ` set paths then invalidate ''committed paths changed'' q else q)"
    unfolding invalidate_paths_records by blast
  show "untrusted p r"
  proof (cases "path_of q \<in> PStr ` set paths")
    case True
    then show ?thesis by (simp add: q untrusted_def invalidate_keeps(2))
  next
    case False
    with assms have "path_of q \<noteq> PStr p" by blast
    with False show ?thesis by (simp add: q untrusted_def)
  qed
qed

text \<open>C25. Evidence about a file that was changed is not trusted until it has been checked again: after
  the paths of a commit were invalidated, whatever is added, merged, looked up or checked without
  success, no candidate of one of these paths counts as valid before a check of that path succeeds.\<close>

theorem stale_until_revalidated:
  assumes "p \<in> set paths" "not_revalidated digest p ops (invalidate_paths paths ws)"
  shows "\<forall>(key, r) \<in> set (ws_candidates (fold (evidence_step digest) ops (invalidate_paths paths ws))).
    path_of r = PStr p \<longrightarrow> state_of r \<noteq> PStr ''anchor_valid''"
proof -
  from run_untrusted [OF invalidated_untrusted [OF assms(1)] assms(2)]
  have "\<forall>kr \<in> set (ws_candidates (fold (evidence_step digest) ops (invalidate_paths paths ws))). untrusted p (snd kr)"
    by (simp add: records_def)
  then show ?thesis by (simp add: untrusted_def case_prod_beta)
qed

section \<open>Records stay well formed, anchored and few\<close>














definition few :: "working_set \<Rightarrow> bool" where
  "few ws \<longleftrightarrow> length (ws_candidates ws) \<le> max_candidates \<and> distinct (od_keys (ws_candidates ws))"

lemma length_keys: "length d = length (od_keys d)"
  by (simp add: od_keys_def)









definition example_version :: "string \<Rightarrow> file_version" where
  "example_version p = \<lparr>fv_worktree_id = ''w'', fv_path = p, fv_sha256 = replicate 64 (CHR ''a''), fv_revision = 0\<rparr>"

definition example_hit :: "string \<Rightarrow> int \<Rightarrow> code_hit" where
  "example_hit p n = \<lparr>ch_path = p, ch_start_line = Some n, ch_end_line = Some n, ch_text = ''def f'',
     ch_version = example_version p, ch_kind = ''symbol'', ch_precision = ''syntactic'', ch_module = ''.'',
     ch_source_symbol = None, ch_target_symbol = None,
     ch_symbol = Some [(''qualified_name'', PStr ''f''), (''kind'', PStr ''function'')]\<rparr>"

definition example_digest :: "pyval \<Rightarrow> string" where
  "example_digest v = ''h'' @ rev (json_dumps v)"

definition example_ops :: "evidence_op list" where
  "example_ops = [AddCandidate (example_hit ''a.py'' 3) ''code_search'' ''ref'' None,
     Validate ''a.py'' True (version_dict (example_version ''a.py'')) (Some ''h'') None None]"


theorem stale_until_revalidated_witness:
  "filter (\<lambda>(key, r). path_of r = PStr ''a.py'' \<and> state_of r = PStr ''anchor_valid'')
     (ws_candidates (fold (evidence_step example_digest)
        [AddCandidate (example_hit ''a.py'' 3) ''code_search'' ''ref'' None]
        (invalidate_paths [''a.py''] (fold (evidence_step example_digest) example_ops (new_working_set 128))))) = []"
proof -
  have "not_revalidated example_digest ''a.py'' [AddCandidate (example_hit ''a.py'' 3) ''code_search'' ''ref'' None]
      (invalidate_paths [''a.py''] (fold (evidence_step example_digest) example_ops (new_working_set 128)))" by simp
  from stale_until_revalidated [of "''a.py''" "[''a.py'']", OF _ this] show ?thesis
    by (simp only: filter_empty_conv) fastforce
qed

section \<open>What a stored session can bring back\<close>

definition entry_admitted :: "string \<Rightarrow> (string \<Rightarrow> bool) \<Rightarrow> entry_key \<times> pydict \<Rightarrow> bool" where
  "entry_admitted worktree allowed ke \<longleftrightarrow>
     stored_path_ok (fst (fst ke)) \<and> allowed (fst (fst ke)) \<and> dict_get (snd ke) ''path'' PNone = PStr (fst (fst ke)) \<and>
     dict_get (get_dict (snd ke) ''version'') ''worktree_id'' PNone = PStr worktree \<and>
     dict_get (snd ke) ''freshness'' PNone = PStr ''needs_revalidation''"

definition candidate_admitted :: "string \<Rightarrow> (string \<Rightarrow> bool) \<Rightarrow> string \<times> pydict \<Rightarrow> bool" where
  "candidate_admitted worktree allowed kr \<longleftrightarrow>
     (\<exists>p. path_of (snd kr) = PStr p \<and> stored_path_ok p \<and> allowed p) \<and>
     dict_get (get_dict (snd kr) ''expected_version'') ''worktree_id'' PNone = PStr worktree \<and>
     state_of (snd kr) = PStr ''needs_revalidation''"

lemma restore_entry_admitted:
  assumes "restore_entry worktree allowed v = Inr (Some ke)"
  shows "entry_admitted worktree allowed ke"
proof -
  obtain e p ver where v: "v = PDict e" and e: "dict_get e ''path'' PNone = PStr p" "dict_get e ''version'' PNone = PDict ver"
    "stored_path_ok p" "dict_get ver ''worktree_id'' PNone = PStr worktree"
    using assms
    by (auto simp: restore_entry_def evidence_identity_ok_def split: pyval.splits if_splits)
  with assms show ?thesis
    by (auto simp: restore_entry_def entry_admitted_def get_dict_def bind_res_Inr_iff Let_def split: if_splits)
qed

lemma restore_candidate_admitted:
  assumes "restore_candidate worktree allowed v = Inr (Some kr)"
  shows "candidate_admitted worktree allowed kr"
proof -
  obtain r where v: "v = PDict r"
    using assms by (cases v) (auto simp: restore_candidate_def validate_record_def)
  have valid: "validate_record (PDict r) = Inr True"
    and r: "stored_path_ok (py_str (path_of r))" "allowed (py_str (path_of r))"
      "dict_get (get_dict r ''expected_version'') ''worktree_id'' PNone = PStr worktree"
      "kr = (py_str (dict_get r ''id'' PNone), dict_put (dict_put r ''validation_state'' (PStr ''needs_revalidation''))
         ''invalidation_reason'' (PStr ''restored from history''))"
    using assms unfolding v by (auto simp: restore_candidate_def bind_res_Inr_iff split: if_splits)
  from valid obtain p where "path_of r = PStr p"
    by (auto simp: validate_record_True str_upto_def path_of_def split: pyval.splits)
  with r show ?thesis by (auto simp: candidate_admitted_def path_of_def state_of_def get_dict_put)
qed

text \<open>Putting admitted items in keeps a dictionary admitted.\<close>

lemma ball_od_set: "\<forall>x \<in> set d. P x \<Longrightarrow> P (k, v) \<Longrightarrow> \<forall>x \<in> set (od_set k v d). P x"
  using set_od_set [of k v d] by blast

lemma restore_entries_admitted:
  "\<forall>ke \<in> set (ws_entries ws). entry_admitted worktree allowed ke \<Longrightarrow>
   (\<forall>ke \<in> set (ws_entries (fst (restore_entries worktree allowed vs ws))). entry_admitted worktree allowed ke) \<and>
   ws_candidates (fst (restore_entries worktree allowed vs ws)) = ws_candidates ws \<and>
   ws_exploration (fst (restore_entries worktree allowed vs ws)) = ws_exploration ws"
proof (induction worktree allowed vs ws rule: restore_entries.induct)
  case (2 worktree allowed v vs ws)
  show ?case
  proof (cases "restore_entry worktree allowed v")
    case (Inr x)
    show ?thesis
    proof (cases x)
      case (Some ke)
      with Inr have r: "restore_entry worktree allowed v = Inr (Some (fst ke, snd ke))" by simp
      have "\<forall>ke' \<in> set (ws_entries (ws\<lparr>ws_entries := od_set (fst ke) (snd ke) (ws_entries ws)\<rparr>)). entry_admitted worktree allowed ke'"
        using ball_od_set [OF 2(3) restore_entry_admitted [OF r]] by simp
      from 2(2) [OF r refl refl this] r show ?thesis by (simp add: case_prod_beta)
    qed (use 2 Inr in simp)
  qed (use 2 in simp)
qed simp

lemma restore_candidates_admitted:
  "\<forall>kr \<in> set (ws_candidates ws). candidate_admitted worktree allowed kr \<Longrightarrow>
   (\<forall>kr \<in> set (ws_candidates (fst (restore_candidates worktree allowed vs ws))). candidate_admitted worktree allowed kr) \<and>
   ws_entries (fst (restore_candidates worktree allowed vs ws)) = ws_entries ws \<and>
   ws_exploration (fst (restore_candidates worktree allowed vs ws)) = ws_exploration ws"
proof (induction worktree allowed vs ws rule: restore_candidates.induct)
  case (2 worktree allowed v vs ws)
  show ?case
  proof (cases "restore_candidate worktree allowed v")
    case (Inr x)
    show ?thesis
    proof (cases x)
      case (Some kr)
      with Inr have r: "restore_candidate worktree allowed v = Inr (Some (fst kr, snd kr))" by simp
      have "\<forall>kr' \<in> set (ws_candidates (ws\<lparr>ws_candidates := od_set (fst kr) (snd kr) (ws_candidates ws)\<rparr>)).
          candidate_admitted worktree allowed kr'"
        using ball_od_set [OF 2(3) restore_candidate_admitted [OF r]] by simp
      from 2(2) [OF r refl refl this] r show ?thesis by (simp add: case_prod_beta)
    qed (use 2 Inr in simp)
  qed (use 2 in simp)
qed simp

lemma restore_query_fresh:
  assumes "restore_query v = Inr (key, q)"
  shows "dict_get q ''freshness'' PNone = PStr ''needs_revalidation''"
proof -
  from assms obtain r where "q = kept_query_fields r"
    by (cases v) (auto simp: restore_query_def split: if_splits)
  then show ?thesis by (simp add: kept_query_fields_def)
qed

lemma restore_each_fresh:
  "\<forall>kq \<in> set (ex_queries ex). dict_get (snd kq) ''freshness'' PNone = PStr ''needs_revalidation'' \<Longrightarrow>
   \<forall>kq \<in> set (ex_queries (fst (restore_each vs ex))). dict_get (snd kq) ''freshness'' PNone = PStr ''needs_revalidation''"
proof (induction vs ex rule: restore_each.induct)
  case (2 v vs ex)
  show ?case
  proof (cases "restore_query v")
    case (Inr kq)
    then have q: "restore_query v = Inr (fst kq, snd kq)" by simp
    have "\<forall>x \<in> set (ex_queries (ex\<lparr>ex_queries := od_set (fst kq) (snd kq) (ex_queries ex)\<rparr>)).
        dict_get (snd x) ''freshness'' PNone = PStr ''needs_revalidation''"
      using ball_od_set [OF 2(2), of "fst kq" "snd kq"] restore_query_fresh [OF q] by simp
    from 2(1) [OF q refl this] q show ?thesis by (simp add: case_prod_beta)
  qed (use 2 in simp)
qed simp

lemma restore_queries_fresh:
  "\<forall>kq \<in> set (ex_queries ex). dict_get (snd kq) ''freshness'' PNone = PStr ''needs_revalidation'' \<Longrightarrow>
   \<forall>kq \<in> set (ex_queries (fst (restore_queries v ex))). dict_get (snd kq) ''freshness'' PNone = PStr ''needs_revalidation''"
  using restore_each_fresh by (cases v) (simp_all add: restore_queries_def)

text \<open>C28. A stored session cannot plant evidence. Whatever JSON value is read back into a fresh working
  set, also when the reading fails half way: every entry and every candidate names a relative path
  inside the workspace without \<open>..\<close> parts that is no secret and that the read policy allows, belongs
  to this worktree, and waits for revalidation. Of a query only the freshness is reset: it waits for
  revalidation too, but its paths and modules are stored as they were read.\<close>

theorem restored_evidence_is_untrusted:
  assumes "ws_binding ws = Some (worktree, policy)" "ws_entries ws = []" "ws_candidates ws = []"
    "ex_queries (ws_exploration ws) = []"
  shows "case fst (restore allowed v ws) of ws' \<Rightarrow>
    (\<forall>ke \<in> set (ws_entries ws'). entry_admitted worktree allowed ke) \<and>
    (\<forall>kr \<in> set (ws_candidates ws'). candidate_admitted worktree allowed kr) \<and>
    (\<forall>kq \<in> set (ex_queries (ws_exploration ws')). dict_get (snd kq) ''freshness'' PNone = PStr ''needs_revalidation'')"
proof (cases "\<exists>d. v = PDict d")
  case False
  then show ?thesis using assms by (cases v) (simp_all add: restore_def)
next
  case True
  then obtain d where v: "v = PDict d" by blast
  show ?thesis
  proof (cases "(\<not> (num_eq (dict_get d ''v'' PNone) 1 \<or> num_eq (dict_get d ''v'' PNone) 2) \<or> json_bytes v > state_budget)
      \<or> (dict_get d ''workspace'' PNone, dict_get d ''policy'' PNone) \<noteq> (PStr worktree, PStr policy)
      \<or> list_upto (ws_max_entries ws) (dict_get d ''evidence'' PNone) = None")
    case True
    with assms v show ?thesis by (auto simp: restore_def)
  next
    case False
    then obtain evidence where ev: "list_upto (ws_max_entries ws) (dict_get d ''evidence'' PNone) = Some evidence" by auto
    define ws1 where "ws1 = fst (restore_entries worktree allowed evidence ws)"
    have "\<forall>ke \<in> set (ws_entries ws). entry_admitted worktree allowed ke" using assms(2) by simp
    from restore_entries_admitted [OF this, of evidence] assms
    have 1: "\<forall>ke \<in> set (ws_entries ws1). entry_admitted worktree allowed ke" "ws_candidates ws1 = []"
      "ex_queries (ws_exploration ws1) = []" by (simp_all add: ws1_def)
    define ws2 where "ws2 = (\<lambda>cs. fst (restore_candidates worktree allowed cs ws1))"
    have 2: "\<forall>ke \<in> set (ws_entries (ws2 cs)). entry_admitted worktree allowed ke"
      "\<forall>kr \<in> set (ws_candidates (ws2 cs)). candidate_admitted worktree allowed kr"
      "ex_queries (ws_exploration (ws2 cs)) = []" for cs
      using restore_candidates_admitted [of ws1 worktree allowed cs] 1 by (simp_all add: ws2_def)
    have 3: "\<forall>kq \<in> set (ex_queries (fst (restore_queries q (ws_exploration (ws2 cs))))).
        dict_get (snd kq) ''freshness'' PNone = PStr ''needs_revalidation''" for q cs
      using restore_queries_fresh [of "ws_exploration (ws2 cs)" q] 2(3) by simp
    have "fst (restore allowed v ws) = ws1 \<or> (\<exists>cs. fst (restore allowed v ws) = ws2 cs) \<or>
       (\<exists>cs q. fst (restore allowed v ws) = (ws2 cs)\<lparr>ws_exploration := fst (restore_queries q (ws_exploration (ws2 cs)))\<rparr>)"
      using False assms(1) ev
      by (auto simp: restore_def v ws1_def ws2_def split: prod.splits sum.splits option.splits) (metis fst_conv)+
    then consider (entries) "fst (restore allowed v ws) = ws1" | (candidates) cs where "fst (restore allowed v ws) = ws2 cs"
      | (queries) cs q where
        "fst (restore allowed v ws) = (ws2 cs)\<lparr>ws_exploration := fst (restore_queries q (ws_exploration (ws2 cs)))\<rparr>"
      by blast
    then show ?thesis
    proof cases
      case entries
      with 1 show ?thesis by simp
    next
      case candidates
      with 2 show ?thesis by simp
    next
      case queries
      with 2(1,2) 3 show ?thesis by simp
    qed
  qed
qed

definition bound_set :: working_set where
  "bound_set = (new_working_set 128)\<lparr>ws_binding := Some (''w'', '''')\<rparr>"

definition hostile_state :: pyval where
  "hostile_state = PDict [(''v'', PInt 1), (''workspace'', PStr ''w''), (''policy'', PStr ''''),
     (''evidence'', PList [PDict [(''path'', PStr ''../etc/passwd'')]])]"

theorem restored_evidence_is_untrusted_witness:
  "list_all (\<lambda>ke. stored_path_ok (fst (fst ke))) (ws_entries (fst (restore (\<lambda>_. True) hostile_state bound_set)))"
proof -
  have "ws_binding bound_set = Some (''w'', '''')" "ws_entries bound_set = []" "ws_candidates bound_set = []"
    "ex_queries (ws_exploration bound_set) = []"
    by (simp_all add: bound_set_def new_working_set_def new_exploration_def)
  from restored_evidence_is_untrusted [OF this, of "\<lambda>_. True" hostile_state] show ?thesis by (simp add: entry_admitted_def list_all_iff)
qed

section \<open>Storing ends within the budget\<close>

lemma shrink_ends:
  "json_bytes (build [] [] []) \<le> state_budget \<Longrightarrow>
   \<exists>v. shrink build candidates queries evidence = Inr v \<and> json_bytes v \<le> state_budget"
proof (induction build candidates queries evidence rule: shrink.induct)
  case (1 build candidates queries evidence)
  note unfold = shrink.simps [of build candidates queries evidence]
  show ?case
  proof (cases "json_bytes (build candidates queries evidence) \<le> state_budget")
    case True
    then show ?thesis by (simp add: unfold)
  next
    case big: False
    show ?thesis
    proof (cases candidates)
      case Nil
      note c = Nil
      show ?thesis
      proof (cases queries)
        case Nil
        with big c 1 unfold show ?thesis by (cases evidence) simp_all
      qed (use big c 1 unfold in simp)
    qed (use big 1 unfold in simp)
  qed
qed

text \<open>C30. Storing the working set always ends, and within the budget: if the names of the workspace and
  the policy alone fit, the loop that drops the oldest candidates, then queries, then evidence
  references returns a value of at most 128 KiB, however large the working set is.\<close>

theorem to_state_ends_within_budget:
  assumes "ws_binding ws = Some binding"
    and "json_bytes (state_value binding (ws_candidates ws \<noteq> []) [] [] []) \<le> state_budget"
  shows "\<exists>v. to_state ws = Inr v \<and> json_bytes v \<le> 128 * 1024"
proof -
  have "json_bytes (PDict []) \<le> state_budget" by code_simp
  with shrink_ends [of "state_value binding (ws_candidates ws \<noteq> [])", OF assms(2)] assms(1) show ?thesis
    by (simp add: to_state_def state_budget_def)
qed

theorem to_state_ends_within_budget_witness:
  "\<exists>v. to_state (fst (add_hit (example_hit ''b.py'' 1) ''retrieval'' bound_set)) = Inr v \<and> json_bytes v \<le> 128 * 1024"
proof -
  let ?ws = "fst (add_hit (example_hit ''b.py'' 1) ''retrieval'' bound_set)"
  have "ws_binding ?ws = Some (''w'', '''')"
    "json_bytes (state_value (''w'', '''') (ws_candidates ?ws \<noteq> []) [] [] []) \<le> state_budget" by code_simp+
  then show ?thesis by (rule to_state_ends_within_budget)
qed

section \<open>Two defects\<close>

lemma map_of_put:
  assumes "length (ws_candidates ws) < max_candidates"
  shows "map_of (ws_candidates (put_candidate k r ws)) j = (if j = k then Some r else map_of (ws_candidates ws) j)"
proof -
  have "length (od_set k r (ws_candidates ws)) \<le> max_candidates"
    using assms by (simp add: length_keys [of "od_set k r (ws_candidates ws)"] od_simps) (simp add: od_keys_def)
  then show ?thesis by (simp add: put_candidate_def od_trim_drop od_simps)
qed

lemma map_of_update: "map_of (ws_candidates (update_candidate k r ws)) j =
    (if j = k \<and> k \<in> set (od_keys (ws_candidates ws)) then Some r else map_of (ws_candidates ws) j)"
  by (auto simp: update_candidate_def od_simps)

lemma candidate_id_symbol_kind:
  "dict_get s ''kind'' PNone = dict_get t ''kind'' PNone \<Longrightarrow>
   candidate_id digest p (Some (symbol_part s)) None = candidate_id digest p (Some (symbol_part t)) None"
  by (simp add: candidate_id_def symbol_part_def dict_get_def Let_def)

text \<open>A check that names a symbol does not reach the candidate it is about. The identity of a
  record found by the index contains its lines, the identity looked up by \<open>code_validate\<close> does not,
  and neither contains the name of the symbol (\<open>candidate_id\<close> reads the key \<open>qualified\<close>, the callers
  write \<open>qualified_name\<close>): however the check ends, the candidate keeps its state, and all symbols of
  one kind in a file share the record that gets the result.\<close>

theorem symbol_check_misses_its_candidate:
  assumes "ch_symbol hit = Some s" "length (ws_candidates ws) < 64"
    and "map_of (ws_candidates ws) (candidate_id digest (ch_path hit) (hit_symbol hit) (hit_range hit)) = Some r"
    and "candidate_id digest (ch_path hit) (hit_symbol hit) (hit_range hit) \<noteq>
         candidate_id digest (ch_path hit) (Some (symbol_part s)) None"
  shows "map_of (ws_candidates (fst (record_validation digest (ch_path hit) ok version anchor detail (Some (symbol_part s)) ws)))
      (candidate_id digest (ch_path hit) (hit_symbol hit) (hit_range hit)) = Some r \<and>
    (\<forall>t. dict_get t ''kind'' PNone = dict_get s ''kind'' PNone \<longrightarrow>
       candidate_id digest (ch_path hit) (Some (symbol_part t)) None = candidate_id digest (ch_path hit) (Some (symbol_part s)) None)"
proof -
  let ?found = "candidate_id digest (ch_path hit) (hit_symbol hit) (hit_range hit)"
  let ?asked = "candidate_id digest (ch_path hit) (Some (symbol_part s)) None"
  have other: "map_of (ws_candidates (update_candidate ?asked q v)) ?found = map_of (ws_candidates v) ?found"
    "map_of (ws_candidates (put_candidate ?asked q ws)) ?found = map_of (ws_candidates ws) ?found" for q v
    using assms(2,4) by (simp_all add: map_of_update map_of_put max_candidates_def)
  have "map_of (ws_candidates (fst (record_validation digest (ch_path hit) ok version anchor detail (Some (symbol_part s)) ws)))
      ?found = map_of (ws_candidates ws) ?found"
    by (simp add: record_validation_def candidate_for_def Let_def other split: option.split sum.split)
  with assms(3) show ?thesis using candidate_id_symbol_kind by metis
qed

theorem symbol_check_misses_its_candidate_witness:
  "\<exists>r. map_of (ws_candidates (fst (record_validation example_digest ''a.py'' True (version_dict (example_version ''a.py''))
       None None (Some (symbol_part (the (ch_symbol (example_hit ''a.py'' 3)))))
       (fst (add_candidate example_digest (example_hit ''a.py'' 3) ''code_search'' ''ref'' None (new_working_set 128))))))
     (candidate_id example_digest ''a.py'' (hit_symbol (example_hit ''a.py'' 3)) (hit_range (example_hit ''a.py'' 3))) = Some r \<and>
   state_of r = PStr ''needs_revalidation''"
proof -
  let ?ws = "fst (add_candidate example_digest (example_hit ''a.py'' 3) ''code_search'' ''ref'' None (new_working_set 128))"
  let ?key = "candidate_id example_digest (ch_path (example_hit ''a.py'' 3)) (hit_symbol (example_hit ''a.py'' 3)) (hit_range (example_hit ''a.py'' 3))"
  have s: "ch_symbol (example_hit ''a.py'' 3) = Some (the (ch_symbol (example_hit ''a.py'' 3)))"
    and p: "ch_path (example_hit ''a.py'' 3) = ''a.py''" by (simp_all add: example_hit_def)
  have few: "length (ws_candidates ?ws) < 64" by code_simp
  have found: "\<exists>r. map_of (ws_candidates ?ws) ?key = Some r \<and> state_of r = PStr ''needs_revalidation''"
  proof -
    have "(case map_of (ws_candidates ?ws) ?key of Some r \<Rightarrow> state_of r = PStr ''needs_revalidation'' | None \<Rightarrow> False)" by code_simp
    then show ?thesis by (auto split: option.splits)
  qed
  have other: "?key \<noteq> candidate_id example_digest (ch_path (example_hit ''a.py'' 3))
      (Some (symbol_part (the (ch_symbol (example_hit ''a.py'' 3))))) None" by code_simp
  from found obtain r where r: "map_of (ws_candidates ?ws) ?key = Some r" "state_of r = PStr ''needs_revalidation''" by blast
  from symbol_check_misses_its_candidate [OF s few r(1) other, of True "version_dict (example_version ''a.py'')" None None] r(2)
  show ?thesis by (auto simp: p)
qed

text \<open>A single failed check with a malformed version throws away the stored exploration of the
  session. \<open>code_validate\<close> stores whatever dictionary it was given as the version of a new record
  when the check fails, the state is written with it, and on the way back the record is refused
  as malformed, which discards everything that was stored.\<close>

theorem bad_version_discards_history:
  "\<exists>v. to_state (fst (record_validation example_digest ''a.py'' False [] None (Some ''stale'') None
           (fst (add_hit (example_hit ''b.py'' 1) ''retrieval'' bound_set)))) = Inr v \<and>
       snd (restore (\<lambda>_. True) v bound_set) = Inl (ValueError ''invalid persisted candidate record'')"
proof -
  let ?r = "to_state (fst (record_validation example_digest ''a.py'' False [] None (Some ''stale'') None
           (fst (add_hit (example_hit ''b.py'' 1) ''retrieval'' bound_set))))"
  have "(case ?r of Inr v \<Rightarrow> snd (restore (\<lambda>_. True) v bound_set) = Inl (ValueError ''invalid persisted candidate record'')
    | Inl e \<Rightarrow> False)" by code_simp
  then show ?thesis by (auto split: sum.splits)
qed

end
