(* ===== verification/Source_Merge.thy ===== *)
theory Source_Merge
  imports Polaris_Prelude
begin

text \<open>
  \<^verbatim>\<open>agent_core/merge.py\<close>, the three-way merge of source texts, with what it uses of Python's
  \<^verbatim>\<open>difflib\<close>: \<open>SequenceMatcher(a, b, autojunk=False).get_opcodes()\<close>. The library finds the longest
  matching block and recurses to its left and right with a work list whose result it sorts; the
  recursion here yields the blocks in that order. Parsing Python (\<open>ast.parse\<close>) is the argument
  \<open>parse\<close>, which returns the statements with their dumps, or \<open>None\<close> for a syntax error. The byte order
  mark, which \<open>removeprefix\<close> strips before parsing, is outside the modelled characters.
\<close>

section \<open>Matching blocks\<close>

text \<open>One row of the search for the longest match: the lines of \<open>b\<close> equal to the line \<open>x\<close>, numbered \<open>i\<close>,
  of \<open>a\<close>; \<open>j2len\<close> maps the end of a match in the row before to its length.\<close>

type_synonym match = "nat \<times> nat \<times> nat"

definition previous_length :: "(nat \<times> nat) list \<Rightarrow> nat \<Rightarrow> nat" where
  "previous_length j2len j = (if j = 0 then 0 else case map_of j2len (j - 1) of None \<Rightarrow> 0 | Some k \<Rightarrow> k)"

fun match_row :: "nat \<Rightarrow> (nat \<times> nat) list \<Rightarrow> nat list \<Rightarrow> (nat \<times> nat) list \<Rightarrow> match \<Rightarrow> (nat \<times> nat) list \<times> match" where
  "match_row i j2len [] newj2len best = (newj2len, best)"
| "match_row i j2len (j # js) newj2len best =
     (let k = previous_length j2len j + 1
      in match_row i j2len js ((j, k) # newj2len)
           (if k > snd (snd best) then (i + 1 - k, j + 1 - k, k) else best))"

fun match_rows :: "'a list \<Rightarrow> 'a list \<Rightarrow> nat \<Rightarrow> nat \<Rightarrow> nat list \<Rightarrow> (nat \<times> nat) list \<Rightarrow> match \<Rightarrow> match" where
  "match_rows a b blo bhi [] j2len best = best"
| "match_rows a b blo bhi (i # is) j2len best =
     (case match_row i j2len (filter (\<lambda>j. b ! j = a ! i) [blo..<bhi]) [] best of
        (newj2len, best') \<Rightarrow> match_rows a b blo bhi is newj2len best')"

fun extend_left :: "'a list \<Rightarrow> 'a list \<Rightarrow> nat \<Rightarrow> nat \<Rightarrow> nat \<Rightarrow> nat \<Rightarrow> nat \<Rightarrow> match" where
  "extend_left a b alo blo i j k =
     (if alo < i \<and> blo < j \<and> a ! (i - 1) = b ! (j - 1) then extend_left a b alo blo (i - 1) (j - 1) (k + 1) else (i, j, k))"

declare extend_left.simps [simp del]

function extend_right :: "'a list \<Rightarrow> 'a list \<Rightarrow> nat \<Rightarrow> nat \<Rightarrow> match \<Rightarrow> match" where
  "extend_right a b ahi bhi (i, j, k) =
     (if i + k < ahi \<and> j + k < bhi \<and> a ! (i + k) = b ! (j + k) then extend_right a b ahi bhi (i, j, k + 1) else (i, j, k))"
  by pat_completeness auto
termination by (relation "measure (\<lambda>(a, b, ahi, bhi, i, j, k). ahi - (i + k))") auto

declare extend_right.simps [simp del]

definition find_longest_match :: "'a list \<Rightarrow> 'a list \<Rightarrow> nat \<Rightarrow> nat \<Rightarrow> nat \<Rightarrow> nat \<Rightarrow> match" where
  "find_longest_match a b alo ahi blo bhi =
     (case match_rows a b blo bhi [alo..<ahi] [] (alo, blo, 0) of
        (i, j, k) \<Rightarrow> extend_right a b ahi bhi (extend_left a b alo blo i j k))"

text \<open>A block of equal lines inside the two windows.\<close>

definition block_ok :: "'a list \<Rightarrow> 'a list \<Rightarrow> nat \<Rightarrow> nat \<Rightarrow> nat \<Rightarrow> nat \<Rightarrow> match \<Rightarrow> bool" where
  "block_ok a b alo ahi blo bhi m =
     (case m of (i, j, k) \<Rightarrow> alo \<le> i \<and> blo \<le> j \<and> (\<forall>n<k. a ! (i + n) = b ! (j + n)) \<and>
        (if k = 0 then i = alo \<and> j = blo else i + k \<le> ahi \<and> j + k \<le> bhi))"

text \<open>A row table is right for the row before \<open>i\<close>.\<close>

definition row_ok :: "'a list \<Rightarrow> 'a list \<Rightarrow> nat \<Rightarrow> nat \<Rightarrow> nat \<Rightarrow> nat \<Rightarrow> (nat \<times> nat) list \<Rightarrow> bool" where
  "row_ok a b alo blo bhi i t \<longleftrightarrow>
     (\<forall>j k. map_of t j = Some k \<longrightarrow> alo + k \<le> i \<and> blo + k \<le> j + 1 \<and> j < bhi \<and> (\<forall>n<k. a ! (i - 1 - n) = b ! (j - n)))"

lemma row_ok_Nil: "row_ok a b alo blo bhi i []"
  by (simp add: row_ok_def)

lemma previous_length_ok:
  assumes "row_ok a b alo blo bhi i t" "alo \<le> i" "blo \<le> j" "j < bhi" "b ! j = a ! i"
  defines "k \<equiv> previous_length t j + 1"
  shows "alo + k \<le> i + 1 \<and> blo + k \<le> j + 1 \<and> (\<forall>n<k. a ! (i - n) = b ! (j - n))"
proof (cases "previous_length t j = 0")
  case True
  then show ?thesis using assms by (simp add: k_def)
next
  case False
  then have j: "0 < j" and m: "map_of t (j - 1) = Some (previous_length t j)"
    by (auto simp: previous_length_def split: if_splits option.splits)
  from assms(1) m have "alo + previous_length t j \<le> i \<and> blo + previous_length t j \<le> j - 1 + 1 \<and>
    (\<forall>n<previous_length t j. a ! (i - 1 - n) = b ! (j - 1 - n))" unfolding row_ok_def by blast
  with j have r: "alo + previous_length t j \<le> i" "blo + previous_length t j \<le> j"
    "\<forall>n<previous_length t j. a ! (i - 1 - n) = b ! (j - 1 - n)" by simp_all
  have "a ! (i - n) = b ! (j - n)" if "n < k" for n
  proof (cases n)
    case 0
    then show ?thesis using assms(5) by simp
  next
    case (Suc m)
    with that r(3) have "a ! (i - 1 - m) = b ! (j - 1 - m)" by (simp add: k_def)
    with Suc show ?thesis by simp
  qed
  with r show ?thesis by (simp add: k_def)
qed

lemma block_ok_end:
  assumes "0 < k" "alo + k \<le> i + 1" "blo + k \<le> j + 1" "i < ahi" "j < bhi" "\<forall>n<k. a ! (i - n) = b ! (j - n)"
  shows "block_ok a b alo ahi blo bhi (i + 1 - k, j + 1 - k, k)"
proof -
  have "a ! (i + 1 - k + n) = b ! (j + 1 - k + n)" if "n < k" for n
  proof -
    have e: "i + 1 - k + n = i - (k - 1 - n)" "j + 1 - k + n = j - (k - 1 - n)" using that assms(2,3) by auto
    show ?thesis unfolding e by (rule assms(6) [rule_format]) (use that in simp)
  qed
  with assms(1-5) show ?thesis by (auto simp: block_ok_def)
qed

lemma match_row_ok:
  assumes "row_ok a b alo blo bhi i t" "alo \<le> i" "i < ahi" "\<forall>j \<in> set js. blo \<le> j \<and> j < bhi \<and> b ! j = a ! i"
    "row_ok a b alo blo bhi (i + 1) new" "block_ok a b alo ahi blo bhi best"
  shows "row_ok a b alo blo bhi (i + 1) (fst (match_row i t js new best)) \<and>
         block_ok a b alo ahi blo bhi (snd (match_row i t js new best))"
  using assms(4-6)
proof (induction js arbitrary: new best)
  case (Cons j js)
  define k where "k = previous_length t j + 1"
  from previous_length_ok [OF assms(1,2), of j] Cons.prems(1)
  have k: "alo + k \<le> i + 1" "blo + k \<le> j + 1" "\<forall>n<k. a ! (i - n) = b ! (j - n)" "j < bhi"
    by (auto simp: k_def)
  have "row_ok a b alo blo bhi (i + 1) ((j, k) # new)"
    using Cons.prems(2) k by (auto simp: row_ok_def)
  moreover have "block_ok a b alo ahi blo bhi (if k > snd (snd best) then (i + 1 - k, j + 1 - k, k) else best)"
    using block_ok_end [OF _ k(1,2) assms(3) k(4,3)] Cons.prems(3) by (simp add: k_def)
  moreover have "match_row i t (j # js) new best =
      match_row i t js ((j, k) # new) (if k > snd (snd best) then (i + 1 - k, j + 1 - k, k) else best)"
    by (simp only: match_row.simps Let_def k_def)
  ultimately show ?case
    using Cons.IH [of "(j, k) # new" "if k > snd (snd best) then (i + 1 - k, j + 1 - k, k) else best"] Cons.prems(1)
    by (auto simp only: list.set insert_iff ball_simps)
qed simp

lemma match_rows_ok:
  assumes "row_ok a b alo blo bhi i t" "alo \<le> i" "block_ok a b alo ahi blo bhi best"
  shows "block_ok a b alo ahi blo bhi (match_rows a b blo bhi [i..<ahi] t best)"
  using assms
proof (induction "ahi - i" arbitrary: i t best)
  case (Suc d)
  then have "i < ahi" and u: "[i..<ahi] = i # [i + 1..<ahi]" by (simp_all add: upt_conv_Cons)
  let ?js = "filter (\<lambda>j. b ! j = a ! i) [blo..<bhi]"
  obtain new best' where m: "match_row i t ?js [] best = (new, best')" by (rule prod.exhaust)
  from match_row_ok [OF Suc.prems(1,2) \<open>i < ahi\<close> _ row_ok_Nil Suc.prems(3), of ?js] m
  have "row_ok a b alo blo bhi (i + 1) new" "block_ok a b alo ahi blo bhi best'" by auto
  with Suc.hyps(1) [of "i + 1"] Suc.hyps(2) Suc.prems(2) m u show ?case by simp
qed simp

lemma extend_left_ok: "block_ok a b alo ahi blo bhi (i, j, k) \<Longrightarrow> block_ok a b alo ahi blo bhi (extend_left a b alo blo i j k)"
proof (induction a b alo blo i j k rule: extend_left.induct)
  case (1 a b alo blo i j k)
  show ?case
  proof (cases "alo < i \<and> blo < j \<and> a ! (i - 1) = b ! (j - 1)")
    case True
    have "a ! (i - 1 + n) = b ! (j - 1 + n)" if "n < k + 1" for n
    proof (cases n)
      case (Suc m)
      with that 1(2) True show ?thesis by (auto simp: block_ok_def)
    qed (use True in simp)
    with True 1(2) have "block_ok a b alo ahi blo bhi (i - 1, j - 1, k + 1)" by (auto simp: block_ok_def split: if_splits)
    with 1(1) [OF True] True show ?thesis by (simp add: extend_left.simps [of a b alo blo i j k])
  next
    case False
    have "extend_left a b alo blo i j k = (i, j, k)" by (subst extend_left.simps) (rule if_not_P [OF False])
    with 1(2) show ?thesis by simp
  qed
qed

lemma extend_right_ok: "block_ok a b alo ahi blo bhi m \<Longrightarrow> block_ok a b alo ahi blo bhi (extend_right a b ahi bhi m)"
proof (induction a b ahi bhi m rule: extend_right.induct)
  case (1 a b ahi bhi i j k)
  show ?case
  proof (cases "i + k < ahi \<and> j + k < bhi \<and> a ! (i + k) = b ! (j + k)")
    case True
    with 1(2) have "block_ok a b alo ahi blo bhi (i, j, k + 1)" by (auto simp: block_ok_def less_Suc_eq)
    with 1(1) [OF True] True show ?thesis by (simp add: extend_right.simps [of a b ahi bhi i j k])
  next
    case False
    have "extend_right a b ahi bhi (i, j, k) = (i, j, k)" by (subst extend_right.simps) (rule if_not_P [OF False])
    with 1(2) show ?thesis by simp
  qed
qed

lemma find_longest_match_ok: "block_ok a b alo ahi blo bhi (find_longest_match a b alo ahi blo bhi)"
proof -
  have "block_ok a b alo ahi blo bhi (match_rows a b blo bhi [alo..<ahi] [] (alo, blo, 0))"
    by (rule match_rows_ok) (simp_all add: row_ok_Nil block_ok_def)
  then show ?thesis
    by (cases "match_rows a b blo bhi [alo..<ahi] [] (alo, blo, 0)")
      (simp only: find_longest_match_def prod.case extend_right_ok extend_left_ok)
qed

lemma longest_bounds:
  assumes "(i, j, k) = find_longest_match a b alo ahi blo bhi" "k \<noteq> 0"
  shows "alo \<le> i" "i + k \<le> ahi" "blo \<le> j" "j + k \<le> bhi" "\<forall>n<k. a ! (i + n) = b ! (j + n)"
  using find_longest_match_ok [of a b alo ahi blo bhi] assms by (auto simp: block_ok_def split: if_splits)

lemma longest_window:
  "(i, j, k) = find_longest_match a b alo ahi blo bhi \<Longrightarrow> 0 < k \<Longrightarrow> alo \<le> i \<and> i + k \<le> ahi"
  using longest_bounds by blast

function matching_blocks :: "'a list \<Rightarrow> 'a list \<Rightarrow> nat \<Rightarrow> nat \<Rightarrow> nat \<Rightarrow> nat \<Rightarrow> match list" where
  "matching_blocks a b alo ahi blo bhi =
     (case find_longest_match a b alo ahi blo bhi of
        (i, j, k) \<Rightarrow>
          if k = 0 then []
          else (if alo < i \<and> blo < j then matching_blocks a b alo i blo j else []) @ [(i, j, k)] @
               (if i + k < ahi \<and> j + k < bhi then matching_blocks a b (i + k) ahi (j + k) bhi else []))"
  by pat_completeness auto
termination
  by (relation "measure (\<lambda>(a, b, alo, ahi, blo, bhi). ahi - alo)") (auto dest!: longest_window)

declare matching_blocks.simps [simp del]

section \<open>Edits\<close>

text \<open>\<open>get_matching_blocks\<close> collapses adjacent blocks and adds an empty block at the end; the opcodes
  other than \<open>equal\<close> say which lines of \<open>a\<close> to replace by what.\<close>

fun collapse :: "match \<Rightarrow> match list \<Rightarrow> match list" where
  "collapse (i1, j1, k1) [] = (if k1 \<noteq> 0 then [(i1, j1, k1)] else [])"
| "collapse (i1, j1, k1) ((i2, j2, k2) # ms) =
     (if i1 + k1 = i2 \<and> j1 + k1 = j2 then collapse (i1, j1, k1 + k2) ms
      else (if k1 \<noteq> 0 then [(i1, j1, k1)] else []) @ collapse (i2, j2, k2) ms)"

type_synonym 'a edit = "nat \<times> nat \<times> 'a list"

fun edits_of :: "'a list \<Rightarrow> nat \<Rightarrow> nat \<Rightarrow> match list \<Rightarrow> 'a edit list" where
  "edits_of b i j [] = []"
| "edits_of b i j ((ai, bj, k) # ms) =
     (if i < ai \<or> j < bj then [(i, ai, take (bj - j) (drop j b))] else []) @ edits_of b (ai + k) (bj + k) ms"

definition edits :: "'a list \<Rightarrow> 'a list \<Rightarrow> 'a edit list" where
  "edits a b =
     edits_of b 0 0 (collapse (0, 0, 0) (matching_blocks a b 0 (length a) 0 (length b)) @ [(length a, length b, 0)])"

section \<open>The merge\<close>

datatype merge_error = MergeConflict string

definition apply_edit :: "'a edit \<Rightarrow> 'a list \<Rightarrow> 'a list" where
  "apply_edit e xs = (case e of (lo, hi, replacement) \<Rightarrow> take lo xs @ replacement @ drop hi xs)"

definition clash :: "'a edit \<Rightarrow> 'a edit \<Rightarrow> bool" where
  "clash x y = (case (x, y) of ((a, b, replacement), (c, d, addition)) \<Rightarrow>
     (a, b, replacement) \<noteq> (c, d, addition) \<and>
     (max a c < min b d \<or> (a = b \<and> c \<le> a \<and> a \<le> d) \<or> (c = d \<and> a \<le> c \<and> c \<le> b)))"

text \<open>\<open>str.splitlines(keepends=True)\<close>.\<close>

fun splitlines_keep_acc :: "string \<Rightarrow> string \<Rightarrow> string list" where
  "splitlines_keep_acc acc [] = (if acc = [] then [] else [rev acc])"
| "splitlines_keep_acc acc (c # s) =
     (if c = CHR 0x0D \<and> (case s of [] \<Rightarrow> False | d # _ \<Rightarrow> d = CHR 0x0A)
      then splitlines_keep_acc (c # acc) s
      else if is_line_end c then rev (c # acc) # splitlines_keep_acc [] s
      else splitlines_keep_acc (c # acc) s)"

definition splitlines_keep :: "string \<Rightarrow> string list" where
  "splitlines_keep s = splitlines_keep_acc [] s"

text \<open>Top-level statements of a Python module, as far as \<open>_owners\<close> looks at them: functions with a
  name and a dump, classes with a name, the dump of the class without its body, and the body, and
  other statements with their dump. The owners map a qualified name to what it owns.\<close>

datatype py_statement = FunctionDef string string | ClassDef string string "py_statement list" | OtherStatement string

type_synonym owner_map = "(string \<times> string list) list"

fun statements :: "string \<Rightarrow> py_statement list \<Rightarrow> string list \<Rightarrow> owner_map \<Rightarrow> merge_error + owner_map" where
  "statements prefix [] other owned = Inr ((prefix @ ''<statements>'', other) # owned)"
| "statements prefix (FunctionDef name dump # body) other owned =
     (if prefix @ name \<in> fst ` set owned then Inl (MergeConflict ''duplicate Python symbol ownership'')
      else statements prefix body other ((prefix @ name, [dump]) # owned))"
| "statements prefix (ClassDef name header inner # body) other owned =
     (if prefix @ name \<in> fst ` set owned then Inl (MergeConflict ''duplicate Python symbol ownership'')
      else case statements (prefix @ name @ ''.'') inner [] ((prefix @ name, [header]) # owned) of
             Inl e \<Rightarrow> Inl e
           | Inr owned' \<Rightarrow> statements prefix body other owned')"
| "statements prefix (OtherStatement dump # body) other owned = statements prefix body (other @ [dump]) owned"

definition owners :: "(string \<Rightarrow> py_statement list option) \<Rightarrow> string \<Rightarrow> merge_error + owner_map" where
  "owners parse txt_arg =
     (case parse txt_arg of
        None \<Rightarrow> Inl (MergeConflict ''Python input does not parse'')
      | Some body \<Rightarrow> statements '''' body [] [])"

definition changed_keys :: "owner_map \<Rightarrow> owner_map \<Rightarrow> string list" where
  "changed_keys m n = filter (\<lambda>k. map_of m k \<noteq> map_of n k) (map fst m @ map fst n)"

definition ast_guard :: "(string \<Rightarrow> py_statement list option) \<Rightarrow> string \<Rightarrow> string \<Rightarrow> string \<Rightarrow> merge_error + unit" where
  "ast_guard parse base current incoming =
     bind_res (owners parse base) (\<lambda>m0. bind_res (owners parse current) (\<lambda>m1. bind_res (owners parse incoming) (\<lambda>m2.
       if list_ex (\<lambda>a. list_ex (\<lambda>b. a = b \<or> startswith a (b @ ''.'') \<or> startswith b (a @ ''.'')) (changed_keys m0 m2))
            (changed_keys m0 m1)
       then Inl (MergeConflict ''both branches changed the same Python symbol or class interface'')
       else Inr ())))"

definition merge_lines :: "string list \<Rightarrow> string edit list \<Rightarrow> string edit list \<Rightarrow> string list" where
  "merge_lines original left right = foldl (\<lambda>merged e. apply_edit e merged) original (rev (sort (remdups (left @ right))))"

definition three_way_merge ::
  "(string \<Rightarrow> py_statement list option) \<Rightarrow> string \<Rightarrow> string \<Rightarrow> string \<Rightarrow> bool \<Rightarrow> merge_error + string" where
  "three_way_merge parse base current incoming python =
     (if current = incoming \<or> incoming = base then Inr current
      else if current = base then Inr incoming
      else bind_res (if python then ast_guard parse base current incoming else Inr ()) (\<lambda>_.
        let original = splitlines_keep base;
            left = edits original (splitlines_keep current);
            right = edits original (splitlines_keep incoming)
        in if list_ex (\<lambda>x. list_ex (clash x) right) left
           then Inl (MergeConflict ''overlapping edits or ambiguous insertion boundary'')
           else
             (let merged = concat (merge_lines original left right)
              in if python \<and> parse merged = None then Inl (MergeConflict ''merged Python source does not parse'')
                 else Inr merged)))"

section \<open>Edits turn one text into the other\<close>

fun blocks_ok :: "'a list \<Rightarrow> 'a list \<Rightarrow> nat \<Rightarrow> nat \<Rightarrow> nat \<Rightarrow> nat \<Rightarrow> match list \<Rightarrow> bool" where
  "blocks_ok a b alo ahi blo bhi [] = (alo \<le> ahi \<and> blo \<le> bhi)"
| "blocks_ok a b alo ahi blo bhi ((i, j, k) # ms) =
     (0 < k \<and> alo \<le> i \<and> blo \<le> j \<and> (\<forall>n<k. a ! (i + n) = b ! (j + n)) \<and> blocks_ok a b (i + k) ahi (j + k) bhi ms)"

lemma blocks_ok_window: "blocks_ok a b alo ahi blo bhi ms \<Longrightarrow> alo \<le> ahi \<and> blo \<le> bhi"
  by (induction ms arbitrary: alo blo) force+

lemma blocks_ok_earlier: "blocks_ok a b alo ahi blo bhi ms \<Longrightarrow> alo' \<le> alo \<Longrightarrow> blo' \<le> blo \<Longrightarrow> blocks_ok a b alo' ahi blo' bhi ms"
  by (cases ms) auto

lemma blocks_ok_append:
  "blocks_ok a b alo i blo j xs \<Longrightarrow> blocks_ok a b i ahi j bhi ys \<Longrightarrow> blocks_ok a b alo ahi blo bhi (xs @ ys)"
  by (induction xs arbitrary: alo blo) (auto dest: blocks_ok_window intro: blocks_ok_earlier)

lemma matching_blocks_ok:
  "alo \<le> ahi \<Longrightarrow> blo \<le> bhi \<Longrightarrow> blocks_ok a b alo ahi blo bhi (matching_blocks a b alo ahi blo bhi)"
proof (induction a b alo ahi blo bhi rule: matching_blocks.induct)
  case (1 a b alo ahi blo bhi)
  obtain i j k where m: "find_longest_match a b alo ahi blo bhi = (i, j, k)" by (rule prod_cases3)
  show ?case
  proof (cases "k = 0")
    case True
    with m 1(3,4) show ?thesis by (simp add: matching_blocks.simps [of a b alo ahi blo bhi])
  next
    case False
    note w = longest_bounds [OF m [symmetric] False]
    have left: "blocks_ok a b alo i blo j (if alo < i \<and> blo < j then matching_blocks a b alo i blo j else [])"
      using 1(1) [OF m [symmetric] refl False] w by simp
    have right: "blocks_ok a b (i + k) ahi (j + k) bhi
        (if i + k < ahi \<and> j + k < bhi then matching_blocks a b (i + k) ahi (j + k) bhi else [])"
      using 1(2) [OF m [symmetric] refl False] w by simp
    have "blocks_ok a b i ahi j bhi ([(i, j, k)] @
        (if i + k < ahi \<and> j + k < bhi then matching_blocks a b (i + k) ahi (j + k) bhi else []))"
      using right w False by simp
    from blocks_ok_append [OF left this] False m show ?thesis
      by (simp add: matching_blocks.simps [of a b alo ahi blo bhi])
  qed
qed

lemma collapse_ok:
  "blocks_ok a b alo ahi blo bhi ((i, j, k) # ms) \<or> k = 0 \<and> alo = i \<and> blo = j \<and> blocks_ok a b alo ahi blo bhi ms \<Longrightarrow>
   blocks_ok a b alo ahi blo bhi (collapse (i, j, k) ms)"
proof (induction "(i, j, k)" ms arbitrary: alo blo i j k rule: collapse.induct)
  case (2 i1 j1 k1 i2 j2 k2 ms)
  show ?case
  proof (cases "i1 + k1 = i2 \<and> j1 + k1 = j2")
    case True
    have "a ! (i1 + n) = b ! (j1 + n)" if "n < k1 + k2" for n
    proof (cases "n < k1")
      case False
      then have "n - k1 < k2" "i1 + n = i2 + (n - k1)" "j1 + n = j2 + (n - k1)" using that True by auto
      with 2(3) show ?thesis by auto
    qed (use 2(3) in auto)
    with 2(3) True have "blocks_ok a b alo ahi blo bhi ((i1, j1, k1 + k2) # ms)" by (auto simp: add.assoc)
    with 2(1) [OF True, of alo blo] True show ?thesis by simp
  next
    case False
    have "blocks_ok a b (if k1 = 0 then alo else i1 + k1) ahi (if k1 = 0 then blo else j1 + k1) bhi ((i2, j2, k2) # ms)"
      using 2(3) by auto
    with 2(2) [OF False] have "blocks_ok a b (if k1 = 0 then alo else i1 + k1) ahi (if k1 = 0 then blo else j1 + k1) bhi
        (collapse (i2, j2, k2) ms)" by blast
    with False 2(3) show ?thesis by (auto split: if_splits)
  qed
qed auto

lemma edits_blocks_ok:
  "blocks_ok a b 0 (length a) 0 (length b) (collapse (0, 0, 0) (matching_blocks a b 0 (length a) 0 (length b)))"
  using collapse_ok [of a b 0 "length a" 0 "length b" 0 0 0] matching_blocks_ok by blast

text \<open>A script edits from position \<open>pos\<close> on, in order; \<open>d\<close> lines at least stay between two edits.\<close>

fun script :: "nat \<Rightarrow> nat \<Rightarrow> nat \<Rightarrow> 'a edit list \<Rightarrow> bool" where
  "script d n pos [] = True"
| "script d n pos ((f, l, r) # es) = (pos \<le> f \<and> f \<le> l \<and> l \<le> n \<and> script d n (l + d) es)"

fun assemble :: "'a list \<Rightarrow> nat \<Rightarrow> 'a edit list \<Rightarrow> 'a list" where
  "assemble a pos [] = drop pos a"
| "assemble a pos ((f, l, r) # es) = take (f - pos) (drop pos a) @ r @ assemble a l es"

lemma script_earlier: "script d n pos es \<Longrightarrow> pos' \<le> pos \<Longrightarrow> script d n pos' es"
  by (cases es) auto

lemma take_drop_split: "p \<le> q \<Longrightarrow> q \<le> r \<Longrightarrow> take (r - p) (drop p a) = take (q - p) (drop p a) @ take (r - q) (drop q a)"
proof -
  assume "p \<le> q" "q \<le> r"
  then have "r - p = (q - p) + (r - q)" "drop q a = drop (q - p) (drop p a)" by simp_all
  then show ?thesis by (simp only: take_add)
qed

lemma drop_split: "p \<le> q \<Longrightarrow> drop p a = take (q - p) (drop p a) @ drop q a"
proof -
  assume "p \<le> q"
  then have "drop q a = drop (q - p) (drop p a)" by simp
  then show ?thesis by (simp only: append_take_drop_id)
qed

lemma assemble_skip:
  assumes "script d n p es" "pos \<le> p"
  shows "assemble a pos es = take (p - pos) (drop pos a) @ assemble a p es"
proof (cases es)
  case Nil
  with drop_split [OF assms(2), of a] show ?thesis by simp
next
  case (Cons e es')
  then obtain f l r where e: "es = (f, l, r) # es'" by (cases e) auto
  with assms(1) have "p \<le> f" by simp
  from take_drop_split [OF assms(2) this, of a] show ?thesis by (simp add: e)
qed

lemma equal_slices:
  assumes "\<forall>n<k. a ! (i + n) = b ! (j + n)" "i + k \<le> length a" "j + k \<le> length b"
  shows "take k (drop i a) = take k (drop j b)"
  using assms by (intro nth_equalityI) auto

lemma edits_of_ok:
  assumes "blocks_ok a b i (length a) j (length b) ms"
  shows "script 1 (length a) i (edits_of b i j (ms @ [(length a, length b, 0)])) \<and>
         assemble a i (edits_of b i j (ms @ [(length a, length b, 0)])) = drop j b"
  using assms
proof (induction ms arbitrary: i j)
  case Nil
  then show ?case by simp
next
  case (Cons m ms)
  obtain i' j' k where m: "m = (i', j', k)" by (cases m) auto
  with Cons.prems have p: "0 < k" "i \<le> i'" "j \<le> j'" "\<forall>n<k. a ! (i' + n) = b ! (j' + n)"
    and ok: "blocks_ok a b (i' + k) (length a) (j' + k) (length b) ms" by auto
  note w = blocks_ok_window [OF ok]
  define es where "es = edits_of b (i' + k) (j' + k) (ms @ [(length a, length b, 0)])"
  from Cons.IH [OF ok] have s: "script 1 (length a) (i' + k) es" and t: "assemble a (i' + k) es = drop (j' + k) b"
    by (simp_all add: es_def)
  have "take k (drop i' a) = take k (drop j' b)" using equal_slices [OF p(4)] w by blast
  with assemble_skip [OF s, of i' a] t drop_split [of j' "j' + k" b] have e: "assemble a i' es = drop j' b" by simp
  show ?case
  proof (cases "i < i' \<or> j < j'")
    case True
    with m have "edits_of b i j ((m # ms) @ [(length a, length b, 0)]) = (i, i', take (j' - j) (drop j b)) # es"
      by (simp add: es_def)
    with p(1,2) w s e drop_split [OF p(3), of b] show ?thesis by (auto intro: script_earlier)
  next
    case False
    with p(2,3) have "i' = i" "j' = j" by auto
    with m False have "edits_of b i j ((m # ms) @ [(length a, length b, 0)]) = es" by (simp add: es_def)
    with s e \<open>i' = i\<close> \<open>j' = j\<close> show ?thesis by (auto intro: script_earlier)
  qed
qed

lemma edits_script: "script 1 (length a) 0 (edits a b)" and edits_assemble: "assemble a 0 (edits a b) = b"
  using edits_of_ok [OF edits_blocks_ok, of a b] by (simp_all add: edits_def)

section \<open>What a three-way merge should be\<close>

text \<open>The four texts are cut into corresponding pieces. Where one side kept the base, the merge has the
  other side; where both sides agree, it has what they agree on.\<close>

inductive diff3 :: "'a list \<Rightarrow> 'a list \<Rightarrow> 'a list \<Rightarrow> 'a list \<Rightarrow> bool" where
  nil: "diff3 [] [] [] []"
| take_incoming: "diff3 base current incoming merged \<Longrightarrow> diff3 (b @ base) (b @ current) (i @ incoming) (i @ merged)"
| take_current: "diff3 base current incoming merged \<Longrightarrow> diff3 (b @ base) (c @ current) (b @ incoming) (c @ merged)"
| take_both: "diff3 base current incoming merged \<Longrightarrow> diff3 (b @ base) (c @ current) (c @ incoming) (c @ merged)"

lemma diff3_same: "diff3 x x x x"
  using diff3.take_both [OF diff3.nil, of x x] by simp

lemma diff3_swap: "diff3 b c i m \<Longrightarrow> diff3 b i c m"
  by (induction rule: diff3.induct) (auto intro: diff3.intros)

lemma splice_scripts:
  assumes "script 0 (length a) pos es"
  shows "foldr apply_edit es a = take pos a @ assemble a pos es"
  using assms
proof (induction es arbitrary: pos)
  case (Cons e es)
  obtain f l r where e: "e = (f, l, r)" by (cases e) auto
  with Cons.prems have o: "pos \<le> f" "f \<le> l" "l \<le> length a" "script 0 (length a) l es" by auto
  have "foldr apply_edit (e # es) a = apply_edit e (take l a @ assemble a l es)"
    using Cons.IH [OF o(4)] by simp
  also have "\<dots> = take f (take l a @ assemble a l es) @ r @ drop l (take l a @ assemble a l es)"
    by (simp add: e apply_edit_def)
  also have "\<dots> = take f a @ r @ assemble a l es" using o(2,3) by (simp add: min_def)
  also have "take f a = take pos a @ take (f - pos) (drop pos a)"
    using o(1) take_add [of pos "f - pos" a] by simp
  finally show ?case by (simp add: e)
qed simp

lemma script_firsts: "script d n pos es \<Longrightarrow> (f, l, r) \<in> set es \<Longrightarrow> pos \<le> f"
proof (induction es arbitrary: pos)
  case (Cons e es)
  then show ?case by (cases e) (force dest: Cons.IH)
qed simp

text \<open>An edit that does not clash with a later one of the other side lies before it.\<close>

lemma no_clash_after:
  fixes x y :: "('a::linorder) edit"
  assumes "\<not> clash x y" "x \<noteq> y" "x < y" "fst x \<le> fst (snd x)" "fst y \<le> fst (snd y)"
  shows "fst (snd x) \<le> fst y"
  using assms by (cases x; cases y) (auto simp: clash_def less_prod_def' max_def min_def split: if_splits)

lemma script_pairs: "script d n pos es \<Longrightarrow> x \<in> set es \<Longrightarrow> fst x \<le> fst (snd x)"
proof (induction es arbitrary: pos)
  case (Cons e es)
  then show ?case by (cases e) (auto dest: Cons.IH)
qed simp

lemma script_hd_least:
  assumes "script 1 n pos (e # es)" "x \<in> set es"
  shows "e < x"
proof -
  obtain f l r where e: "e = (f, l, r)" by (cases e) auto
  with assms(1) have "f \<le> l" "script 1 n (l + 1) es" by auto
  with script_firsts [of 1 n "l + 1" es "fst x" "fst (snd x)" "snd (snd x)"] assms(2) have "f < fst x" by simp
  then show ?thesis by (cases x) (simp add: e)
qed

lemma script_least_is_hd:
  fixes u :: "('a::linorder) edit"
  assumes "script 1 n pos es" "u \<in> set es" "\<forall>x \<in> set es. u \<le> x"
  shows "\<exists>es'. es = u # es'"
proof (cases es)
  case (Cons e es')
  with assms script_hd_least [of n pos e es' u] show ?thesis by fastforce
qed (use assms in simp)

lemma script_from:
  assumes "script 1 n pos es" "\<forall>x \<in> set es. l \<le> fst x"
  shows "script 1 n l es"
proof (cases es)
  case (Cons e es')
  with assms show ?thesis by (cases e) auto
qed simp

lemma script_after_hd:
  assumes "script 1 n pos ((f, l, r) # es)" "x \<in> set es"
  shows "l \<le> fst x"
  using assms script_firsts [of 1 n "l + 1" es "fst x" "fst (snd x)" "snd (snd x)"] by auto

text \<open>One side, when the least edit \<open>(f, l, r)\<close> of both is dealt with.\<close>

lemma side_step:
  fixes es :: "('a::linorder) edit list"
  assumes "script 1 (length a) pos es" "\<forall>x \<in> set es. (f, l, r) \<le> x" "\<forall>x \<in> set es. x \<noteq> (f, l, r) \<longrightarrow> l \<le> fst x"
    "pos \<le> f" "f \<le> l"
  defines "es' \<equiv> if (f, l, r) \<in> set es then tl es else es"
  shows "script 1 (length a) l es'" "set es' = set es - {(f, l, r)}"
    "assemble a pos es = take (f - pos) (drop pos a) @ (if (f, l, r) \<in> set es then r else take (l - f) (drop f a)) @ assemble a l es'"
proof -
  have "script 1 (length a) l es' \<and> set es' = set es - {(f, l, r)} \<and>
    assemble a pos es = take (f - pos) (drop pos a) @ (if (f, l, r) \<in> set es then r else take (l - f) (drop f a)) @ assemble a l es'"
  proof (cases "(f, l, r) \<in> set es")
    case True
    with script_least_is_hd [OF assms(1) True assms(2)] obtain es0 where es: "es = (f, l, r) # es0" by blast
    with script_hd_least [of "length a" pos "(f, l, r)" es0 "(f, l, r)"] assms(1) have "(f, l, r) \<notin> set es0" by auto
    with es assms(1) show ?thesis by (auto simp: es'_def intro: script_earlier)
  next
    case False
    then have e': "es' = es" by (simp add: es'_def)
    from False assms(3) have "\<forall>x \<in> set es. l \<le> fst x" by auto
    from script_from [OF assms(1) this] have s: "script 1 (length a) l es" .
    from assemble_skip [OF s, of pos a] take_drop_split [OF assms(4,5), of a] assms(4,5) s False e' show ?thesis by simp
  qed
  then show "script 1 (length a) l es'" "set es' = set es - {(f, l, r)}"
    "assemble a pos es = take (f - pos) (drop pos a) @ (if (f, l, r) \<in> set es then r else take (l - f) (drop f a)) @ assemble a l es'"
    by blast+
qed

lemma script_window: "script d n pos es \<Longrightarrow> (f, l, r) \<in> set es \<Longrightarrow> pos \<le> f \<and> f \<le> l \<and> l \<le> n"
proof (induction es arbitrary: pos)
  case (Cons e es)
  then show ?case by (cases e) (force dest: Cons.IH)
qed simp

text \<open>One step of the merge: the least edit of both sides is the first of one of them or of both, and
  everything else starts after it.\<close>

lemma merge_scripts:
  fixes left right :: "('a::linorder) edit list"
  assumes "script 1 (length a) pos left" "script 1 (length a) pos right"
    and "\<forall>x \<in> set left. \<forall>y \<in> set right. \<not> clash x y \<and> \<not> clash y x"
    and "sorted us" "distinct us" "set us = set left \<union> set right" "pos \<le> length a"
  shows "script 0 (length a) pos us \<and>
    diff3 (drop pos a) (assemble a pos left) (assemble a pos right) (assemble a pos us)"
  using assms
proof (induction us arbitrary: pos left right)
  case Nil
  then show ?case by (simp add: diff3_same)
next
  case (Cons u us)
  obtain f l r where u: "u = (f, l, r)" by (cases u) auto
  have mem: "(f, l, r) \<in> set left \<or> (f, l, r) \<in> set right" using Cons.prems(6) u by auto
  have "\<forall>x \<in> set (u # us). u \<le> x" using Cons.prems(4) by auto
  then have least: "\<forall>x \<in> set left \<union> set right. (f, l, r) \<le> x" by (simp only: Cons.prems(6) [symmetric] u)
  have win: "pos \<le> f" "f \<le> l" "l \<le> length a"
    using mem script_window [OF Cons.prems(1)] script_window [OF Cons.prems(2)] by blast+
  have after: "l \<le> fst x" if x: "x \<in> set left \<union> set right" "x \<noteq> (f, l, r)" for x
  proof (cases "clash (f, l, r) x")
    case False
    have "fst x \<le> fst (snd x)" using x(1) script_pairs [OF Cons.prems(1)] script_pairs [OF Cons.prems(2)] by blast
    moreover have "(f, l, r) < x" using least x by (simp add: order.strict_iff_order)
    ultimately show ?thesis using no_clash_after [OF False] x(2) win(2) by simp
  next
    case True
    then consider (l) "(f, l, r) \<in> set left" "x \<in> set left" | (r) "(f, l, r) \<in> set right" "x \<in> set right"
      using mem x Cons.prems(3) by blast
    then show ?thesis
    proof cases
      case l
      with script_least_is_hd [OF Cons.prems(1) l(1)] least obtain es where "left = (f, l, r) # es" by blast
      with script_after_hd [of "length a" pos f l r es x] Cons.prems(1) l(2) x(2) show ?thesis by auto
    next
      case r
      with script_least_is_hd [OF Cons.prems(2) r(1)] least obtain es where "right = (f, l, r) # es" by blast
      with script_after_hd [of "length a" pos f l r es x] Cons.prems(2) r(2) x(2) show ?thesis by auto
    qed
  qed
  define left' where "left' = (if (f, l, r) \<in> set left then tl left else left)"
  define right' where "right' = (if (f, l, r) \<in> set right then tl right else right)"
  have L: "script 1 (length a) l left'" "set left' = set left - {(f, l, r)}"
    "assemble a pos left = take (f - pos) (drop pos a) @ (if (f, l, r) \<in> set left then r else take (l - f) (drop f a)) @ assemble a l left'"
    using side_step [OF Cons.prems(1) _ _ win(1,2), of r] least after by (auto simp: left'_def)
  have R: "script 1 (length a) l right'" "set right' = set right - {(f, l, r)}"
    "assemble a pos right = take (f - pos) (drop pos a) @ (if (f, l, r) \<in> set right then r else take (l - f) (drop f a)) @ assemble a l right'"
    using side_step [OF Cons.prems(2) _ _ win(1,2), of r] least after by (auto simp: right'_def)
  have "set us = set left' \<union> set right'" using Cons.prems(5,6) L(2) R(2) u by auto
  with Cons.IH [OF L(1) R(1)] Cons.prems(3-5) L(2) R(2) win(3)
  have IH: "script 0 (length a) l us" "diff3 (drop l a) (assemble a l left') (assemble a l right') (assemble a l us)"
    by auto
  let ?g = "take (f - pos) (drop pos a)" and ?m = "take (l - f) (drop f a)"
  have base: "drop pos a = ?g @ ?m @ drop l a"
    using drop_split [OF win(1), of a] drop_split [OF win(2), of a] by simp
  have "diff3 (?m @ drop l a) ((if (f, l, r) \<in> set left then r else ?m) @ assemble a l left')
      ((if (f, l, r) \<in> set right then r else ?m) @ assemble a l right') (r @ assemble a l us)"
    using mem diff3.take_both [OF IH(2), of ?m r] diff3.take_current [OF IH(2), of ?m r] diff3.take_incoming [OF IH(2), of ?m r]
    by auto
  from diff3.take_both [OF this, of ?g ?g] L(3) R(3) base IH(1) win u show ?case by simp
qed

section \<open>The merge is a three-way merge\<close>

lemma concat_splitlines_keep_acc: "concat (splitlines_keep_acc acc s) = rev acc @ s"
  by (induction acc s rule: splitlines_keep_acc.induct) auto

lemma concat_splitlines_keep: "concat (splitlines_keep s) = s"
  by (simp add: splitlines_keep_def concat_splitlines_keep_acc)

lemma clash_sym: "clash x y \<longleftrightarrow> clash y x"
  by (cases x; cases y) (auto simp: clash_def max.commute min.commute)

lemma merge_lines_diff3:
  assumes "\<not> list_ex (\<lambda>x. list_ex (clash x) (edits a c)) (edits a b)"
  shows "diff3 a b c (merge_lines a (edits a b) (edits a c))"
proof -
  let ?us = "sort (remdups (edits a b @ edits a c))"
  have "\<forall>x \<in> set (edits a b). \<forall>y \<in> set (edits a c). \<not> clash x y \<and> \<not> clash y x"
    using assms clash_sym unfolding list_ex_iff by metis
  from merge_scripts [OF edits_script edits_script this, of ?us]
  have m: "script 0 (length a) 0 ?us" "diff3 a b c (assemble a 0 ?us)" by (simp_all add: edits_assemble)
  have "merge_lines a (edits a b) (edits a c) = foldr apply_edit ?us a"
    by (simp add: merge_lines_def foldr_conv_foldl)
  also have "\<dots> = assemble a 0 ?us" using splice_scripts [OF m(1)] by simp
  finally show ?thesis using m(2) by simp
qed

text \<open>C22. A merge that succeeds is a three-way merge, line by line: the lines of the base and of the two
  sides fall into corresponding pieces such that where one side kept the base the result has the
  other side's lines, and where both sides agree it has theirs. No line of either side is lost
  or invented, with and without the checks for Python sources.\<close>

theorem merge_is_three_way:
  assumes "three_way_merge parse base current incoming python = Inr merged"
  shows "\<exists>ms. merged = concat ms \<and> diff3 (splitlines_keep base) (splitlines_keep current) (splitlines_keep incoming) ms"
proof (cases "current = incoming \<or> incoming = base \<or> current = base")
  case True
  let ?b = "splitlines_keep base" and ?c = "splitlines_keep current" and ?i = "splitlines_keep incoming"
  consider (both) "current = incoming" "merged = current" | (current) "incoming = base" "merged = current"
    | (incoming) "current = base" "merged = incoming"
    using True assms by (auto simp: three_way_merge_def split: if_splits)
  then show ?thesis
  proof cases
    case both
    with diff3.take_both [OF diff3.nil, of ?b ?c] show ?thesis by (intro exI [of _ ?c]) (simp add: concat_splitlines_keep)
  next
    case current
    with diff3.take_current [OF diff3.nil, of ?b ?c] show ?thesis by (intro exI [of _ ?c]) (simp add: concat_splitlines_keep)
  next
    case incoming
    with diff3.take_incoming [OF diff3.nil, of ?b ?i] show ?thesis by (intro exI [of _ ?i]) (simp add: concat_splitlines_keep)
  qed
next
  case False
  let ?b = "splitlines_keep base" and ?c = "splitlines_keep current" and ?i = "splitlines_keep incoming"
  from assms False have "\<not> list_ex (\<lambda>x. list_ex (clash x) (edits ?b ?i)) (edits ?b ?c)"
    "merged = concat (merge_lines ?b (edits ?b ?c) (edits ?b ?i))"
    by (auto simp: three_way_merge_def bind_res_Inr_iff Let_def split: if_splits)
  with merge_lines_diff3 [of ?b ?i ?c] show ?thesis by blast
qed

lemma list_ex_swap: "list_ex (\<lambda>a. list_ex (P a) ys) xs \<longleftrightarrow> list_ex (\<lambda>b. list_ex (\<lambda>a. P a b) xs) ys"
  by (auto simp: list_ex_iff)

lemma ast_guard_Inr:
  "ast_guard parse base x y = Inr () \<longleftrightarrow>
   (\<exists>m0 m1 m2. owners parse base = Inr m0 \<and> owners parse x = Inr m1 \<and> owners parse y = Inr m2 \<and>
      \<not> list_ex (\<lambda>a. list_ex (\<lambda>b. a = b \<or> startswith a (b @ ''.'') \<or> startswith b (a @ ''.'')) (changed_keys m0 m2))
            (changed_keys m0 m1))"
  by (cases "owners parse base"; cases "owners parse x"; cases "owners parse y") (simp_all add: ast_guard_def)

lemma ast_guard_sym: "ast_guard parse base x y = Inr () \<longleftrightarrow> ast_guard parse base y x = Inr ()"
proof -
  have "list_ex (\<lambda>a. list_ex (\<lambda>b. a = b \<or> startswith a (b @ ''.'') \<or> startswith b (a @ ''.'')) ks) js =
      list_ex (\<lambda>a. list_ex (\<lambda>b. a = b \<or> startswith a (b @ ''.'') \<or> startswith b (a @ ''.'')) js) ks" for js ks
    by (subst list_ex_swap) (auto simp: list_ex_iff)
  then show ?thesis unfolding ast_guard_Inr by blast
qed

lemma merge_lines_sym: "merge_lines a xs ys = merge_lines a ys xs"
proof -
  have "sort (remdups (xs @ ys)) = sort (remdups (ys @ xs))"
    by (rule sorted_distinct_set_unique) auto
  then show ?thesis by (simp only: merge_lines_def)
qed

lemma three_way_merge_swap:
  "three_way_merge parse base current incoming python = Inr merged \<Longrightarrow> three_way_merge parse base incoming current python = Inr merged"
proof -
  assume m: "three_way_merge parse base current incoming python = Inr merged"
  show ?thesis
  proof (cases "current = incoming \<or> incoming = base \<or> current = base")
    case True
    with m show ?thesis by (auto simp: three_way_merge_def split: if_splits)
  next
    case False
    let ?b = "splitlines_keep base" and ?c = "splitlines_keep current" and ?i = "splitlines_keep incoming"
    from m False have g: "(if python then ast_guard parse base current incoming else Inr ()) = Inr ()"
      and n: "\<not> list_ex (\<lambda>x. list_ex (clash x) (edits ?b ?i)) (edits ?b ?c)"
      and r: "merged = concat (merge_lines ?b (edits ?b ?c) (edits ?b ?i))" "\<not> (python \<and> parse merged = None)"
      by (auto simp: three_way_merge_def bind_res_Inr_iff Let_def split: if_splits)
    from n have "\<not> list_ex (\<lambda>x. list_ex (clash x) (edits ?b ?c)) (edits ?b ?i)"
      using clash_sym unfolding list_ex_iff by metis
    with False g r ast_guard_sym [of parse base current incoming] merge_lines_sym [of ?b "edits ?b ?c" "edits ?b ?i"]
    show ?thesis by (auto simp: three_way_merge_def Let_def)
  qed
qed

text \<open>The merge does not depend on who merges into whom: exchanging the two sides gives a conflict
  for a conflict and the same text for a text.\<close>

theorem merge_is_symmetric:
  "three_way_merge parse base current incoming python = Inr merged \<longleftrightarrow>
   three_way_merge parse base incoming current python = Inr merged"
  by (rule iffI) (rule three_way_merge_swap, assumption)+

definition numbered :: "string \<Rightarrow> string" where
  "numbered s = concat (map (\<lambda>c. [c, CHR 0x0A]) s)"

theorem merge_is_three_way_witness:
  "\<exists>ms. numbered ''AbxC'' = concat ms \<and>
     diff3 (splitlines_keep (numbered ''abc'')) (splitlines_keep (numbered ''Abc'')) (splitlines_keep (numbered ''abxC'')) ms"
proof -
  have "three_way_merge (\<lambda>_. None) (numbered ''abc'') (numbered ''Abc'') (numbered ''abxC'') False = Inr (numbered ''AbxC'')"
    by code_simp
  then show ?thesis by (rule merge_is_three_way)
qed

end
