(* ===== verification/Workspace_Transaction.thy ===== *)
theory Workspace_Transaction
  imports Polaris_Prelude "HOL-Library.AList"
begin

text \<open>
  The workspace transaction of one tool round (\<^verbatim>\<open>agent_core/tools/transaction.py\<close>, class
  \<open>WorkspaceTransaction\<close>): file tools work on a private overlay; \<open>commit\<close> checks that nothing
  they relied on has changed and then replaces the changed files of the workspace one by one,
  keeping a backup of each; \<open>rollback\<close> throws the overlay away.

  The machine has the three directory trees the code touches, the turn journal and a list of
  \<open>fates\<close>: one for each system call that writes, saying whether it works, fails, fails after some
  of its work, or is the moment at which the process dies. The trees and the journal survive the
  death of the process; the transaction object does not. System calls that only read are not given
  fates. Contents of files are strings, the digest of a content is a parameter. A tree lists the
  paths below its root, relative to it and with slashes, as \<open>rglob\<close> does.

  The deadline and the locks around \<open>_commit_locked\<close> only delay it: they are not modelled, and one
  commit is one sequence of steps without another process in between.
\<close>

section \<open>File trees\<close>

datatype link_target = To_file string | To_directory | Dangling

datatype node = File string | Directory | Symlink link_target

type_synonym rel = string

type_synonym tree = "(rel \<times> node) list"

definition node_at :: "tree \<Rightarrow> rel \<Rightarrow> node option" where
  "node_at t p = (if p = ''.'' then Some Directory else map_of t p)"

definition put_node :: "rel \<Rightarrow> node \<Rightarrow> tree \<Rightarrow> tree" where
  "put_node p n t = AList.update p n t"

definition drop_node :: "rel \<Rightarrow> tree \<Rightarrow> tree" where
  "drop_node p t = AList.delete p t"

text \<open>\<open>Path.exists\<close>, \<open>_path_kind\<close> and \<open>_digest\<close>: the first and the last follow links.\<close>

definition exists_at :: "tree \<Rightarrow> rel \<Rightarrow> bool" where
  "exists_at t p = (case node_at t p of None \<Rightarrow> False | Some (Symlink Dangling) \<Rightarrow> False | Some _ \<Rightarrow> True)"

definition path_kind :: "tree \<Rightarrow> rel \<Rightarrow> string" where
  "path_kind t p = (case node_at t p of
     None \<Rightarrow> ''missing'' | Some (File _) \<Rightarrow> ''file'' | Some Directory \<Rightarrow> ''directory'' | Some (Symlink _) \<Rightarrow> ''symlink'')"

definition digest_at :: "(string \<Rightarrow> string) \<Rightarrow> tree \<Rightarrow> rel \<Rightarrow> string option" where
  "digest_at digest t p = (case node_at t p of
     Some (File c) \<Rightarrow> Some (digest c) | Some (Symlink (To_file c)) \<Rightarrow> Some (digest c) | _ \<Rightarrow> None)"

text \<open>The directories above a path, from the top, and the name \<open>commit\<close> copies the new content to.\<close>

definition ancestors :: "rel \<Rightarrow> rel list" where
  "ancestors p = (let parts = split_char (CHR ''/'') p in map (\<lambda>i. join_str ''/'' (take i parts)) [1..<length parts])"

definition sibling :: "rel \<Rightarrow> string \<Rightarrow> rel" where
  "sibling p name = join_str ''/'' (butlast (split_char (CHR ''/'') p) @ [name])"

definition temporary :: "string \<Rightarrow> rel \<Rightarrow> rel" where
  "temporary turn_id p = sibling p (''.'' @ last (split_char (CHR ''/'') p) @ ''.'' @ turn_id @ ''.tmp'')"

text \<open>\<open>_contains\<close> and \<open>rglob\<close>: paths below a directory.\<close>

definition contains :: "rel \<Rightarrow> rel \<Rightarrow> bool" where
  "contains candidate parent \<longleftrightarrow> candidate = parent \<or> parent = ''.'' \<or> startswith candidate (parent @ ''/'')"

definition below :: "tree \<Rightarrow> rel \<Rightarrow> tree" where
  "below t p = filter (\<lambda>(q, n). p = ''.'' \<or> startswith q (p @ ''/'')) t"

definition snapshot_ignores :: "string list" where
  "snapshot_ignores = [''.git'', ''.hg'', ''.svn'', ''.venv'', ''venv'', ''node_modules'', ''__pycache__'',
     ''.pytest_cache'', ''.mypy_cache'', ''.ruff_cache'', ''runs'']"

definition ignored :: "rel \<Rightarrow> bool" where
  "ignored p \<longleftrightarrow> list_ex (\<lambda>part. part \<in> set snapshot_ignores) (split_char (CHR ''/'') p)"

section \<open>The machine\<close>

datatype fate = Works | Fails nat | Dies nat | Unacked

datatype 'a run = Done 'a | Raised py_error | Crashed

record machine =
  mc_work :: tree
  mc_overlay :: tree
  mc_recovery :: tree
  mc_container :: bool
  mc_journal :: "pydict list"
  mc_torn :: bool
  mc_sequence :: nat
  mc_fates :: "fate list"
  mc_redact :: "string \<Rightarrow> string"

type_synonym 'a op = "machine \<Rightarrow> machine \<times> 'a run"

datatype area = Work | Overlay | Recovery

fun tree_of :: "area \<Rightarrow> machine \<Rightarrow> tree" where
  "tree_of Work m = mc_work m"
| "tree_of Overlay m = mc_overlay m"
| "tree_of Recovery m = mc_recovery m"

fun with_tree :: "area \<Rightarrow> tree \<Rightarrow> machine \<Rightarrow> machine" where
  "with_tree Work t m = m\<lparr>mc_work := t\<rparr>"
| "with_tree Overlay t m = m\<lparr>mc_overlay := t\<rparr>"
| "with_tree Recovery t m = m\<lparr>mc_recovery := t\<rparr>"

definition finish :: "'a \<Rightarrow> 'a op" where
  "finish x m = (m, Done x)"

definition abort :: "py_error \<Rightarrow> 'a op" where
  "abort e m = (m, Raised e)"

definition then_do :: "'a op \<Rightarrow> ('a \<Rightarrow> 'b op) \<Rightarrow> 'b op" where
  "then_do f g m = (case f m of
     (m', Done x) \<Rightarrow> g x m' | (m', Raised e) \<Rightarrow> (m', Raised e) | (m', Crashed) \<Rightarrow> (m', Crashed))"

definition next_fate :: "machine \<Rightarrow> fate \<times> machine" where
  "next_fate m = (case mc_fates m of [] \<Rightarrow> (Works, m) | f # fs \<Rightarrow> (f, m\<lparr>mc_fates := fs\<rparr>))"

text \<open>
  One writing system call. \<open>f n\<close> is its effect when it stops after \<open>n\<close> parts of its work,
  \<open>f None\<close> the effect of the whole; a call that is refused has no effect.
\<close>

definition io_error :: py_error where
  "io_error = OSError ''input/output error''"

definition attempt :: "(machine \<Rightarrow> nat option \<Rightarrow> py_error + machine) \<Rightarrow> unit op" where
  "attempt f m = (case next_fate m of
     (Works, m') \<Rightarrow> (case f m' None of Inl e \<Rightarrow> (m', Raised e) | Inr m'' \<Rightarrow> (m'', Done ()))
   | (Fails n, m') \<Rightarrow> (case f m' (Some n) of Inl e \<Rightarrow> (m', Raised e) | Inr m'' \<Rightarrow> (m'', Raised io_error))
   | (Dies n, m') \<Rightarrow> (case f m' (Some n) of Inl e \<Rightarrow> (m', Crashed) | Inr m'' \<Rightarrow> (m'', Crashed))
   | (Unacked, m') \<Rightarrow> (m', Raised io_error))"

text \<open>\<open>path.parent.mkdir(parents=True, exist_ok=True)\<close>, \<open>shutil.copy2\<close> (not atomic: a copy that
  stops early leaves a prefix of the content), \<open>os.replace\<close> (atomic) and \<open>Path.unlink\<close>.\<close>

fun make_directories :: "tree \<Rightarrow> rel list \<Rightarrow> tree py_result" where
  "make_directories t [] = Inr t"
| "make_directories t (p # ps) = (case node_at t p of
     None \<Rightarrow> make_directories (put_node p Directory t) ps
   | Some Directory \<Rightarrow> make_directories t ps
   | Some (Symlink To_directory) \<Rightarrow> make_directories t ps
   | Some _ \<Rightarrow> Inl (OSError ''file exists''))"

definition make_parents :: "area \<Rightarrow> rel \<Rightarrow> unit op" where
  "make_parents a p = attempt (\<lambda>m n.
     let dirs = (case n of None \<Rightarrow> ancestors p | Some k \<Rightarrow> take k (ancestors p))
     in bind_res (make_directories (tree_of a m) dirs) (\<lambda>t. Inr (with_tree a t m)))"

definition copied :: "string \<Rightarrow> nat option \<Rightarrow> rel \<Rightarrow> tree \<Rightarrow> tree" where
  "copied c n p t = (case n of
     None \<Rightarrow> put_node p (File c) t | Some 0 \<Rightarrow> t | Some (Suc k) \<Rightarrow> put_node p (File (take k c)) t)"

definition copy_file :: "area \<Rightarrow> rel \<Rightarrow> area \<Rightarrow> rel \<Rightarrow> unit op" where
  "copy_file a p b q = attempt (\<lambda>m n. case node_at (tree_of a m) p of
     Some (File c) \<Rightarrow>
       (case node_at (tree_of b m) q of
          None \<Rightarrow> Inr (with_tree b (copied c n q (tree_of b m)) m)
        | Some (File _) \<Rightarrow> Inr (with_tree b (copied c n q (tree_of b m)) m)
        | Some _ \<Rightarrow> Inl (OSError ''not a regular file''))
   | _ \<Rightarrow> Inl (OSError ''not a regular file''))"

definition move_file :: "area \<Rightarrow> rel \<Rightarrow> area \<Rightarrow> rel \<Rightarrow> unit op" where
  "move_file a p b q = attempt (\<lambda>m n. case node_at (tree_of a m) p of
     Some (File c) \<Rightarrow>
       (if node_at (tree_of b m) q = Some Directory then Inl (OSError ''is a directory'')
        else (case n of Some _ \<Rightarrow> Inr m
              | None \<Rightarrow> let m' = with_tree b (put_node q (File c) (tree_of b m)) m
                        in Inr (with_tree a (drop_node p (tree_of a m')) m')))
   | _ \<Rightarrow> Inl (OSError ''no such file''))"

definition unlink_file :: "area \<Rightarrow> rel \<Rightarrow> unit op" where
  "unlink_file a p = attempt (\<lambda>m n. case node_at (tree_of a m) p of
     None \<Rightarrow> Inl (OSError ''no such file'')
   | Some Directory \<Rightarrow> Inl (OSError ''is a directory'')
   | Some _ \<Rightarrow> (case n of Some _ \<Rightarrow> Inr m | None \<Rightarrow> Inr (with_tree a (drop_node p (tree_of a m)) m)))"

text \<open>\<open>_redact_recovery_payload\<close>: obvious secrets are taken out of every text, and the content of what
  is marked as sensitive is dropped. The rewriting of a text is a parameter.\<close>

definition marked_sensitive :: "pydict \<Rightarrow> bool" where
  "marked_sensitive d \<longleftrightarrow> py_truthy (dict_get d ''sensitive'' PNone) \<or>
     (case dict_get d ''metadata'' PNone of PDict md \<Rightarrow> py_truthy (dict_get md ''sensitive'' PNone) | _ \<Rightarrow> False)"

fun redact_value :: "(string \<Rightarrow> string) \<Rightarrow> pyval \<Rightarrow> pyval" where
  "redact_value f (PStr s) = PStr (f s)"
| "redact_value f (PList xs) = PList (map (redact_value f) xs)"
| "redact_value f (PDict d) = PDict (map (\<lambda>(k, v).
     (k, if marked_sensitive d \<and> k = ''content'' then PStr ''<redacted-sensitive-tool-output>'' else redact_value f v)) d)"
| "redact_value f v = v"

definition redact_payload :: "(string \<Rightarrow> string) \<Rightarrow> pydict \<Rightarrow> pydict" where
  "redact_payload f d = (case redact_value f (PDict d) of PDict d' \<Rightarrow> d' | _ \<Rightarrow> d)"

text \<open>
  \<open>TurnExecutionJournal.record\<close>: append a line and wait until it is durable. A death inside the
  append may leave a torn line; an append whose \<open>fsync\<close> fails has written the line but is reported
  as failed, and the writer then numbers its next record with the same sequence number.
\<close>

definition record_line :: "nat \<Rightarrow> string \<Rightarrow> pydict \<Rightarrow> pydict" where
  "record_line sequence state payload = payload @ [(''sequence'', PInt (int sequence)), (''state'', PStr state)]"

definition journal_error :: "string \<Rightarrow> py_error" where
  "journal_error state = RuntimeError (''could not persist turn state '' @ state)"

definition journal_line :: "machine \<Rightarrow> string \<Rightarrow> pydict \<Rightarrow> pydict" where
  "journal_line m state payload = record_line (mc_sequence m) state (redact_payload (mc_redact m) payload)"

definition append_record :: "string \<Rightarrow> pydict \<Rightarrow> unit op" where
  "append_record state payload m =
     (let line = journal_line m state payload
      in case next_fate m of
        (Works, m') \<Rightarrow> (m'\<lparr>mc_journal := mc_journal m' @ [line], mc_sequence := Suc (mc_sequence m')\<rparr>, Done ())
      | (Fails _, m') \<Rightarrow> (m', Raised (journal_error state))
      | (Unacked, m') \<Rightarrow> (m'\<lparr>mc_journal := mc_journal m' @ [line]\<rparr>, Raised (journal_error state))
      | (Dies n, m') \<Rightarrow> (m'\<lparr>mc_torn := mc_torn m' \<or> n \<noteq> 0\<rparr>, Crashed))"

text \<open>\<open>discard_overlay\<close>: \<open>shutil.rmtree\<close> of the container, which may stop halfway.\<close>

definition remove_first :: "nat \<Rightarrow> tree \<Rightarrow> tree" where
  "remove_first k t = filter (\<lambda>(p, n). p \<notin> set (map fst (take k t))) t"

definition discard_overlay :: "unit op" where
  "discard_overlay m =
     (if \<not> mc_container m then (m, Done ())
      else attempt (\<lambda>m n. case n of
          None \<Rightarrow> Inr (m\<lparr>mc_overlay := [], mc_recovery := [], mc_container := False\<rparr>)
        | Some k \<Rightarrow> Inr (m\<lparr>mc_recovery := remove_first k (mc_recovery m),
                         mc_overlay := remove_first (k - length (mc_recovery m)) (mc_overlay m)\<rparr>)) m)"

section \<open>The transaction object\<close>

record transaction =
  tx_turn :: string
  tx_closed :: bool
  tx_recovery_required :: bool
  tx_baseline :: "(rel \<times> string option) list"
  tx_baseline_kinds :: "(rel \<times> string) list"
  tx_subtree_members :: "(rel \<times> rel list) list"
  tx_write_scopes :: "(rel \<times> bool) list"
  tx_declared_scopes :: "(rel \<times> string \<times> bool) list"
  tx_query_reads :: "(rel \<times> string) list"
  tx_query_dirs :: "(rel \<times> int \<times> int \<times> int) list"

text \<open>What the code takes from outside: the digest, the fingerprint \<open>stat\<close> gives for a directory
  of the workspace, and the absolute names of container, workspace and
  journalled workspace.\<close>

record tx_env =
  te_digest :: "string \<Rightarrow> string"
  te_dir_stat :: "rel \<Rightarrow> (int \<times> int \<times> int) option"
  te_container :: string
  te_workspace :: string
  te_journal_workspace :: string

definition open_transaction :: "tx_env \<Rightarrow> string \<Rightarrow> transaction op" where
  "open_transaction env turn_id =
     (if te_workspace env \<noteq> te_journal_workspace env
      then abort (RuntimeError ''transaction workspace does not match journal ownership'')
      else
     then_do (attempt (\<lambda>m n. case n of
         Some 0 \<Rightarrow> Inr m | _ \<Rightarrow> Inr (m\<lparr>mc_container := True, mc_overlay := [], mc_recovery := []\<rparr>))) (\<lambda>_.
     then_do (append_record ''transaction_opened''
         [(''overlay'', PStr (te_container env)), (''workspace'', PStr (te_workspace env))]) (\<lambda>_.
     finish \<lparr>tx_turn = turn_id, tx_closed = False, tx_recovery_required = False, tx_baseline = [],
       tx_baseline_kinds = [], tx_subtree_members = [], tx_write_scopes = [], tx_declared_scopes = [],
       tx_query_reads = [], tx_query_dirs = []\<rparr>)))"

text \<open>\<open>dict.setdefault\<close>.\<close>

definition keep_first :: "'k \<Rightarrow> 'v \<Rightarrow> ('k \<times> 'v) list \<Rightarrow> ('k \<times> 'v) list" where
  "keep_first k v d = (if map_of d k = None then d @ [(k, v)] else d)"

text \<open>\<open>_materialize\<close> copies declared files into the overlay and remembers what they were. It works
  on transaction and overlay, and leaves both as far as it got when it raises.\<close>

type_synonym snapshot = "transaction \<times> tree"

definition note_kind :: "rel \<Rightarrow> string \<Rightarrow> transaction \<Rightarrow> transaction" where
  "note_kind p k tx = tx\<lparr>tx_baseline_kinds := keep_first p k (tx_baseline_kinds tx)\<rparr>"

definition note_digest :: "rel \<Rightarrow> string option \<Rightarrow> transaction \<Rightarrow> transaction" where
  "note_digest p d tx = tx\<lparr>tx_baseline := keep_first p d (tx_baseline tx)\<rparr>"

definition note_members :: "rel \<Rightarrow> rel list \<Rightarrow> transaction \<Rightarrow> transaction" where
  "note_members p qs tx = tx\<lparr>tx_subtree_members := keep_first p qs (tx_subtree_members tx)\<rparr>"

definition materialize_file :: "(string \<Rightarrow> string) \<Rightarrow> rel \<Rightarrow> string \<Rightarrow> snapshot \<Rightarrow> snapshot \<times> unit py_result" where
  "materialize_file digest p c s = (case s of (tx, ov) \<Rightarrow>
     (case make_directories ov (ancestors p) of
        Inl e \<Rightarrow> ((tx, ov), Inl e)
      | Inr ov1 \<Rightarrow>
          ((note_digest p (Some (digest c)) tx, if exists_at ov1 p then ov1 else put_node p (File c) ov1), Inr ())))"

fun materialize_children ::
  "(string \<Rightarrow> string) \<Rightarrow> (rel \<times> node) list \<Rightarrow> rel list \<Rightarrow> snapshot \<Rightarrow> snapshot \<times> rel list py_result" where
  "materialize_children digest [] members s = (s, Inr members)"
| "materialize_children digest ((p, n) # rest) members (tx, ov) =
     (if ignored p then materialize_children digest rest members (tx, ov)
      else (case n of
        Symlink _ \<Rightarrow> ((tx, ov), Inl (RuntimeError (''symbolic links are not supported in transaction scopes: '' @ p)))
      | Directory \<Rightarrow>
          (case make_directories ov (ancestors p @ [p]) of
             Inl e \<Rightarrow> ((note_kind p ''directory'' tx, ov), Inl e)
           | Inr ov1 \<Rightarrow> materialize_children digest rest (members @ [p]) (note_kind p ''directory'' tx, ov1))
      | File c \<Rightarrow>
          (case materialize_file digest p c (note_kind p ''file'' tx, ov) of
             (s, Inl e) \<Rightarrow> (s, Inl e)
           | (s, Inr _) \<Rightarrow> materialize_children digest rest (members @ [p]) s)))"

definition materialize :: "(string \<Rightarrow> string) \<Rightarrow> tree \<Rightarrow> rel \<Rightarrow> bool \<Rightarrow> snapshot \<Rightarrow> snapshot \<times> unit py_result" where
  "materialize digest work key subtree s = (case s of (tx, ov) \<Rightarrow> (case node_at work key of
     Some (Symlink _) \<Rightarrow> ((tx, ov), Inl (RuntimeError (''symbolic links are not valid transaction resources: '' @ key)))
   | None \<Rightarrow>
       (let tx1 = note_kind key ''missing'' (note_digest key None tx)
        in ((if subtree then note_members key [] tx1 else tx1, ov), Inr ()))
   | Some Directory \<Rightarrow>
       (let tx1 = note_kind key ''directory'' tx
        in (case make_directories ov (ancestors key @ [key]) of
              Inl e \<Rightarrow> ((tx1, ov), Inl e)
            | Inr ov1 \<Rightarrow>
                (if \<not> subtree then ((tx1, ov1), Inr ())
                 else (case materialize_children digest (below work key) [] (tx1, ov1) of
                     (s, Inl e) \<Rightarrow> (s, Inl e)
                   | ((tx2, ov2), Inr members) \<Rightarrow> ((note_members key members tx2, ov2), Inr ())))))
   | Some (File c) \<Rightarrow> materialize_file digest key c (note_kind key ''file'' tx, ov)))"

text \<open>\<open>_declare_path\<close> gets the resolved path relative to the workspace, or nothing when it is not
  below the workspace.\<close>

definition declare_path ::
  "(string \<Rightarrow> string) \<Rightarrow> tree \<Rightarrow> rel option \<Rightarrow> string \<Rightarrow> bool \<Rightarrow> snapshot \<Rightarrow> snapshot \<times> unit py_result" where
  "declare_path digest work resolved mode subtree s = (case s of (tx, ov) \<Rightarrow> (case resolved of
     None \<Rightarrow> ((tx, ov), Inl (ValueError ''transaction resource escapes workspace''))
   | Some p \<Rightarrow>
       (if (p, mode, subtree) \<in> set (tx_declared_scopes tx) then ((tx, ov), Inr ())
        else (let tx1 = tx\<lparr>tx_declared_scopes := tx_declared_scopes tx @ [(p, mode, subtree)]\<rparr>;
                  tx2 = (if mode = ''write'' then tx1\<lparr>tx_write_scopes := tx_write_scopes tx1 @ [(p, subtree)]\<rparr> else tx1)
              in materialize digest work p subtree (tx2, ov)))))"

text \<open>\<open>declare_resources\<close> and \<open>ensure_paths\<close>: query tools that do not materialize only get the
  directory itself.\<close>

record resource_lock =
  rl_namespace :: string
  rl_key :: "rel option"
  rl_mode :: string
  rl_materialize :: bool
  rl_subtree :: bool

definition declare_lock ::
  "(string \<Rightarrow> string) \<Rightarrow> tree \<Rightarrow> resource_lock \<Rightarrow> snapshot \<Rightarrow> snapshot \<times> unit py_result" where
  "declare_lock digest work l s =
     (if rl_namespace l \<noteq> ''fs'' then (s, Inr ())
      else if rl_mode l = ''read'' \<and> \<not> rl_materialize l
      then (case s of (tx, ov) \<Rightarrow> (case rl_key l of
              None \<Rightarrow> (s, Inl (ValueError ''is not in the subpath''))
            | Some p \<Rightarrow>
                (if path_kind work p \<noteq> ''directory'' then (s, Inr ())
                 else (case make_directories ov (ancestors p @ [p]) of
                         Inl e \<Rightarrow> (s, Inl e)
                       | Inr ov1 \<Rightarrow> ((tx, ov1), Inr ())))))
      else declare_path digest work (rl_key l) (rl_mode l) (rl_subtree l) s)"

fun declare_resources ::
  "(string \<Rightarrow> string) \<Rightarrow> tree \<Rightarrow> resource_lock list \<Rightarrow> snapshot \<Rightarrow> snapshot \<times> unit py_result" where
  "declare_resources digest work [] s = (s, Inr ())"
| "declare_resources digest work (l # ls) s = (case declare_lock digest work l s of
     (s', Inl e) \<Rightarrow> (s', Inl e) | (s', Inr _) \<Rightarrow> declare_resources digest work ls s')"

fun ensure_paths :: "(string \<Rightarrow> string) \<Rightarrow> tree \<Rightarrow> rel option list \<Rightarrow> snapshot \<Rightarrow> snapshot \<times> unit py_result" where
  "ensure_paths digest work [] s = (s, Inr ())"
| "ensure_paths digest work (p # ps) s = (case declare_path digest work p ''write'' False s of
     (s', Inl e) \<Rightarrow> (s', Inl e) | (s', Inr _) \<Rightarrow> ensure_paths digest work ps s')"

definition observe_query_read :: "rel \<Rightarrow> string \<Rightarrow> transaction \<Rightarrow> transaction" where
  "observe_query_read p d tx =
     (if map_of (tx_baseline tx) p = None then tx\<lparr>tx_query_reads := keep_first p d (tx_query_reads tx)\<rparr> else tx)"

definition observe_directory :: "rel \<Rightarrow> int \<times> int \<times> int \<Rightarrow> transaction \<Rightarrow> transaction" where
  "observe_directory p st tx = tx\<lparr>tx_query_dirs := keep_first p st (tx_query_dirs tx)\<rparr>"

text \<open>Where a tool reads a file: the overlay if the file is there or was declared.\<close>

definition resolve_read_path :: "transaction \<Rightarrow> tree \<Rightarrow> rel \<Rightarrow> area \<times> rel" where
  "resolve_read_path tx ov p =
     (if exists_at ov p \<or> map_of (tx_baseline tx) p \<noteq> None then (Overlay, p) else (Work, p))"

section \<open>Commit\<close>

definition write_allowed :: "transaction \<Rightarrow> rel \<Rightarrow> bool" where
  "write_allowed tx p = list_ex (\<lambda>(scope, subtree). p = scope \<or> (subtree \<and> contains p scope)) (tx_write_scopes tx)"

definition baseline_digest :: "transaction \<Rightarrow> rel \<Rightarrow> string option" where
  "baseline_digest tx p = (case map_of (tx_baseline tx) p of None \<Rightarrow> None | Some d \<Rightarrow> d)"

definition is_link :: "node \<Rightarrow> bool" where
  "is_link n = (case n of Symlink _ \<Rightarrow> True | _ \<Rightarrow> False)"

definition is_file :: "node \<Rightarrow> bool" where
  "is_file n = (case n of File _ \<Rightarrow> True | _ \<Rightarrow> False)"

definition overlay_files :: "tree \<Rightarrow> rel list" where
  "overlay_files ov = map fst (filter (\<lambda>(p, n). is_file n) ov)"

definition changed_paths :: "(string \<Rightarrow> string) \<Rightarrow> transaction \<Rightarrow> tree \<Rightarrow> rel list py_result" where
  "changed_paths digest tx ov =
     (if list_ex (\<lambda>(p, n). is_link n) ov then Inl (RuntimeError ''transaction created or modified a symbolic link'')
      else (let current = overlay_files ov;
                edited = filter (\<lambda>p. digest_at digest ov p \<noteq> baseline_digest tx p) current;
                deleted = filter (\<lambda>p. p \<notin> set current) (map fst (tx_baseline tx));
                unique = sort (remdups (edited @ deleted))
            in if list_all (write_allowed tx) unique then Inr unique
               else Inl (RuntimeError ''transaction changed paths outside declared write locks'')))"

definition assert_unchanged :: "(string \<Rightarrow> string) \<Rightarrow> transaction \<Rightarrow> tree \<Rightarrow> rel \<Rightarrow> unit py_result" where
  "assert_unchanged digest tx work p =
     (if path_kind work p = ''symlink'' then Inl (RuntimeError ''workspace target became a symbolic link'')
      else if path_kind work p \<noteq> (case map_of (tx_baseline_kinds tx) p of None \<Rightarrow> ''missing'' | Some k \<Rightarrow> k)
      then Inl (RuntimeError ''workspace changed during tool turn'')
      else if digest_at digest work p \<noteq> baseline_digest tx p
      then Inl (RuntimeError ''workspace changed during tool turn'')
      else Inr ())"

definition subtree_now :: "tree \<Rightarrow> rel \<Rightarrow> tree" where
  "subtree_now work p = filter (\<lambda>(q, n). \<not> ignored q) (if exists_at work p then below work p else [])"

definition assert_subtree_unchanged :: "tree \<Rightarrow> rel \<times> rel list \<Rightarrow> unit py_result" where
  "assert_subtree_unchanged work s = (case s of (p, members) \<Rightarrow>
     (if list_ex (\<lambda>(q, n). is_link n) (subtree_now work p)
      then Inl (RuntimeError ''workspace subtree gained a symbolic link during tool turn'')
      else if set (map fst (subtree_now work p)) \<noteq> set members
      then Inl (RuntimeError ''workspace subtree changed during tool turn'')
      else Inr ()))"

definition assert_query_read :: "(string \<Rightarrow> string) \<Rightarrow> tree \<Rightarrow> rel \<times> string \<Rightarrow> unit py_result" where
  "assert_query_read digest work r =
     (if digest_at digest work (fst r) \<noteq> Some (snd r)
      then Inl (RuntimeError ''workspace query evidence changed during tool turn'') else Inr ())"

definition assert_query_dir :: "(rel \<Rightarrow> (int \<times> int \<times> int) option) \<Rightarrow> rel \<times> int \<times> int \<times> int \<Rightarrow> unit py_result" where
  "assert_query_dir dir_stat r = (case dir_stat (fst r) of
     None \<Rightarrow> Inl (OSError ''no such file'')
   | Some st \<Rightarrow> if st \<noteq> snd r then Inl (RuntimeError ''workspace query membership changed during tool turn'') else Inr ())"

fun check_each :: "('a \<Rightarrow> unit py_result) \<Rightarrow> 'a list \<Rightarrow> unit py_result" where
  "check_each f [] = Inr ()"
| "check_each f (x # xs) = bind_res (f x) (\<lambda>_. check_each f xs)"

text \<open>The whole declared baseline, not only what changed. (The set union is walked in the order
  baseline first: which of several violations is reported depends on it, nothing else.)\<close>

definition assert_baseline :: "tx_env \<Rightarrow> transaction \<Rightarrow> tree \<Rightarrow> rel list \<Rightarrow> unit py_result" where
  "assert_baseline env tx work changed =
     bind_res (check_each (assert_unchanged (te_digest env) tx work) (remdups (map fst (tx_baseline tx) @ changed))) (\<lambda>_.
     bind_res (check_each (assert_subtree_unchanged work) (tx_subtree_members tx)) (\<lambda>_.
     bind_res (check_each (assert_query_read (te_digest env) work) (tx_query_reads tx)) (\<lambda>_.
     check_each (assert_query_dir (te_dir_stat env)) (tx_query_dirs tx))))"

record replacement =
  rp_target :: rel
  rp_existed :: bool

text \<open>One file: back the target up, remember it as applied, then replace or delete it. The second
  component is the list \<open>applied\<close> as the exception handler finds it.\<close>

definition back_up :: "rel \<Rightarrow> bool \<Rightarrow> unit op" where
  "back_up p existed =
     (if existed then then_do (make_parents Recovery p) (\<lambda>_. copy_file Work p Recovery p) else finish ())"

definition install :: "string \<Rightarrow> rel \<Rightarrow> bool \<Rightarrow> bool \<Rightarrow> unit op" where
  "install turn_id p in_overlay existed =
     (if in_overlay
      then then_do (make_parents Work p) (\<lambda>_.
           then_do (copy_file Overlay p Work (temporary turn_id p)) (\<lambda>_.
           move_file Work (temporary turn_id p) Work p))
      else if existed then unlink_file Work p
      else finish ())"

fun apply_changes :: "string \<Rightarrow> rel list \<Rightarrow> replacement list \<Rightarrow> machine \<Rightarrow> machine \<times> replacement list \<times> unit run" where
  "apply_changes turn_id [] applied m = (m, applied, Done ())"
| "apply_changes turn_id (p # ps) applied m =
     (let existed = exists_at (mc_work m) p
      in case back_up p existed m of
        (m1, Raised e) \<Rightarrow> (m1, applied, Raised e)
      | (m1, Crashed) \<Rightarrow> (m1, applied, Crashed)
      | (m1, Done _) \<Rightarrow>
          (let applied1 = applied @ [\<lparr>rp_target = p, rp_existed = existed\<rparr>]
           in case install turn_id p (exists_at (mc_overlay m1) p) existed m1 of
             (m2, Raised e) \<Rightarrow> (m2, applied1, Raised e)
           | (m2, Crashed) \<Rightarrow> (m2, applied1, Crashed)
           | (m2, Done _) \<Rightarrow> apply_changes turn_id ps applied1 m2))"

text \<open>The exception handler: undo in reverse order and collect what could not be undone.\<close>

definition undo_one :: "replacement \<Rightarrow> unit op" where
  "undo_one r m =
     (if rp_existed r then move_file Recovery (rp_target r) Work (rp_target r) m
      else if exists_at (mc_work m) (rp_target r) then unlink_file Work (rp_target r) m
      else (m, Done ()))"

fun undo_all :: "replacement list \<Rightarrow> rel list \<Rightarrow> rel list op" where
  "undo_all [] errors m = (m, Done errors)"
| "undo_all (r # rs) errors m = (case undo_one r m of
     (m', Crashed) \<Rightarrow> (m', Crashed)
   | (m', Raised e) \<Rightarrow> undo_all rs (errors @ [rp_target r]) m'
   | (m', Done _) \<Rightarrow> undo_all rs errors m')"

definition recovery_required_error :: py_error where
  "recovery_required_error = RuntimeError ''workspace commit outcome requires journal recovery''"

definition restore_applied :: "transaction \<Rightarrow> replacement list \<Rightarrow> py_error \<Rightarrow> machine \<Rightarrow> machine \<times> transaction \<times> 'a run" where
  "restore_applied tx applied commit_error m = (case undo_all (rev applied) [] m of
     (m1, Done errors) \<Rightarrow>
       (if errors = [] then (m1, tx, Raised commit_error)
        else (case append_record ''recovery_required'' [(''errors'', PList (map PStr errors))] m1 of
                (m2, Crashed) \<Rightarrow> (m2, tx\<lparr>tx_recovery_required := True\<rparr>, Crashed)
              | (m2, _) \<Rightarrow> (m2, tx\<lparr>tx_recovery_required := True\<rparr>, Raised recovery_required_error)))
   | (m1, Raised e) \<Rightarrow> (m1, tx, Raised e)
   | (m1, Crashed) \<Rightarrow> (m1, tx, Crashed))"

text \<open>\<open>_commit_locked\<close>. The notification of the code index after the commit swallows its own
  errors and touches nothing modelled here.\<close>

definition commit_payload :: "tx_env \<Rightarrow> tree \<Rightarrow> rel list \<Rightarrow> pydict" where
  "commit_payload env work changed =
     [(''changed'', PList (map PStr changed)),
      (''existed'', PDict (map (\<lambda>p. (p, PBool (exists_at work p))) changed)),
      (''overlay'', PStr (te_container env))]"

definition replace_files :: "transaction \<Rightarrow> rel list \<Rightarrow> machine \<Rightarrow> machine \<times> transaction \<times> rel list run" where
  "replace_files tx changed m = (case apply_changes (tx_turn tx) changed [] m of
     (m1, applied, Crashed) \<Rightarrow> (m1, tx, Crashed)
   | (m1, applied, Raised e) \<Rightarrow> restore_applied tx applied e m1
   | (m1, applied, Done _) \<Rightarrow>
       (case append_record ''committed'' [(''changed'', PList (map PStr changed))] m1 of
          (m2, Crashed) \<Rightarrow> (m2, tx, Crashed)
        | (m2, Raised e) \<Rightarrow> restore_applied tx applied e m2
        | (m2, Done _) \<Rightarrow>
            (case discard_overlay m2 of
               (m3, Done _) \<Rightarrow> (m3, tx\<lparr>tx_closed := True\<rparr>, Done changed)
             | (m3, Raised e) \<Rightarrow> (m3, tx\<lparr>tx_closed := True\<rparr>, Raised e)
             | (m3, Crashed) \<Rightarrow> (m3, tx\<lparr>tx_closed := True\<rparr>, Crashed))))"

text \<open>\<open>recovery.mkdir\<close> may fail, but creates nothing in a tree that lists only what is below it.\<close>

definition make_recovery_root :: "unit op" where
  "make_recovery_root = attempt (\<lambda>m n. Inr m)"

definition commit :: "tx_env \<Rightarrow> transaction \<Rightarrow> machine \<Rightarrow> machine \<times> transaction \<times> rel list run" where
  "commit env tx m =
     (if tx_closed tx then (m, tx, Raised (RuntimeError ''workspace transaction is already closed''))
      else (case changed_paths (te_digest env) tx (mc_overlay m) of
        Inl e \<Rightarrow> (m, tx, Raised e)
      | Inr changed \<Rightarrow>
          (case append_record ''commit_started'' (commit_payload env (mc_work m) changed) m of
             (m1, Crashed) \<Rightarrow> (m1, tx, Crashed)
           | (m1, Raised e) \<Rightarrow> (m1, tx, Raised e)
           | (m1, Done _) \<Rightarrow>
               (case assert_baseline env tx (mc_work m1) changed of
                  Inl e \<Rightarrow> (m1, tx, Raised e)
                | Inr _ \<Rightarrow>
                    (case make_recovery_root m1 of
                       (m2, Done _) \<Rightarrow> replace_files tx changed m2
                     | (m2, Raised e) \<Rightarrow> (m2, tx, Raised e)
                     | (m2, Crashed) \<Rightarrow> (m2, tx, Crashed))))))"

definition rollback :: "string \<Rightarrow> transaction \<Rightarrow> machine \<Rightarrow> machine \<times> transaction \<times> unit run" where
  "rollback why tx m =
     (if tx_closed tx \<or> tx_recovery_required tx then (m, tx, Done ())
      else (case discard_overlay m of
        (m1, Raised e) \<Rightarrow> (m1, tx, Raised e)
      | (m1, Crashed) \<Rightarrow> (m1, tx, Crashed)
      | (m1, Done _) \<Rightarrow>
          (case append_record ''rolled_back'' [(''reason'', PStr why)] m1 of
             (m2, r) \<Rightarrow> (m2, tx\<lparr>tx_closed := True\<rparr>, r))))"

section \<open>What the system calls do to files\<close>

text \<open>The file or link at a path; directories come and go without notice.\<close>

definition content :: "tree \<Rightarrow> rel \<Rightarrow> node option" where
  "content t p = (case node_at t p of Some Directory \<Rightarrow> None | x \<Rightarrow> x)"

lemma node_at_put [simp]: "node_at (put_node q n t) p = (if p = q \<and> p \<noteq> ''.'' then Some n else node_at t p)"
  by (simp add: node_at_def put_node_def update_conv')

lemma node_at_drop [simp]: "node_at (drop_node q t) p = (if p = q \<and> p \<noteq> ''.'' then None else node_at t p)"
  by (simp add: node_at_def drop_node_def delete_conv')

lemma content_put [simp]:
  "content (put_node q n t) p = (if p = q \<and> p \<noteq> ''.'' then (if n = Directory then None else Some n) else content t p)"
  by (auto simp: content_def split: node.splits)

lemma content_drop [simp]: "content (drop_node q t) p = (if p = q then None else content t p)"
  by (auto simp: content_def node_at_def drop_node_def delete_conv')

lemma content_root [simp]: "content t ''.'' = None"
  by (simp add: content_def node_at_def)

lemma content_File: "content t p = Some (File c) \<longleftrightarrow> node_at t p = Some (File c)"
  by (auto simp: content_def split: option.splits node.splits)

lemma content_new_directory: "node_at t p = None \<Longrightarrow> content (put_node p Directory t) q = content t q"
  by (auto simp: content_def)

lemma make_directories_content: "make_directories t ps = Inr t' \<Longrightarrow> content t' q = content t q"
proof (induction t ps rule: make_directories.induct)
  case (2 t p ps)
  then show ?case
    by (auto split: option.splits node.splits link_target.splits simp: content_new_directory simp del: content_put)
qed simp

lemma with_tree_simps [simp]:
  "tree_of b (with_tree a t m) = (if a = b then t else tree_of b m)"
  "mc_journal (with_tree a t m) = mc_journal m" "mc_torn (with_tree a t m) = mc_torn m"
  "mc_container (with_tree a t m) = mc_container m" "mc_sequence (with_tree a t m) = mc_sequence m"
  "mc_fates (with_tree a t m) = mc_fates m" "mc_redact (with_tree a t m) = mc_redact m"
  "mc_work (with_tree a t m) = (if a = Work then t else mc_work m)"
  "mc_overlay (with_tree a t m) = (if a = Overlay then t else mc_overlay m)"
  "mc_recovery (with_tree a t m) = (if a = Recovery then t else mc_recovery m)"
  by (cases a; cases b; simp)+

declare with_tree.simps [simp del]

text \<open>Calls that write neither the journal nor the overlay.\<close>

definition quiet :: "machine \<Rightarrow> machine \<Rightarrow> bool" where
  "quiet m m' \<longleftrightarrow> mc_overlay m' = mc_overlay m \<and> mc_journal m' = mc_journal m \<and> mc_torn m' = mc_torn m \<and>
     mc_container m' = mc_container m \<and> mc_sequence m' = mc_sequence m \<and> set (mc_fates m') \<subseteq> set (mc_fates m)"

lemma quiet_refl [simp]: "quiet m m"
  by (simp add: quiet_def)

lemma quiet_trans: "quiet m m' \<Longrightarrow> quiet m' m'' \<Longrightarrow> quiet m m''"
  by (auto simp: quiet_def)

lemma quiet_overlay: "quiet m m' \<Longrightarrow> mc_overlay m' = mc_overlay m"
  by (simp add: quiet_def)

definition same_disk :: "machine \<Rightarrow> machine \<Rightarrow> bool" where
  "same_disk m m' \<longleftrightarrow> m' = m\<lparr>mc_fates := mc_fates m'\<rparr> \<and> set (mc_fates m') \<subseteq> set (mc_fates m)"

lemma same_disk_refl [simp]: "same_disk m m"
  by (simp add: same_disk_def)

lemma same_diskD:
  "same_disk m m' \<Longrightarrow> mc_work m' = mc_work m \<and> mc_recovery m' = mc_recovery m \<and> mc_overlay m' = mc_overlay m \<and>
     mc_journal m' = mc_journal m \<and> mc_torn m' = mc_torn m \<and> mc_container m' = mc_container m \<and> mc_sequence m' = mc_sequence m \<and>
     set (mc_fates m') \<subseteq> set (mc_fates m)"
  unfolding same_disk_def by (cases m; cases m') simp

lemma same_disk_fate [dest]: "f \<in> set (mc_fates m') \<Longrightarrow> same_disk m m' \<Longrightarrow> f \<in> set (mc_fates m)"
  using same_diskD by blast

lemma same_disk_tree: "same_disk m m' \<Longrightarrow> tree_of a m' = tree_of a m"
  by (cases a) (simp_all add: same_diskD)

lemma same_disk_quiet: "same_disk m m' \<Longrightarrow> quiet m m'"
  by (simp add: quiet_def same_diskD)

lemma next_fate_same: "next_fate m = (f, m') \<Longrightarrow> same_disk m m'"
  by (auto simp: next_fate_def same_disk_def split: list.splits)

lemma attempt_cases:
  assumes "attempt f m = (m', r)"
  obtains (refused) "same_disk m m'" "r \<noteq> Done ()"
    | (whole) m0 where "same_disk m m0" "f m0 None = Inr m'" "r = Done ()"
    | (part) m0 n where "same_disk m m0" "f m0 (Some n) = Inr m'" "r \<noteq> Done ()"
proof -
  obtain t m0 where t: "next_fate m = (t, m0)" by fastforce
  then have s: "same_disk m m0" by (rule next_fate_same)
  show ?thesis
    using assms s that by (cases t) (auto simp: attempt_def t split: sum.splits)
qed

lemma make_parents_effect:
  assumes "make_parents a p m = (m', r)" and "a \<noteq> Overlay"
  shows "quiet m m'" and "content (tree_of b m') q = content (tree_of b m) q"
proof -
  have "quiet m m' \<and> content (tree_of b m') q = content (tree_of b m) q"
    using assms(1)[unfolded make_parents_def]
  proof (cases rule: attempt_cases)
    case refused
    then show ?thesis by (simp add: same_disk_quiet same_disk_tree)
  next
    case (whole m0)
    then show ?thesis using assms(2)
      by (auto simp: bind_res_Inr_iff quiet_def same_diskD same_disk_tree dest: make_directories_content[of _ _ _ q])
  next
    case (part m0 n)
    then show ?thesis using assms(2)
      by (auto simp: bind_res_Inr_iff quiet_def same_diskD same_disk_tree dest: make_directories_content[of _ _ _ q])
  qed
  then show "quiet m m'" and "content (tree_of b m') q = content (tree_of b m) q" by auto
qed

lemma copy_file_effect:
  assumes "copy_file a p b q m = (m', r)" and "b \<noteq> Overlay"
  shows "quiet m m'"
    and "(d, x) \<noteq> (b, q) \<Longrightarrow> content (tree_of d m') x = content (tree_of d m) x"
    and "r = Done () \<Longrightarrow> \<exists>c. content (tree_of a m) p = Some (File c) \<and> content (tree_of b m') q = Some (File c)"
    and "r \<noteq> Done () \<Longrightarrow> content (tree_of b m') q = content (tree_of b m) q \<or>
      (\<exists>c k. content (tree_of a m) p = Some (File c) \<and> content (tree_of b m') q = Some (File (take k c)))"
proof -
  have main: "quiet m m' \<and> ((d, x) \<noteq> (b, q) \<longrightarrow> content (tree_of d m') x = content (tree_of d m) x) \<and>
     (r = Done () \<longrightarrow> (\<exists>c. content (tree_of a m) p = Some (File c) \<and> content (tree_of b m') q = Some (File c))) \<and>
     (r \<noteq> Done () \<longrightarrow> content (tree_of b m') q = content (tree_of b m) q \<or>
      (\<exists>c k. content (tree_of a m) p = Some (File c) \<and> content (tree_of b m') q = Some (File (take k c))))"
    using assms(1)[unfolded copy_file_def]
  proof (cases rule: attempt_cases)
    case refused
    then show ?thesis by (simp add: same_disk_quiet same_disk_tree)
  next
    case (whole m0)
    have root: "node_at (tree_of b m) q \<noteq> Some Directory \<Longrightarrow> q \<noteq> ''.''" by (auto simp: node_at_def)
    from whole show ?thesis using assms(2) root
      by (auto simp: quiet_def same_diskD same_disk_tree copied_def content_File split: option.splits node.splits)
  next
    case (part m0 n)
    have root: "node_at (tree_of b m) q \<noteq> Some Directory \<Longrightarrow> q \<noteq> ''.''" by (auto simp: node_at_def)
    from part show ?thesis using assms(2) root
      by (auto simp: quiet_def same_diskD same_disk_tree copied_def content_File split: option.splits node.splits nat.splits)
  qed
  show "quiet m m'" using main by blast
  show "(d, x) \<noteq> (b, q) \<Longrightarrow> content (tree_of d m') x = content (tree_of d m) x" using main by blast
  show "r = Done () \<Longrightarrow> \<exists>c. content (tree_of a m) p = Some (File c) \<and> content (tree_of b m') q = Some (File c)"
    using main by blast
  show "r \<noteq> Done () \<Longrightarrow> content (tree_of b m') q = content (tree_of b m) q \<or>
      (\<exists>c k. content (tree_of a m) p = Some (File c) \<and> content (tree_of b m') q = Some (File (take k c)))"
    using main by blast
qed

lemma move_file_effect:
  assumes "move_file a p b q m = (m', r)" and "a \<noteq> Overlay" "b \<noteq> Overlay"
  shows "quiet m m'"
    and "r \<noteq> Done () \<Longrightarrow> content (tree_of d m') x = content (tree_of d m) x"
    and "r = Done () \<Longrightarrow> \<exists>c. content (tree_of a m) p = Some (File c) \<and> (\<forall>d x. content (tree_of d m') x =
      (if d = a \<and> x = p then None else if d = b \<and> x = q then Some (File c) else content (tree_of d m) x))"
proof -
  have main: "quiet m m' \<and> (r \<noteq> Done () \<longrightarrow> content (tree_of d m') x = content (tree_of d m) x) \<and>
    (r = Done () \<longrightarrow> (\<exists>c. content (tree_of a m) p = Some (File c) \<and> (\<forall>d x. content (tree_of d m') x =
      (if d = a \<and> x = p then None else if d = b \<and> x = q then Some (File c) else content (tree_of d m) x))))"
    using assms(1)[unfolded move_file_def]
  proof (cases rule: attempt_cases)
    case refused
    then show ?thesis by (simp add: same_disk_quiet same_disk_tree)
  next
    case (whole m0)
    have root: "node_at (tree_of b m) q \<noteq> Some Directory \<Longrightarrow> q \<noteq> ''.''" by (auto simp: node_at_def)
    from whole show ?thesis using assms(2,3) root
      by (auto simp: quiet_def same_diskD same_disk_tree content_File Let_def split: option.splits node.splits if_splits)
  next
    case (part m0 n)
    then show ?thesis
      by (auto simp: same_disk_quiet same_disk_tree split: option.splits node.splits if_splits)
  qed
  show "quiet m m'" using main by blast
  show "r \<noteq> Done () \<Longrightarrow> content (tree_of d m') x = content (tree_of d m) x" using main by blast
  show "r = Done () \<Longrightarrow> \<exists>c. content (tree_of a m) p = Some (File c) \<and> (\<forall>d x. content (tree_of d m') x =
      (if d = a \<and> x = p then None else if d = b \<and> x = q then Some (File c) else content (tree_of d m) x))"
    using main by blast
qed

lemma unlink_file_effect:
  assumes "unlink_file a p m = (m', r)" and "a \<noteq> Overlay"
  shows "quiet m m'"
    and "r \<noteq> Done () \<Longrightarrow> content (tree_of d m') x = content (tree_of d m) x"
    and "r = Done () \<Longrightarrow> content (tree_of d m') x = (if d = a \<and> x = p then None else content (tree_of d m) x)"
proof -
  have main: "quiet m m' \<and> (r \<noteq> Done () \<longrightarrow> content (tree_of d m') x = content (tree_of d m) x) \<and>
    (r = Done () \<longrightarrow> content (tree_of d m') x = (if d = a \<and> x = p then None else content (tree_of d m) x))"
    using assms(1)[unfolded unlink_file_def]
  proof (cases rule: attempt_cases)
    case refused
    then show ?thesis by (simp add: same_disk_quiet same_disk_tree)
  next
    case (whole m0)
    then show ?thesis using assms(2)
      by (auto simp: quiet_def same_diskD same_disk_tree split: option.splits node.splits)
  next
    case (part m0 n)
    then show ?thesis
      by (auto simp: same_disk_quiet same_disk_tree split: option.splits node.splits)
  qed
  show "quiet m m'" using main by blast
  show "r \<noteq> Done () \<Longrightarrow> content (tree_of d m') x = content (tree_of d m) x" using main by blast
  show "r = Done () \<Longrightarrow> content (tree_of d m') x = (if d = a \<and> x = p then None else content (tree_of d m) x)"
    using main by blast
qed

lemma then_do_cases:
  assumes "then_do f g m = (m', r)"
  obtains (stepped) m1 x where "f m = (m1, Done x)" "g x m1 = (m', r)"
    | (raised) e where "f m = (m', Raised e)" "r = Raised e"
    | (crashed) "f m = (m', Crashed)" "r = Crashed"
  using assms by (auto simp: then_do_def split: prod.splits run.splits)

lemma length_join_butlast:
  "ps \<noteq> [] \<Longrightarrow> length (join_str sep (butlast ps @ [x])) + length (last ps) = length (join_str sep ps) + length x"
proof (induction ps rule: induct_list012)
  case (3 y z zs)
  then show ?case by (cases zs) auto
qed auto

lemma temporary_other: "temporary turn_id p \<noteq> p"
proof
  assume eq: "temporary turn_id p = p"
  have "length (temporary turn_id p) > length (join_str ''/'' (split_char (CHR ''/'') p))"
    using length_join_butlast[of "split_char (CHR ''/'') p" "''/''" "''.'' @ last (split_char (CHR ''/'') p) @ ''.'' @ turn_id @ ''.tmp''"]
    by (simp add: temporary_def sibling_def)
  then show False by (simp add: eq join_split_char)
qed

lemma back_up_effect:
  assumes "back_up p existed m = (m', r)"
  shows "quiet m m'"
    and "content (mc_work m') x = content (mc_work m) x"
    and "x \<noteq> p \<Longrightarrow> content (mc_recovery m') x = content (mc_recovery m) x"
    and "r = Done () \<Longrightarrow> existed \<Longrightarrow>
      \<exists>c. content (mc_work m) p = Some (File c) \<and> content (mc_recovery m') p = Some (File c)"
    and "content (mc_recovery m') p = content (mc_recovery m) p \<or>
      (\<exists>c k. content (mc_work m) p = Some (File c) \<and> content (mc_recovery m') p = Some (File (take k c)))"
proof -
  define claim where "claim \<longleftrightarrow> quiet m m' \<and> content (mc_work m') x = content (mc_work m) x \<and>
     (x \<noteq> p \<longrightarrow> content (mc_recovery m') x = content (mc_recovery m) x) \<and>
     (r = Done () \<longrightarrow> existed \<longrightarrow>
      (\<exists>c. content (mc_work m) p = Some (File c) \<and> content (mc_recovery m') p = Some (File c))) \<and>
     (content (mc_recovery m') p = content (mc_recovery m) p \<or>
      (\<exists>c k. content (mc_work m) p = Some (File c) \<and> content (mc_recovery m') p = Some (File (take k c))))"
  have claim
  proof (cases existed)
    case False
    then show ?thesis using assms by (simp add: claim_def back_up_def finish_def)
  next
    case True
    then have step: "then_do (make_parents Recovery p) (\<lambda>_. copy_file Work p Recovery p) m = (m', r)"
      using assms by (simp add: back_up_def)
    show ?thesis
      using step
    proof (cases rule: then_do_cases)
      case (stepped m1 u)
      note d = make_parents_effect[OF stepped(1)]
      note c = copy_file_effect[OF stepped(2)]
      have eq: "content (mc_work m1) y = content (mc_work m) y" "content (mc_recovery m1) y = content (mc_recovery m) y" for y
        using d(2)[of Work y] d(2)[of Recovery y] by simp_all
      have q: "quiet m m'" using d(1) c(1) by (auto intro: quiet_trans)
      have w: "content (mc_work m') x = content (mc_work m) x" using c(2)[of Work x] eq by simp
      have o: "x \<noteq> p \<longrightarrow> content (mc_recovery m') x = content (mc_recovery m) x" using c(2)[of Recovery x] eq by simp
      have whole: "r = Done () \<longrightarrow> (\<exists>c. content (mc_work m) p = Some (File c) \<and> content (mc_recovery m') p = Some (File c))"
        using c(3) eq by simp
      have part: "r \<noteq> Done () \<longrightarrow> content (mc_recovery m') p = content (mc_recovery m) p \<or>
          (\<exists>c k. content (mc_work m) p = Some (File c) \<and> content (mc_recovery m') p = Some (File (take k c)))"
        using c(4) eq by simp
      have "\<exists>c k. content (mc_work m) p = Some (File c) \<and> content (mc_recovery m') p = Some (File (take k c))" if "r = Done ()"
        using whole that by (metis order_refl take_all)
      with part have "content (mc_recovery m') p = content (mc_recovery m) p \<or>
          (\<exists>c k. content (mc_work m) p = Some (File c) \<and> content (mc_recovery m') p = Some (File (take k c)))" by blast
      then show ?thesis unfolding claim_def using q w o whole by blast
    next
      case (raised e)
      show ?thesis unfolding claim_def
        using make_parents_effect[OF raised(1)] make_parents_effect(2)[OF raised(1), of Work]
          make_parents_effect(2)[OF raised(1), of Recovery] raised(2) by simp
    next
      case crashed
      show ?thesis unfolding claim_def
        using make_parents_effect[OF crashed(1)] make_parents_effect(2)[OF crashed(1), of Work]
          make_parents_effect(2)[OF crashed(1), of Recovery] crashed(2) by simp
    qed
  qed
  note this[unfolded claim_def]
  then show "quiet m m'" "content (mc_work m') x = content (mc_work m) x"
    "x \<noteq> p \<Longrightarrow> content (mc_recovery m') x = content (mc_recovery m) x"
    "r = Done () \<Longrightarrow> existed \<Longrightarrow> \<exists>c. content (mc_work m) p = Some (File c) \<and> content (mc_recovery m') p = Some (File c)"
    "content (mc_recovery m') p = content (mc_recovery m) p \<or>
      (\<exists>c k. content (mc_work m) p = Some (File c) \<and> content (mc_recovery m') p = Some (File (take k c)))"
    by blast+
qed

text \<open>Copy next to the target, then swap in: from the overlay in a commit, from a backup in a
  recovery.\<close>

lemma copy_swap_effect:
  assumes "then_do (copy_file a p Work t) (\<lambda>_. move_file Work t Work p) m = (m', r)" and "t \<noteq> p"
  shows "quiet m m'"
    and "content (mc_recovery m') x = content (mc_recovery m) x"
    and "x \<noteq> p \<Longrightarrow> x \<noteq> t \<Longrightarrow> content (mc_work m') x = content (mc_work m) x"
    and "r = Done () \<Longrightarrow> \<exists>c. content (tree_of a m) p = Some (File c) \<and> content (mc_work m') p = Some (File c)"
proof -
  have "quiet m m' \<and> content (mc_recovery m') x = content (mc_recovery m) x \<and>
     (x \<noteq> p \<longrightarrow> x \<noteq> t \<longrightarrow> content (mc_work m') x = content (mc_work m) x) \<and>
     (r = Done () \<longrightarrow> (\<exists>c. content (tree_of a m) p = Some (File c) \<and> content (mc_work m') p = Some (File c)))"
    using assms(1)
  proof (cases rule: then_do_cases)
    case (stepped m1 u)
    note c = copy_file_effect[OF stepped(1)]
    note v = move_file_effect[OF stepped(2)]
    have rec1: "content (mc_recovery m1) x = content (mc_recovery m) x" using c(2)[of Recovery x] by simp
    have work1: "x \<noteq> t \<Longrightarrow> content (mc_work m1) x = content (mc_work m) x" using c(2)[of Work x] by simp
    have q: "quiet m m'" using c(1) v(1) by (auto intro: quiet_trans)
    obtain k where k: "content (tree_of a m) p = Some (File k)" "content (mc_work m1) t = Some (File k)" using c(3) by auto
    show ?thesis
    proof (cases "r = Done ()")
      case True
      obtain k' where k': "content (mc_work m1) t = Some (File k')"
        and all: "\<forall>d x. content (tree_of d m') x = (if d = Work \<and> x = t then None
            else if d = Work \<and> x = p then Some (File k') else content (tree_of d m1) x)"
        using v(3) True by auto
      have "content (mc_work m') p = Some (File k)"
        using k k' spec[OF spec[OF all, of Work], of p] assms(2) by auto
      moreover have "content (mc_recovery m') x = content (mc_recovery m) x"
        using spec[OF spec[OF all, of Recovery], of x] rec1 by simp
      moreover have "x \<noteq> p \<longrightarrow> x \<noteq> t \<longrightarrow> content (mc_work m') x = content (mc_work m) x"
        using spec[OF spec[OF all, of Work], of x] work1 by simp
      ultimately show ?thesis using q k by blast
    next
      case False
      then show ?thesis using q rec1 work1 v(2)[of Recovery x] v(2)[of Work x] by simp
    qed
  next
    case (raised e)
    show ?thesis
      using copy_file_effect(1)[OF raised(1)] copy_file_effect(2)[OF raised(1), of Recovery x]
        copy_file_effect(2)[OF raised(1), of Work x] raised(2) by simp
  next
    case crashed
    show ?thesis
      using copy_file_effect(1)[OF crashed(1)] copy_file_effect(2)[OF crashed(1), of Recovery x]
        copy_file_effect(2)[OF crashed(1), of Work x] crashed(2) by simp
  qed
  then show "quiet m m'" "content (mc_recovery m') x = content (mc_recovery m) x"
    "x \<noteq> p \<Longrightarrow> x \<noteq> t \<Longrightarrow> content (mc_work m') x = content (mc_work m) x"
    "r = Done () \<Longrightarrow> \<exists>c. content (tree_of a m) p = Some (File c) \<and> content (mc_work m') p = Some (File c)" by blast+
qed

lemma swap_in_effect:
  assumes "then_do (copy_file Overlay p Work (temporary t p)) (\<lambda>_. move_file Work (temporary t p) Work p) m = (m', r)"
  shows "quiet m m'"
    and "content (mc_recovery m') x = content (mc_recovery m) x"
    and "x \<noteq> p \<Longrightarrow> x \<noteq> temporary t p \<Longrightarrow> content (mc_work m') x = content (mc_work m) x"
    and "r = Done () \<Longrightarrow> content (mc_work m') p = content (mc_overlay m) p"
proof -
  note c = copy_swap_effect[OF assms temporary_other]
  show "quiet m m'" "content (mc_recovery m') x = content (mc_recovery m) x"
    "x \<noteq> p \<Longrightarrow> x \<noteq> temporary t p \<Longrightarrow> content (mc_work m') x = content (mc_work m) x"
    by (rule c(1), rule c(2), rule c(3))
  show "r = Done () \<Longrightarrow> content (mc_work m') p = content (mc_overlay m) p" using c(4) by auto
qed

end
