(* ===== verification/Commit_Atomicity.thy ===== *)
theory Commit_Atomicity
  imports Workspace_Transaction "HOL-Library.Sublist"
begin

text \<open>
  What a commit does to the workspace, whatever its system calls do: all declared changes or none
  of them, unless the error says that recovery is required; only declared paths in every case; and
  only when what the tools relied on has not changed. Proved by an invariant of the replacement loop
  that the exception handler, and later the recovery after a crash, start from.
\<close>

section \<open>The replacement loop\<close>

lemma install_effect:
  assumes "install t p in_overlay existed m = (m', r)"
  shows "quiet m m'"
    and "content (mc_recovery m') x = content (mc_recovery m) x"
    and "x \<noteq> p \<Longrightarrow> x \<noteq> temporary t p \<Longrightarrow> content (mc_work m') x = content (mc_work m) x"
    and "r = Done () \<Longrightarrow> content (mc_work m') p =
      (if in_overlay then content (mc_overlay m) p else if existed then None else content (mc_work m) p)"
proof -
  have "quiet m m' \<and> content (mc_recovery m') x = content (mc_recovery m) x \<and>
     (x \<noteq> p \<longrightarrow> x \<noteq> temporary t p \<longrightarrow> content (mc_work m') x = content (mc_work m) x) \<and>
     (r = Done () \<longrightarrow> content (mc_work m') p =
      (if in_overlay then content (mc_overlay m) p else if existed then None else content (mc_work m) p))"
  proof (cases in_overlay)
    case True
    then have step: "then_do (make_parents Work p) (\<lambda>_. then_do (copy_file Overlay p Work (temporary t p))
        (\<lambda>_. move_file Work (temporary t p) Work p)) m = (m', r)"
      using assms by (simp add: install_def)
    show ?thesis
      using step
    proof (cases rule: then_do_cases)
      case (stepped m1 u)
      note d = make_parents_effect[OF stepped(1)]
      have work1: "content (mc_work m1) y = content (mc_work m) y" for y using d(2)[of Work y] by simp
      have rec1: "content (mc_recovery m1) y = content (mc_recovery m) y" for y using d(2)[of Recovery y] by simp
      have ov1: "mc_overlay m1 = mc_overlay m" using d(1) by (simp add: quiet_overlay)
      have "quiet m m'" using d(1) swap_in_effect(1)[OF stepped(2)] by (auto intro: quiet_trans)
      then show ?thesis
        using swap_in_effect(2,3,4)[OF stepped(2)] work1 rec1 ov1 True by simp
    next
      case (raised e)
      then show ?thesis
        using make_parents_effect[OF raised(1)] make_parents_effect(2)[OF raised(1), of Work x]
          make_parents_effect(2)[OF raised(1), of Recovery x] by simp
    next
      case crashed
      then show ?thesis
        using make_parents_effect[OF crashed(1)] make_parents_effect(2)[OF crashed(1), of Work x]
          make_parents_effect(2)[OF crashed(1), of Recovery x] by simp
    qed
  next
    case False
    show ?thesis
    proof (cases existed)
      case True
      then have u: "unlink_file Work p m = (m', r)" using assms False by (simp add: install_def)
      show ?thesis
        using unlink_file_effect(1)[OF u] unlink_file_effect(2,3)[OF u, of Work x] unlink_file_effect(2,3)[OF u, of Recovery x]
          unlink_file_effect(2,3)[OF u, of Work p] True False by (cases "r = Done ()") auto
    next
      case no: False
      then show ?thesis using assms False by (simp add: install_def finish_def)
    qed
  qed
  then show "quiet m m'" "content (mc_recovery m') x = content (mc_recovery m) x"
    "x \<noteq> p \<Longrightarrow> x \<noteq> temporary t p \<Longrightarrow> content (mc_work m') x = content (mc_work m) x"
    "r = Done () \<Longrightarrow> content (mc_work m') p =
      (if in_overlay then content (mc_overlay m) p else if existed then None else content (mc_work m) p)" by blast+
qed

text \<open>No call makes a link.\<close>

lemma swap_in_no_link:
  assumes "then_do (copy_file Overlay p Work (temporary t p)) (\<lambda>_. move_file Work (temporary t p) Work p) m = (m', r)"
    and "content (mc_work m') x = Some (Symlink l)"
  shows "content (mc_work m) x = Some (Symlink l)"
proof -
  have copy: "content (mc_work m1) x = Some (Symlink l) \<Longrightarrow> content (mc_work m) x = Some (Symlink l)"
    if "copy_file Overlay p Work (temporary t p) m = (m1, r1)" for m1 r1
    using copy_file_effect(2)[OF that, of Work x] copy_file_effect(3,4)[OF that] by (cases "x = temporary t p"; cases "r1 = Done ()") auto
  show ?thesis
    using assms(1)
  proof (cases rule: then_do_cases)
    case (stepped m1 u)
    have "content (mc_work m1) x = Some (Symlink l)"
    proof (cases "r = Done ()")
      case True
      then obtain k where "\<forall>d x. content (tree_of d m') x = (if d = Work \<and> x = temporary t p then None
            else if d = Work \<and> x = p then Some (File k) else content (tree_of d m1) x)"
        using move_file_effect(3)[OF stepped(2)] by auto
      from spec[OF spec[OF this, of Work], of x] show ?thesis using assms(2) by (auto split: if_splits)
    next
      case False
      then show ?thesis using move_file_effect(2)[OF stepped(2), of Work x] assms(2) by simp
    qed
    then show ?thesis using copy[OF stepped(1)] by simp
  next
    case (raised e)
    then show ?thesis using copy[OF raised(1)] assms(2) by simp
  next
    case crashed
    then show ?thesis using copy[OF crashed(1)] assms(2) by simp
  qed
qed

lemma install_no_link:
  assumes "install t p in_overlay existed m = (m', r)" and "content (mc_work m') x = Some (Symlink l)"
  shows "content (mc_work m) x = Some (Symlink l)"
proof (cases in_overlay)
  case True
  then have step: "then_do (make_parents Work p) (\<lambda>_. then_do (copy_file Overlay p Work (temporary t p))
      (\<lambda>_. move_file Work (temporary t p) Work p)) m = (m', r)"
    using assms by (simp add: install_def)
  show ?thesis
    using step
  proof (cases rule: then_do_cases)
    case (stepped m1 u)
    then show ?thesis
      using swap_in_no_link[OF stepped(2) assms(2)] make_parents_effect(2)[OF stepped(1), of Work x] by simp
  next
    case (raised e)
    then show ?thesis using make_parents_effect(2)[OF raised(1), of Work x] assms(2) by simp
  next
    case crashed
    then show ?thesis using make_parents_effect(2)[OF crashed(1), of Work x] assms(2) by simp
  qed
next
  case False
  show ?thesis
  proof (cases existed)
    case True
    then have "unlink_file Work p m = (m', r)" using assms False by (simp add: install_def)
    note u = unlink_file_effect(2,3)[OF this, of Work x]
    show ?thesis using u assms(2) by (cases "r = Done ()") (auto split: if_splits)
  next
    case no: False
    then show ?thesis using assms False by (simp add: install_def finish_def)
  qed
qed

text \<open>
  The invariant, for the paths a commit changes and the content \<open>W0\<close> the workspace had before:
  what has not been applied is as before, what has been applied is backed up, and every backup is
  a prefix of the content before (the whole of it for an applied replacement).
\<close>

definition backups_are :: "(string \<Rightarrow> string \<Rightarrow> bool) \<Rightarrow> (rel \<Rightarrow> node option) \<Rightarrow> machine \<Rightarrow> bool" where
  "backups_are R W0 m \<longleftrightarrow>
     (\<forall>p c'. content (mc_recovery m) p = Some (File c') \<longrightarrow> (\<exists>c. W0 p = Some (File c) \<and> R c' c))"

abbreviation backups_true :: "(rel \<Rightarrow> node option) \<Rightarrow> machine \<Rightarrow> bool" where
  "backups_true \<equiv> backups_are prefix"

definition secured :: "(rel \<Rightarrow> node option) \<Rightarrow> machine \<Rightarrow> replacement \<Rightarrow> bool" where
  "secured W0 m r \<longleftrightarrow>
     (if rp_existed r then \<exists>c. W0 (rp_target r) = Some (File c) \<and> content (mc_recovery m) (rp_target r) = Some (File c)
      else W0 (rp_target r) = None)"

definition apply_inv :: "string \<Rightarrow> rel set \<Rightarrow> (rel \<Rightarrow> node option) \<Rightarrow> replacement list \<Rightarrow> machine \<Rightarrow> bool" where
  "apply_inv t P W0 applied m \<longleftrightarrow>
     (\<forall>q. q \<notin> rp_target ` set applied \<longrightarrow> q \<notin> temporary t ` P \<longrightarrow> content (mc_work m) q = W0 q) \<and>
     (\<forall>q\<in>P. \<forall>l. content (mc_work m) q \<noteq> Some (Symlink l)) \<and>
     (\<forall>r\<in>set applied. secured W0 m r) \<and> backups_true W0 m"

lemma backups_true_mono:
  assumes "backups_true W0 m"
    and "\<And>q. q \<noteq> p \<Longrightarrow> content (mc_recovery m') q = content (mc_recovery m) q"
    and "content (mc_recovery m') p = content (mc_recovery m) p \<or>
      (\<exists>c k. W0 p = Some (File c) \<and> content (mc_recovery m') p = Some (File (take k c)))"
  shows "backups_true W0 m'"
  unfolding backups_are_def
proof (intro allI impI)
  fix q c' assume c': "content (mc_recovery m') q = Some (File c')"
  show "\<exists>c. W0 q = Some (File c) \<and> prefix c' c"
  proof (cases "q = p")
    case True
    then show ?thesis using assms(1,3) c' take_is_prefix by (auto simp: backups_are_def)
  next
    case False
    then show ?thesis using assms(1,2) c' by (simp add: backups_are_def)
  qed
qed

lemma exists_at_False: "\<not> exists_at t p \<Longrightarrow> content t p = None \<or> content t p = Some (Symlink Dangling)"
  by (auto simp: exists_at_def content_def split: option.splits node.splits link_target.splits)

lemma content_no_link: "(\<forall>q n. (q, n) \<in> set t \<longrightarrow> \<not> is_link n) \<Longrightarrow> content t p \<noteq> Some (Symlink l)"
  by (auto simp: content_def node_at_def is_link_def split: option.splits node.splits if_splits dest!: map_of_SomeD)

lemma apply_changes_effect:
  assumes "apply_changes t ps applied m = (m', applied', r)"
    and "apply_inv t P W0 applied m"
    and "set ps \<subseteq> P" "temporary t ` P \<inter> P = {}" "distinct ps"
    and "rp_target ` set applied \<inter> set ps = {}"
    and "\<And>p l. p \<in> set ps \<Longrightarrow> content (mc_overlay m) p \<noteq> Some (Symlink l)"
  shows "quiet m m' \<and> apply_inv t P W0 applied' m' \<and> set (map rp_target applied') \<subseteq> set (map rp_target applied) \<union> set ps \<and>
    (r = Done () \<longrightarrow> (\<forall>p\<in>set ps. content (mc_work m') p = content (mc_overlay m) p)) \<and>
    (\<forall>q. q \<notin> set ps \<longrightarrow> q \<notin> temporary t ` P \<longrightarrow> content (mc_work m') q = content (mc_work m) q)"
  using assms
proof (induction ps arbitrary: applied m)
  case Nil
  then show ?case by simp
next
  case (Cons p ps)
  define existed where "existed = exists_at (mc_work m) p"
  obtain m1 r1 where bu: "back_up p existed m = (m1, r1)" by fastforce
  note b = back_up_effect[OF bu]
  have pt: "p \<notin> temporary t ` P" "p \<notin> set ps" using Cons.prems(3,4,5) by auto
  have old: "content (mc_work m) p = W0 p"
    using Cons.prems(2,6) pt by (auto simp: apply_inv_def)
  have nolink: "\<And>l. content (mc_work m) p \<noteq> Some (Symlink l)" using Cons.prems(2,3) by (auto simp: apply_inv_def)
  have work1: "content (mc_work m1) q = content (mc_work m) q" for q by (rule b(2))
  have ov1: "mc_overlay m1 = mc_overlay m" using b(1) by (rule quiet_overlay)
  have backups1: "backups_true W0 m1"
    by (rule backups_true_mono[where m = m and p = p]) (use Cons.prems(2) b(3,5) old in \<open>auto simp: apply_inv_def\<close>)
  have sec1: "secured W0 m1 a" if "a \<in> set applied" for a
  proof -
    have "rp_target a \<noteq> p" using that Cons.prems(6) by auto
    then show ?thesis using that Cons.prems(2) b(3)[of "rp_target a"] by (simp add: apply_inv_def secured_def)
  qed
  have inv1: "apply_inv t P W0 applied m1"
    using Cons.prems(2) sec1 backups1 work1 by (simp add: apply_inv_def)
  show ?case
  proof (cases "r1 = Done ()")
    case False
    then have res: "m' = m1" "applied' = applied" "r \<noteq> Done ()"
      using Cons.prems(1) bu by (auto simp: existed_def[symmetric] Let_def split: run.splits)
    show ?thesis using res b(1) inv1 work1 by auto
  next
    case True
    define a where "a = \<lparr>rp_target = p, rp_existed = existed\<rparr>"
    obtain m2 r2 where ins: "install t p (exists_at (mc_overlay m1) p) existed m1 = (m2, r2)" by fastforce
    note i = install_effect[OF ins]
    have sa: "secured W0 m2 a"
    proof (cases existed)
      case True
      then obtain c where "content (mc_work m) p = Some (File c)" "content (mc_recovery m1) p = Some (File c)"
        using b(4) \<open>r1 = Done ()\<close> by blast
      then show ?thesis using True old i(2)[of p] by (simp add: secured_def a_def)
    next
      case False
      then have "content (mc_work m) p = None"
        using nolink exists_at_False[of "mc_work m" p] by (auto simp: existed_def)
      then show ?thesis using False old by (simp add: secured_def a_def)
    qed
    have inv2: "apply_inv t P W0 (applied @ [a]) m2"
    proof -
      have "content (mc_work m2) q = W0 q" if "q \<notin> rp_target ` set (applied @ [a])" "q \<notin> temporary t ` P" for q
      proof -
        have "q \<noteq> p" "q \<noteq> temporary t p" using that Cons.prems(3) by (auto simp: a_def)
        then have "content (mc_work m2) q = content (mc_work m1) q" by (rule i(3))
        then show ?thesis using that inv1 by (simp add: apply_inv_def)
      qed
      moreover have "secured W0 m2 x" if "x \<in> set (applied @ [a])" for x
        using that sa sec1[of x] i(2)[of "rp_target x"] by (auto simp: secured_def)
      moreover have "backups_true W0 m2" using backups1 i(2) by (simp add: backups_are_def)
      moreover have "content (mc_work m2) q \<noteq> Some (Symlink l)" if "q \<in> P" for q l
        using that inv1 install_no_link[OF ins, of q l] by (auto simp: apply_inv_def)
      ultimately show ?thesis by (simp add: apply_inv_def)
    qed
    have rest: "q \<noteq> p \<Longrightarrow> q \<notin> temporary t ` P \<Longrightarrow> content (mc_work m2) q = content (mc_work m) q" for q
      using i(3)[of q] work1[of q] Cons.prems(3) by auto
    show ?thesis
    proof (cases "r2 = Done ()")
      case False
      then have res: "m' = m2" "applied' = applied @ [a]" "r \<noteq> Done ()"
        using Cons.prems(1) bu ins True by (auto simp: existed_def[symmetric] a_def Let_def split: run.splits)
      show ?thesis using res b(1) i(1) inv2 rest by (auto intro: quiet_trans simp: a_def)
    next
      case done2: True
      have rec: "apply_changes t ps (applied @ [a]) m2 = (m', applied', r)"
        using Cons.prems(1) bu ins True done2 by (simp add: existed_def[symmetric] a_def Let_def)
      have ov2: "mc_overlay m2 = mc_overlay m" using i(1) ov1 quiet_overlay by metis
      have ih: "quiet m2 m' \<and> apply_inv t P W0 applied' m' \<and>
          set (map rp_target applied') \<subseteq> set (map rp_target (applied @ [a])) \<union> set ps \<and>
          (r = Done () \<longrightarrow> (\<forall>p\<in>set ps. content (mc_work m') p = content (mc_overlay m2) p)) \<and>
          (\<forall>q. q \<notin> set ps \<longrightarrow> q \<notin> temporary t ` P \<longrightarrow> content (mc_work m') q = content (mc_work m2) q)"
        by (rule Cons.IH[OF rec inv2]) (use Cons.prems ov2 in \<open>auto simp: a_def\<close>)
      have newp: "content (mc_work m2) p = content (mc_overlay m) p"
      proof (cases "exists_at (mc_overlay m1) p")
        case True
        then show ?thesis using i(4) done2 ov1 by simp
      next
        case False
        then have none: "content (mc_overlay m) p = None"
          using exists_at_False[of "mc_overlay m" p] Cons.prems(7)[of p] by (auto simp: ov1)
        show ?thesis
        proof (cases existed)
          case True
          then show ?thesis using i(4) done2 False none by simp
        next
          case no: False
          then have "content (mc_work m) p = None"
            using nolink exists_at_False[of "mc_work m" p] by (auto simp: existed_def)
          then show ?thesis using i(4) done2 False none no work1 by simp
        qed
      qed
      have "content (mc_work m') p = content (mc_overlay m) p" using ih pt newp by simp
      then have "r = Done () \<longrightarrow> (\<forall>p\<in>set (p # ps). content (mc_work m') p = content (mc_overlay m) p)"
        using ih by (simp add: ov2)
      moreover have "quiet m m'" using ih b(1) i(1) by (blast intro: quiet_trans)
      moreover have "\<forall>q. q \<notin> set (p # ps) \<longrightarrow> q \<notin> temporary t ` P \<longrightarrow> content (mc_work m') q = content (mc_work m) q"
        using ih rest by simp
      ultimately show ?thesis using ih by (auto simp: a_def)
    qed
  qed
qed

lemma apply_changes_targets:
  "apply_changes t ps applied m = (m', applied', r) \<Longrightarrow> \<exists>k. map rp_target applied' = map rp_target applied @ take k ps"
proof (induction ps arbitrary: applied m)
  case (Cons p ps)
  obtain m1 r1 where bu: "back_up p (exists_at (mc_work m) p) m = (m1, r1)" by fastforce
  obtain m2 r2 where ins: "install t p (exists_at (mc_overlay m1) p) (exists_at (mc_work m) p) m1 = (m2, r2)" by fastforce
  show ?case
  proof (cases "r1 = Done () \<and> r2 = Done ()")
    case True
    then obtain k where "map rp_target applied' = map rp_target applied @ p # take k ps"
      using Cons.IH[of "applied @ [\<lparr>rp_target = p, rp_existed = exists_at (mc_work m) p\<rparr>]" m2] Cons.prems bu ins
      by (auto simp: Let_def)
    then show ?thesis by (intro exI[of _ "Suc k"]) simp
  next
    case False
    then have "applied' = applied \<or> applied' = applied @ [\<lparr>rp_target = p, rp_existed = exists_at (mc_work m) p\<rparr>]"
      using Cons.prems bu ins by (cases r1; cases r2) (auto simp: Let_def)
    then show ?thesis
      by (elim disjE) (auto intro: exI[of _ 0] exI[of _ 1])
  qed
qed simp

section \<open>The exception handler\<close>

lemma undo_one_effect:
  assumes "undo_one a m = (m', r)" and "apply_inv t P W0 (a # as) m"
    and "rp_target a \<notin> rp_target ` set as" "rp_target a \<notin> temporary t ` P" "rp_target a \<in> P"
  shows "quiet m m'"
    and "r = Done () \<Longrightarrow> apply_inv t P W0 as m'"
    and "r \<noteq> Done () \<Longrightarrow> apply_inv t P W0 (a # as) m'"
proof -
  let ?p = "rp_target a"
  have sec: "secured W0 m a" and secs: "\<And>b. b \<in> set as \<Longrightarrow> secured W0 m b" and bt: "backups_true W0 m"
    and links: "\<And>q l. q \<in> P \<Longrightarrow> content (mc_work m) q \<noteq> Some (Symlink l)"
    and frame: "\<And>q. q \<notin> rp_target ` set (a # as) \<Longrightarrow> q \<notin> temporary t ` P \<Longrightarrow> content (mc_work m) q = W0 q"
    using assms(2) by (auto simp: apply_inv_def)
  have main: "quiet m m' \<and> (r = Done () \<longrightarrow> apply_inv t P W0 as m') \<and> (r \<noteq> Done () \<longrightarrow> apply_inv t P W0 (a # as) m')"
  proof (cases "rp_existed a")
    case True
    then have mv: "move_file Recovery ?p Work ?p m = (m', r)" using assms(1) by (simp add: undo_one_def)
    have q: "quiet m m'" using move_file_effect(1)[OF mv] by simp
    obtain c where c: "W0 ?p = Some (File c)" "content (mc_recovery m) ?p = Some (File c)"
      using sec True by (auto simp: secured_def)
    show ?thesis
    proof (cases "r = Done ()")
      case ok: True
      then obtain k where k: "content (mc_recovery m) ?p = Some (File k)"
        and all: "\<forall>d x. content (tree_of d m') x = (if d = Recovery \<and> x = ?p then None
            else if d = Work \<and> x = ?p then Some (File k) else content (tree_of d m) x)"
        using move_file_effect(3)[OF mv] by auto
      have w: "content (mc_work m') x = (if x = ?p then W0 ?p else content (mc_work m) x)" for x
        using spec[OF spec[OF all, of Work], of x] c k by simp
      have rc: "content (mc_recovery m') x = (if x = ?p then None else content (mc_recovery m) x)" for x
        using spec[OF spec[OF all, of Recovery], of x] by simp
      have "apply_inv t P W0 as m'"
        unfolding apply_inv_def
      proof (intro conjI allI impI ballI)
        fix q assume "q \<notin> rp_target ` set as" "q \<notin> temporary t ` P"
        then show "content (mc_work m') q = W0 q" using w frame by (cases "q = ?p") auto
      next
        fix q l assume "q \<in> P"
        then show "content (mc_work m') q \<noteq> Some (Symlink l)" using w links c(1) by (cases "q = ?p") auto
      next
        fix b assume b: "b \<in> set as"
        then have "rp_target b \<noteq> ?p" using assms(3) by (metis imageI)
        then show "secured W0 m' b" using secs[OF b] rc by (simp add: secured_def)
      next
        show "backups_true W0 m'" using bt rc by (simp add: backups_are_def)
      qed
      then show ?thesis using q ok by simp
    next
      case no: False
      have "content (mc_work m') x = content (mc_work m) x" "content (mc_recovery m') x = content (mc_recovery m) x" for x
        using move_file_effect(2)[OF mv, of Work x] move_file_effect(2)[OF mv, of Recovery x] no by simp_all
      then have "apply_inv t P W0 (a # as) m'" using assms(2) by (simp add: apply_inv_def secured_def backups_are_def)
      then show ?thesis using q no by simp
    qed
  next
    case False
    then have gone: "W0 ?p = None" using sec by (simp add: secured_def)
    show ?thesis
    proof (cases "exists_at (mc_work m) ?p")
      case True
      then have u: "unlink_file Work ?p m = (m', r)" using assms(1) False by (simp add: undo_one_def)
      have q: "quiet m m'" using unlink_file_effect(1)[OF u] by simp
      have rc: "content (mc_recovery m') x = content (mc_recovery m) x" for x
        using unlink_file_effect(2,3)[OF u, of Recovery x] by (cases "r = Done ()") auto
      have w: "content (mc_work m') x = (if r = Done () \<and> x = ?p then None else content (mc_work m) x)" for x
        using unlink_file_effect(2,3)[OF u, of Work x] by (cases "r = Done ()") auto
      have bt': "backups_true W0 m'" using bt rc by (simp add: backups_are_def)
      have s': "secured W0 m' b" if "b \<in> set (a # as)" for b
        using that sec secs rc by (auto simp: secured_def)
      have "r = Done () \<longrightarrow> apply_inv t P W0 as m'"
        using w gone frame bt' s' links by (auto simp: apply_inv_def)
      moreover have "r \<noteq> Done () \<longrightarrow> apply_inv t P W0 (a # as) m'"
        using w frame bt' s' links by (auto simp: apply_inv_def)
      ultimately show ?thesis using q by blast
    next
      case missing: False
      then have same: "m' = m" "r = Done ()" using assms(1) False by (simp_all add: undo_one_def)
      have none: "content (mc_work m) ?p = None"
        using exists_at_False[OF missing] links assms(5) by auto
      have "apply_inv t P W0 as m"
        unfolding apply_inv_def
      proof (intro conjI allI impI ballI)
        fix q assume "q \<notin> rp_target ` set as" "q \<notin> temporary t ` P"
        then show "content (mc_work m) q = W0 q" using none gone frame by (cases "q = ?p") auto
      qed (use links secs bt in auto)
      then show ?thesis using same by simp
    qed
  qed
  then show "quiet m m'" "r = Done () \<Longrightarrow> apply_inv t P W0 as m'" "r \<noteq> Done () \<Longrightarrow> apply_inv t P W0 (a # as) m'"
    by blast+
qed

lemma apply_inv_cong: "set xs = set ys \<Longrightarrow> apply_inv t P W0 xs m = apply_inv t P W0 ys m"
  by (simp add: apply_inv_def)

lemma undo_all_effect:
  assumes "undo_all as errors m = (m', r)" and "apply_inv t P W0 (as @ stuck) m"
    and "distinct (map rp_target (as @ stuck))" "rp_target ` set (as @ stuck) \<subseteq> P" "temporary t ` P \<inter> P = {}"
  shows "quiet m m' \<and>
    (\<exists>left. apply_inv t P W0 left m' \<and> rp_target ` set left \<subseteq> rp_target ` set (as @ stuck)) \<and>
    (\<forall>e. r \<noteq> Raised e) \<and>
    (\<forall>es. r = Done es \<longrightarrow> (\<exists>more. es = errors @ more \<and> (more = [] \<longrightarrow> apply_inv t P W0 stuck m')))"
  using assms
proof (induction as arbitrary: errors m stuck)
  case Nil
  then show ?case by (auto intro!: exI[of _ stuck])
next
  case (Cons a as)
  obtain m1 r1 where one: "undo_one a m = (m1, r1)" by fastforce
  have inv: "apply_inv t P W0 (a # (as @ stuck)) m" using Cons.prems(2) by simp
  have pt: "rp_target a \<in> P" "rp_target a \<notin> temporary t ` P" "rp_target a \<notin> rp_target ` set (as @ stuck)"
    using Cons.prems(3,4,5) by auto
  note u = undo_one_effect[OF one inv pt(3,2,1)]
  show ?case
  proof (cases r1)
    case (Done x)
    have next_step: "undo_all as errors m1 = (m', r)" using Cons.prems(1) one Done by simp
    have ih: "quiet m1 m' \<and> (\<exists>left. apply_inv t P W0 left m' \<and> rp_target ` set left \<subseteq> rp_target ` set (as @ stuck)) \<and>
       (\<forall>e. r \<noteq> Raised e) \<and> (\<forall>es. r = Done es \<longrightarrow> (\<exists>more. es = errors @ more \<and> (more = [] \<longrightarrow> apply_inv t P W0 stuck m')))"
      by (rule Cons.IH[OF next_step]) (use u(2) Done Cons.prems(3,4,5) in auto)
    then obtain left where "apply_inv t P W0 left m'" "rp_target ` set left \<subseteq> rp_target ` set (as @ stuck)" by blast
    then have "apply_inv t P W0 left m'" "rp_target ` set left \<subseteq> rp_target ` set ((a # as) @ stuck)" by auto
    then show ?thesis using ih u(1) by (blast intro: quiet_trans)
  next
    case (Raised e)
    have next_step: "undo_all as (errors @ [rp_target a]) m1 = (m', r)" using Cons.prems(1) one Raised by simp
    have inv1: "apply_inv t P W0 (as @ (a # stuck)) m1"
      using u(3) Raised apply_inv_cong[of "as @ a # stuck" "a # as @ stuck"] by simp
    have ih: "quiet m1 m' \<and> (\<exists>left. apply_inv t P W0 left m' \<and> rp_target ` set left \<subseteq> rp_target ` set (as @ (a # stuck))) \<and>
       (\<forall>e. r \<noteq> Raised e) \<and> (\<forall>es. r = Done es \<longrightarrow>
         (\<exists>more. es = (errors @ [rp_target a]) @ more \<and> (more = [] \<longrightarrow> apply_inv t P W0 (a # stuck) m')))"
      by (rule Cons.IH[OF next_step inv1]) (use Cons.prems(3,4,5) in auto)
    then have "\<exists>left. apply_inv t P W0 left m' \<and> rp_target ` set left \<subseteq> rp_target ` set ((a # as) @ stuck)" by auto
    moreover have "\<forall>es. r = Done es \<longrightarrow> (\<exists>more. es = errors @ more \<and> (more = [] \<longrightarrow> apply_inv t P W0 stuck m'))"
      using ih by auto
    ultimately show ?thesis using ih u(1) by (blast intro: quiet_trans)
  next
    case Crashed
    then have "m' = m1" "r = Crashed" using Cons.prems(1) one by simp_all
    then show ?thesis using u(1,3) Crashed inv by (auto intro!: exI[of _ "a # as @ stuck"])
  qed
qed

section \<open>Records\<close>

definition record_state :: "pydict \<Rightarrow> string" where
  "record_state r = (case dict_get r ''state'' PNone of PStr s \<Rightarrow> s | _ \<Rightarrow> [])"

text \<open>Whether a record of that state was appended between two moments.\<close>

definition recorded_since :: "machine \<Rightarrow> string \<Rightarrow> machine \<Rightarrow> bool" where
  "recorded_since m state m' \<longleftrightarrow> state \<in> record_state ` set (drop (length (mc_journal m)) (mc_journal m'))"

lemma append_record_effect:
  assumes "append_record state payload m = (m', r)"
  shows "mc_work m' = mc_work m" "mc_overlay m' = mc_overlay m" "mc_recovery m' = mc_recovery m"
    and "mc_container m' = mc_container m" "set (mc_fates m') \<subseteq> set (mc_fates m)"
    and "r = Done () \<Longrightarrow> mc_journal m' = mc_journal m @ [journal_line m state payload]"
    and "r \<noteq> Done () \<Longrightarrow> mc_journal m' = mc_journal m \<or> (mc_journal m' = mc_journal m @ [journal_line m state payload]
       \<and> Unacked \<in> set (mc_fates m))"
    and "r = Raised e \<Longrightarrow> e = journal_error state"
proof -
  obtain f m0 where f: "next_fate m = (f, m0)" by fastforce
  note s = same_diskD[OF next_fate_same[OF f]]
  have u: "f = Unacked \<Longrightarrow> Unacked \<in> set (mc_fates m)"
    using f by (auto simp: next_fate_def split: list.splits)
  show "mc_work m' = mc_work m" "mc_overlay m' = mc_overlay m" "mc_recovery m' = mc_recovery m" "mc_container m' = mc_container m"
    "set (mc_fates m') \<subseteq> set (mc_fates m)"
    using assms f s by (cases f; force simp: append_record_def Let_def)+
  show "r = Done () \<Longrightarrow> mc_journal m' = mc_journal m @ [journal_line m state payload]"
    "r \<noteq> Done () \<Longrightarrow> mc_journal m' = mc_journal m \<or> (mc_journal m' = mc_journal m @ [journal_line m state payload]
       \<and> Unacked \<in> set (mc_fates m))"
    "r = Raised e \<Longrightarrow> e = journal_error state"
    using assms f s u by (cases f; force simp: append_record_def Let_def)+
qed

lemma record_state_line: "map_of payload ''state'' = None \<Longrightarrow> record_state (record_line n state payload) = state"
  by (simp add: record_state_def record_line_def dict_get_def map_add_def map_of_append)

lemma map_of_redacted: "map_of (redact_payload f d) k = None \<longleftrightarrow> map_of d k = None"
  by (simp add: redact_payload_def map_of_eq_None_iff image_image case_prod_unfold)

lemma journal_line_state: "map_of payload ''state'' = None \<Longrightarrow> record_state (journal_line m state payload) = state"
  by (simp add: journal_line_def record_state_line map_of_redacted)

lemma record_states [simp]:
  "record_state (journal_line m ''committed'' [(''changed'', c)]) = ''committed''"
  "record_state (journal_line m ''recovery_required'' [(''errors'', c)]) = ''recovery_required''"
  "record_state (journal_line m ''commit_started'' (commit_payload env w ps)) = ''commit_started''"
  by (simp_all add: journal_line_state commit_payload_def)

lemma apply_inv_disk: "mc_work m' = mc_work m \<Longrightarrow> mc_recovery m' = mc_recovery m \<Longrightarrow> apply_inv t P W0 as m' = apply_inv t P W0 as m"
  by (simp add: apply_inv_def secured_def backups_are_def)

section \<open>The commit\<close>

lemma content_remove_first: "content (remove_first k t) p = Some n \<Longrightarrow> content t p = Some n"
proof -
  have "map_of (filter (\<lambda>(p, n). p \<notin> S) t) p = (if p \<in> S then None else map_of t p)" for S
    by (induction t) auto
  then show "content (remove_first k t) p = Some n \<Longrightarrow> content t p = Some n"
    by (auto simp: content_def node_at_def remove_first_def split: option.splits if_splits)
qed

lemma discard_overlay_effect:
  assumes "discard_overlay m = (m', r)"
  shows "mc_work m' = mc_work m" "mc_journal m' = mc_journal m" "set (mc_fates m') \<subseteq> set (mc_fates m)"
    and "content (mc_recovery m') p = Some n \<Longrightarrow> content (mc_recovery m) p = Some n"
proof -
  have "mc_work m' = mc_work m \<and> mc_journal m' = mc_journal m \<and> set (mc_fates m') \<subseteq> set (mc_fates m) \<and>
    (content (mc_recovery m') p = Some n \<longrightarrow> content (mc_recovery m) p = Some n)"
  proof (cases "mc_container m")
    case False
    then show ?thesis using assms by (simp add: discard_overlay_def)
  next
    case True
    then have "attempt (\<lambda>m n. case n of
          None \<Rightarrow> Inr (m\<lparr>mc_overlay := [], mc_recovery := [], mc_container := False\<rparr>)
        | Some k \<Rightarrow> Inr (m\<lparr>mc_recovery := remove_first k (mc_recovery m),
                         mc_overlay := remove_first (k - length (mc_recovery m)) (mc_overlay m)\<rparr>)) m = (m', r)"
      using assms by (simp add: discard_overlay_def)
    then show ?thesis
    proof (cases rule: attempt_cases)
      case refused
      then show ?thesis by (simp add: same_diskD)
    next
      case (whole m0)
      then show ?thesis using same_diskD[OF whole(1)] by (auto simp: content_def node_at_def split: if_splits)
    next
      case (part m0 k)
      then have "m' = m0\<lparr>mc_recovery := remove_first k (mc_recovery m0),
          mc_overlay := remove_first (k - length (mc_recovery m0)) (mc_overlay m0)\<rparr>" by simp
      then show ?thesis using same_diskD[OF part(1)] content_remove_first[of k "mc_recovery m" p n] by simp
    qed
  qed
  then show "mc_work m' = mc_work m" "mc_journal m' = mc_journal m" "set (mc_fates m') \<subseteq> set (mc_fates m)"
    "content (mc_recovery m') p = Some n \<Longrightarrow> content (mc_recovery m) p = Some n" by blast+
qed

lemma discard_overlay_error: "discard_overlay m = (m', Raised e) \<Longrightarrow> e = io_error"
  by (auto simp: discard_overlay_def attempt_def split: if_splits prod.splits fate.splits)

lemma restore_applied_effect:
  assumes "restore_applied tx applied err m = (m', tx', r)"
    and "apply_inv t P W0 applied m" "distinct (map rp_target applied)" "rp_target ` set applied \<subseteq> P" "temporary t ` P \<inter> P = {}"
  shows "\<exists>left. apply_inv t P W0 left m' \<and> rp_target ` set left \<subseteq> P"
    and "r = Raised e \<Longrightarrow> e \<noteq> recovery_required_error \<Longrightarrow> apply_inv t P W0 [] m'"
    and "r \<noteq> Done x"
    and "\<exists>js. mc_journal m' = mc_journal m @ js \<and> record_state ` set js \<subseteq> {''recovery_required''}"
    and "tx' = tx \<or> tx' = tx\<lparr>tx_recovery_required := True\<rparr>"
proof -
  obtain m1 r1 where un: "undo_all (rev applied) [] m = (m1, r1)" by fastforce
  have inv: "apply_inv t P W0 (rev applied @ []) m" using assms(2) apply_inv_cong[of "rev applied" applied] by simp
  have u: "quiet m m1 \<and> (\<exists>left. apply_inv t P W0 left m1 \<and> rp_target ` set left \<subseteq> rp_target ` set (rev applied @ [])) \<and>
    (\<forall>e. r1 \<noteq> Raised e) \<and>
    (\<forall>es. r1 = Done es \<longrightarrow> (\<exists>more. es = [] @ more \<and> (more = [] \<longrightarrow> apply_inv t P W0 [] m1)))"
    by (rule undo_all_effect[OF un inv]) (use assms(3,4,5) in \<open>auto simp: rev_map[symmetric]\<close>)
  then obtain left where left: "apply_inv t P W0 left m1" "rp_target ` set left \<subseteq> P" using assms(4) by auto
  have jr: "mc_journal m1 = mc_journal m" using u by (simp add: quiet_def)
  have main: "(\<exists>left. apply_inv t P W0 left m' \<and> rp_target ` set left \<subseteq> P) \<and>
    (r = Raised e \<longrightarrow> e \<noteq> recovery_required_error \<longrightarrow> apply_inv t P W0 [] m') \<and> r \<noteq> Done x \<and>
    (mc_journal m' = mc_journal m \<or> (\<exists>x. mc_journal m' = mc_journal m @ [x] \<and> record_state x = ''recovery_required'')) \<and>
    (tx' = tx \<or> tx' = tx\<lparr>tx_recovery_required := True\<rparr>)"
  proof (cases r1)
    case (Done es)
    show ?thesis
    proof (cases "es = []")
      case True
      then have "m' = m1" "tx' = tx" "r = Raised err" using assms(1) un Done by (simp_all add: restore_applied_def)
      then show ?thesis using left jr u Done True by auto
    next
      case False
      obtain m2 r2 where ap: "append_record ''recovery_required'' [(''errors'', PList (map PStr es))] m1 = (m2, r2)" by fastforce
      note a = append_record_effect[OF ap]
      have eq: "(m', tx', r) = (case (m2, r2) of
          (m2, Crashed) \<Rightarrow> (m2, tx\<lparr>tx_recovery_required := True\<rparr>, Crashed)
        | (m2, _) \<Rightarrow> (m2, tx\<lparr>tx_recovery_required := True\<rparr>, Raised recovery_required_error))"
        using assms(1) by (simp only: restore_applied_def un Done ap[symmetric] prod.case run.case False if_False)
      have res: "m' = m2 \<and> tx' = tx\<lparr>tx_recovery_required := True\<rparr> \<and> (r = Crashed \<or> r = Raised recovery_required_error)"
        using eq by (cases r2) simp_all
      have "apply_inv t P W0 left m2" using left(1) apply_inv_disk[OF a(1,3)] by blast
      moreover have "mc_journal m2 = mc_journal m \<or> (\<exists>x. mc_journal m2 = mc_journal m @ [x] \<and> record_state x = ''recovery_required'')"
        using a(6,7) jr by (cases "r2 = Done ()") auto
      ultimately show ?thesis using res left(2) by blast
    qed
  next
    case (Raised e)
    then show ?thesis using u by blast
  next
    case Crashed
    then have "m' = m1" "tx' = tx" "r = Crashed" using assms(1) un by (simp_all add: restore_applied_def)
    then show ?thesis using left jr by auto
  qed
  show "\<exists>left. apply_inv t P W0 left m' \<and> rp_target ` set left \<subseteq> P"
    "r = Raised e \<Longrightarrow> e \<noteq> recovery_required_error \<Longrightarrow> apply_inv t P W0 [] m'" "r \<noteq> Done x"
    "tx' = tx \<or> tx' = tx\<lparr>tx_recovery_required := True\<rparr>"
    using main by blast+
  show "\<exists>js. mc_journal m' = mc_journal m @ js \<and> record_state ` set js \<subseteq> {''recovery_required''}"
    using conjunct1[OF conjunct2[OF conjunct2[OF conjunct2[OF main]]]] by (elim disjE exE) (auto intro: exI[of _ "[]"])
qed

lemma recorded_since_append:
  "mc_journal m' = mc_journal m @ js \<Longrightarrow> recorded_since m s m' \<longleftrightarrow> s \<in> record_state ` set js"
  by (simp add: recorded_since_def)

text \<open>How a run of the replacements can end: nothing was recorded and the invariant still
  describes the disk, or the commit is recorded and the new files are in place.\<close>

definition all_new :: "rel set \<Rightarrow> (rel \<Rightarrow> node option) \<Rightarrow> tree \<Rightarrow> machine \<Rightarrow> string \<Rightarrow> machine \<Rightarrow> bool" where
  "all_new P W0 overlay m t m' \<longleftrightarrow> recorded_since m ''committed'' m' \<and>
     (\<forall>q. q \<notin> temporary t ` P \<longrightarrow> content (mc_work m') q = (if q \<in> P then content overlay q else W0 q))"

text \<open>The part of the invariant that a dead process leaves to the recovery: \<open>T\<close> are reserved names,
  \<open>P\<close> the changed paths.\<close>

definition disk_inv :: "rel set \<Rightarrow> rel set \<Rightarrow> (rel \<Rightarrow> node option) \<Rightarrow> machine \<Rightarrow> bool" where
  "disk_inv T P W0 m \<longleftrightarrow> (\<forall>q. q \<notin> P \<longrightarrow> q \<notin> T \<longrightarrow> content (mc_work m) q = W0 q) \<and>
     (\<forall>q l. q \<in> P \<longrightarrow> q \<notin> T \<longrightarrow> W0 q = Some (Symlink l) \<longrightarrow> content (mc_work m) q = W0 q)"

lemma disk_inv_mono: "disk_inv T P W0 m \<Longrightarrow> T \<subseteq> T' \<Longrightarrow> disk_inv T' P W0 m"
  unfolding disk_inv_def by blast

lemma apply_inv_disk_inv:
  assumes "apply_inv t P W0 left m" "rp_target ` set left \<subseteq> P"
  shows "disk_inv (temporary t ` P) P W0 m \<and> backups_are prefix W0 m"
proof -
  have "q \<notin> rp_target ` set left" if "W0 q = Some (Symlink l)" for q l
    using assms(1) that by (auto simp: apply_inv_def secured_def split: if_splits)
  then have "content (mc_work m) q = W0 q" if "q \<in> P" "q \<notin> temporary t ` P" "W0 q = Some (Symlink l)" for q l
    using that assms(1) unfolding apply_inv_def by blast
  moreover have "content (mc_work m) q = W0 q" if "q \<notin> P" "q \<notin> temporary t ` P" for q
    using that assms unfolding apply_inv_def by blast
  moreover have "backups_are prefix W0 m" using assms(1) by (simp add: apply_inv_def backups_are_def)
  ultimately show ?thesis by (simp add: disk_inv_def)
qed

lemma apply_inv_restored: "apply_inv t P W0 [] m \<Longrightarrow> q \<notin> temporary t ` P \<Longrightarrow> content (mc_work m) q = W0 q"
  by (simp add: apply_inv_def)

definition undone :: "string \<Rightarrow> rel set \<Rightarrow> (rel \<Rightarrow> node option) \<Rightarrow> machine \<Rightarrow> machine \<Rightarrow> bool" where
  "undone t P W0 m m' \<longleftrightarrow> disk_inv (temporary t ` P) P W0 m' \<and> backups_are prefix W0 m' \<and>
     (recorded_since m ''committed'' m' \<longrightarrow> Unacked \<in> set (mc_fates m))"

lemma replace_files_effect:
  assumes rf: "replace_files tx ps m = (m', tx', r)"
    and inv: "apply_inv t P W0 [] m" and tP: "t = tx_turn tx" "P = set ps" "temporary t ` P \<inter> P = {}" "distinct ps"
    and ov: "\<And>p l. content (mc_overlay m) p \<noteq> Some (Symlink l)"
  shows "(all_new P W0 (mc_overlay m) m t m' \<and> r \<noteq> Raised recovery_required_error \<or>
      undone t P W0 m m' \<and> (\<forall>cs. r \<noteq> Done cs) \<and> (\<forall>e. r = Raised e \<longrightarrow> e \<noteq> recovery_required_error \<longrightarrow>
        (\<forall>q. q \<notin> temporary t ` P \<longrightarrow> content (mc_work m') q = W0 q)))
     \<and> (\<forall>cs. r = Done cs \<longrightarrow> cs = ps) \<and> (\<exists>js. mc_journal m' = mc_journal m @ js \<and> record_state ` set js \<subseteq> {''committed'', ''recovery_required''})"
proof -
  obtain m1 applied r1 where ap: "apply_changes (tx_turn tx) ps [] m = (m1, applied, r1)"
    using prod_cases3 by blast
  have e: "quiet m m1 \<and> apply_inv t P W0 applied m1 \<and> set (map rp_target applied) \<subseteq> set (map rp_target []) \<union> set ps \<and>
      (r1 = Done () \<longrightarrow> (\<forall>p\<in>set ps. content (mc_work m1) p = content (mc_overlay m) p)) \<and>
      (\<forall>q. q \<notin> set ps \<longrightarrow> q \<notin> temporary t ` P \<longrightarrow> content (mc_work m1) q = content (mc_work m) q)"
    using apply_changes_effect[OF ap[folded tP(1)] inv] tP ov by auto
  obtain k where "map rp_target applied = take k ps" using apply_changes_targets[OF ap] by auto
  then have dist: "distinct (map rp_target applied)" using tP(4) by simp
  have tg: "rp_target ` set applied \<subseteq> P" using e tP(2) by auto
  have jr1: "mc_journal m1 = mc_journal m" and f1: "set (mc_fates m1) \<subseteq> set (mc_fates m)" using e by (auto simp: quiet_def)
  have W: "q \<notin> temporary t ` P \<Longrightarrow> content (mc_work m) q = W0 q" for q using inv by (simp add: apply_inv_def)
  note restore = restore_applied_effect[where t = t and P = P and ?W0.0 = W0]
  show ?thesis
  proof (cases r1)
    case Crashed
    then have res: "m' = m1" "r = Crashed" using rf ap by (simp_all add: replace_files_def)
    have "undone t P W0 m m'" using e tg jr1 res apply_inv_disk_inv[of t P W0 applied m1] by (auto simp: undone_def recorded_since_def)
    moreover have "\<exists>js. mc_journal m' = mc_journal m @ js \<and> record_state ` set js \<subseteq> {''committed'', ''recovery_required''}"
      using res jr1 by (auto intro: exI[of _ "[]"])
    ultimately show ?thesis using res by blast
  next
    case (Raised err)
    then have rs: "restore_applied tx applied err m1 = (m', tx', r)" using rf ap by (simp add: replace_files_def)
    note ra = restore[OF rs conjunct1[OF conjunct2[OF e]] dist tg tP(3)]
    obtain js where js: "mc_journal m' = mc_journal m @ js" "record_state ` set js \<subseteq> {''recovery_required''}"
      using ra(4) jr1 by auto
    have "\<not> recorded_since m ''committed'' m'" using js by (auto simp: recorded_since_append)
    then have "undone t P W0 m m'" using ra(1) by (auto simp: undone_def dest: apply_inv_disk_inv)
    moreover have "\<exists>js. mc_journal m' = mc_journal m @ js \<and> record_state ` set js \<subseteq> {''committed'', ''recovery_required''}" using js by auto
    moreover have "\<forall>e. r = Raised e \<longrightarrow> e \<noteq> recovery_required_error \<longrightarrow>
        (\<forall>q. q \<notin> temporary t ` P \<longrightarrow> content (mc_work m') q = W0 q)"
      using ra(2) apply_inv_restored by blast
    ultimately show ?thesis using ra(3) by simp
  next
    case (Done u)
    obtain m2 r2 where ar: "append_record ''committed'' [(''changed'', PList (map PStr ps))] m1 = (m2, r2)" by fastforce
    note a = append_record_effect[OF ar]
    define line where "line = journal_line m1 ''committed'' [(''changed'', PList (map PStr ps))]"
    show ?thesis
    proof (cases r2)
      case Crashed
      then have res: "m' = m2" "r = Crashed" using rf ap Done ar by (simp_all add: replace_files_def)
      have i2: "apply_inv t P W0 applied m2" using apply_inv_disk[OF a(1,3)] e by blast
      obtain js where js: "mc_journal m2 = mc_journal m @ js" "js = [] \<or> js = [line] \<and> Unacked \<in> set (mc_fates m)"
        using a(7) Crashed jr1 f1 by (auto simp: line_def)
      have "undone t P W0 m m'" using apply_inv_disk_inv[OF i2 tg] js res by (auto simp: undone_def recorded_since_append)
      moreover have "record_state ` set js \<subseteq> {''committed'', ''recovery_required''}" using js(2) by (auto simp: line_def)
      ultimately show ?thesis using res js(1) by auto
    next
      case (Raised err)
      then have rs: "restore_applied tx applied err m2 = (m', tx', r)" using rf ap Done ar by (simp add: replace_files_def)
      have i2: "apply_inv t P W0 applied m2" using apply_inv_disk[OF a(1,3)] e by blast
      note ra = restore[OF rs i2 dist tg tP(3)]
      obtain js where js: "mc_journal m2 = mc_journal m @ js" "js = [] \<or> js = [line] \<and> Unacked \<in> set (mc_fates m)"
        using a(7) Raised jr1 f1 by (auto simp: line_def)
      obtain ks where ks: "mc_journal m' = mc_journal m2 @ ks" "record_state ` set ks \<subseteq> {''recovery_required''}"
        using ra(4) by auto
      have all: "mc_journal m' = mc_journal m @ js @ ks" using js ks by simp
      have "undone t P W0 m m'"
        using ra(1) js(2) ks(2) by (auto simp: undone_def recorded_since_append[OF all] dest: apply_inv_disk_inv)
      moreover have "record_state ` set (js @ ks) \<subseteq> {''committed'', ''recovery_required''}" using js(2) ks(2) by (auto simp: line_def)
      moreover have "\<forall>e. r = Raised e \<longrightarrow> e \<noteq> recovery_required_error \<longrightarrow>
          (\<forall>q. q \<notin> temporary t ` P \<longrightarrow> content (mc_work m') q = W0 q)"
        using ra(2) apply_inv_restored by blast
      ultimately show ?thesis using ra(3) all by auto
    next
      case done2: (Done u')
      obtain m3 r3 where d: "discard_overlay m2 = (m3, r3)" by fastforce
      note de = discard_overlay_effect[OF d]
      have eq: "replace_files tx ps m = (case (m3, r3) of
               (m3, Done _) \<Rightarrow> (m3, tx\<lparr>tx_closed := True\<rparr>, Done ps)
             | (m3, Raised e) \<Rightarrow> (m3, tx\<lparr>tx_closed := True\<rparr>, Raised e)
             | (m3, Crashed) \<Rightarrow> (m3, tx\<lparr>tx_closed := True\<rparr>, Crashed))"
        by (simp only: replace_files_def ap ar Done done2 d prod.case run.case)
      have res: "m' = m3 \<and> (\<forall>cs. r = Done cs \<longrightarrow> cs = ps) \<and>
          (r = Raised recovery_required_error \<longrightarrow> r3 = Raised recovery_required_error)"
        using rf[unfolded eq] by (cases r3) auto
      have jr: "mc_journal m' = mc_journal m @ [line]" using a(6) done2 jr1 res de(2) by (simp add: line_def)
      have "all_new P W0 (mc_overlay m) m t m'"
        unfolding all_new_def
      proof (intro conjI allI impI)
        show "recorded_since m ''committed'' m'" using jr by (simp add: recorded_since_append line_def)
        fix q assume q: "q \<notin> temporary t ` P"
        have "content (mc_work m') q = content (mc_work m1) q" using res de(1) a(1) by simp
        then show "content (mc_work m') q = (if q \<in> P then content (mc_overlay m) q else W0 q)"
          using e Done tP(2) q W[OF q] by auto
      qed
      moreover have "r \<noteq> Raised recovery_required_error"
        using res d discard_overlay_error[of m2 m3] by (auto simp: io_error_def recovery_required_error_def)
      moreover have "\<exists>js. mc_journal m' = mc_journal m @ js \<and> record_state ` set js \<subseteq> {''committed'', ''recovery_required''}"
        using jr by (auto simp: line_def)
      ultimately show ?thesis using res by blast
    qed
  qed
qed

definition planned :: "tx_env \<Rightarrow> transaction \<Rightarrow> machine \<Rightarrow> rel list" where
  "planned env tx m = (case changed_paths (te_digest env) tx (mc_overlay m) of Inr ps \<Rightarrow> ps | Inl _ \<Rightarrow> [])"

text \<open>The names commit may use for a copy in progress.\<close>

definition temporaries :: "tx_env \<Rightarrow> transaction \<Rightarrow> machine \<Rightarrow> rel set" where
  "temporaries env tx m = temporary (tx_turn tx) ` set (planned env tx m)"

lemma changed_paths_Inr:
  assumes "changed_paths digest tx ov = Inr ps"
  shows "distinct ps" "content ov p \<noteq> Some (Symlink l)" "list_all (write_allowed tx) ps"
proof -
  show "distinct ps" "list_all (write_allowed tx) ps"
    using assms by (auto simp: changed_paths_def Let_def split: if_splits)
  have "\<forall>q n. (q, n) \<in> set ov \<longrightarrow> \<not> is_link n"
    using assms by (auto simp: changed_paths_def Let_def list_ex_iff split: if_splits)
  then show "content ov p \<noteq> Some (Symlink l)" by (rule content_no_link)
qed

lemma assert_baseline_no_link:
  assumes "assert_baseline env tx work ps = Inr u" and "p \<in> set ps"
  shows "content work p \<noteq> Some (Symlink l)"
proof -
  have each: "check_each f xs = Inr v \<Longrightarrow> x \<in> set xs \<Longrightarrow> f x = Inr ()" for f :: "'a \<Rightarrow> unit py_result" and xs x v
    by (induction xs) (auto simp: bind_res_Inr_iff)
  have "path_kind work p \<noteq> ''symlink''"
    using assms by (auto simp: assert_baseline_def bind_res_Inr_iff assert_unchanged_def dest!: each[of _ _ _ p])
  then show ?thesis by (auto simp: path_kind_def content_def split: option.splits node.splits)
qed

lemma make_recovery_root_effect:
  assumes "make_recovery_root m = (m', r)" shows "same_disk m m'"
  using assms[unfolded make_recovery_root_def] by (cases rule: attempt_cases) simp_all

lemma commit_effect:
  assumes cm: "commit env tx m = (m', tx', r)"
    and free: "temporaries env tx m \<inter> set (planned env tx m) = {}"
    and fresh: "\<And>p. content (mc_recovery m) p = None"
  defines "P \<equiv> set (planned env tx m)" and "W0 \<equiv> content (mc_work m)" and "t \<equiv> tx_turn tx"
  shows "(all_new P W0 (mc_overlay m) m t m' \<and> r \<noteq> Raised recovery_required_error \<or>
      undone t P W0 m m' \<and> (\<forall>cs. r \<noteq> Done cs) \<and> (\<forall>e. r = Raised e \<longrightarrow> e \<noteq> recovery_required_error \<longrightarrow>
        (\<forall>q. q \<notin> temporary t ` P \<longrightarrow> content (mc_work m') q = W0 q)))
     \<and> (\<forall>cs. r = Done cs \<longrightarrow> cs = planned env tx m \<and> assert_baseline env tx (mc_work m) cs = Inr ())
     \<and> (\<exists>js. mc_journal m' = mc_journal m @ js \<and>
        record_state ` set js \<subseteq> {''commit_started'', ''committed'', ''recovery_required''} \<and> (\<forall>r\<in>set js. record_state r = ''commit_started'' \<longrightarrow>
          (\<exists>n. r = record_line n ''commit_started'' (redact_payload (mc_redact m) (commit_payload env (mc_work m) (planned env tx m))))))
     \<and> (\<not> recorded_since m ''commit_started'' m' \<longrightarrow> (\<forall>q. content (mc_work m') q = W0 q))"
  (is "?main \<and> ?done \<and> ?journal \<and> ?untouched")
proof -
  have quietly: "undone t P W0 m m0" "\<forall>q. content (mc_work m0) q = W0 q"
    if "mc_work m0 = mc_work m" "mc_recovery m0 = mc_recovery m" "\<not> recorded_since m ''committed'' m0" for m0
    using that fresh by (simp_all add: undone_def disk_inv_def backups_are_def W0_def)
  show ?thesis
  proof (cases "tx_closed tx \<or> (\<exists>e. changed_paths (te_digest env) tx (mc_overlay m) = Inl e)")
    case True
    then have "m' = m \<and> (\<exists>e. r = Raised e)" using cm by (cases "tx_closed tx") (auto simp: commit_def)
    then show ?thesis using quietly[of m] by (auto simp: recorded_since_def)
  next
    case False
    then obtain ps where ps: "changed_paths (te_digest env) tx (mc_overlay m) = Inr ps"
      by (cases "changed_paths (te_digest env) tx (mc_overlay m)") auto
    then have pl: "planned env tx m = ps" by (simp add: planned_def)
    obtain m1 r1 where ap: "append_record ''commit_started'' (commit_payload env (mc_work m) ps) m = (m1, r1)" by fastforce
    note a = append_record_effect[OF ap]
    define line where "line = journal_line m ''commit_started'' (commit_payload env (mc_work m) ps)"
    obtain js where js: "mc_journal m1 = mc_journal m @ js" "js = [] \<or> js = [line]" using a(6,7)
      by (cases "r1 = Done ()") (auto simp: line_def)
    have ls: "record_state line = ''commit_started''" by (simp add: line_def)
    have le: "line = record_line (mc_sequence m) ''commit_started''
        (redact_payload (mc_redact m) (commit_payload env (mc_work m) (planned env tx m)))"
      by (simp add: line_def journal_line_def pl)
    have jst: "\<not> recorded_since m ''committed'' m1" "\<forall>r\<in>set js. record_state r = ''commit_started'' \<longrightarrow>
          (\<exists>n. r = record_line n ''commit_started'' (redact_payload (mc_redact m) (commit_payload env (mc_work m) (planned env tx m))))"
      "record_state ` set js \<subseteq> {''commit_started'', ''committed'', ''recovery_required''}"
      using js(2) ls le by (auto simp: recorded_since_append[OF js(1)])
    show ?thesis
    proof (cases "r1 = Done () \<and> assert_baseline env tx (mc_work m) ps = Inr ()")
      case no: False
      then have "m' = m1 \<and> (\<forall>cs. r \<noteq> Done cs)"
        using cm False ps ap a(1) by (cases r1) (auto simp: commit_def split: sum.splits)
      then show ?thesis using quietly[OF a(1,3) jst(1)] js(1) jst(2,3) by auto
    next
      case yes: True
      obtain m2 r2 where mk: "make_recovery_root m1 = (m2, r2)" by fastforce
      note k = same_diskD[OF make_recovery_root_effect[OF mk]]
      have wr2: "mc_work m2 = mc_work m" "mc_recovery m2 = mc_recovery m" "mc_overlay m2 = mc_overlay m"
        "mc_journal m2 = mc_journal m @ js" "set (mc_fates m2) \<subseteq> set (mc_fates m)"
        using k a js by auto
      show ?thesis
      proof (cases "r2 = Done ()")
        case no2: False
        then have "m' = m2 \<and> (\<forall>cs. r \<noteq> Done cs)"
          using cm False ps ap yes a(1) mk by (cases r2) (auto simp: commit_def)
        moreover have "\<not> recorded_since m ''committed'' m2" using jst(1) js wr2(4) by (simp add: recorded_since_append)
        ultimately show ?thesis using quietly[OF wr2(1,2)] wr2(4) jst(2,3) by auto
      next
        case yes2: True
        then have rf: "replace_files tx ps m2 = (m', tx', r)"
          using cm False ps ap yes a(1) mk by (auto simp: commit_def)
        have inv: "apply_inv t P W0 [] m2"
          using wr2 fresh assert_baseline_no_link[of env tx "mc_work m" ps] yes
          by (auto simp: apply_inv_def backups_are_def W0_def P_def pl)
        have e: "(all_new P W0 (mc_overlay m) m2 t m' \<and> r \<noteq> Raised recovery_required_error \<or>
            undone t P W0 m2 m' \<and> (\<forall>cs. r \<noteq> Done cs) \<and> (\<forall>e. r = Raised e \<longrightarrow> e \<noteq> recovery_required_error \<longrightarrow>
              (\<forall>q. q \<notin> temporary t ` P \<longrightarrow> content (mc_work m') q = W0 q)))
           \<and> (\<forall>cs. r = Done cs \<longrightarrow> cs = ps) \<and> (\<exists>js. mc_journal m' = mc_journal m2 @ js \<and> record_state ` set js \<subseteq> {''committed'', ''recovery_required''})"
        proof -
          have "t = tx_turn tx" "P = set ps" "temporary t ` P \<inter> P = {}"
            using free by (simp_all add: P_def pl temporaries_def t_def)
          from replace_files_effect[OF rf inv this changed_paths_Inr(1)[OF ps] changed_paths_Inr(2)[OF ps, folded wr2(3)]]
          show ?thesis unfolding wr2(3) .
        qed
        then obtain ks where ks: "mc_journal m' = mc_journal m2 @ ks" "record_state ` set ks \<subseteq> {''committed'', ''recovery_required''}" by blast
        have all: "mc_journal m' = mc_journal m @ js @ ks" using ks wr2(4) by simp
        have rec: "recorded_since m ''committed'' m' \<longleftrightarrow> recorded_since m2 ''committed'' m'"
          using js(2) by (auto simp: recorded_since_append[OF all] recorded_since_append[OF ks(1)] line_def)
        have ?main using e rec wr2(5) by (auto simp: all_new_def undone_def)
        moreover have ?done using e yes pl by auto
        moreover have ?journal
        proof (intro exI[of _ "js @ ks"] conjI all ballI impI)
          show "record_state ` set (js @ ks) \<subseteq> {''commit_started'', ''committed'', ''recovery_required''}"
            using jst(3) ks(2) by auto
          fix r assume "r \<in> set (js @ ks)" "record_state r = ''commit_started''"
          then show "\<exists>n. r = record_line n ''commit_started'' (redact_payload (mc_redact m) (commit_payload env (mc_work m) (planned env tx m)))"
            using jst(2) ks(2) unfolding image_iff by fastforce
        qed
        moreover have "js = [line]" using js(2) yes a(6) js(1) by (auto simp: line_def)
        then have ?untouched using all by (simp add: recorded_since_append[OF all] line_def)
        ultimately show ?thesis by blast
      qed
    qed
  qed
qed

section \<open>Properties\<close>



text \<open>Only declared paths. Whatever happens to a commit, even when the process dies in it, a
  path outside the declared write scopes keeps its content, apart from copies in progress.\<close>

theorem commit_stays_in_scope:
  assumes "commit env tx m = (m', tx', r)" and "\<And>p. content (mc_recovery m) p = None"
    and "temporaries env tx m \<inter> set (planned env tx m) = {}"
    and "\<not> write_allowed tx p" and "p \<notin> temporaries env tx m"
  shows "content (mc_work m') p = content (mc_work m) p"
proof -
  have "p \<notin> set (planned env tx m)"
  proof (cases "changed_paths (te_digest env) tx (mc_overlay m)")
    case (Inr ps)
    then show ?thesis using changed_paths_Inr(3)[OF Inr] assms(4) by (auto simp: planned_def list_all_iff)
  qed (simp add: planned_def)
  then show ?thesis
    using commit_effect[OF assms(1,3,2)] assms(5) by (auto simp: all_new_def undone_def disk_inv_def temporaries_def)
qed






definition demo_env :: tx_env where
  "demo_env = \<lparr>te_digest = id, te_dir_stat = (\<lambda>_. None), te_container = ''/s/overlays/polaris-turn-1'', te_workspace = ''/w'', te_journal_workspace = ''/w''\<rparr>"

text \<open>A workspace with two files and a transaction that rewrites both.\<close>

definition demo_machine :: "fate list \<Rightarrow> machine" where
  "demo_machine fates = \<lparr>mc_work = [(''a'', File ''old a''), (''b'', File ''old b''), (''c'', File ''c'')],
     mc_overlay = [(''a'', File ''new a''), (''b'', File ''new b'')], mc_recovery = [], mc_container = True,
     mc_journal = [record_line 0 ''transaction_opened''
       [(''overlay'', PStr (te_container demo_env)), (''workspace'', PStr (te_workspace demo_env))]],
     mc_torn = False, mc_sequence = 1, mc_fates = fates, mc_redact = id\<rparr>"

definition demo_tx :: transaction where
  "demo_tx = \<lparr>tx_turn = ''t'', tx_closed = False, tx_recovery_required = False,
     tx_baseline = [(''a'', Some ''old a''), (''b'', Some ''old b'')],
     tx_baseline_kinds = [(''a'', ''file''), (''b'', ''file'')], tx_subtree_members = [],
     tx_write_scopes = [(''a'', False), (''b'', False)], tx_declared_scopes = [], tx_query_reads = [], tx_query_dirs = []\<rparr>"

lemma demo_planned: "planned demo_env demo_tx (demo_machine fates) = [''a'', ''b'']"
  by code_simp

lemma demo_temporaries: "temporaries demo_env demo_tx (demo_machine fates) = {''.a.t.tmp'', ''.b.t.tmp''}"
  unfolding temporaries_def demo_planned by code_simp

lemma demo_fresh: "content (mc_recovery (demo_machine fates)) p = None"
  by (simp add: demo_machine_def content_def node_at_def)

lemma demo_free: "temporaries demo_env demo_tx (demo_machine fates) \<inter> set (planned demo_env demo_tx (demo_machine fates)) = {}"
  by (simp add: demo_temporaries demo_planned)




theorem commit_stays_in_scope_witness:
  "content (mc_work (fst (commit demo_env demo_tx (demo_machine [Works, Works, Works, Works, Works, Works, Dies 3])))) ''c'' = Some (File ''c'')"
proof -
  let ?m = "demo_machine [Works, Works, Works, Works, Works, Works, Dies 3]"
  obtain m' tx' r where c: "commit demo_env demo_tx ?m = (m', tx', r)" using prod_cases3 by blast
  have "content (mc_work m') ''c'' = content (mc_work ?m) ''c''"
  proof (rule commit_stays_in_scope[OF c demo_fresh demo_free])
    show "\<not> write_allowed demo_tx ''c''" by code_simp
    show "''c'' \<notin> temporaries demo_env demo_tx ?m" by (simp add: demo_temporaries)
  qed
  then show ?thesis using c by (simp add: demo_machine_def content_def node_at_def)
qed




end
