(* ===== verification/Crash_Recovery.thy ===== *)
theory Crash_Recovery
  imports Commit_Atomicity Json
begin

text \<open>
  Recovery of an interrupted turn (\<^verbatim>\<open>agent_core/tools/transaction.py\<close>, class
  \<open>TurnExecutionJournal\<close>, and \<^verbatim>\<open>agent_core/recovery_paths.py\<close>): reading the journal, building the
  recovery plan, and applying it under the journal's lock. The journal is here the list of its
  records; how records become checksummed lines and back is the theory \<open>Turn_Journal\<close>.

  What is not modelled: other processes (the comparisons of fingerprints before and during the
  recovery always succeed), hard links, ownership and redirection of the state directories, and the
  check of the messages of a history that is written to a file.
\<close>

section \<open>States of a journal\<close>

datatype recovery_state =
    Discovered | Admitted | Authorized | Staged | Cleanup_required | Cleanup_complete
  | External_intent | External_outcome_committed | Turn_validated | History_ready | History_persisted
  | Transaction_opened | Commit_started | Committed | Recovery_required | Rolled_back
  | Recovery_actions_applied | Journal_closed
  | Indeterminate_external_effect | External_effect_history_missing

fun state_value :: "recovery_state \<Rightarrow> string" where
  "state_value Discovered = ''discovered''"
| "state_value Admitted = ''admitted''"
| "state_value Authorized = ''authorized''"
| "state_value Staged = ''staged''"
| "state_value Cleanup_required = ''cleanup_required''"
| "state_value Cleanup_complete = ''cleanup_complete''"
| "state_value External_intent = ''external_intent''"
| "state_value External_outcome_committed = ''external_outcome_committed''"
| "state_value Turn_validated = ''turn_validated''"
| "state_value History_ready = ''history_ready''"
| "state_value History_persisted = ''history_persisted''"
| "state_value Transaction_opened = ''transaction_opened''"
| "state_value Commit_started = ''commit_started''"
| "state_value Committed = ''committed''"
| "state_value Recovery_required = ''recovery_required''"
| "state_value Rolled_back = ''rolled_back''"
| "state_value Recovery_actions_applied = ''recovery_actions_applied''"
| "state_value Journal_closed = ''journal_closed''"
| "state_value Indeterminate_external_effect = ''indeterminate_external_effect''"
| "state_value External_effect_history_missing = ''external_effect_history_missing''"

definition terminal_states :: "string list" where
  "terminal_states = map state_value
     [History_persisted, Rolled_back, Journal_closed, Indeterminate_external_effect, External_effect_history_missing]"

section \<open>Paths a plan may touch\<close>

definition path_separator :: "char \<Rightarrow> bool" where
  "path_separator c \<longleftrightarrow> c = CHR ''/'' \<or> c = CHR 0x5C"

definition windows_device_path :: "string \<Rightarrow> bool" where
  "windows_device_path s = (case s of
     a # b # rest \<Rightarrow> path_separator a \<and> path_separator b \<and>
       (let run = takeWhile (\<lambda>c. \<not> path_separator c) rest in run \<noteq> [] \<and> length run < length rest)
   | _ \<Rightarrow> False)"

definition windows_reserved_name :: "string \<Rightarrow> bool" where
  "windows_reserved_name part \<longleftrightarrow> takeWhile (\<lambda>c. c \<noteq> CHR ''.'') (py_lower part) \<in>
     set ([''con'', ''prn'', ''aux'', ''nul'', ''clock$''] @
       concat (map (\<lambda>d. [''com'' @ [d], ''lpt'' @ [d]]) ''123456789''))"

text \<open>\<open>PurePosixPath.parts\<close> of a relative path, and \<open>as_posix\<close>.\<close>

definition posix_parts :: "string \<Rightarrow> string list" where
  "posix_parts s = filter (\<lambda>p. p \<noteq> [] \<and> p \<noteq> ''.'') (split_char (CHR ''/'') s)"

definition safe_relative :: "pyval \<Rightarrow> string option" where
  "safe_relative raw = (case raw of
     PStr s \<Rightarrow>
       (if s = [] \<or> s = ''.'' \<or> CHR 0x00 \<in> set s \<or> CHR 0x5C \<in> set s then None
        else if windows_device_path s then None
        else if startswith s ''/'' \<or> take 1 (drop 1 s) = '':'' then None
        else if list_ex (\<lambda>p. p = ''..'') (posix_parts s) then None
        else if list_ex windows_reserved_name (posix_parts s) then None
        else if list_ex (\<lambda>p. last p = CHR ''.'' \<or> last p = CHR '' '' \<or> list_ex (\<lambda>c. (of_char c :: nat) < 32) p) (posix_parts s)
        then None
        else if join_str ''/'' (posix_parts s) \<noteq> s \<or> CHR '':'' \<in> set s then None
        else Some s)
   | _ \<Rightarrow> None)"

text \<open>\<open>checked_path\<close>: no link and no file on the way.\<close>

fun check_components :: "tree \<Rightarrow> rel \<Rightarrow> rel list \<Rightarrow> unit py_result" where
  "check_components t p [] = Inr ()"
| "check_components t p (c # cs) = (case node_at t c of
     None \<Rightarrow> check_components t p cs
   | Some (Symlink _) \<Rightarrow> Inl (OSError ''recovery path contains a symbolic link or reparse point'')
   | Some Directory \<Rightarrow> check_components t p cs
   | Some (File _) \<Rightarrow> if c \<noteq> p then Inl (OSError ''recovery parent is not a directory'') else check_components t p cs)"

definition checked_path :: "tree \<Rightarrow> rel \<Rightarrow> unit py_result" where
  "checked_path t p = check_components t p (ancestors p @ [p])"

section \<open>The recovery plan\<close>

text \<open>
  The checks of absolute paths: what \<open>Path(value)\<close> denotes, what is wrong with an overlay path, and
  whether a path is the workspace; the session of the journal, the writer of the history (if there
  is one), and the random part of a temporary name.
\<close>

record recovery_env =
  re_path :: "string \<Rightarrow> string"
  re_overlay_error :: "string \<Rightarrow> string option"
  re_is_workspace :: "string \<Rightarrow> bool"
  re_session :: string
  re_history_writer :: "(pyval \<Rightarrow> bool) option"
  re_suffix :: "rel \<Rightarrow> string"

record turn_plan =
  pl_overlay :: "string option"
  pl_replacements :: "(rel \<times> bool) list"
  pl_completed :: "string option"

definition last_of :: "string \<Rightarrow> pydict list \<Rightarrow> pydict option" where
  "last_of state records = find (\<lambda>r. record_state r = state) (rev records)"

definition has_state :: "string \<Rightarrow> pydict list \<Rightarrow> bool" where
  "has_state state records = list_ex (\<lambda>r. record_state r = state) records"

definition checkpoint_valid :: "pydict \<Rightarrow> bool" where
  "checkpoint_valid r \<longleftrightarrow> dict_get r ''recovery_version'' PNone \<in> set [PInt 1, PBool True, PFloat ''1.0''] \<and>
     dict_get r ''outcome'' PNone \<in> set [PStr ''history_persisted'', PStr ''rolled_back'']"

definition overlay_values :: "pydict list \<Rightarrow> pyval list" where
  "overlay_values records = concat (map (\<lambda>r. case map_of r ''overlay'' of None \<Rightarrow> [] | Some v \<Rightarrow> [v]) records)"

definition text_value :: "pyval \<Rightarrow> bool" where
  "text_value v = (case v of PStr s \<Rightarrow> s \<noteq> [] | _ \<Rightarrow> False)"

fun text_of :: "pyval \<Rightarrow> string" where
  "text_of (PStr s) = s"
| "text_of _ = []"

definition plan_overlay :: "recovery_env \<Rightarrow> pydict list \<Rightarrow> string + string option" where
  "plan_overlay env records =
     (let values = overlay_values records
      in if \<not> list_all text_value values then Inl ''invalid_overlay_type''
         else (case map (re_path env \<circ> text_of) values of
            [] \<Rightarrow> Inr None
          | overlay # others \<Rightarrow>
              (if \<not> startswith overlay ''/'' then Inl ''overlay_outside_controlled_root''
               else if list_ex (\<lambda>v. v \<noteq> overlay) others then Inl ''overlay_changed''
               else (case re_overlay_error env overlay of Some e \<Rightarrow> Inl e | None \<Rightarrow> Inr (Some overlay)))))"

fun normalize_changed :: "pyval list \<Rightarrow> rel list \<Rightarrow> rel list option" where
  "normalize_changed [] seen = Some seen"
| "normalize_changed (v # vs) seen = (case safe_relative v of
     None \<Rightarrow> None | Some p \<Rightarrow> if p \<in> set seen then None else normalize_changed vs (seen @ [p]))"

fun plan_replacements :: "machine \<Rightarrow> bool \<Rightarrow> (rel \<Rightarrow> bool) \<Rightarrow> rel list \<Rightarrow> string + (rel \<times> bool) list" where
  "plan_replacements m committed existed [] = Inr []"
| "plan_replacements m committed existed (p # ps) =
     (if checked_path (mc_work m) p \<noteq> Inr () \<or> checked_path (mc_recovery m) p \<noteq> Inr () then Inl ''unsafe_recovery_state:OSError''
      else if path_kind (mc_work m) p = ''symlink'' then Inl ''workspace_symlink_escape''
      else if committed then plan_replacements m committed existed ps
      else if path_kind (mc_work m) p \<notin> set [''missing'', ''file''] then Inl ''unsafe_recovery_target''
      else if existed p \<and> path_kind (mc_recovery m) p \<noteq> ''file'' then Inl ''missing_or_unsafe_backup''
      else bind_res (plan_replacements m committed existed ps) (\<lambda>rs. Inr ((p, existed p) # rs)))"

definition existed_flags :: "pyval \<Rightarrow> (string \<times> bool) list option" where
  "existed_flags v = (case v of
     PDict d \<Rightarrow> if list_all (\<lambda>(k, b). case b of PBool _ \<Rightarrow> True | _ \<Rightarrow> False) d
                then Some (map (\<lambda>(k, b). (k, b = PBool True)) d) else None
   | _ \<Rightarrow> None)"

definition plan_commit :: "machine \<Rightarrow> bool \<Rightarrow> bool \<Rightarrow> pydict \<Rightarrow> string + (rel \<times> bool) list" where
  "plan_commit m committed has_transaction started =
     (if \<not> has_transaction then Inl ''commit_missing_transaction''
      else (case (dict_get started ''changed'' PNone, dict_get started ''existed'' PNone) of
        (PList changed, PDict existed) \<Rightarrow>
          (case normalize_changed changed [] of
             None \<Rightarrow> Inl ''unsafe_changed_path''
           | Some normalized \<Rightarrow>
               (case existed_flags (PDict existed) of
                  None \<Rightarrow> Inl ''invalid_existence_map''
                | Some flags \<Rightarrow>
                    (if set (map fst flags) \<noteq> set normalized then Inl ''invalid_existence_map''
                     else plan_replacements m committed (\<lambda>p. map_of flags p = Some True) normalized)))
      | _ \<Rightarrow> Inl ''invalid_commit_fields''))"

definition committed_paths_valid :: "pydict \<Rightarrow> bool" where
  "committed_paths_valid r = (case dict_get r ''changed'' PNone of
     PList xs \<Rightarrow> list_all (\<lambda>x. safe_relative x \<noteq> None) xs | _ \<Rightarrow> False)"

definition workspace_record :: "recovery_env \<Rightarrow> pydict \<Rightarrow> bool" where
  "workspace_record env r = (case dict_get r ''workspace'' PNone of PStr w \<Rightarrow> re_is_workspace env w | _ \<Rightarrow> False)"

definition recovery_plan :: "recovery_env \<Rightarrow> machine \<Rightarrow> pydict list \<Rightarrow> string + turn_plan" where
  "recovery_plan env m records =
     (let completion = last_of ''recovery_actions_applied'' records;
          opened = filter (\<lambda>r. record_state r = ''transaction_opened'') records;
          committed = completion \<noteq> None \<or> has_state ''committed'' records
      in if (case completion of None \<Rightarrow> False | Some r \<Rightarrow> \<not> checkpoint_valid r) then Inl ''invalid_recovery_checkpoint''
         else bind_res (plan_overlay env records) (\<lambda>overlay.
           if \<not> list_all (workspace_record env) opened then Inl ''workspace_owner_mismatch''
           else if opened \<noteq> [] \<and> overlay = None then Inl ''transaction_missing_overlay''
           else bind_res (case last_of ''commit_started'' records of
                 None \<Rightarrow> Inr []
               | Some c \<Rightarrow> plan_commit m committed (opened \<noteq> [] \<and> overlay \<noteq> None) c) (\<lambda>replacements.
             if (case last_of ''committed'' records of None \<Rightarrow> False | Some r \<Rightarrow> \<not> committed_paths_valid r)
             then Inl ''invalid_committed_paths''
             else Inr \<lparr>pl_overlay = overlay, pl_replacements = replacements,
                    pl_completed = map_option (\<lambda>r. text_of (dict_get r ''outcome'' PNone)) completion\<rparr>)))"

section \<open>Inspecting a journal\<close>

text \<open>The chain of sequence numbers stands for the chain of checksums of the file.\<close>

definition load_records :: "machine \<Rightarrow> string + pydict list" where
  "load_records m =
     (if mc_torn m \<or> mc_journal m = [] then Inl ''journal_truncated''
      else if map (\<lambda>r. dict_get r ''sequence'' PNone) (mc_journal m) \<noteq> map (\<lambda>i. PInt (int i)) [0..<length (mc_journal m)]
      then Inl ''invalid_sequence''
      else Inr (mc_journal m))"

definition integers :: "pyval list \<Rightarrow> int list" where
  "integers vs = concat (map (\<lambda>v. case v of PInt i \<Rightarrow> [i] | _ \<Rightarrow> []) vs)"

definition ordinals_of :: "string \<Rightarrow> pydict list \<Rightarrow> pyval list" where
  "ordinals_of state records = map (\<lambda>r. dict_get r ''ordinal'' PNone) (filter (\<lambda>r. record_state r = state) records)"

definition indeterminate :: "pydict list \<Rightarrow> bool" where
  "indeterminate records =
     list_ex (\<lambda>v. case v of PInt i \<Rightarrow> i \<notin> set (integers (ordinals_of ''external_outcome_committed'' records)) | _ \<Rightarrow> True)
       (ordinals_of ''external_intent'' records)"

definition history_payload :: "pydict list \<Rightarrow> pyval" where
  "history_payload records =
     (case filter py_truthy (map (\<lambda>r. dict_get r ''history_payload'' PNone) (rev records)) of [] \<Rightarrow> PNone | v # _ \<Rightarrow> v)"

text \<open>\<open>_reconcile_history_payload\<close>: tool results whose external effect is unknown are marked so.\<close>

definition int_like :: "pyval \<Rightarrow> int list" where
  "int_like v = (case v of PInt i \<Rightarrow> [i] | PBool b \<Rightarrow> [of_bool b] | _ \<Rightarrow> [])"

definition uncertain_ordinals :: "pydict list \<Rightarrow> int list" where
  "uncertain_ordinals records =
     filter (\<lambda>i. i \<notin> set (concat (map int_like (ordinals_of ''external_outcome_committed'' records))))
       (concat (map int_like (ordinals_of ''external_intent'' records)))"

definition reconcile_result :: "int list \<Rightarrow> nat \<Rightarrow> pyval \<Rightarrow> pyval py_result" where
  "reconcile_result uncertain index raw = (case raw of
     PDict d \<Rightarrow>
       (let meta = dict_get d ''metadata'' PNone;
            ordinal = (case meta of PDict md \<Rightarrow> dict_get md ''ordinal'' (PInt (int index)) | _ \<Rightarrow> PInt (int index))
        in case ordinal of
             PList _ \<Rightarrow> Inl (TypeError ''unhashable type'')
           | PDict _ \<Rightarrow> Inl (TypeError ''unhashable type'')
           | _ \<Rightarrow>
               (if \<not> list_ex (\<lambda>i. i \<in> set uncertain) (int_like ordinal) then Inr raw
                else (let updated = fold (\<lambda>(k, v) e. dict_put e k v)
                            [(''ok'', PBool False), (''error_type'', PStr ''IndeterminateExternalEffect''),
                             (''execution_status'', PStr ''indeterminate''), (''ordinal'', ordinal)]
                            (case meta of PDict md \<Rightarrow> md | _ \<Rightarrow> []);
                          name = (if py_truthy (dict_get d ''name'' PNone) then py_str (dict_get d ''name'' PNone) else ''tool'')
                      in Inr (PDict (dict_put (dict_put d ''content''
                           (PStr (name @ '': External operation may have completed; automatic replay was suppressed'')))
                           ''metadata'' (PDict updated))))))
   | _ \<Rightarrow> Inr raw)"

definition reconcile_history :: "pydict list \<Rightarrow> pydict \<Rightarrow> pydict py_result" where
  "reconcile_history records payload = (case dict_get payload ''tool_results'' PNone of
     PList results \<Rightarrow>
       bind_res (map_res (\<lambda>(i, raw). reconcile_result (uncertain_ordinals records) i raw) (enumerate 0 results)) (\<lambda>rs.
         Inr (dict_put (dict_put payload ''tool_results'' (PList rs)) ''complete'' (PBool True)))
   | _ \<Rightarrow> Inr payload)"

text \<open>\<open>_inspect_one\<close> without a history file: nothing to do, a reason to stop, or a plan together
  with the history that is still to be written.\<close>

datatype inspection = Finished | Blocked string | Plan turn_plan bool pyval

definition needs_history :: "turn_plan \<Rightarrow> pydict list \<Rightarrow> bool" where
  "needs_history pl records \<longleftrightarrow> pl_completed pl = None \<and>
     (has_state ''committed'' records \<or> has_state ''external_outcome_committed'' records)"

definition reconciled :: "pydict list \<Rightarrow> pyval py_result" where
  "reconciled records = (case history_payload records of
     PDict d \<Rightarrow> bind_res (reconcile_history records d) (\<lambda>d'. Inr (PDict d')) | v \<Rightarrow> Inr v)"

definition history_mismatch :: "recovery_env \<Rightarrow> pyval \<Rightarrow> string option" where
  "history_mismatch env payload = (case payload of
     PDict d \<Rightarrow>
       (if dict_get d ''session_id'' PNone \<notin> set [PNone, PStr (re_session env)] then Some ''history_session_mismatch''
        else if py_truthy (dict_get d ''transcript_path'' PNone) then Some ''history_target_mismatch''
        else None)
   | _ \<Rightarrow> None)"

definition inspect_journal :: "recovery_env \<Rightarrow> machine \<Rightarrow> inspection" where
  "inspect_journal env m = (case load_records m of
     Inl e \<Rightarrow> Blocked e
   | Inr records \<Rightarrow>
       (if record_state (last records) \<in> set terminal_states then Finished
        else (case recovery_plan env m records of
          Inl e \<Rightarrow> Blocked e
        | Inr pl \<Rightarrow>
            (if pl_completed pl = None \<and> indeterminate records then Blocked ''IndeterminateExternalEffect''
             else (case reconciled records of
               Inl e \<Rightarrow> Blocked ''unsafe_recovery_state:TypeError''
             | Inr payload \<Rightarrow>
                 (case (if needs_history pl records then history_mismatch env payload else None) of
                    Some e \<Rightarrow> Blocked e
                  | None \<Rightarrow> Plan pl (needs_history pl records) payload))))))"

section \<open>Applying the plan\<close>

definition recovery_temporary :: "recovery_env \<Rightarrow> rel \<Rightarrow> rel" where
  "recovery_temporary env p = sibling p (''.polaris-recovery-'' @ re_suffix env p)"

definition remove_if_there :: "rel \<Rightarrow> unit op" where
  "remove_if_there p m = (if node_at (mc_work m) p = None then (m, Done ()) else unlink_file Work p m)"

text \<open>\<open>try: f finally: g\<close>.\<close>

definition finally_do :: "unit op \<Rightarrow> unit op \<Rightarrow> unit op" where
  "finally_do f g m = (case f m of
     (m', Crashed) \<Rightarrow> (m', Crashed)
   | (m', r) \<Rightarrow> (case g m' of (m'', Done _) \<Rightarrow> (m'', r) | (m'', r') \<Rightarrow> (m'', r')))"

definition restore_file :: "recovery_env \<Rightarrow> rel \<Rightarrow> unit op" where
  "restore_file env p =
     (let t = recovery_temporary env p
      in then_do (make_parents Work p) (\<lambda>_.
         finally_do (then_do (copy_file Recovery p Work t) (\<lambda>_. move_file Work t Work p)) (remove_if_there t)))"

definition restore_one :: "recovery_env \<Rightarrow> rel \<times> bool \<Rightarrow> unit op" where
  "restore_one env r m =
     (if snd r then restore_file env (fst r) m
      else if exists_at (mc_work m) (fst r) then unlink_file Work (fst r) m
      else (m, Done ()))"

fun restore_all :: "recovery_env \<Rightarrow> (rel \<times> bool) list \<Rightarrow> unit op" where
  "restore_all env [] m = (m, Done ())"
| "restore_all env (r # rs) m = then_do (restore_one env r) (\<lambda>_. restore_all env rs) m"

text \<open>The last part: checkpoint, removal of the overlay, terminal record, and the \<open>journal_closed\<close>
  record of \<open>close\<close>, whose failure is ignored.\<close>

definition close_journal :: "unit op" where
  "close_journal m = (case append_record ''journal_closed'' [] m of
     (m', Crashed) \<Rightarrow> (m', Crashed) | (m', _) \<Rightarrow> (m', Done ()))"

definition conclude :: "turn_plan \<Rightarrow> string \<Rightarrow> string op" where
  "conclude pl outcome =
     then_do (if pl_completed pl = None
              then append_record ''recovery_actions_applied'' [(''recovery_version'', PInt 1), (''outcome'', PStr outcome)]
              else finish ()) (\<lambda>_.
     then_do (if pl_overlay pl \<noteq> None then discard_overlay else finish ()) (\<lambda>_.
     then_do (append_record outcome [(''recovery'', PBool True)]) (\<lambda>_.
     then_do close_journal (\<lambda>_. finish outcome))))"

definition audit :: "unit op" where
  "audit = attempt (\<lambda>m n. Inr m)"

text \<open>One journal of \<open>recover_all\<close>. The outcome is the reported status; a process that dies reports
  nothing. The journal is reopened with the next sequence number.\<close>

definition apply_plan :: "recovery_env \<Rightarrow> pydict list \<Rightarrow> turn_plan \<Rightarrow> bool \<Rightarrow> pyval \<Rightarrow> string op" where
  "apply_plan env records pl history payload =
     then_do (restore_all env (rev (pl_replacements pl))) (\<lambda>_.
       (case pl_completed pl of
          Some outcome \<Rightarrow> conclude pl outcome
        | None \<Rightarrow>
            (if history
             then (if (case re_history_writer env of None \<Rightarrow> False | Some w \<Rightarrow> w payload)
                   then conclude pl ''history_persisted''
                   else abort (OSError ''history writer did not persist the recovered round''))
             else if has_state ''external_intent'' records then finish ''IndeterminateExternalEffect''
             else conclude pl ''rolled_back'')))"

definition dict_value :: "pyval \<Rightarrow> bool" where
  "dict_value v = (case v of PDict _ \<Rightarrow> True | _ \<Rightarrow> False)"

definition recover :: "recovery_env \<Rightarrow> machine \<Rightarrow> machine \<times> string option" where
  "recover env m = (case inspect_journal env m of
     Finished \<Rightarrow> (m, None)
   | Blocked e \<Rightarrow> (m, Some e)
   | Plan pl history payload \<Rightarrow>
       (case audit m of
          (m1, Crashed) \<Rightarrow> (m1, None)
        | (m1, Raised _) \<Rightarrow> (m1, Some ''audit_failed'')
        | (m1, Done _) \<Rightarrow>
            (if history \<and> (re_history_writer env = None \<or> \<not> dict_value payload) then (m1, Some ''committed_history_pending'')
             else (case apply_plan env (mc_journal m) pl history payload (m1\<lparr>mc_sequence := length (mc_journal m1)\<rparr>) of
                     (m2, Done outcome) \<Rightarrow> (m2, Some outcome)
                   | (m2, Raised _) \<Rightarrow> (m2, Some ''recovery_failed'')
                   | (m2, Crashed) \<Rightarrow> (m2, None)))))"

text \<open>Restart: the process comes back with other fates.\<close>

definition restart :: "fate list \<Rightarrow> machine \<Rightarrow> machine" where
  "restart fates m = m\<lparr>mc_fates := fates\<rparr>"

fun attempts :: "recovery_env \<Rightarrow> fate list list \<Rightarrow> machine \<Rightarrow> machine" where
  "attempts env [] m = m"
| "attempts env (fs # fss) m = attempts env fss (fst (recover env (restart fs m)))"

section \<open>What the restoration does to files\<close>

lemma finally_do_cases:
  assumes "finally_do f g m = (m', r)"
  obtains (crashed) "f m = (m', Crashed)" "r = Crashed"
    | (cleaned) m1 r1 r2 where "f m = (m1, r1)" "r1 \<noteq> Crashed" "g m1 = (m', r2)" "r = Done () \<Longrightarrow> r1 = Done () \<and> r2 = Done ()"
  using assms by (auto simp: finally_do_def split: prod.splits run.splits)

lemma remove_if_there_effect:
  assumes "remove_if_there t m = (m', r)"
  shows "quiet m m'" "content (mc_recovery m') x = content (mc_recovery m) x"
    "x \<noteq> t \<Longrightarrow> content (mc_work m') x = content (mc_work m) x"
proof -
  have "quiet m m' \<and> content (mc_recovery m') x = content (mc_recovery m) x \<and>
    (x \<noteq> t \<longrightarrow> content (mc_work m') x = content (mc_work m) x)"
  proof (cases "node_at (mc_work m) t = None")
    case True
    then show ?thesis using assms by (simp add: remove_if_there_def)
  next
    case False
    then have u: "unlink_file Work t m = (m', r)" using assms remove_if_there_def[of t m] False by metis
    show ?thesis
      using unlink_file_effect(1)[OF u] unlink_file_effect(2,3)[OF u, of Work x] unlink_file_effect(2,3)[OF u, of Recovery x]
      by (cases "r = Done ()") auto
  qed
  then show "quiet m m'" "content (mc_recovery m') x = content (mc_recovery m) x"
    "x \<noteq> t \<Longrightarrow> content (mc_work m') x = content (mc_work m) x" by blast+
qed

lemma restore_file_effect:
  assumes "restore_file env p m = (m', r)" and t: "recovery_temporary env p \<noteq> p"
  shows "quiet m m'"
    and "content (mc_recovery m') x = content (mc_recovery m) x"
    and "x \<noteq> p \<Longrightarrow> x \<noteq> recovery_temporary env p \<Longrightarrow> content (mc_work m') x = content (mc_work m) x"
    and "r = Done () \<Longrightarrow> \<exists>c. content (mc_recovery m) p = Some (File c) \<and> content (mc_work m') p = Some (File c)"
proof -
  let ?t = "recovery_temporary env p"
  have step: "then_do (make_parents Work p) (\<lambda>_.
         finally_do (then_do (copy_file Recovery p Work ?t) (\<lambda>_. move_file Work ?t Work p)) (remove_if_there ?t)) m = (m', r)"
    using assms(1) by (simp add: restore_file_def Let_def)
  have "quiet m m' \<and> content (mc_recovery m') x = content (mc_recovery m) x \<and>
     (x \<noteq> p \<longrightarrow> x \<noteq> ?t \<longrightarrow> content (mc_work m') x = content (mc_work m) x) \<and>
     (r = Done () \<longrightarrow> (\<exists>c. content (mc_recovery m) p = Some (File c) \<and> content (mc_work m') p = Some (File c)))"
    using step
  proof (cases rule: then_do_cases)
    case (stepped m1 u)
    note d = make_parents_effect[OF stepped(1)]
    have w1: "content (mc_work m1) y = content (mc_work m) y" and r1: "content (mc_recovery m1) y = content (mc_recovery m) y" for y
      using d(2)[of Work y] d(2)[of Recovery y] by simp_all
    show ?thesis
      using stepped(2)
    proof (cases rule: finally_do_cases)
      case crashed
      then show ?thesis using copy_swap_effect[OF crashed(1) t] w1 r1 d(1) by (auto intro: quiet_trans)
    next
      case (cleaned m2 s1 s2)
      note c = copy_swap_effect[OF cleaned(1) t]
      note g = remove_if_there_effect[OF cleaned(3)]
      have q: "quiet m m'" using d(1) c(1) g(1) by (auto intro: quiet_trans)
      have rc: "content (mc_recovery m') x = content (mc_recovery m) x" using c(2) g(2) r1 by simp
      have w: "x \<noteq> p \<longrightarrow> x \<noteq> ?t \<longrightarrow> content (mc_work m') x = content (mc_work m) x" using c(3) g(3) w1 by simp
      have "r = Done () \<longrightarrow> (\<exists>k. content (mc_recovery m) p = Some (File k) \<and> content (mc_work m') p = Some (File k))"
        using c(4) cleaned(4) remove_if_there_effect(3)[OF cleaned(3), of p] t r1 by auto
      then show ?thesis using q rc w by blast
    qed
  next
    case (raised e)
    then show ?thesis using make_parents_effect[OF raised(1)] make_parents_effect(2)[OF raised(1), of Work x]
        make_parents_effect(2)[OF raised(1), of Recovery x] by simp
  next
    case crashed
    then show ?thesis using make_parents_effect[OF crashed(1)] make_parents_effect(2)[OF crashed(1), of Work x]
        make_parents_effect(2)[OF crashed(1), of Recovery x] by simp
  qed
  then show "quiet m m'" "content (mc_recovery m') x = content (mc_recovery m) x"
    "x \<noteq> p \<Longrightarrow> x \<noteq> ?t \<Longrightarrow> content (mc_work m') x = content (mc_work m) x"
    "r = Done () \<Longrightarrow> \<exists>c. content (mc_recovery m) p = Some (File c) \<and> content (mc_work m') p = Some (File c)" by blast+
qed

text \<open>All replacements of a plan: those with a backup get it, the others disappear.\<close>

lemma restore_all_effect:
  assumes "restore_all env rs m = (m', r)"
    and "fst ` set rs \<subseteq> P" "distinct (map fst rs)" "recovery_temporary env ` P \<subseteq> T" "T \<inter> P = {}"
    and "\<And>p b l. (p, b) \<in> set rs \<Longrightarrow> content (mc_work m) p \<noteq> Some (Symlink l)"
  shows "quiet m m' \<and> (\<forall>x. content (mc_recovery m') x = content (mc_recovery m) x) \<and>
    (\<forall>x. x \<notin> fst ` set rs \<longrightarrow> x \<notin> T \<longrightarrow> content (mc_work m') x = content (mc_work m) x) \<and>
    (r = Done () \<longrightarrow> (\<forall>(p, b)\<in>set rs. if b then \<exists>c. content (mc_recovery m) p = Some (File c) \<and> content (mc_work m') p = Some (File c)
       else content (mc_work m') p = None))"
  using assms
proof (induction rs arbitrary: m)
  case Nil
  then show ?case by simp
next
  case (Cons a rs)
  obtain p b where a: "a = (p, b)" by fastforce
  have pP: "p \<in> P" "p \<notin> T" "recovery_temporary env p \<in> T" and pn: "p \<notin> fst ` set rs"
    using Cons.prems(2,3,4,5) by (auto simp: a)
  then have pt: "recovery_temporary env p \<noteq> p" by metis
  have one: "quiet m m1 \<and> (\<forall>x. content (mc_recovery m1) x = content (mc_recovery m) x) \<and>
      (\<forall>x. x \<noteq> p \<longrightarrow> x \<notin> T \<longrightarrow> content (mc_work m1) x = content (mc_work m) x) \<and>
      (r1 = Done () \<longrightarrow> (if b then \<exists>c. content (mc_recovery m) p = Some (File c) \<and> content (mc_work m1) p = Some (File c)
         else content (mc_work m1) p = None))"
    if o: "restore_one env (p, b) m = (m1, r1)" for m1 r1
  proof (cases b)
    case True
    then have f: "restore_file env p m = (m1, r1)" using o by (simp add: restore_one_def)
    note e = restore_file_effect[OF f pt]
    have "x \<noteq> p \<longrightarrow> x \<notin> T \<longrightarrow> content (mc_work m1) x = content (mc_work m) x" for x using e(3)[of x] pP(3) by auto
    then show ?thesis using e(1,2,4) True by auto
  next
    case no: False
    show ?thesis
    proof (cases "exists_at (mc_work m) p")
      case True
      then have u: "unlink_file Work p m = (m1, r1)" using o no by (simp add: restore_one_def)
      have "content (mc_recovery m1) x = content (mc_recovery m) x" for x
        using unlink_file_effect(2,3)[OF u, of Recovery x] by (cases "r1 = Done ()") auto
      moreover have "x \<noteq> p \<longrightarrow> content (mc_work m1) x = content (mc_work m) x" for x
        using unlink_file_effect(2,3)[OF u, of Work x] by (cases "r1 = Done ()") auto
      ultimately show ?thesis using unlink_file_effect(1)[OF u] unlink_file_effect(3)[OF u, of Work p] no by simp
    next
      case False
      then show ?thesis using o no exists_at_False[OF False] Cons.prems(6)[of p b] by (auto simp: restore_one_def a)
    qed
  qed
  have step: "then_do (restore_one env (p, b)) (\<lambda>_. restore_all env rs) m = (m', r)" using Cons.prems(1) by (simp add: a)
  show ?case
    using step
  proof (cases rule: then_do_cases)
    case (stepped m1 u)
    note o = one[OF stepped(1)]
    have keep: "content (mc_work m1) q = content (mc_work m) q" if "q \<in> fst ` set rs" for q
    proof -
      have "q \<noteq> p" "q \<notin> T" using that pn Cons.prems(2,5) by auto
      then show ?thesis using o by blast
    qed
    have ih: "quiet m1 m' \<and> (\<forall>x. content (mc_recovery m') x = content (mc_recovery m1) x) \<and>
      (\<forall>x. x \<notin> fst ` set rs \<longrightarrow> x \<notin> T \<longrightarrow> content (mc_work m') x = content (mc_work m1) x) \<and>
      (r = Done () \<longrightarrow> (\<forall>(p, b)\<in>set rs. if b then \<exists>c. content (mc_recovery m1) p = Some (File c) \<and> content (mc_work m') p = Some (File c)
       else content (mc_work m') p = None))"
    proof (rule Cons.IH[OF stepped(2) _ _ Cons.prems(4,5)])
      fix q c l assume "(q, c) \<in> set rs"
      then show "content (mc_work m1) q \<noteq> Some (Symlink l)"
        using keep[of q] Cons.prems(6)[of q c l] by (force simp: image_iff)
    qed (use Cons.prems(2,3) in auto)
    have "content (mc_work m') p = content (mc_work m1) p" using ih pn pP(2) by blast
    then have "r = Done () \<longrightarrow> (\<forall>(p, b)\<in>set (a # rs). if b then \<exists>c. content (mc_recovery m) p = Some (File c) \<and> content (mc_work m') p = Some (File c)
       else content (mc_work m') p = None)"
      using ih o by (auto simp: a)
    moreover have "quiet m m'" using ih o by (blast intro: quiet_trans)
    moreover have "\<forall>x. x \<notin> fst ` set (a # rs) \<longrightarrow> x \<notin> T \<longrightarrow> content (mc_work m') x = content (mc_work m) x"
      using ih o by (simp add: a)
    ultimately show ?thesis using ih o by simp
  next
    case (raised e)
    then show ?thesis using one[OF raised(1)] by (simp add: a)
  next
    case crashed
    then show ?thesis using one[OF crashed(1)] by (simp add: a)
  qed
qed

section \<open>Facts about plans\<close>

lemma safe_relative_same: "safe_relative (PStr s) = Some q \<Longrightarrow> q = s"
  by (auto simp: safe_relative_def split: if_splits)

lemma normalize_changed_same:
  "normalize_changed (map PStr ps) seen = Some out \<Longrightarrow> out = seen @ ps \<and> (distinct seen \<longrightarrow> distinct out)"
proof (induction ps arbitrary: seen)
  case (Cons p ps)
  obtain q where "safe_relative (PStr p) = Some q" "p \<notin> set seen" "normalize_changed (map PStr ps) (seen @ [p]) = Some out"
    using Cons.prems safe_relative_same by (auto split: option.splits if_splits)
  then have a: "out = (seen @ [p]) @ ps" and b: "distinct (seen @ [p]) \<longrightarrow> distinct out" and c: "p \<notin> set seen"
    using Cons.IH[of "seen @ [p]"] by blast+
  have "distinct seen \<longrightarrow> distinct out" using b c by simp
  then show ?case using a by simp
qed simp

lemma plan_replacements_committed: "plan_replacements m True ex ps = Inr rs \<Longrightarrow> rs = []"
  by (induction ps arbitrary: rs) (auto split: if_splits)

lemma plan_replacements_all:
  "plan_replacements m False ex ps = Inr rs \<Longrightarrow> rs = map (\<lambda>p. (p, ex p)) ps \<and>
     (\<forall>p\<in>set ps. path_kind (mc_work m) p \<noteq> ''symlink'')"
  by (induction ps arbitrary: rs) (auto simp: bind_res_Inr_iff split: if_splits)

lemma existed_flags_map: "existed_flags (PDict (map (\<lambda>p. (p, PBool (f p))) ps)) = Some (map (\<lambda>p. (p, f p)) ps)"
  by (induction ps) (auto simp: existed_flags_def split: if_splits)

lemma map_of_flags: "map_of (map (\<lambda>p. (p, f p)) ps) p = (if p \<in> set ps then Some (f p) else None)"
  by (induction ps) auto

lemma commit_line_fields:
  "dict_get (record_line n ''commit_started'' (commit_payload env w ps)) ''changed'' PNone = PList (map PStr ps)"
  "dict_get (record_line n ''commit_started'' (commit_payload env w ps)) ''existed'' PNone =
     PDict (map (\<lambda>p. (p, PBool (exists_at w p))) ps)"
  by (simp_all add: record_line_def commit_payload_def dict_get_def)

lemma plan_commit_committed:
  "plan_commit m True t r = Inr rs \<Longrightarrow> rs = []"
  by (auto simp: plan_commit_def dest: plan_replacements_committed split: if_splits pyval.splits option.splits)

lemma plan_commit_own:
  assumes "plan_commit m False t (record_line n ''commit_started'' (commit_payload env w ps)) = Inr rs"
  shows "rs = map (\<lambda>p. (p, exists_at w p)) ps \<and> distinct ps \<and> (\<forall>p\<in>set ps. path_kind (mc_work m) p \<noteq> ''symlink'')"
proof -
  obtain out where out: "normalize_changed (map PStr ps) [] = Some out"
    and rs: "plan_replacements m False (\<lambda>p. map_of (map (\<lambda>p. (p, exists_at w p)) ps) p = Some True) out = Inr rs"
    using assms by (auto simp: plan_commit_def commit_line_fields existed_flags_map split: if_splits option.splits)
  have "out = ps" "distinct ps" using normalize_changed_same[OF out] by auto
  then show ?thesis using plan_replacements_all[OF rs] by (auto simp: map_of_flags)
qed

lemma last_of_state: "last_of s J = Some r \<Longrightarrow> r \<in> set J \<and> record_state r = s"
  unfolding last_of_def using find_SomeD2[of "\<lambda>r. record_state r = s" "rev J" r] by simp

lemma last_of_None: "last_of s J = None \<longleftrightarrow> \<not> has_state s J"
  by (auto simp: last_of_def has_state_def find_None_iff list_ex_iff)

lemma recovery_plan_cases:
  assumes "recovery_plan env m J = Inr pl"
  obtains (finished) "has_state ''recovery_actions_applied'' J" "pl_replacements pl = []"
      "pl_completed pl = Some ''history_persisted'' \<or> pl_completed pl = Some ''rolled_back''"
    | (committed) "\<not> has_state ''recovery_actions_applied'' J" "has_state ''committed'' J" "pl_replacements pl = []" "pl_completed pl = None"
    | (unchanged) "\<not> has_state ''recovery_actions_applied'' J" "\<not> has_state ''committed'' J"
      "\<not> has_state ''commit_started'' J" "pl_replacements pl = []" "pl_completed pl = None"
    | (interrupted) r t where "\<not> has_state ''recovery_actions_applied'' J" "\<not> has_state ''committed'' J"
      "r \<in> set J" "record_state r = ''commit_started''" "plan_commit m False t r = Inr (pl_replacements pl)" "pl_completed pl = None"
proof -
  obtain t where rep: "(case last_of ''commit_started'' J of None \<Rightarrow> Inr []
        | Some c \<Rightarrow> plan_commit m (last_of ''recovery_actions_applied'' J \<noteq> None \<or> has_state ''committed'' J) t c) = Inr (pl_replacements pl)"
    and done': "pl_completed pl = map_option (\<lambda>r. text_of (dict_get r ''outcome'' PNone)) (last_of ''recovery_actions_applied'' J)"
    and valid: "\<And>r. last_of ''recovery_actions_applied'' J = Some r \<Longrightarrow> checkpoint_valid r"
    using assms by (auto simp: recovery_plan_def Let_def bind_res_Inr_iff split: if_splits option.splits)
  show ?thesis
  proof (cases "last_of ''recovery_actions_applied'' J")
    case (Some r)
    then have "checkpoint_valid r" by (rule valid)
    then have "text_of (dict_get r ''outcome'' PNone) = ''history_persisted'' \<or> text_of (dict_get r ''outcome'' PNone) = ''rolled_back''"
      by (auto simp: checkpoint_valid_def)
    moreover have "pl_replacements pl = []" using rep Some plan_commit_committed by (auto split: option.splits)
    moreover have "has_state ''recovery_actions_applied'' J" using Some last_of_None[of "''recovery_actions_applied''" J] by auto
    ultimately show ?thesis using finished done' Some by auto
  next
    case None
    then have no: "\<not> has_state ''recovery_actions_applied'' J" by (simp add: last_of_None)
    show ?thesis
    proof (cases "has_state ''committed'' J")
      case True
      then have "pl_replacements pl = []" using rep plan_commit_committed by (auto split: option.splits)
      then show ?thesis using committed no True done' None by simp
    next
      case False
      show ?thesis
      proof (cases "last_of ''commit_started'' J")
        case none2: None
        then have "pl_replacements pl = []" using rep by simp
        moreover have "\<not> has_state ''commit_started'' J" using none2 by (simp add: last_of_None)
        ultimately show ?thesis using unchanged no False done' None by simp
      next
        case (Some r)
        then show ?thesis using interrupted[of r t] no False rep done' None last_of_state[OF Some] by simp
      qed
    qed
  qed
qed

section \<open>The invariant of recovery attempts\<close>

text \<open>A file is rolled back to what it was, up to the relation \<open>R\<close> between backups and originals.\<close>

definition rolled :: "(string \<Rightarrow> string \<Rightarrow> bool) \<Rightarrow> node option \<Rightarrow> node option \<Rightarrow> bool" where
  "rolled R old now \<longleftrightarrow> now = old \<or> (\<exists>c c'. old = Some (File c) \<and> now = Some (File c') \<and> R c' c)"

lemma rolled_eq [simp]: "rolled (=) old now \<longleftrightarrow> now = old"
  by (auto simp: rolled_def)

definition all_rolled :: "rel set \<Rightarrow> (string \<Rightarrow> string \<Rightarrow> bool) \<Rightarrow> tree \<Rightarrow> machine \<Rightarrow> bool" where
  "all_rolled T R W m \<longleftrightarrow> (\<forall>q. q \<notin> T \<longrightarrow> rolled R (content W q) (content (mc_work m) q))"

definition own_commits :: "tree \<Rightarrow> rel list \<Rightarrow> pydict list \<Rightarrow> bool" where
  "own_commits W ps J \<longleftrightarrow> (\<forall>r\<in>set J. record_state r = ''commit_started'' \<longrightarrow>
     (\<exists>n e. r = record_line n ''commit_started'' (commit_payload e W ps)))"

definition recovery_inv :: "rel set \<Rightarrow> (string \<Rightarrow> string \<Rightarrow> bool) \<Rightarrow> tree \<Rightarrow> rel list \<Rightarrow> machine \<Rightarrow> bool" where
  "recovery_inv T R W ps m \<longleftrightarrow> own_commits W ps (mc_journal m) \<and> \<not> has_state ''committed'' (mc_journal m) \<and>
     (if has_state ''recovery_actions_applied'' (mc_journal m) then all_rolled T R W m
      else disk_inv T (set ps) (content W) m \<and> backups_are R (content W) m \<and>
        (\<not> has_state ''commit_started'' (mc_journal m) \<longrightarrow> all_rolled T R W m))"

lemma has_state_image: "has_state s J \<longleftrightarrow> s \<in> record_state ` set J"
  by (auto simp: has_state_def list_ex_iff)

lemma has_state_append [simp]: "has_state s (J @ K) \<longleftrightarrow> has_state s J \<or> has_state s K"
  by (simp add: has_state_def)

lemma backups_shrink:
  "backups_are R W0 m \<Longrightarrow> (\<And>p n. content (mc_recovery m') p = Some n \<Longrightarrow> content (mc_recovery m) p = Some n) \<Longrightarrow> backups_are R W0 m'"
  by (auto simp: backups_are_def)

lemma append_record_grows:
  assumes "append_record s payload m = (m', r)" "map_of payload ''state'' = None"
  obtains js where "mc_journal m' = mc_journal m @ js" "record_state ` set js \<subseteq> {s}"
  using append_record_effect(6,7)[OF assms(1)] journal_line_state[OF assms(2)] that[of "[]"]
    that[of "[journal_line m s payload]"]
  by (cases "r = Done ()") auto

text \<open>Steps that only write records with states in \<open>S\<close> and remove backups.\<close>

definition clerical :: "string set \<Rightarrow> machine \<Rightarrow> machine \<Rightarrow> bool" where
  "clerical S m m' \<longleftrightarrow> mc_work m' = mc_work m \<and>
     (\<forall>p n. content (mc_recovery m') p = Some n \<longrightarrow> content (mc_recovery m) p = Some n) \<and>
     (\<exists>js. mc_journal m' = mc_journal m @ js \<and> record_state ` set js \<subseteq> S)"

lemma clerical_refl: "clerical S m m"
  by (auto simp: clerical_def intro: exI[of _ "[]"])

lemma clerical_trans: "clerical S m m' \<Longrightarrow> clerical S m' m'' \<Longrightarrow> clerical S m m''"
  unfolding clerical_def by (elim conjE exE) (auto intro!: exI[of _ "_ @ _"])

lemma clerical_append:
  assumes "append_record s payload m = (m', r)" "map_of payload ''state'' = None" "s \<in> S"
  shows "clerical S m m'"
proof -
  obtain js where "mc_journal m' = mc_journal m @ js" "record_state ` set js \<subseteq> {s}"
    using append_record_grows[OF assms(1,2)] .
  then show ?thesis using append_record_effect(1,3)[OF assms(1)] assms(3) by (auto simp: clerical_def)
qed

lemma clerical_discard:
  assumes "discard_overlay m = (m', r)" shows "clerical S m m'"
  using discard_overlay_effect(1,2)[OF assms] discard_overlay_effect(4)[OF assms]
  by (auto simp: clerical_def)

lemma clerical_then:
  assumes "then_do f g m = (m', r)" "\<And>m1 r1. f m = (m1, r1) \<Longrightarrow> clerical S m m1"
    and "\<And>x m1 m2 r2. g x m1 = (m2, r2) \<Longrightarrow> clerical S m1 m2"
  shows "clerical S m m'"
  using assms(1)
proof (cases rule: then_do_cases)
  case (stepped m1 x)
  show ?thesis by (rule clerical_trans[OF assms(2)[OF stepped(1)] assms(3)[OF stepped(2)]])
qed (use assms(2) in auto)

lemma clerical_close:
  assumes "close_journal m = (m', r)" "''journal_closed'' \<in> S" shows "clerical S m m'"
proof -
  obtain m1 r1 where a: "append_record ''journal_closed'' [] m = (m1, r1)" by fastforce
  have "m' = m1" using assms(1) a by (cases r1) (auto simp: close_journal_def)
  then show ?thesis using clerical_append[OF a _ assms(2)] by simp
qed

lemma conclude_clerical:
  assumes "conclude pl outcome m = (m', r)"
  shows "clerical {''recovery_actions_applied'', outcome, ''journal_closed''} m m'"
  using assms unfolding conclude_def
proof (rule clerical_then)
  fix m1 r1
  assume "(if pl_completed pl = None
        then append_record ''recovery_actions_applied'' [(''recovery_version'', PInt 1), (''outcome'', PStr outcome)]
        else finish ()) m = (m1, r1)"
  then show "clerical {''recovery_actions_applied'', outcome, ''journal_closed''} m m1"
    by (cases "pl_completed pl = None") (auto simp: finish_def clerical_refl intro: clerical_append)
next
  fix x :: unit and m1 m2 r2
  assume "then_do (if pl_overlay pl \<noteq> None then discard_overlay else finish ())
     (\<lambda>_. then_do (append_record outcome [(''recovery'', PBool True)]) (\<lambda>_. then_do close_journal (\<lambda>_. finish outcome))) m1 = (m2, r2)"
  then show "clerical {''recovery_actions_applied'', outcome, ''journal_closed''} m1 m2"
  proof (rule clerical_then)
    fix m3 m4 r4
    assume "(if pl_overlay pl \<noteq> None then discard_overlay else finish ()) m3 = (m4, r4)"
    then show "clerical {''recovery_actions_applied'', outcome, ''journal_closed''} m3 m4"
      by (cases "pl_overlay pl = None") (auto simp: finish_def clerical_refl intro: clerical_discard)
  next
    fix y :: unit and m3 m4 r4
    assume "then_do (append_record outcome [(''recovery'', PBool True)]) (\<lambda>_. then_do close_journal (\<lambda>_. finish outcome)) m3 = (m4, r4)"
    then show "clerical {''recovery_actions_applied'', outcome, ''journal_closed''} m3 m4"
    proof (rule clerical_then)
      fix z :: unit and m5 m6 r6
      assume "then_do close_journal (\<lambda>_. finish outcome) m5 = (m6, r6)"
      then show "clerical {''recovery_actions_applied'', outcome, ''journal_closed''} m5 m6"
        by (rule clerical_then) (auto simp: finish_def clerical_refl intro: clerical_close)
    qed (auto intro: clerical_append)
  qed
qed

lemma recovery_inv_clerical:
  assumes "clerical S m m'" and "''commit_started'' \<notin> S" "''committed'' \<notin> S"
    and "recovery_inv T R W ps m" and "''recovery_actions_applied'' \<in> S \<longrightarrow> all_rolled T R W m"
  shows "recovery_inv T R W ps m'"
proof -
  obtain js where js: "mc_journal m' = mc_journal m @ js" "record_state ` set js \<subseteq> S"
    and w: "mc_work m' = mc_work m" and b: "\<And>p n. content (mc_recovery m') p = Some n \<Longrightarrow> content (mc_recovery m) p = Some n"
    using assms(1) by (auto simp: clerical_def)
  have no: "\<not> has_state ''commit_started'' js" "\<not> has_state ''committed'' js"
    using js(2) assms(2,3) by (auto simp: has_state_def list_ex_iff)
  have own: "own_commits W ps (mc_journal m')"
    using assms(4) js no(1) by (auto simp: recovery_inv_def own_commits_def has_state_def list_ex_iff)
  have rolled: "all_rolled T R W m' = all_rolled T R W m" by (simp add: all_rolled_def w)
  have disk: "disk_inv T P W0 m' = disk_inv T P W0 m" for P W0 by (simp add: disk_inv_def w)
  show ?thesis
  proof (cases "has_state ''recovery_actions_applied'' (mc_journal m')")
    case True
    have "all_rolled T R W m"
    proof (cases "has_state ''recovery_actions_applied'' (mc_journal m)")
      case True
      then show ?thesis using assms(4) by (simp add: recovery_inv_def)
    next
      case False
      then have "has_state ''recovery_actions_applied'' js" using True js(1) by simp
      then have "''recovery_actions_applied'' \<in> S" using js(2) by (auto simp: has_state_def list_ex_iff)
      then show ?thesis using assms(5) by blast
    qed
    then show ?thesis using True own rolled assms(4) no js(1) by (simp add: recovery_inv_def)
  next
    case False
    then have "\<not> has_state ''recovery_actions_applied'' (mc_journal m)" using js(1) by simp
    then show ?thesis
      using False own rolled disk assms(4) no js(1) backups_shrink[OF _ b]
      by (auto simp: recovery_inv_def)
  qed
qed

lemma restore_plan_effect:
  assumes inv: "recovery_inv T R W ps m" and plan: "recovery_plan env m (mc_journal m) = Inr pl"
    and open': "pl_completed pl = None"
    and T: "recovery_temporary env ` set ps \<subseteq> T" "T \<inter> set ps = {}"
    and m0: "mc_work m0 = mc_work m" "mc_recovery m0 = mc_recovery m" "mc_journal m0 = mc_journal m"
    and run: "restore_all env (rev (pl_replacements pl)) m0 = (m', r)"
  shows "recovery_inv T R W ps m' \<and> mc_journal m' = mc_journal m \<and> (r = Done () \<longrightarrow> all_rolled T R W m')"
  using plan
proof (cases rule: recovery_plan_cases)
  case finished
  then show ?thesis using open' by simp
next
  case committed
  then show ?thesis using inv by (simp add: recovery_inv_def)
next
  case unchanged
  then have "m' = m0" using run by simp
  then show ?thesis using inv unchanged m0 by (simp add: recovery_inv_def all_rolled_def disk_inv_def backups_are_def)
next
  case (interrupted r0 t)
  let ?W0 = "content W" and ?P = "set ps"
  have dinv: "disk_inv T ?P ?W0 m" and binv: "backups_are R ?W0 m"
    using inv interrupted(1) by (auto simp: recovery_inv_def)
  obtain n e where r0: "r0 = record_line n ''commit_started'' (commit_payload e W ps)"
    using inv interrupted(3,4) by (auto simp: recovery_inv_def own_commits_def)
  have rs: "pl_replacements pl = map (\<lambda>p. (p, exists_at W p)) ps" "distinct ps"
    and kinds: "\<forall>p\<in>set ps. path_kind (mc_work m) p \<noteq> ''symlink''"
    using plan_commit_own[OF interrupted(5)[unfolded r0]] by auto
  have nolink: "content (mc_work m) p \<noteq> Some (Symlink l)" if "p \<in> ?P" for p l
    using kinds that by (auto simp: path_kind_def content_def split: option.splits node.splits)
  have W_nolink: "?W0 p \<noteq> Some (Symlink l)" if "p \<in> ?P" for p l
    using nolink[OF that] dinv T(2) that by (fastforce simp: disk_inv_def)
  have e: "quiet m0 m' \<and> (\<forall>x. content (mc_recovery m') x = content (mc_recovery m0) x) \<and>
    (\<forall>x. x \<notin> fst ` set (rev (pl_replacements pl)) \<longrightarrow> x \<notin> T \<longrightarrow> content (mc_work m') x = content (mc_work m0) x) \<and>
    (r = Done () \<longrightarrow> (\<forall>(p, b)\<in>set (rev (pl_replacements pl)). if b
       then \<exists>c. content (mc_recovery m0) p = Some (File c) \<and> content (mc_work m') p = Some (File c)
       else content (mc_work m') p = None))"
    by (rule restore_all_effect[OF run _ _ T(1) T(2)])
      (use nolink rs m0 in \<open>auto simp: rev_map[symmetric] comp_def\<close>)
  have jr: "mc_journal m' = mc_journal m" using e m0 by (simp add: quiet_def)
  have frame: "content (mc_work m') x = ?W0 x" if "x \<notin> ?P" "x \<notin> T" for x
    using e that dinv m0 rs(1) by (force simp: disk_inv_def)
  have "disk_inv T ?P ?W0 m'" using frame W_nolink by (auto simp: disk_inv_def)
  moreover have "backups_are R ?W0 m'" using binv e m0 by (simp add: backups_are_def)
  moreover have "has_state ''commit_started'' (mc_journal m)" using interrupted(3,4) by (auto simp: has_state_def list_ex_iff)
  ultimately have inv': "recovery_inv T R W ps m'" using inv interrupted(1) jr by (simp add: recovery_inv_def)
  have "all_rolled T R W m'" if ok: "r = Done ()"
    unfolding all_rolled_def
  proof (intro allI impI)
    fix q assume q: "q \<notin> T"
    show "rolled R (?W0 q) (content (mc_work m') q)"
    proof (cases "q \<in> ?P")
      case False
      then show ?thesis using frame q by (simp add: rolled_def)
    next
      case True
      then have mem: "(q, exists_at W q) \<in> set (rev (pl_replacements pl))" by (simp add: rs(1))
      have all: "\<forall>(p, b)\<in>set (rev (pl_replacements pl)). if b
          then \<exists>c. content (mc_recovery m0) p = Some (File c) \<and> content (mc_work m') p = Some (File c)
          else content (mc_work m') p = None"
        using e ok by blast
      have inst: "if exists_at W q then \<exists>c. content (mc_recovery m) q = Some (File c) \<and> content (mc_work m') q = Some (File c)
          else content (mc_work m') q = None"
        using bspec[OF all mem] by (simp only: prod.case m0)
      show ?thesis
      proof (cases "exists_at W q")
        case True
        then obtain c' where "content (mc_recovery m) q = Some (File c')" "content (mc_work m') q = Some (File c')"
          using inst by auto
        then show ?thesis using binv by (auto simp: rolled_def backups_are_def)
      next
        case no: False
        then have "content (mc_work m') q = None" using inst by simp
        moreover have "?W0 q = None" using exists_at_False[OF no] W_nolink[OF True] by auto
        ultimately show ?thesis by (simp add: rolled_def)
      qed
    qed
  qed
  then show ?thesis using inv' jr by blast
qed

lemma recovery_inv_disk:
  "mc_work m' = mc_work m \<Longrightarrow> mc_recovery m' = mc_recovery m \<Longrightarrow> mc_journal m' = mc_journal m \<Longrightarrow>
     recovery_inv T R W ps m' = recovery_inv T R W ps m"
  by (simp add: recovery_inv_def all_rolled_def disk_inv_def backups_are_def)

lemma recover_inv:
  assumes inv: "recovery_inv T R W ps m"
    and T: "recovery_temporary env ` set ps \<subseteq> T" "T \<inter> set ps = {}"
  shows "recovery_inv T R W ps (fst (recover env m))"
proof (cases "inspect_journal env m")
  case (Plan pl history payload)
  then have plan: "recovery_plan env m (mc_journal m) = Inr pl"
    by (auto simp: inspect_journal_def load_records_def split: if_splits sum.splits option.splits)
  obtain m1 r1 where au: "audit m = (m1, r1)" by fastforce
  have sd: "same_disk m m1"
    using au[unfolded audit_def] by (cases rule: attempt_cases) simp_all
  note s = same_diskD[OF sd]
  have inv1: "recovery_inv T R W ps m1" using inv s recovery_inv_disk[of m1 m] by blast
  define m2 where "m2 = m1\<lparr>mc_sequence := length (mc_journal m1)\<rparr>"
  obtain m3 r3 where ap: "apply_plan env (mc_journal m) pl history payload m2 = (m3, r3)" by fastforce
  have "fst (recover env m) \<in> {m1, m3}"
    using Plan au ap by (cases r1; cases r3) (auto simp: recover_def m2_def)
  moreover have "recovery_inv T R W ps m3"
  proof -
    obtain m4 r4 where rs: "restore_all env (rev (pl_replacements pl)) m2 = (m4, r4)" by fastforce
    have m2: "mc_work m2 = mc_work m" "mc_recovery m2 = mc_recovery m" "mc_journal m2 = mc_journal m"
      using s by (simp_all add: m2_def)
    show ?thesis
    proof (cases "pl_completed pl")
      case None
      have re: "recovery_inv T R W ps m4 \<and> mc_journal m4 = mc_journal m \<and> (r4 = Done () \<longrightarrow> all_rolled T R W m4)"
        by (rule restore_plan_effect[OF inv plan None T m2 rs])
      have concl: "recovery_inv T R W ps m5" if "conclude pl outcome m4 = (m5, r5)" "r4 = Done ()"
        "outcome = ''history_persisted'' \<or> outcome = ''rolled_back''" for outcome m5 r5
        by (rule recovery_inv_clerical[OF conclude_clerical[OF that(1)]]) (use re that(2,3) in auto)
      show ?thesis
      proof (cases "r4 = Done ()")
        case True
        then have ap': "(if history
             then (if (case re_history_writer env of None \<Rightarrow> False | Some w \<Rightarrow> w payload)
                   then conclude pl ''history_persisted''
                   else abort (OSError ''history writer did not persist the recovered round''))
             else if has_state ''external_intent'' (mc_journal m) then finish ''IndeterminateExternalEffect''
             else conclude pl ''rolled_back'') m4 = (m3, r3)"
          using ap rs None by (simp add: apply_plan_def then_do_def)
        show ?thesis
          using ap' re concl True by (auto simp: abort_def finish_def split: if_splits)
      next
        case False
        then have "m3 = m4" using ap rs by (cases r4) (auto simp: apply_plan_def then_do_def)
        then show ?thesis using re by simp
      qed
    next
      case (Some outcome)
      have nil: "pl_replacements pl = []" "has_state ''recovery_actions_applied'' (mc_journal m)"
        "outcome = ''history_persisted'' \<or> outcome = ''rolled_back''"
        using plan Some by (auto elim!: recovery_plan_cases)
      have "conclude pl outcome m2 = (m3, r3)"
        using ap nil(1) Some by (simp add: apply_plan_def then_do_def)
      note c = conclude_clerical[OF this]
      have inv2: "recovery_inv T R W ps m2" using inv recovery_inv_disk[OF m2] by blast
      show ?thesis
        by (rule recovery_inv_clerical[OF c _ _ inv2]) (use nil inv2 m2 in \<open>auto simp: recovery_inv_def\<close>)
    qed
  qed
  ultimately show ?thesis using inv1 by auto
qed (use inv in \<open>simp_all add: recover_def\<close>)

lemma restart_inv: "recovery_inv T R W ps m \<Longrightarrow> recovery_inv T R W ps (restart fs m)"
  using recovery_inv_disk[of "restart fs m" m] by (simp add: restart_def)

lemma attempts_inv:
  assumes "recovery_temporary env ` set ps \<subseteq> T" "T \<inter> set ps = {}"
  shows "recovery_inv T R W ps m \<Longrightarrow> recovery_inv T R W ps (attempts env fss m)"
proof (induction fss arbitrary: m)
  case (Cons fs fss)
  then show ?case using recover_inv[OF restart_inv[OF Cons.prems] assms] by simp
qed simp

text \<open>A recorded commit is never undone.\<close>

lemma recover_committed:
  assumes "has_state ''committed'' (mc_journal m)"
  shows "mc_work (fst (recover env m)) = mc_work m \<and> has_state ''committed'' (mc_journal (fst (recover env m)))"
proof (cases "inspect_journal env m")
  case (Plan pl history payload)
  then have plan: "recovery_plan env m (mc_journal m) = Inr pl"
    by (auto simp: inspect_journal_def load_records_def split: if_splits sum.splits option.splits)
  have nil: "pl_replacements pl = []" using plan assms by (auto elim!: recovery_plan_cases)
  obtain m1 r1 where au: "audit m = (m1, r1)" by fastforce
  have sd: "same_disk m m1"
    using au[unfolded audit_def] by (cases rule: attempt_cases) simp_all
  note s = same_diskD[OF sd]
  define m2 where "m2 = m1\<lparr>mc_sequence := length (mc_journal m1)\<rparr>"
  obtain m3 r3 where ap: "apply_plan env (mc_journal m) pl history payload m2 = (m3, r3)" by fastforce
  have c: "mc_work m5 = mc_work m2 \<and> has_state ''committed'' (mc_journal m5)" if "conclude pl outcome m2 = (m5, r5)" for outcome m5 r5
    using conclude_clerical[OF that] assms s by (auto simp: clerical_def m2_def)
  have keep: "mc_work m2 = mc_work m" "has_state ''committed'' (mc_journal m2)" using assms s by (simp_all add: m2_def)
  have "mc_work m3 = mc_work m2 \<and> has_state ''committed'' (mc_journal m3)"
    using ap nil c keep by (auto simp: apply_plan_def then_do_def abort_def finish_def split: option.splits if_splits)
  moreover have "fst (recover env m) \<in> {m1, m3}"
    using Plan au ap by (cases r1; cases r3) (auto simp: recover_def m2_def)
  ultimately show ?thesis using keep assms s by auto
qed (use assms in \<open>simp_all add: recover_def\<close>)

lemma attempts_committed:
  "has_state ''committed'' (mc_journal m) \<Longrightarrow> mc_work (attempts env fss m) = mc_work m"
proof (induction fss arbitrary: m)
  case (Cons fs fss)
  have "has_state ''committed'' (mc_journal (restart fs m))" using Cons.prems by (simp add: restart_def)
  from recover_committed[OF this] Cons.IH show ?case by (simp add: restart_def)
qed simp

section \<open>Properties\<close>

lemma commit_leaves_recoverable:
  assumes "commit env tx m = (m1, tx1, r)" and "\<And>p. content (mc_recovery m) p = None"
    and "temporaries env tx m \<inter> set (planned env tx m) = {}" and "Unacked \<notin> set (mc_fates m)"
    and "\<not> has_state ''commit_started'' (mc_journal m)" "\<not> has_state ''committed'' (mc_journal m)"
      "\<not> has_state ''recovery_actions_applied'' (mc_journal m)"
    and nc: "\<not> recorded_since m ''committed'' m1"
    and plain: "redact_payload (mc_redact m) (commit_payload env (mc_work m) (planned env tx m)) =
      commit_payload env (mc_work m) (planned env tx m)"
    and T: "temporaries env tx m \<subseteq> T" "T \<inter> set (planned env tx m) = {}"
    and R: "backups_are prefix (content (mc_work m)) m1 \<Longrightarrow> backups_are R (content (mc_work m)) m1"
  shows "recovery_inv T R (mc_work m) (planned env tx m) m1"
proof -
  note e = commit_effect[OF assms(1,3,2)]
  let ?P = "set (planned env tx m)"
  have un: "undone (tx_turn tx) ?P (content (mc_work m)) m m1" using e nc by (auto simp: all_new_def)
  obtain js where js: "mc_journal m1 = mc_journal m @ js"
    and own: "\<forall>r\<in>set js. record_state r = ''commit_started'' \<longrightarrow>
          (\<exists>n. r = record_line n ''commit_started'' (commit_payload env (mc_work m) (planned env tx m)))"
    and states: "record_state ` set js \<subseteq> {''commit_started'', ''committed'', ''recovery_required''}"
    and same: "\<not> recorded_since m ''commit_started'' m1 \<longrightarrow> (\<forall>q. content (mc_work m1) q = content (mc_work m) q)"
    using e unfolding plain by blast
  have "own_commits (mc_work m) (planned env tx m) (mc_journal m1)"
    using own assms(5) js unfolding own_commits_def has_state_def list_ex_iff by auto blast
  moreover have "\<not> has_state ''committed'' (mc_journal m1)"
    using nc assms(6) js by (simp add: recorded_since_append has_state_image image_Un)
  moreover have "disk_inv T ?P (content (mc_work m)) m1"
    using un T(1) by (auto simp: undone_def temporaries_def intro: disk_inv_mono)
  moreover have "backups_are R (content (mc_work m)) m1" using un R by (simp add: undone_def)
  moreover have "all_rolled T R (mc_work m) m1" if "\<not> has_state ''commit_started'' (mc_journal m1)"
  proof -
    have "\<not> recorded_since m ''commit_started'' m1"
      using that js by (simp add: recorded_since_append has_state_image image_Un)
    then show ?thesis using same by (simp add: all_rolled_def rolled_def)
  qed
  moreover have "\<not> has_state ''recovery_actions_applied'' (mc_journal m1)"
    using states assms(7) js by (auto simp only: has_state_image set_append image_Un)
  ultimately show ?thesis by (simp add: recovery_inv_def)
qed

text \<open>C5. Crash atomicity. Run a commit with any fates of its system calls - it may die at any of them -
  and then any number of recovery attempts with any fates, each of which may die as well. If the
  journal got the \<open>committed\<close> record, the workspace has the new content of every changed path and keeps
  it. If not, and some attempt got as far as its checkpoint, every path has the content from before
  the commit, provided the backups the commit left are whole copies. The journal has no commit of this
  turn yet and the backup tree is empty; the redaction of secrets leaves the journalled paths alone, no
  append fails after its line was written, and the names of the temporary files are none of the changed
  paths (what those temporaries themselves hold is left open).\<close>

theorem crash_atomic:
  assumes "commit env tx m = (m1, tx1, r)" and "\<And>p. content (mc_recovery m) p = None"
    and "temporaries env tx m \<inter> set (planned env tx m) = {}" and "Unacked \<notin> set (mc_fates m)"
    and "\<not> has_state ''commit_started'' (mc_journal m)" "\<not> has_state ''committed'' (mc_journal m)"
      "\<not> has_state ''recovery_actions_applied'' (mc_journal m)"
    and "redact_payload (mc_redact m) (commit_payload env (mc_work m) (planned env tx m)) =
      commit_payload env (mc_work m) (planned env tx m)"
    and "recovery_temporary renv ` set (planned env tx m) \<inter> set (planned env tx m) = {}"
    and "\<And>p c. content (mc_recovery m1) p = Some (File c) \<Longrightarrow> content (mc_work m) p = Some (File c)"
    and "m2 = attempts renv fss m1" and "p \<notin> temporaries env tx m" "p \<notin> recovery_temporary renv ` set (planned env tx m)"
  shows "if recorded_since m ''committed'' m1
    then content (mc_work m2) p = (if p \<in> set (planned env tx m) then content (mc_overlay m) p else content (mc_work m) p)
    else has_state ''recovery_actions_applied'' (mc_journal m2) \<longrightarrow> content (mc_work m2) p = content (mc_work m) p"
proof (cases "recorded_since m ''committed'' m1")
  case True
  then have new: "all_new (set (planned env tx m)) (content (mc_work m)) (mc_overlay m) m (tx_turn tx) m1"
    using commit_effect[OF assms(1,3,2)] assms(4) by (auto simp: undone_def)
  have "has_state ''committed'' (mc_journal m1)"
    using True by (auto simp: recorded_since_def has_state_def list_ex_iff dest: in_set_dropD)
  then have "mc_work m2 = mc_work m1" using attempts_committed assms(11) by simp
  then show ?thesis using new True assms(12) by (simp add: all_new_def temporaries_def)
next
  case False
  define T where "T = temporaries env tx m \<union> recovery_temporary renv ` set (planned env tx m)"
  have "recovery_inv T (=) (mc_work m) (planned env tx m) m1"
    by (rule commit_leaves_recoverable[OF assms(1-7) False assms(8)])
      (use assms(3,9,10) in \<open>auto simp: T_def backups_are_def\<close>)
  then have "recovery_inv T (=) (mc_work m) (planned env tx m) m2"
    unfolding assms(11) by (rule attempts_inv[rotated 2]) (use assms(3,9) in \<open>auto simp: T_def\<close>)
  then have "has_state ''recovery_actions_applied'' (mc_journal m2) \<longrightarrow> all_rolled T (=) (mc_work m) m2"
    by (simp add: recovery_inv_def)
  moreover have "p \<notin> T" using assms(12,13) by (simp add: T_def)
  ultimately show ?thesis using False by (simp add: all_rolled_def)
qed

definition demo_renv :: recovery_env where
  "demo_renv = \<lparr>re_path = id, re_overlay_error = (\<lambda>_. None), re_is_workspace = (\<lambda>w. w = ''/w''), re_session = ''s'',
     re_history_writer = None, re_suffix = (\<lambda>_. ''x'')\<rparr>"

text \<open>The process dies in the copy of the second file, after both backups; a first recovery dies too.\<close>

definition crash_fates :: "fate list" where
  "crash_fates = replicate 10 Works @ [Dies 3]"

definition after_crash :: "fate list \<Rightarrow> machine" where
  "after_crash fates = fst (commit demo_env demo_tx (demo_machine fates))"

lemma demo_crash:
  "mc_recovery (after_crash crash_fates) = [(''a'', File ''old a''), (''b'', File ''old b'')]"
  "\<not> recorded_since (demo_machine crash_fates) ''committed'' (after_crash crash_fates)"
  "content (mc_work (after_crash crash_fates)) ''a'' = Some (File ''new a'')"
  unfolding recorded_since_def by code_simp+

lemma demo_recovered:
  "has_state ''recovery_actions_applied'' (mc_journal (attempts demo_renv [[Works, Works, Dies 2], []] (after_crash crash_fates)))"
  by code_simp

theorem crash_atomic_witness:
  "content (mc_work (attempts demo_renv [[Works, Works, Dies 2], []] (after_crash crash_fates))) ''a'' = Some (File ''old a'')"
proof -
  let ?m = "demo_machine crash_fates"
  obtain m1 tx1 r where c: "commit demo_env demo_tx ?m = (m1, tx1, r)" using prod_cases3 by blast
  then have m1: "m1 = after_crash crash_fates" by (simp add: after_crash_def)
  have J: "mc_journal ?m = [record_line 0 ''transaction_opened''
       [(''overlay'', PStr (te_container demo_env)), (''workspace'', PStr (te_workspace demo_env))]]" by (simp add: demo_machine_def)
  have st: "\<not> has_state ''commit_started'' (mc_journal ?m)" "\<not> has_state ''committed'' (mc_journal ?m)"
    "\<not> has_state ''recovery_actions_applied'' (mc_journal ?m)"
    by (simp_all add: J has_state_def record_state_line)
  have u: "Unacked \<notin> set (mc_fates ?m)" by (simp add: demo_machine_def crash_fates_def)
  have rt: "recovery_temporary demo_renv ''a'' = ''.polaris-recovery-x''" "recovery_temporary demo_renv ''b'' = ''.polaris-recovery-x''"
    by code_simp+
  have rd: "redact_payload (mc_redact ?m) (commit_payload demo_env (mc_work ?m) (planned demo_env demo_tx ?m)) =
      commit_payload demo_env (mc_work ?m) (planned demo_env demo_tx ?m)"
    unfolding demo_planned by code_simp
  have bk: "content (mc_work ?m) p = Some (File k)" if "content (mc_recovery m1) p = Some (File k)" for p k
    using that by (auto simp: m1 demo_crash content_def node_at_def demo_machine_def split: if_splits)
  have "content (mc_work (attempts demo_renv [[Works, Works, Dies 2], []] m1)) ''a'' = content (mc_work ?m) ''a''"
    using crash_atomic[OF c demo_fresh demo_free u st rd _ bk refl, where p = "''a''" and renv = demo_renv
        and fss = "[[Works, Works, Dies 2], []]"] demo_recovered demo_crash(2)
    by (simp add: rt demo_planned demo_temporaries m1)
  then show ?thesis by (simp add: m1 demo_machine_def content_def node_at_def)
qed

lemma plan_replacements_disk:
  assumes "mc_work m' = mc_work m" "mc_recovery m' = mc_recovery m"
  shows "plan_replacements m' c ex ps = plan_replacements m c ex ps"
proof (induction ps)
  case (Cons p ps)
  show ?case by (simp only: plan_replacements.simps assms Cons.IH)
qed simp

lemma inspect_restart: "inspect_journal env (restart fs m) = inspect_journal env m"
proof -
  have "plan_commit (restart fs m) c t r = plan_commit m c t r" for c t r
  proof -
    have "plan_replacements (restart fs m) = plan_replacements m"
      by (intro ext plan_replacements_disk) (simp_all add: restart_def)
    then show ?thesis by (simp only: plan_commit_def)
  qed
  then have "recovery_plan env (restart fs m) = recovery_plan env m"
    by (simp only: recovery_plan_def fun_eq_iff simp_thms)
  moreover have "load_records (restart fs m) = load_records m" by (simp add: load_records_def restart_def)
  ultimately show ?thesis by (simp only: inspect_journal_def)
qed

definition stuck_fates :: "fate list" where
  "stuck_fates = replicate 7 Works @ [Dies 0]"

definition torn_fates :: "fate list" where
  "torn_fates = replicate 8 Works @ [Dies 3]"

text \<open>What the recovery cannot do, on two crashes of a commit of two files. If the process dies between the replacement of one existing
  file and the backup of the next, the plan is rejected because a backup is missing: no attempt
  changes anything, and the workspace keeps the half-applied commit. And if it dies inside the copy
  that makes a backup, the file being backed up is still intact, but the recovery takes the torn copy
  for a backup and overwrites the file with it.\<close>

theorem interrupted_commit_not_recovered:
  "recover demo_renv (restart fates (after_crash stuck_fates)) =
       (restart fates (after_crash stuck_fates), Some ''missing_or_unsafe_backup'') \<and>
   content (mc_work (after_crash stuck_fates)) ''a'' = Some (File ''new a'') \<and>
   content (mc_work (after_crash stuck_fates)) ''b'' = Some (File ''old b'') \<and>
   content (mc_work (after_crash torn_fates)) ''b'' = Some (File ''old b'') \<and>
   snd (recover demo_renv (restart [] (after_crash torn_fates))) = Some ''rolled_back'' \<and>
   content (mc_work (fst (recover demo_renv (restart [] (after_crash torn_fates))))) ''b'' = Some (File ''ol'')"
proof -
  have "inspect_journal demo_renv (after_crash stuck_fates) = Blocked ''missing_or_unsafe_backup''" by code_simp
  then have "recover demo_renv (restart fates (after_crash stuck_fates)) =
       (restart fates (after_crash stuck_fates), Some ''missing_or_unsafe_backup'')"
    by (simp add: recover_def inspect_restart)
  moreover have "content (mc_work (after_crash stuck_fates)) ''a'' = Some (File ''new a'')"
    "content (mc_work (after_crash stuck_fates)) ''b'' = Some (File ''old b'')" by code_simp+
  moreover have "content (mc_work (after_crash torn_fates)) ''b'' = Some (File ''old b'')"
    "snd (recover demo_renv (restart [] (after_crash torn_fates))) = Some ''rolled_back''"
    "content (mc_work (fst (recover demo_renv (restart [] (after_crash torn_fates))))) ''b'' = Some (File ''ol'')"
    by code_simp+
  ultimately show ?thesis by blast
qed

end
