(* ===== verification/Turn_Journal.thy ===== *)
theory Turn_Journal
  imports Crash_Recovery "HOL-Library.Sublist"
begin

text \<open>
  The file of a turn journal (\<^verbatim>\<open>agent_core/tools/transaction.py\<close>): one JSON object per line, each
  with a sequence number, the owner of the journal, the checksum of the line before and a checksum
  of itself. The writer is \<open>_writer_loop\<close>, the reader \<open>_load_verified\<close>. A file is the text it
  decodes to (invalid UTF-8 is not modelled); SHA-256 of a text's UTF-8 bytes is a parameter.
\<close>

section \<open>Bytes and lines\<close>

definition byte_size :: "string \<Rightarrow> nat" where
  "byte_size s = length s + length (filter (\<lambda>c. 128 \<le> (of_char c :: nat)) s)"

text \<open>\<open>bytes.splitlines\<close> cuts at LF, CR and CR LF only.\<close>

fun byte_lines_acc :: "string \<Rightarrow> string \<Rightarrow> string list" where
  "byte_lines_acc acc [] = (if acc = [] then [] else [rev acc])"
| "byte_lines_acc acc (c # cs) =
     (if c = CHR 0x0A then rev acc # byte_lines_acc [] cs
      else if c = CHR 0x0D then rev acc # (case cs of d # ds \<Rightarrow> (if d = CHR 0x0A then byte_lines_acc [] ds else byte_lines_acc [] cs) | [] \<Rightarrow> [])
      else byte_lines_acc (c # acc) cs)"

definition byte_lines :: "string \<Rightarrow> string list" where
  "byte_lines s = byte_lines_acc [] s"

definition lower_hex :: "nat \<Rightarrow> string \<Rightarrow> bool" where
  "lower_hex n s \<longleftrightarrow> length s = n \<and> list_all (\<lambda>c. c \<in> set ''0123456789abcdef'') s"

text \<open>\<open>json.dumps(v, ensure_ascii=False, sort_keys=True, separators=(",", ":"))\<close>.\<close>

fun json_canonical :: "pyval \<Rightarrow> string" where
  "json_canonical (PList xs) = ''['' @ join_str '','' (map json_canonical xs) @ '']''"
| "json_canonical (PDict d) = ''{'' @ join_str '','' (map (\<lambda>(k, t). json_string k @ '':'' @ t)
     (sort_key fst (map (\<lambda>(k, v). (k, json_canonical v)) d))) @ ''}''"
| "json_canonical v = json_dumps v"

text \<open>Whether \<open>allow_nan=False\<close> accepts the value.\<close>

fun all_finite :: "pyval \<Rightarrow> bool" where
  "all_finite (PFloat r) \<longleftrightarrow> r \<notin> set [''nan'', ''inf'', ''-inf'']"
| "all_finite (PList xs) \<longleftrightarrow> list_all all_finite xs"
| "all_finite (PDict d) \<longleftrightarrow> list_all (\<lambda>kv. all_finite (snd kv)) d"
| "all_finite v \<longleftrightarrow> True"

section \<open>The writer\<close>

text \<open>What does not change while a journal is open, and what the writer remembers. A request is a
  state with its payload (redacted already) and the time stamp it gets.\<close>

record journal_identity =
  ji_schema :: int
  ji_turn_id :: string
  ji_pid :: int
  ji_process_token :: string
  ji_owner :: pydict

type_synonym request = "string \<times> pydict \<times> pyval"

definition record_fields :: "journal_identity \<Rightarrow> nat \<Rightarrow> string \<Rightarrow> request \<Rightarrow> pydict" where
  "record_fields j sequence previous q = (case q of (state, payload, ts) \<Rightarrow>
     fold (\<lambda>(k, v) d. dict_put d k v)
       [(''v'', PInt (ji_schema j)), (''turn_id'', PStr (ji_turn_id j)), (''sequence'', PInt (int sequence)),
        (''state'', PStr state), (''ts'', ts), (''pid'', PInt (ji_pid j)), (''process_token'', PStr (ji_process_token j)),
        (''owner'', PDict (ji_owner j)), (''previous_checksum'', PStr previous)] payload)"

definition record_checksum :: "(string \<Rightarrow> string) \<Rightarrow> pydict \<Rightarrow> string" where
  "record_checksum sha d = sha (json_canonical (PDict d))"

definition written_record :: "(string \<Rightarrow> string) \<Rightarrow> journal_identity \<Rightarrow> nat \<Rightarrow> string \<Rightarrow> request \<Rightarrow> pydict" where
  "written_record sha j sequence previous q =
     (let d = record_fields j sequence previous q in dict_put d ''checksum'' (PStr (record_checksum sha d)))"

text \<open>What the loop appends as long as every append succeeds: a reference for the proofs.\<close>

fun written_from :: "(string \<Rightarrow> string) \<Rightarrow> journal_identity \<Rightarrow> nat \<Rightarrow> string \<Rightarrow> request list \<Rightarrow> pydict list" where
  "written_from sha j n previous [] = []"
| "written_from sha j n previous (q # qs) =
     written_record sha j n previous q #
     written_from sha j (Suc n) (record_checksum sha (record_fields j n previous q)) qs"

text \<open>The whole loop. The line is written, flushed and synchronised inside one \<open>try\<close>, and the sequence number
  and the checksum of the writer advance behind it. An append is refused before the write (the file
  cannot be opened, or is no longer the same file), or \<open>flush\<close> or \<open>fsync\<close> fail after the write: then the line
  is in the file or in the buffer of the handle, which goes before the next line. In both cases the
  \<open>except\<close> branch keeps the writer's state.\<close>

datatype append_outcome = Synced | Unsynced | Refused

record writer =
  wr_sequence :: nat
  wr_previous :: string
  wr_records :: "pydict list"

definition new_writer :: writer where
  "new_writer = \<lparr>wr_sequence = 0, wr_previous = [], wr_records = []\<rparr>"

definition writer_step :: "(string \<Rightarrow> string) \<Rightarrow> journal_identity \<Rightarrow> request \<times> append_outcome \<Rightarrow> writer \<Rightarrow> writer" where
  "writer_step sha j a w =
     (let d = written_record sha j (wr_sequence w) (wr_previous w) (fst a)
      in case snd a of
           Synced \<Rightarrow> w\<lparr>wr_sequence := Suc (wr_sequence w),
             wr_previous := record_checksum sha (record_fields j (wr_sequence w) (wr_previous w) (fst a)), wr_records := wr_records w @ [d]\<rparr>
         | Unsynced \<Rightarrow> w\<lparr>wr_records := wr_records w @ [d]\<rparr>
         | Refused \<Rightarrow> w)"

definition writer_run :: "(string \<Rightarrow> string) \<Rightarrow> journal_identity \<Rightarrow> (request \<times> append_outcome) list \<Rightarrow> writer" where
  "writer_run sha j as = fold (writer_step sha j) as new_writer"

definition journal_file :: "pydict list \<Rightarrow> string" where
  "journal_file records = concat (map (\<lambda>d. json_line (PDict d)) records)"

section \<open>The reader\<close>

definition max_bytes :: nat where "max_bytes = 16 * 1024 * 1024"
definition max_records :: nat where "max_records = 10000"
definition max_line_bytes :: nat where "max_line_bytes = 1024 * 1024"

record chain =
  ch_sequence :: nat
  ch_previous :: string
  ch_schema :: "int option"
  ch_owner :: "pydict option"

definition owner_keys :: "string list" where
  "owner_keys = [''project_id'', ''session_id'', ''run_id'', ''workspace'', ''nonce'']"

definition is_text :: "pyval \<Rightarrow> bool" where
  "is_text v = (case v of PStr _ \<Rightarrow> True | _ \<Rightarrow> False)"

definition owner_error :: "pyval \<Rightarrow> string option" where
  "owner_error v = (case v of
     PDict owner \<Rightarrow>
       (if set (map fst owner) \<noteq> set owner_keys then Some ''invalid_owner_fields''
        else if \<not> list_all (\<lambda>kv. is_text (snd kv)) owner then Some ''invalid_owner_types''
        else if \<not> lower_hex 32 (text_of (dict_get owner ''nonce'' PNone)) then Some ''invalid_nonce''
        else None)
   | _ \<Rightarrow> Some ''invalid_owner'')"

definition owner_of :: "pydict \<Rightarrow> pydict" where
  "owner_of d = (case dict_get d ''owner'' PNone of PDict o' \<Rightarrow> o' | _ \<Rightarrow> [])"

definition same_owner :: "pydict \<Rightarrow> pydict \<Rightarrow> bool" where
  "same_owner a b \<longleftrightarrow> list_all (\<lambda>k. dict_get a k PNone = dict_get b k PNone) owner_keys"

definition drop_key :: "string \<Rightarrow> pydict \<Rightarrow> pydict" where
  "drop_key k d = filter (\<lambda>kv. fst kv \<noteq> k) d"

text \<open>One record: the error, or nothing.\<close>

definition record_error :: "(string \<Rightarrow> string) \<Rightarrow> chain \<Rightarrow> pydict \<Rightarrow> string option" where
  "record_error sha ch d =
     (let field = (\<lambda>k. dict_get d k PNone); body = drop_key ''checksum'' d
      in if field ''v'' \<notin> set [PInt 3, PInt 4] then Some ''unsupported_schema''
         else if (case ch_schema ch of None \<Rightarrow> False | Some s \<Rightarrow> field ''v'' \<noteq> PInt s) then Some ''schema_changed''
         else if field ''sequence'' \<noteq> PInt (int (ch_sequence ch)) then Some ''invalid_sequence''
         else if \<not> text_value (field ''state'') then Some ''invalid_state''
         else if \<not> (is_text (field ''turn_id'') \<and> lower_hex 32 (text_of (field ''turn_id''))) then Some ''invalid_turn_id''
         else if owner_error (field ''owner'') \<noteq> None then owner_error (field ''owner'')
         else if (case ch_owner ch of None \<Rightarrow> False | Some o' \<Rightarrow> \<not> same_owner (owner_of d) o') then Some ''owner_changed''
         else if field ''previous_checksum'' \<noteq> PStr (ch_previous ch) then Some ''broken_checksum_chain''
         else if \<not> (is_text (field ''checksum'') \<and> lower_hex 64 (text_of (field ''checksum''))) then Some ''invalid_checksum''
         else if \<not> all_finite (PDict body) then Some ''invalid_record_encoding''
         else if text_of (field ''checksum'') \<noteq> record_checksum sha body then Some ''checksum_mismatch''
         else None)"

definition int_of :: "pyval \<Rightarrow> int" where
  "int_of v = (case v of PInt i \<Rightarrow> i | _ \<Rightarrow> 0)"

definition next_chain :: "chain \<Rightarrow> pydict \<Rightarrow> chain" where
  "next_chain ch d = \<lparr>ch_sequence = Suc (ch_sequence ch), ch_previous = text_of (dict_get d ''checksum'' PNone),
     ch_schema = (case ch_schema ch of None \<Rightarrow> Some (int_of (dict_get d ''v'' PNone)) | s \<Rightarrow> s),
     ch_owner = (case ch_owner ch of None \<Rightarrow> Some (owner_of d) | o' \<Rightarrow> o')\<rparr>"

definition legacy_state_aliases :: "(string \<times> string) list" where
  "legacy_state_aliases = [(''external_outcome'', ''external_outcome_committed'')]"

definition canonical_state :: "pydict \<Rightarrow> pydict" where
  "canonical_state d = dict_put d ''state''
     (case map_of legacy_state_aliases (text_of (dict_get d ''state'' PNone)) of None \<Rightarrow> dict_get d ''state'' PNone | Some s \<Rightarrow> PStr s)"

fun verify_lines :: "(string \<Rightarrow> string) \<Rightarrow> chain \<Rightarrow> string list \<Rightarrow> string + pydict list" where
  "verify_lines sha ch [] = Inr []"
| "verify_lines sha ch (l # ls) =
     (if byte_size l > max_line_bytes then Inl ''record_too_large''
      else (case json_loads l of
        Inl e \<Rightarrow> Inl ''invalid_json''
      | Inr (PDict d) \<Rightarrow>
          (case record_error sha ch d of
             Some e \<Rightarrow> Inl e
           | None \<Rightarrow> bind_res (verify_lines sha (next_chain ch d) ls) (\<lambda>ds. Inr (canonical_state d # ds)))
      | Inr _ \<Rightarrow> Inl ''record_not_object''))"

definition load_verified :: "(string \<Rightarrow> string) \<Rightarrow> string \<Rightarrow> string + pydict list" where
  "load_verified sha file =
     (if byte_size file > max_bytes then Inl ''journal_too_large''
      else if file = [] \<or> last file \<noteq> CHR 0x0A then Inl ''journal_truncated''
      else if length (byte_lines file) > max_records then Inl ''too_many_records''
      else bind_res (verify_lines sha \<lparr>ch_sequence = 0, ch_previous = [], ch_schema = None, ch_owner = None\<rparr> (byte_lines file)) (\<lambda>ds.
        if list_ex (\<lambda>d. dict_get d ''turn_id'' PNone \<noteq> dict_get (hd ds) ''turn_id'' PNone) ds then Inl ''turn_id_changed'' else Inr ds))"

section \<open>A record is one line\<close>

definition breaks :: "char \<Rightarrow> bool" where
  "breaks c \<longleftrightarrow> c = CHR 0x0A \<or> c = CHR 0x0D"

lemma punctuation_breaks: "list_all (\<lambda>c. \<not> breaks c) ''[]{}:, -nulltruefalseNaNInfinity''"
  by (simp add: breaks_def)

lemmas no_breaks = punctuation_breaks [simplified list.pred_inject]

lemma breaks_line_end: "\<not> list_ex is_line_end s \<Longrightarrow> \<not> list_ex breaks s"
  by (auto simp: list_ex_iff breaks_def is_line_end_def)

lemma json_string_breaks: "\<not> list_ex breaks (json_string s)"
proof -
  have low: "list_all (\<lambda>n. \<not> list_ex breaks (json_char (char_of n))) [0..<32]" by code_simp
  have "\<not> list_ex breaks (json_char c)" for c
  proof (cases "(of_char c :: nat) < 32")
    case True
    then have "(of_char c :: nat) \<in> set [0..<32]" by simp
    with low have "\<not> list_ex breaks (json_char (char_of (of_char c :: nat)))" unfolding list_all_iff by blast
    then show ?thesis by simp
  next
    case False
    then have "\<not> breaks c" by (auto simp: breaks_def)
    moreover have "json_char c \<in> {[CHR 0x5C, c], [c]}" using False by (auto simp: json_char_def Let_def)
    ultimately show ?thesis by (auto simp: breaks_def)
  qed
  then have "\<not> list_ex breaks (concat (map json_char s))" by (induction s) auto
  then show ?thesis by (simp add: json_string_def breaks_def)
qed

lemma number_breaks:
  "\<not> list_ex breaks (digits_of s)" "\<not> list_ex breaks (int_part s)" "\<not> list_ex breaks (frac_part s)" "\<not> list_ex breaks (exp_part s)"
proof -
  show d: "\<not> list_ex breaks (digits_of s)" for s
    by (auto simp: digits_of_def list_ex_iff breaks_def is_decimal_def dest!: set_takeWhileD)
  show "\<not> list_ex breaks (int_part s)" using d by (simp add: int_part_def breaks_def)
  show "\<not> list_ex breaks (frac_part s)" using d by (cases s) (auto simp: frac_part_def breaks_def)
  show "\<not> list_ex breaks (exp_part s)"
  proof (cases s)
    case (Cons c t)
    then show ?thesis using d by (cases t) (auto simp: exp_part_def breaks_def Let_def)
  qed (simp add: exp_part_def)
qed

lemma scan_number_breaks: "scan_number s = Some (PFloat r, t) \<Longrightarrow> \<not> list_ex breaks r"
  by (auto simp: scan_number_def number_parts_def Let_def number_breaks breaks_def split: if_splits)

lemma json_dumps_breaks: "json_ok v \<Longrightarrow> \<not> list_ex breaks (json_dumps v)"
proof (induction v rule: json_dumps.induct)
  case (6 xs)
  then show ?case by (auto simp: list_all_iff no_breaks dest!: list_ex_join)
next
  case (7 d)
  have "\<not> list_ex breaks (json_string (fst kv) @ '': '' @ json_dumps (snd kv))" if "kv \<in> set d" for kv
    using 7 that json_string_breaks [of "fst kv"] by (cases kv) (auto simp: list_all_iff no_breaks)
  then show ?case by (auto simp: no_breaks dest!: list_ex_join)
qed (auto simp: breaks_line_end int_str_line json_float_def json_string_breaks no_breaks dest: scan_number_breaks)

lemma byte_lines_line:
  "\<not> list_ex breaks l \<Longrightarrow> byte_lines_acc acc (l @ CHR 0x0A # rest) = (rev acc @ l) # byte_lines_acc [] rest"
  by (induction l arbitrary: acc) (auto simp: breaks_def)

lemma byte_lines_file:
  "\<forall>d\<in>set ds. json_ok (PDict d) \<Longrightarrow> byte_lines (journal_file ds) = map (\<lambda>d. json_dumps (PDict d)) ds"
proof (induction ds)
  case (Cons d ds)
  then show ?case using byte_lines_line [of "json_dumps (PDict d)" "[]"] json_dumps_breaks [of "PDict d"]
    by (simp add: byte_lines_def journal_file_def json_line_def del: json_dumps.simps)
qed (simp add: byte_lines_def journal_file_def)

section \<open>What is written is read back\<close>

lemma keys_dict_put: "set (map fst (dict_put d k v)) = insert k (set (map fst d))"
  by (induction d k v rule: dict_put.induct) auto

lemma distinct_dict_put: "distinct (map fst d) \<Longrightarrow> distinct (map fst (dict_put d k v))"
  by (induction d k v rule: dict_put.induct) (use keys_dict_put in \<open>auto simp flip: set_map\<close>)

lemma values_dict_put: "kv \<in> set (dict_put d k v) \<Longrightarrow> kv = (k, v) \<or> kv \<in> set d"
  by (induction d k v rule: dict_put.induct) (auto split: if_splits)

lemma json_ok_dict_put: "json_ok (PDict d) \<Longrightarrow> json_ok v \<Longrightarrow> json_ok (PDict (dict_put d k v))"
  by (auto simp: distinct_dict_put list_all_iff dest: values_dict_put)

text \<open>An open journal and the requests it is given.\<close>

definition identity_ok :: "journal_identity \<Rightarrow> bool" where
  "identity_ok j \<longleftrightarrow> ji_schema j \<in> set [3, 4] \<and> lower_hex 32 (ji_turn_id j) \<and> owner_error (PDict (ji_owner j)) = None \<and>
     distinct (map fst (ji_owner j))"

definition request_ok :: "request \<Rightarrow> bool" where
  "request_ok q \<longleftrightarrow> (case q of (state, payload, ts) \<Rightarrow>
     state \<noteq> [] \<and> json_ok (PDict payload) \<and> ''checksum'' \<notin> set (map fst payload) \<and> json_ok ts)"

lemma owner_values:
  assumes "owner_error (PDict d) = None"
  shows "list_all (\<lambda>kv. is_text (snd kv)) d" "set (map fst d) = set owner_keys"
  using assms by (auto simp: owner_error_def split: if_splits)

lemma is_text_ok: "is_text v \<Longrightarrow> json_ok v"
  by (cases v) (auto simp: is_text_def)

lemma owner_ok:
  assumes "identity_ok j"
  shows "json_ok (PDict (ji_owner j))"
proof -
  have "list_all (\<lambda>kv. is_text (snd kv)) (ji_owner j)" "distinct (map fst (ji_owner j))"
    using assms owner_values by (auto simp: identity_ok_def)
  then show "json_ok (PDict (ji_owner j))"
    using is_text_ok by (auto simp: list_all_iff)
qed

lemma record_fields_put:
  "record_fields j n previous (state, payload, ts) =
     dict_put (dict_put (dict_put (dict_put (dict_put (dict_put (dict_put (dict_put (dict_put payload
       ''v'' (PInt (ji_schema j))) ''turn_id'' (PStr (ji_turn_id j))) ''sequence'' (PInt (int n))) ''state'' (PStr state))
       ''ts'' ts) ''pid'' (PInt (ji_pid j))) ''process_token'' (PStr (ji_process_token j))) ''owner'' (PDict (ji_owner j)))
       ''previous_checksum'' (PStr previous)"
  by (simp add: record_fields_def)

lemma record_fields_ok:
  assumes "identity_ok j" "request_ok q"
  shows "json_ok (PDict (record_fields j n previous q))" and "''checksum'' \<notin> set (map fst (record_fields j n previous q))"
proof -
  obtain state payload ts where q: "q = (state, payload, ts)" by (cases q)
  note ok = assms(2) [unfolded request_ok_def q prod.case]
  show "json_ok (PDict (record_fields j n previous q))"
    unfolding q record_fields_put using ok owner_ok [OF assms(1)]
    by (intro json_ok_dict_put) (simp_all del: json_ok.simps(3) add: json_ok.simps)
  show "''checksum'' \<notin> set (map fst (record_fields j n previous q))"
    unfolding q record_fields_put keys_dict_put using ok by simp
qed

lemma drop_key_put: "k \<notin> set (map fst d) \<Longrightarrow> drop_key k (dict_put d k v) = d"
  by (simp add: dict_put_new drop_key_def filter_id_conv) (metis image_eqI)

lemma written_record_facts:
  fixes sha :: "string \<Rightarrow> string" and n :: nat and previous :: string
  assumes "identity_ok j" "request_ok q"
  defines "d \<equiv> written_record sha j n previous q"
  shows "json_ok (PDict d)"
    and "dict_get d ''v'' PNone = PInt (ji_schema j)" "dict_get d ''sequence'' PNone = PInt (int n)"
    and "dict_get d ''state'' PNone = PStr (fst q)" "dict_get d ''turn_id'' PNone = PStr (ji_turn_id j)"
    and "dict_get d ''owner'' PNone = PDict (ji_owner j)" "dict_get d ''previous_checksum'' PNone = PStr previous"
    and "dict_get d ''checksum'' PNone = PStr (record_checksum sha (record_fields j n previous q))"
    and "drop_key ''checksum'' d = record_fields j n previous q"
proof -
  obtain state payload ts where q: "q = (state, payload, ts)" by (cases q)
  have d: "d = dict_put (record_fields j n previous q) ''checksum'' (PStr (record_checksum sha (record_fields j n previous q)))"
    by (simp add: d_def written_record_def Let_def)
  show "json_ok (PDict d)"
    unfolding d using record_fields_ok(1) [OF assms(1,2)] by (intro json_ok_dict_put) simp_all
  show "drop_key ''checksum'' d = record_fields j n previous q"
    unfolding d using record_fields_ok(2) [OF assms(1,2)] by (rule drop_key_put)
  show "dict_get d ''v'' PNone = PInt (ji_schema j)" "dict_get d ''sequence'' PNone = PInt (int n)"
    "dict_get d ''state'' PNone = PStr (fst q)" "dict_get d ''turn_id'' PNone = PStr (ji_turn_id j)"
    "dict_get d ''owner'' PNone = PDict (ji_owner j)" "dict_get d ''previous_checksum'' PNone = PStr previous"
    "dict_get d ''checksum'' PNone = PStr (record_checksum sha (record_fields j n previous q))"
    by (simp_all add: d q record_fields_put)
qed

text \<open>What the reader knows after the records before the \<open>n\<close>th.\<close>

definition expects :: "journal_identity \<Rightarrow> nat \<Rightarrow> string \<Rightarrow> chain \<Rightarrow> bool" where
  "expects j n previous ch \<longleftrightarrow> ch_sequence ch = n \<and> ch_previous ch = previous \<and>
     ch_schema ch \<in> {None, Some (ji_schema j)} \<and> ch_owner ch \<in> {None, Some (ji_owner j)}"

lemma same_owner_refl [simp]: "same_owner a a"
  by (simp add: same_owner_def list_all_iff)

lemma record_error_written:
  assumes sha: "\<And>s. lower_hex 64 (sha s)" and ok: "identity_ok j" "request_ok q" and ch: "expects j n previous ch"
  shows "record_error sha ch (written_record sha j n previous q) =
    (if all_finite (PDict (written_record sha j n previous q)) then None else Some ''invalid_record_encoding'')"
proof -
  note facts = written_record_facts [OF ok, of sha n previous]
  have "fst q \<noteq> []" using ok(2) by (cases q) (simp add: request_ok_def)
  then have state: "text_value (PStr (fst q))" by (simp add: text_value_def)
  have j: "ji_schema j = 3 \<or> ji_schema j = 4" "lower_hex 32 (ji_turn_id j)" "owner_error (PDict (ji_owner j)) = None"
    using ok(1) by (auto simp: identity_ok_def)
  have sum: "lower_hex 64 (record_checksum sha (record_fields j n previous q))" unfolding record_checksum_def by (rule sha)
  have owner: "owner_of (written_record sha j n previous q) = ji_owner j" by (simp add: owner_of_def facts)
  have finite: "all_finite (PDict (written_record sha j n previous q)) = all_finite (PDict (record_fields j n previous q))"
    using facts(9) dict_put_new [OF record_fields_ok(2) [OF ok, of n previous]]
    by (simp add: written_record_def Let_def)
  from ch show ?thesis
    using j state sum finite
    unfolding record_error_def Let_def facts owner expects_def
    by (auto simp: is_text_def simp del: all_finite.simps)
qed

lemma expects_next:
  assumes "identity_ok j" "request_ok q" "expects j n previous ch"
  shows "expects j (Suc n) (record_checksum sha (record_fields j n previous q)) (next_chain ch (written_record sha j n previous q))"
  using assms(3) unfolding expects_def next_chain_def owner_of_def written_record_facts [OF assms(1,2)]
  by (auto simp: int_of_def)

text \<open>What the reader's limits allow.\<close>

definition line_fits :: "pydict \<Rightarrow> bool" where
  "line_fits d \<longleftrightarrow> byte_size (json_dumps (PDict d)) \<le> max_line_bytes \<and> all_finite (PDict d)"

definition journal_fits :: "pydict list \<Rightarrow> bool" where
  "journal_fits ds \<longleftrightarrow> byte_size (journal_file ds) \<le> max_bytes \<and> length ds \<le> max_records \<and> list_all line_fits ds"

lemma verify_written:
  assumes sha: "\<And>s. lower_hex 64 (sha s)" and j: "identity_ok j" and q: "list_all request_ok qs" and ch: "expects j n previous ch"
  shows "if list_all line_fits (written_from sha j n previous qs)
    then verify_lines sha ch (map (\<lambda>d. json_dumps (PDict d)) (written_from sha j n previous qs)) =
      Inr (map canonical_state (written_from sha j n previous qs))
    else \<exists>e. verify_lines sha ch (map (\<lambda>d. json_dumps (PDict d)) (written_from sha j n previous qs)) = Inl e"
  using q ch
proof (induction qs arbitrary: n previous ch)
  case (Cons q qs)
  let ?d = "written_record sha j n previous q"
  let ?ds = "written_from sha j (Suc n) (record_checksum sha (record_fields j n previous q)) qs"
  from Cons.prems have q: "request_ok q" by simp
  have load: "json_loads (json_dumps (PDict ?d)) = Inr (PDict ?d)"
    by (rule json_roundtrip) (rule written_record_facts(1) [OF j q])
  have err: "record_error sha ch ?d = (if all_finite (PDict ?d) then None else Some ''invalid_record_encoding'')"
    by (rule record_error_written [OF sha j q Cons.prems(2)])
  have rest: "if list_all line_fits ?ds
    then verify_lines sha (next_chain ch ?d) (map (\<lambda>d. json_dumps (PDict d)) ?ds) = Inr (map canonical_state ?ds)
    else \<exists>e. verify_lines sha (next_chain ch ?d) (map (\<lambda>d. json_dumps (PDict d)) ?ds) = Inl e"
    using Cons.prems(1) by (intro Cons.IH expects_next [OF j q Cons.prems(2)]) simp_all
  have step: "verify_lines sha ch (map (\<lambda>d. json_dumps (PDict d)) (?d # ?ds)) =
      (if byte_size (json_dumps (PDict ?d)) > max_line_bytes then Inl ''record_too_large''
       else if \<not> all_finite (PDict ?d) then Inl ''invalid_record_encoding''
       else bind_res (verify_lines sha (next_chain ch ?d) (map (\<lambda>d. json_dumps (PDict d)) ?ds)) (\<lambda>rs. Inr (canonical_state ?d # rs)))"
    using load err by (simp del: json_dumps.simps all_finite.simps)
  show ?case
  proof (cases "line_fits ?d")
    case True
    then have "byte_size (json_dumps (PDict ?d)) \<le> max_line_bytes" "all_finite (PDict ?d)" by (simp_all add: line_fits_def)
    with rest True show ?thesis unfolding written_from.simps step
      by (cases "list_all line_fits ?ds") (auto simp del: json_dumps.simps all_finite.simps)
  next
    case False
    then have "byte_size (json_dumps (PDict ?d)) > max_line_bytes \<or> \<not> all_finite (PDict ?d)" by (auto simp: line_fits_def)
    with False show ?thesis unfolding written_from.simps step by (auto simp del: json_dumps.simps all_finite.simps)
  qed
qed simp

lemma written_from_ok:
  "identity_ok j \<Longrightarrow> list_all request_ok qs \<Longrightarrow> d \<in> set (written_from sha j n previous qs) \<Longrightarrow>
   json_ok (PDict d) \<and> dict_get d ''turn_id'' PNone = PStr (ji_turn_id j)"
  by (induction sha j n previous qs rule: written_from.induct) (auto simp: written_record_facts simp del: json_ok.simps)

lemma journal_file_append: "journal_file (xs @ ys) = journal_file xs @ journal_file ys"
  by (simp add: journal_file_def)

lemma journal_file_last: "ds \<noteq> [] \<Longrightarrow> journal_file ds \<noteq> [] \<and> last (journal_file ds) = CHR 0x0A"
proof -
  assume "ds \<noteq> []"
  then obtain xs x where "ds = xs @ [x]" by (cases ds rule: rev_cases) auto
  then show ?thesis by (simp add: journal_file_def json_line_def)
qed

lemma byte_size_append: "byte_size (s @ t) = byte_size s + byte_size t"
  by (simp add: byte_size_def)

lemma written_turn_id:
  assumes "identity_ok j" "list_all request_ok qs" "d \<in> set (map canonical_state (written_from sha j n previous qs))"
  shows "dict_get d ''turn_id'' PNone = PStr (ji_turn_id j)"
  using assms written_from_ok [OF assms(1,2)] by (auto simp: canonical_state_def)

lemma load_written:
  assumes "\<And>s. lower_hex 64 (sha s)" "identity_ok j" "list_all request_ok qs" "qs \<noteq> []"
  shows "if journal_fits (written_from sha j 0 [] qs)
    then load_verified sha (journal_file (written_from sha j 0 [] qs)) = Inr (map canonical_state (written_from sha j 0 [] qs))
    else \<exists>e. load_verified sha (journal_file (written_from sha j 0 [] qs)) = Inl e"
proof -
  let ?ds = "written_from sha j 0 [] qs" and ?rs = "map canonical_state (written_from sha j 0 [] qs)"
  let ?ch = "\<lparr>ch_sequence = 0, ch_previous = [], ch_schema = None, ch_owner = None\<rparr>"
  have "?ds \<noteq> []" using assms(4) by (cases qs) simp_all
  moreover have lines: "byte_lines (journal_file ?ds) = map (\<lambda>d. json_dumps (PDict d)) ?ds"
    using written_from_ok [OF assms(2,3)] by (intro byte_lines_file) blast
  moreover have "if list_all line_fits ?ds
      then verify_lines sha ?ch (map (\<lambda>d. json_dumps (PDict d)) ?ds) = Inr ?rs
      else \<exists>e. verify_lines sha ?ch (map (\<lambda>d. json_dumps (PDict d)) ?ds) = Inl e"
    by (intro verify_written assms(1-3)) (simp add: expects_def)
  moreover have "\<not> list_ex (\<lambda>d. dict_get d ''turn_id'' PNone \<noteq> dict_get (hd ?rs) ''turn_id'' PNone) ?rs"
  proof -
    have "dict_get d ''turn_id'' PNone = PStr (ji_turn_id j)" if "d \<in> set ?rs" for d
      using written_turn_id [OF assms(2,3) that] .
    moreover have "hd ?rs \<in> set ?rs" using \<open>?ds \<noteq> []\<close> by (intro hd_in_set) simp
    ultimately show ?thesis unfolding list_ex_iff by metis
  qed
  moreover have "length (byte_lines (journal_file ?ds)) = length ?ds" using lines by simp
  ultimately show ?thesis
    using journal_file_last [of ?ds] by (auto simp: load_verified_def journal_fits_def split: if_splits)
qed

section \<open>A torn file\<close>

lemma breaks_free_prefix:
  assumes "\<not> list_ex breaks l" "prefix p (l @ [CHR 0x0A])" "p \<noteq> []" "last p = CHR 0x0A"
  shows "p = l @ [CHR 0x0A]"
proof (rule ccontr)
  assume "p \<noteq> l @ [CHR 0x0A]"
  with assms(2) have "prefix p l" by (simp add: prefix_snoc)
  then have "set p \<subseteq> set l" by (rule set_mono_prefix)
  with assms(3) have "last p \<in> set l" by auto
  with assms(1,4) show False by (auto simp: list_ex_iff breaks_def)
qed

text \<open>A prefix of the file that ends with a line end consists of whole records.\<close>

lemma journal_prefix:
  assumes "\<forall>d\<in>set ds. json_ok (PDict d)" "prefix p (journal_file ds)" "p \<noteq> []" "last p = CHR 0x0A"
  shows "\<exists>k. 0 < k \<and> k \<le> length ds \<and> p = journal_file (take k ds)"
  using assms
proof (induction ds arbitrary: p)
  case (Cons d ds)
  let ?l = "json_dumps (PDict d)"
  have l: "\<not> list_ex breaks ?l" using Cons.prems(1) by (intro json_dumps_breaks) simp
  have whole: "journal_file (d # ds) = (?l @ [CHR 0x0A]) @ journal_file ds"
    by (simp add: journal_file_def json_line_def del: json_dumps.simps)
  consider "prefix p (?l @ [CHR 0x0A])" | q where "p = (?l @ [CHR 0x0A]) @ q" "prefix q (journal_file ds)" "q \<noteq> []"
    using Cons.prems(2) unfolding whole prefix_append by fastforce
  then show ?case
  proof cases
    case 1
    with Cons.prems l have "p = ?l @ [CHR 0x0A]" by (intro breaks_free_prefix) auto
    then show ?thesis by (intro exI [of _ 1]) (simp add: journal_file_def json_line_def)
  next
    case 2
    then have "last q = CHR 0x0A" using Cons.prems(4) by simp
    with Cons.IH [of q] Cons.prems(1) 2 obtain k where "0 < k" "k \<le> length ds" "q = journal_file (take k ds)" by auto
    then show ?thesis using 2(1) by (intro exI [of _ "Suc k"]) (simp add: journal_file_def json_line_def)
  qed
qed (simp add: journal_file_def)

lemma take_written: "take k (written_from sha j n previous qs) = written_from sha j n previous (take k qs)"
  by (induction sha j n previous qs arbitrary: k rule: written_from.induct) (simp_all add: take_Cons' )

lemma written_length [simp]: "length (written_from sha j n previous qs) = length qs"
  by (induction sha j n previous qs rule: written_from.induct) simp_all

lemma journal_fits_take: "journal_fits ds \<Longrightarrow> byte_size (journal_file (take k ds)) \<le> max_bytes \<Longrightarrow> journal_fits (take k ds)"
  by (auto simp: journal_fits_def list_all_iff dest: in_set_takeD)

lemma prefix_loads:
  assumes sha: "\<And>s. lower_hex 64 (sha s)" and j: "identity_ok j" "list_all request_ok qs"
    and p: "prefix p (journal_file (written_from sha j 0 [] qs))"
  shows "(\<exists>e. load_verified sha p = Inl e \<and> (journal_fits (written_from sha j 0 [] qs) \<longrightarrow> e = ''journal_truncated'')) \<or>
     (\<exists>k. load_verified sha p = Inr (map canonical_state (take k (written_from sha j 0 [] qs))))"
proof -
  let ?ds = "written_from sha j 0 [] qs"
  have size: "journal_fits ?ds \<Longrightarrow> byte_size p \<le> max_bytes"
    using p by (auto simp: prefix_def journal_fits_def byte_size_append)
  show ?thesis
  proof (cases "p = [] \<or> last p \<noteq> CHR 0x0A")
    case True
    then show ?thesis using size by (auto simp: load_verified_def)
  next
    case False
    then obtain k where k: "0 < k" "k \<le> length ?ds" "p = journal_file (take k ?ds)"
      using journal_prefix [OF _ p] written_from_ok [OF j] by blast
    have ds: "take k ?ds = written_from sha j 0 [] (take k qs)" by (rule take_written)
    have "take k qs \<noteq> []" "list_all request_ok (take k qs)"
      using k j(2) by (auto simp: list_all_iff dest: in_set_takeD)
    from load_written [OF sha j(1) this(2,1)]
    have "if journal_fits (take k ?ds) then load_verified sha p = Inr (map canonical_state (take k ?ds))
        else \<exists>e. load_verified sha p = Inl e"
      unfolding k(3) ds .
    moreover have "journal_fits ?ds \<Longrightarrow> journal_fits (take k ?ds)"
      using journal_fits_take size k(3) by blast
    ultimately show ?thesis by (cases "journal_fits (take k ?ds)") auto
  qed
qed

section \<open>The loop without a failed synchronisation\<close>

definition synced :: "(request \<times> append_outcome) list \<Rightarrow> request list" where
  "synced as = map fst (filter (\<lambda>a. snd a = Synced) as)"

lemma writer_fold_records:
  "list_all (\<lambda>a. snd a \<noteq> Unsynced) as \<Longrightarrow>
   wr_records (fold (writer_step sha j) as w) = wr_records w @ written_from sha j (wr_sequence w) (wr_previous w) (synced as)"
proof (induction as arbitrary: w)
  case (Cons a as)
  then show ?case by (cases a; cases "snd a") (simp_all add: writer_step_def synced_def)
qed (simp add: synced_def)

lemma writer_run_records:
  "list_all (\<lambda>a. snd a \<noteq> Unsynced) as \<Longrightarrow> wr_records (writer_run sha j as) = written_from sha j 0 [] (synced as)"
  by (simp add: writer_run_def writer_fold_records new_writer_def)

text \<open>C12. What the writer of a turn journal has written is what the loader returns (legacy state names
  replaced) exactly when the file is within the loader's limits (16 MiB, 10,000 records, 1 MiB a line)
  and no record contains an infinity or a NaN; the writer enforces neither, and such a file is refused.
  Appends may be refused in between, but none fails after its line was written. Requests have a
  state, a payload of JSON values without the key \<open>checksum\<close>, and a time stamp. A file that was cut
  anywhere is refused (as truncated, when the whole file is within the limits) or read as its first
  records: a crash while a record is appended never makes the loader return anything else.\<close>

theorem journal_reads_back:
  assumes "\<And>s. lower_hex 64 (sha s)" "identity_ok j" "list_all (\<lambda>a. request_ok (fst a) \<and> snd a \<noteq> Unsynced) as"
    and "records = wr_records (writer_run sha j as)" "records \<noteq> []" and "prefix torn (journal_file records)"
  shows "(load_verified sha (journal_file records) = Inr (map canonical_state records) \<longleftrightarrow> journal_fits records) \<and>
     (\<not> journal_fits records \<longrightarrow> (\<exists>e. load_verified sha (journal_file records) = Inl e)) \<and>
     ((\<exists>e. load_verified sha torn = Inl e \<and> (journal_fits records \<longrightarrow> e = ''journal_truncated'')) \<or>
      (\<exists>k. load_verified sha torn = Inr (map canonical_state (take k records))))"
proof -
  have clean: "list_all (\<lambda>a. snd a \<noteq> Unsynced) as" and ok: "list_all request_ok (synced as)"
    using assms(3) by (auto simp: list_all_iff synced_def)
  have records: "records = written_from sha j 0 [] (synced as)" using writer_run_records [OF clean] assms(4) by simp
  with assms(5) have ne: "synced as \<noteq> []" by auto
  show ?thesis
    using load_written [of sha, OF assms(1,2) ok ne] prefix_loads [of sha, OF assms(1,2) ok assms(6) [unfolded records]]
    unfolding records by (auto split: if_splits)
qed

definition sample_identity :: journal_identity where
  "sample_identity = \<lparr>ji_schema = 4, ji_turn_id = replicate 32 (CHR ''a''), ji_pid = 17, ji_process_token = ''p'',
     ji_owner = [(''project_id'', PStr ''p''), (''session_id'', PStr ''s''), (''run_id'', PStr ''r''), (''workspace'', PStr ''/w''),
       (''nonce'', PStr (replicate 32 (CHR ''b'')))]\<rparr>"

definition sample_requests :: "request list" where
  "sample_requests = [(''discovered'', [(''ordinal'', PInt 0), (''tool'', PStr ''write'')], PFloat ''1.5''),
     (''external_outcome'', [], PFloat ''2.5'')]"

definition sample_sha :: "string \<Rightarrow> string" where
  "sample_sha s = replicate 64 (if even (length s) then CHR ''0'' else CHR ''1'')"

lemma sample_sha_hex: "lower_hex 64 (sample_sha s)"
  by (simp add: lower_hex_def sample_sha_def list_all_iff)

lemma byte_size_bound: "byte_size s \<le> 2 * length s"
  using length_filter_le [of "\<lambda>c. 128 \<le> (of_char c :: nat)" s] by (simp add: byte_size_def)

lemma journal_fits_small:
  assumes "list_all (\<lambda>d. length (json_dumps (PDict d)) < n \<and> all_finite (PDict d)) ds" "2 * n \<le> max_line_bytes"
    "length ds \<le> max_records" "2 * (n * length ds) \<le> max_bytes"
  shows "journal_fits ds"
proof -
  have "length (journal_file ds) \<le> n * length ds"
    using assms(1) by (induction ds) (auto simp: journal_file_def json_line_def simp del: json_dumps.simps all_finite.simps)
  with byte_size_bound [of "journal_file ds"] assms(4) have "byte_size (journal_file ds) \<le> max_bytes" by linarith
  moreover have "line_fits d" if "d \<in> set ds" for d
    using byte_size_bound [of "json_dumps (PDict d)"] assms(1,2) that unfolding list_all_iff line_fits_def by fastforce
  ultimately show ?thesis using assms(3) unfolding journal_fits_def list_all_iff by blast
qed

lemma sample_lengths:
  "list_all (\<lambda>d. length (json_dumps (PDict d)) < 600 \<and> all_finite (PDict d))
    (written_from sample_sha sample_identity 0 [] sample_requests)"
  by code_simp

lemma sample_fits: "journal_fits (written_from sample_sha sample_identity 0 [] sample_requests)"
  by (rule journal_fits_small [OF sample_lengths]) (simp_all add: max_line_bytes_def max_records_def max_bytes_def sample_requests_def)

text \<open>The two appends with one that is refused in between.\<close>

definition sample_appends :: "(request \<times> append_outcome) list" where
  "sample_appends = [(hd sample_requests, Synced), (hd sample_requests, Refused), (last sample_requests, Synced)]"

lemma sample_records:
  "wr_records (writer_run sample_sha sample_identity sample_appends) = written_from sample_sha sample_identity 0 [] sample_requests"
proof -
  have "synced sample_appends = sample_requests" by code_simp
  then show ?thesis using writer_run_records [of sample_appends] by (simp add: sample_appends_def)
qed

theorem journal_reads_back_witness:
  "load_verified sample_sha (journal_file (written_from sample_sha sample_identity 0 [] sample_requests)) =
     Inr (map canonical_state (written_from sample_sha sample_identity 0 [] sample_requests))"
proof -
  have a: "identity_ok sample_identity" "list_all (\<lambda>a. request_ok (fst a) \<and> snd a \<noteq> Unsynced) sample_appends" by code_simp+
  have b: "written_from sample_sha sample_identity 0 [] sample_requests \<noteq> []" by (simp add: sample_requests_def)
  show ?thesis
    using journal_reads_back [of sample_sha, OF sample_sha_hex a sample_records [symmetric] b Nil_prefix] sample_fits by blast
qed

section \<open>What a loaded journal is\<close>

definition sealed :: "(string \<Rightarrow> string) \<Rightarrow> pydict \<Rightarrow> bool" where
  "sealed sha d \<longleftrightarrow> dict_get d ''checksum'' PNone = PStr (record_checksum sha (drop_key ''checksum'' d))"

lemma record_error_None:
  assumes "record_error sha ch d = None"
  shows "dict_get d ''sequence'' PNone = PInt (int (ch_sequence ch))" "sealed sha d"
    and "dict_get d ''previous_checksum'' PNone = PStr (ch_previous ch)"
    and "case ch_owner ch of None \<Rightarrow> True | Some o' \<Rightarrow> same_owner (owner_of d) o'"
    and "text_value (dict_get d ''state'' PNone)"
proof -
  note e = assms [unfolded record_error_def Let_def]
  show "dict_get d ''sequence'' PNone = PInt (int (ch_sequence ch))" "text_value (dict_get d ''state'' PNone)"
    "dict_get d ''previous_checksum'' PNone = PStr (ch_previous ch)"
    using e by (auto split: if_splits)
  show "case ch_owner ch of None \<Rightarrow> True | Some o' \<Rightarrow> same_owner (owner_of d) o'"
    using e by (cases "ch_owner ch") (auto split: if_splits)
  have "is_text (dict_get d ''checksum'' PNone)" "text_of (dict_get d ''checksum'' PNone) = record_checksum sha (drop_key ''checksum'' d)"
    using e by (auto split: if_splits)
  then show "sealed sha d" by (cases "dict_get d ''checksum'' PNone") (auto simp: sealed_def is_text_def)
qed

lemma same_owner_trans: "same_owner a c \<Longrightarrow> same_owner b c \<Longrightarrow> same_owner a b"
  by (auto simp: same_owner_def list_all_iff)

text \<open>The \<open>i\<close>th record of a chain that starts in the state \<open>ch\<close>.\<close>

definition link :: "(string \<Rightarrow> string) \<Rightarrow> chain \<Rightarrow> pydict list \<Rightarrow> nat \<Rightarrow> bool" where
  "link sha ch ds i \<longleftrightarrow> sealed sha (ds ! i) \<and> text_value (dict_get (ds ! i) ''state'' PNone) \<and>
     dict_get (ds ! i) ''sequence'' PNone = PInt (int (ch_sequence ch + i)) \<and>
     dict_get (ds ! i) ''previous_checksum'' PNone =
       (if i = 0 then PStr (ch_previous ch) else dict_get (ds ! (i - 1)) ''checksum'' PNone) \<and>
     same_owner (owner_of (ds ! i)) (case ch_owner ch of None \<Rightarrow> owner_of (hd ds) | Some o' \<Rightarrow> o')"

lemma verify_chain:
  "verify_lines sha ch ls = Inr rs \<Longrightarrow>
   \<exists>ds. rs = map canonical_state ds \<and> map json_loads ls = map (\<lambda>d. Inr (PDict d)) ds \<and> (\<forall>i < length ds. link sha ch ds i)"
proof (induction sha ch ls arbitrary: rs rule: verify_lines.induct)
  case (2 sha ch l ls)
  from "2.prems" obtain d rs' where d: "json_loads l = Inr (PDict d)" "record_error sha ch d = None"
      "verify_lines sha (next_chain ch d) ls = Inr rs'" and rs: "rs = canonical_state d # rs'" and size: "\<not> byte_size l > max_line_bytes"
    by (auto simp: bind_res_Inr_iff split: if_splits sum.splits pyval.splits option.splits)
  from "2.IH" [OF size d(1) refl d(2,3)] obtain ds where ds: "rs' = map canonical_state ds" "map json_loads ls = map (\<lambda>d. Inr (PDict d)) ds"
      "\<forall>i < length ds. link sha (next_chain ch d) ds i" by blast
  note e = record_error_None [OF d(2)]
  have sum: "dict_get d ''checksum'' PNone = PStr (ch_previous (next_chain ch d))"
    using e(2) by (simp add: sealed_def next_chain_def)
  have "link sha ch (d # ds) i" if i: "i < length (d # ds)" for i
  proof (cases i)
    case 0
    then show ?thesis using e by (cases "ch_owner ch") (auto simp: link_def)
  next
    case (Suc m)
    with i ds(3) have l: "link sha (next_chain ch d) ds m" by simp
    have "same_owner (owner_of (ds ! m)) (case ch_owner ch of None \<Rightarrow> owner_of (hd (d # ds)) | Some o' \<Rightarrow> o')"
      using l by (cases "ch_owner ch") (auto simp: link_def next_chain_def)
    moreover have "(d # ds) ! Suc m = ds ! m" "(d # ds) ! (Suc m - 1) = (if m = 0 then d else ds ! (m - 1))"
      by (cases m; simp)+
    moreover have "ch_sequence (next_chain ch d) + m = ch_sequence ch + Suc m" by (simp add: next_chain_def)
    ultimately show ?thesis using l sum unfolding Suc link_def by (simp split: if_splits)
  qed
  then show ?case using rs ds d(1) by (intro exI [of _ "d # ds"]) simp
qed simp

lemma load_Inr:
  assumes "load_verified sha s = Inr rs"
  shows "\<exists>ds. rs = map canonical_state ds \<and> map json_loads (byte_lines s) = map (\<lambda>d. Inr (PDict d)) ds \<and>
     (\<forall>i < length ds. link sha \<lparr>ch_sequence = 0, ch_previous = [], ch_schema = None, ch_owner = None\<rparr> ds i) \<and>
     (\<forall>d\<in>set ds. dict_get d ''turn_id'' PNone = dict_get (hd ds) ''turn_id'' PNone)"
proof -
  let ?ch = "\<lparr>ch_sequence = 0, ch_previous = [], ch_schema = None, ch_owner = None\<rparr>"
  from assms have v: "verify_lines sha ?ch (byte_lines s) = Inr rs"
    and t: "\<not> list_ex (\<lambda>d. dict_get d ''turn_id'' PNone \<noteq> dict_get (hd rs) ''turn_id'' PNone) rs"
    by (auto simp: load_verified_def bind_res_Inr_iff split: if_splits)
  from verify_chain [OF v] obtain ds where ds: "rs = map canonical_state ds" "map json_loads (byte_lines s) = map (\<lambda>d. Inr (PDict d)) ds"
      "\<forall>i < length ds. link sha ?ch ds i" by blast
  have "dict_get d ''turn_id'' PNone = dict_get (hd ds) ''turn_id'' PNone" if "d \<in> set ds" for d
  proof -
    have "ds \<noteq> []" using that by auto
    then have "hd rs = canonical_state (hd ds)" by (simp add: ds(1) hd_map)
    with t that show ?thesis by (auto simp: ds(1) list_ex_iff canonical_state_def)
  qed
  with ds show ?thesis by blast
qed

text \<open>C13. A journal that the loader accepts is one unbroken chain by one owner: every record has its
  position as its sequence number, a checksum of the rest of itself and the checksum of the record
  before it, and all belong to one owner and one turn.\<close>

theorem loaded_journal_is_chain:
  assumes "load_verified sha s = Inr rs"
  shows "\<exists>ds. rs = map canonical_state ds \<and> (\<forall>i < length rs.
     sealed sha (ds ! i) \<and> dict_get (ds ! i) ''sequence'' PNone = PInt (int i) \<and>
     dict_get (ds ! i) ''previous_checksum'' PNone = (if i = 0 then PStr [] else dict_get (ds ! (i - 1)) ''checksum'' PNone) \<and>
     same_owner (owner_of (ds ! i)) (owner_of (ds ! 0)) \<and>
     dict_get (ds ! i) ''turn_id'' PNone = dict_get (ds ! 0) ''turn_id'' PNone)"
proof -
  from load_Inr [OF assms(1)] obtain ds where ds: "rs = map canonical_state ds"
      "\<forall>i < length ds. link sha \<lparr>ch_sequence = 0, ch_previous = [], ch_schema = None, ch_owner = None\<rparr> ds i"
      "\<forall>d\<in>set ds. dict_get d ''turn_id'' PNone = dict_get (hd ds) ''turn_id'' PNone" by blast
  have "hd ds = ds ! 0" if "i < length ds" for i using that by (intro hd_conv_nth) auto
  with ds show ?thesis by (intro exI [of _ ds]) (auto simp: link_def)
qed

theorem loaded_journal_is_chain_witness:
  "\<exists>ds. map canonical_state (written_from sample_sha sample_identity 0 [] sample_requests) = map canonical_state ds \<and>
     sealed sample_sha (ds ! 1) \<and> dict_get (ds ! 1) ''sequence'' PNone = PInt 1 \<and>
     dict_get (ds ! 1) ''previous_checksum'' PNone = dict_get (ds ! 0) ''checksum'' PNone"
proof -
  have ok: "identity_ok sample_identity" "list_all request_ok sample_requests" by code_simp+
  have ne: "sample_requests \<noteq> []" by (simp add: sample_requests_def)
  have "load_verified sample_sha (journal_file (written_from sample_sha sample_identity 0 [] sample_requests)) =
      Inr (map canonical_state (written_from sample_sha sample_identity 0 [] sample_requests))" (is "_ = Inr ?rs")
    using load_written [of sample_sha, OF sample_sha_hex ok ne] unfolding if_P [OF sample_fits] .
  from loaded_journal_is_chain [OF this] obtain ds where ds: "?rs = map canonical_state ds"
    and all: "\<forall>i < length ?rs. sealed sample_sha (ds ! i) \<and> dict_get (ds ! i) ''sequence'' PNone = PInt (int i) \<and>
      dict_get (ds ! i) ''previous_checksum'' PNone = (if i = 0 then PStr [] else dict_get (ds ! (i - 1)) ''checksum'' PNone)"
    by blast
  have "1 < length ?rs" by (simp add: sample_requests_def)
  with all have "sealed sample_sha (ds ! 1) \<and> dict_get (ds ! 1) ''sequence'' PNone = PInt 1 \<and>
      dict_get (ds ! 1) ''previous_checksum'' PNone = dict_get (ds ! 0) ''checksum'' PNone" by fastforce
  with ds show ?thesis by blast
qed

section \<open>A record whose synchronisation failed\<close>

text \<open>\<open>_writer_loop\<close> advances its sequence number after \<open>fsync\<close>. When that call fails, the line is in
  the file already, the next request is written with the same number, and the loader then refuses
  the whole journal, whatever is appended behind it.\<close>

lemma writer_run_append: "writer_run sha j (as @ bs) = fold (writer_step sha j) bs (writer_run sha j as)"
  by (simp add: writer_run_def)

lemma writer_fold_keeps: "\<exists>ds. wr_records (fold (writer_step sha j) as w) = wr_records w @ ds"
proof (induction as arbitrary: w)
  case (Cons a as)
  from Cons.IH [of "writer_step sha j a w"] obtain ds where
    "wr_records (fold (writer_step sha j) as (writer_step sha j a w)) = wr_records (writer_step sha j a w) @ ds" by blast
  moreover obtain es where "wr_records (writer_step sha j a w) = wr_records w @ es"
    by (cases "snd a") (simp_all add: writer_step_def Let_def)
  ultimately show ?case by simp
qed simp

text \<open>The next record that reaches the file carries the number of the writer.\<close>

lemma writer_fold_next:
  assumes "a \<in> set as" "snd a \<noteq> Refused"
  shows "\<exists>q\<in>fst ` set as. \<exists>ds. wr_records (fold (writer_step sha j) as w) =
    wr_records w @ written_record sha j (wr_sequence w) (wr_previous w) q # ds"
  using assms(1)
proof (induction as)
  case (Cons b as)
  show ?case
  proof (cases "snd b")
    case Refused
    with Cons.prems assms(2) have "a \<in> set as" by auto
    from Cons.IH [OF this] Refused show ?thesis by (auto simp: writer_step_def)
  next
    case Synced
    have "wr_records (writer_step sha j b w) = wr_records w @ [written_record sha j (wr_sequence w) (wr_previous w) (fst b)]"
      by (simp add: writer_step_def Let_def Synced)
    with writer_fold_keeps [of sha j as "writer_step sha j b w"] show ?thesis by auto
  next
    case Unsynced
    have "wr_records (writer_step sha j b w) = wr_records w @ [written_record sha j (wr_sequence w) (wr_previous w) (fst b)]"
      by (simp add: writer_step_def Let_def Unsynced)
    with writer_fold_keeps [of sha j as "writer_step sha j b w"] show ?thesis by auto
  qed
qed simp

lemma written_records_ok:
  assumes "identity_ok j" "list_all (\<lambda>a. request_ok (fst a)) as" "\<forall>d\<in>set (wr_records w). json_ok (PDict d)"
  shows "\<forall>d\<in>set (wr_records (fold (writer_step sha j) as w)). json_ok (PDict d)"
  using assms(2,3)
proof (induction as arbitrary: w)
  case (Cons a as)
  let ?d = "written_record sha j (wr_sequence w) (wr_previous w) (fst a)"
  have "set (wr_records (writer_step sha j a w)) \<subseteq> insert ?d (set (wr_records w))"
    by (cases "snd a") (auto simp: writer_step_def Let_def)
  moreover have "json_ok (PDict ?d)" using Cons.prems(1) by (intro written_record_facts(1) assms(1)) simp
  ultimately have "\<forall>d\<in>set (wr_records (writer_step sha j a w)). json_ok (PDict d)" using Cons.prems(2) by blast
  with Cons.prems(1) show ?case unfolding fold_simps by (intro Cons.IH) simp_all
qed simp

text \<open>The loader numbers the records of whatever it accepts.\<close>

lemma loaded_numbers:
  assumes "\<forall>d\<in>set es. json_ok (PDict d)" "load_verified sha (journal_file es) = Inr rs" "i < length es"
  shows "dict_get (es ! i) ''sequence'' PNone = PInt (int i)"
proof -
  from load_Inr [OF assms(2)] obtain ds where ds: "map json_loads (byte_lines (journal_file es)) = map (\<lambda>d. Inr (PDict d)) ds"
      "\<forall>i < length ds. link sha \<lparr>ch_sequence = 0, ch_previous = [], ch_schema = None, ch_owner = None\<rparr> ds i" by blast
  have "map (\<lambda>d. json_loads (json_dumps (PDict d))) es = map (\<lambda>d. Inr (PDict d)) es"
    using assms(1) json_roundtrip by (intro map_cong refl) blast
  with ds(1) byte_lines_file [OF assms(1)] have "map (\<lambda>d. Inr (PDict d)) ds = (map (\<lambda>d. Inr (PDict d)) es :: pyval py_result list)"
    by (simp add: comp_def del: json_dumps.simps)
  moreover have "inj (\<lambda>d. Inr (PDict d) :: pyval py_result)" by (simp add: inj_def)
  ultimately have "ds = es" by (metis inj_map_eq_map)
  with ds(2) assms(3) show ?thesis by (auto simp: link_def)
qed

text \<open>C39. When the flush or \<open>fsync\<close> of an append fails after the line was written, and any later append
  reaches the file, then no load of the journal ever succeeds again, whatever else is appended and
  however those appends end: the line after the failed one repeats its sequence number.\<close>

theorem failed_sync_loses_journal:
  assumes "identity_ok j" "list_all (\<lambda>a. request_ok (fst a)) as"
    and "as = before @ (q, Unsynced) # later" "a \<in> set later" "snd a \<noteq> Refused"
  shows "load_verified sha (journal_file (wr_records (writer_run sha j as))) \<noteq> Inr rs"
proof
  let ?w = "writer_run sha j before"
  let ?d = "written_record sha j (wr_sequence ?w) (wr_previous ?w) q"
  let ?es = "wr_records (writer_run sha j as)"
  assume load: "load_verified sha (journal_file ?es) = Inr rs"
  have run: "?es = wr_records (fold (writer_step sha j) later (?w\<lparr>wr_records := wr_records ?w @ [?d]\<rparr>))"
    by (simp add: assms(3) writer_run_append writer_step_def Let_def)
  let ?v = "?w\<lparr>wr_records := wr_records ?w @ [?d]\<rparr>"
  from writer_fold_next [OF assms(4,5), of sha j ?v] obtain q' ds where q': "q' \<in> fst ` set later"
    and "wr_records (fold (writer_step sha j) later ?v) = wr_records ?v @ written_record sha j (wr_sequence ?v) (wr_previous ?v) q' # ds"
    by blast
  then have es: "?es = wr_records ?w @ ?d # written_record sha j (wr_sequence ?w) (wr_previous ?w) q' # ds"
    by (simp add: run)
  have q: "request_ok q" "request_ok q'" using assms(2,3) q' by (auto simp: list_all_iff)
  have ok: "\<forall>d\<in>set ?es. json_ok (PDict d)"
    unfolding writer_run_def by (rule written_records_ok [OF assms(1,2)]) (simp add: new_writer_def)
  let ?n = "length (wr_records ?w)"
  have "dict_get (?es ! ?n) ''sequence'' PNone = PInt (int ?n)" "dict_get (?es ! Suc ?n) ''sequence'' PNone = PInt (int (Suc ?n))"
    by (rule loaded_numbers [OF ok load]; simp add: es)+
  then show False
    using written_record_facts(3) [OF assms(1) q(1), of sha "wr_sequence ?w" "wr_previous ?w"]
      written_record_facts(3) [OF assms(1) q(2), of sha "wr_sequence ?w" "wr_previous ?w"]
    by (simp add: es nth_append)
qed

theorem failed_sync_loses_journal_witness:
  "load_verified sample_sha (journal_file (wr_records (writer_run sample_sha sample_identity
     [(hd sample_requests, Synced), (last sample_requests, Unsynced), (hd sample_requests, Refused), (last sample_requests, Synced)]))) \<noteq> Inr []"
proof (rule failed_sync_loses_journal)
  show "identity_ok sample_identity" by code_simp
  show "list_all (\<lambda>a. request_ok (fst a)) [(hd sample_requests, Synced), (last sample_requests, Unsynced),
    (hd sample_requests, Refused), (last sample_requests, Synced)]" by code_simp
  show "[(hd sample_requests, Synced), (last sample_requests, Unsynced), (hd sample_requests, Refused), (last sample_requests, Synced)] =
    [(hd sample_requests, Synced)] @ (last sample_requests, Unsynced) # [(hd sample_requests, Refused), (last sample_requests, Synced)]" by simp
  show "(last sample_requests, Synced) \<in> set [(hd sample_requests, Refused), (last sample_requests, Synced)]" by simp
qed simp

end
