(* ===== verification/Tool_Batch.thy ===== *)
theory Tool_Batch
  imports Polaris_Prelude "HOL-Library.Sublist"
begin

text \<open>
  The scheduler of one tool round (\<^verbatim>\<open>agent_core/tools/executor.py\<close>, class \<open>StreamingToolBatch\<close>, and the
  conflict rules of \<open>ToolExecutor\<close>). Calls arrive while the model still streams, are prepared (hooks,
  permissions), wait for the calls they conflict with, run, and are reconciled with the final
  response. The event loop runs one coroutine at a time between two \<open>await\<close>s: each such stretch is an
  event, and \<open>batch_step\<close> gives the state after an event, or \<open>None\<close> when the event cannot happen.

  What the outside decides is part of an event: the outcome of a preparation, the result of a tool,
  whether a journal record is written, whether the workspace commit succeeds. The arguments of a call
  are represented by a text that is equal exactly for equal arguments. A tool that blocks runs in a worker
  thread which cannot be stopped: when its call exceeds its time limit the call is completed and the
  thread goes on (\<open>Timed_out\<close>, \<open>tc_left\<close>, \<open>Thread_over\<close>). Not modelled: the tool's own
  execution, the payloads of the journal, observation hooks and metrics. Paths are those of POSIX. \<open>abort\<close>, the invalidation of a turn and the
  reconciliation cancel the calls one after the other; each of them is one event here, and a round that
  was aborted marks its results as rolled back although \<open>abort\<close> drops them.
\<close>

section \<open>Resources and conflicts\<close>

datatype lock_mode = Read_lock | Write_lock

record resource_lock =
  lk_namespace :: string
  lk_key :: string
  lk_mode :: lock_mode
  lk_subtree :: bool
  lk_requires_success :: bool
  lk_materialize :: bool

record concurrency_spec =
  cs_locks :: "resource_lock list"
  cs_exclusive :: bool

text \<open>\<open>os.path.normpath\<close>, and the root and the parts of a \<open>PurePosixPath\<close>.\<close>

definition path_root :: "string \<Rightarrow> string" where
  "path_root p = (if startswith p ''//'' \<and> \<not> startswith p ''///'' then ''//'' else if startswith p ''/'' then ''/'' else [])"

definition norm_comp :: "string \<Rightarrow> string list \<Rightarrow> string \<Rightarrow> string list" where
  "norm_comp root' acc c =
     (if c = [] \<or> c = ''.'' then acc
      else if c \<noteq> ''..'' \<or> (root' = [] \<and> acc = []) \<or> (acc \<noteq> [] \<and> last acc = ''..'') then acc @ [c]
      else butlast acc)"

definition normpath :: "string \<Rightarrow> string" where
  "normpath p =
     (let r = path_root p; s = r @ join_str ''/'' (fold (\<lambda>c acc. norm_comp r acc c) (split_char (CHR ''/'') p) [])
      in if s = [] then ''.'' else s)"

definition pure_parts :: "string \<Rightarrow> string \<times> string list" where
  "pure_parts p = (path_root p, filter (\<lambda>c. c \<noteq> [] \<and> c \<noteq> ''.'') (split_char (CHR ''/'') p))"

definition is_child_key :: "string \<Rightarrow> string \<Rightarrow> bool" where
  "is_child_key candidate parent \<longleftrightarrow>
     fst (pure_parts candidate) = fst (pure_parts parent) \<and> prefix (snd (pure_parts parent)) (snd (pure_parts candidate))"

definition resource_keys_overlap :: "resource_lock \<Rightarrow> resource_lock \<Rightarrow> bool" where
  "resource_keys_overlap l r =
     (let lk = normpath (lk_key l); rk = normpath (lk_key r)
      in lk = rk \<or> lk_subtree l \<and> is_child_key rk lk \<or> lk_subtree r \<and> is_child_key lk rk)"

definition locks_conflict :: "resource_lock \<Rightarrow> resource_lock \<Rightarrow> bool" where
  "locks_conflict l r \<longleftrightarrow> lk_namespace l = lk_namespace r \<and> \<not> (lk_mode l = Read_lock \<and> lk_mode r = Read_lock) \<and>
     resource_keys_overlap l r"

definition conflicts :: "concurrency_spec \<Rightarrow> concurrency_spec \<Rightarrow> bool" where
  "conflicts l r \<longleftrightarrow> cs_exclusive l \<or> cs_exclusive r \<or>
     list_ex (\<lambda>a. list_ex (\<lambda>b. locks_conflict a b) (cs_locks r)) (cs_locks l)"

definition requires_success :: "concurrency_spec \<Rightarrow> concurrency_spec \<Rightarrow> bool" where
  "requires_success earlier later \<longleftrightarrow>
     list_ex (\<lambda>a. list_ex (\<lambda>b. locks_conflict a b \<and> lk_requires_success b) (cs_locks later)) (cs_locks earlier)"

section \<open>Policies and calls\<close>

datatype execution_safety = SPECULATIVE_SAFE | TRANSACTIONAL | FINAL_ONLY

record policy =
  po_safety :: execution_safety
  po_spec :: concurrency_spec
  po_backend :: "string option"

text \<open>\<open>ToolExecutionPolicy()\<close>, and what \<open>_prepare\<close> makes of the policy a tool declares.\<close>

definition default_policy :: policy where
  "default_policy = \<lparr>po_safety = FINAL_ONLY, po_spec = \<lparr>cs_locks = [], cs_exclusive = True\<rparr>, po_backend = None\<rparr>"

definition admit_policy :: "policy \<Rightarrow> policy" where
  "admit_policy p =
     (let p1 = (if po_safety p = TRANSACTIONAL \<and> po_backend p \<noteq> Some ''workspace'' then default_policy else p)
      in if po_safety p1 = TRANSACTIONAL \<and>
            \<not> list_ex (\<lambda>l. lk_namespace l = ''fs'' \<and> lk_mode l = Write_lock) (cs_locks (po_spec p1))
         then p1\<lparr>po_safety := FINAL_ONLY, po_backend := None\<rparr> else p1)"

record tool_call =
  tl_id :: "string option"
  tl_name :: string
  tl_arguments :: string

definition same_call :: "tool_call \<Rightarrow> tool_call \<Rightarrow> bool" where
  "same_call l r \<longleftrightarrow> tl_id l = tl_id r \<and> tl_name l = tl_name r \<and> tl_arguments l = tl_arguments r"

record prepared_call =
  pc_policy :: policy
  pc_provisional :: bool
  pc_deferred :: bool

record call_result =
  cr_ok :: bool
  cr_error :: string
  cr_overlay :: bool
  cr_task :: string
  cr_lease :: bool

definition failure :: "string \<Rightarrow> call_result" where
  "failure e = \<lparr>cr_ok = False, cr_error = e, cr_overlay = False, cr_task = [], cr_lease = False\<rparr>"

datatype call_state = Preparing | Queued | Running | Cancelling | Completed

text \<open>The coroutine behind \<open>execution_task\<close> (\<open>_execute\<close>, \<open>_complete_dependency_failure\<close>,
  \<open>_complete_cancelled\<close>) and where the coroutine behind \<open>preparation_task\<close> is.\<close>

datatype task = Run_tool | Skip_tool string | Report_cancelled

datatype preparation = Not_begun | Waiting_for "nat option" | In_preparation bool | Prepared

record tracked_call =
  tc_ordinal :: nat
  tc_call :: tool_call
  tc_streamed :: bool
  tc_explicit :: bool
  tc_state :: call_state
  tc_prepared :: "prepared_call option"
  tc_result :: "call_result option"
  tc_raised :: bool
  tc_preparation :: preparation
  tc_task :: "task option"
  tc_done :: bool
  tc_cancel :: bool
  tc_dependencies :: "nat list"
  tc_hard :: "nat list"
  tc_hint :: execution_safety
  tc_left :: bool

text \<open>Where \<open>finish\<close> is: before its call, at one of its \<open>await\<close>s, or behind its end.\<close>

datatype phase =
    Streaming | Validating | Awaiting_prepared | Authorizing "nat list" | Precommit | Draining | Invalidating | Closed

record batch =
  bt_parallel :: bool
  bt_workers :: nat
  bt_hint :: "string \<Rightarrow> execution_safety"
  bt_calls :: "tracked_call list"
  bt_phase :: phase
  bt_aborted :: bool
  bt_validated :: bool
  bt_allow_final :: bool
  bt_precommit_final :: "nat list"
  bt_transactional :: "nat list"
  bt_invalid :: bool
  bt_journal_error :: bool
  bt_leases :: "(concurrency_spec \<times> string) list"
  bt_task_states :: "(string \<times> string) list"
  bt_bindings :: "nat option list"

definition new_batch :: "bool \<Rightarrow> int \<Rightarrow> (string \<Rightarrow> execution_safety) \<Rightarrow> (concurrency_spec \<times> string) list \<Rightarrow> (string \<times> string) list \<Rightarrow> batch" where
  "new_batch par workers hint leases tasks =
     \<lparr>bt_parallel = par, bt_workers = nat (max 1 workers), bt_hint = hint, bt_calls = [], bt_phase = Streaming,
      bt_aborted = False, bt_validated = False, bt_allow_final = False, bt_precommit_final = [], bt_transactional = [],
      bt_invalid = False, bt_journal_error = False, bt_leases = leases, bt_task_states = tasks, bt_bindings = []\<rparr>"

abbreviation call_at :: "batch \<Rightarrow> nat \<Rightarrow> tracked_call" where
  "call_at b i \<equiv> bt_calls b ! i"

abbreviation indices :: "batch \<Rightarrow> nat list" where
  "indices b \<equiv> [0..<length (bt_calls b)]"

definition change :: "nat \<Rightarrow> (tracked_call \<Rightarrow> tracked_call) \<Rightarrow> batch \<Rightarrow> batch" where
  "change i f b = b\<lparr>bt_calls := (bt_calls b)[i := f (call_at b i)]\<rparr>"

definition at_ordinal :: "batch \<Rightarrow> nat \<Rightarrow> nat option" where
  "at_ordinal b o' = find (\<lambda>i. tc_ordinal (call_at b i) = o') (indices b)"

text \<open>A missing identifier and an empty one are the same to the code.\<close>

definition at_id :: "batch \<Rightarrow> string option \<Rightarrow> nat option" where
  "at_id b x = (case x of None \<Rightarrow> None
     | Some s \<Rightarrow> if s = [] then None else find (\<lambda>i. tl_id (tc_call (call_at b i)) = Some s) (indices b))"

definition in_order :: "batch \<Rightarrow> nat list" where
  "in_order b = sort_key (\<lambda>i. tc_ordinal (call_at b i)) (indices b)"

definition spec_of :: "tracked_call \<Rightarrow> concurrency_spec" where
  "spec_of t = (case tc_prepared t of None \<Rightarrow> \<lparr>cs_locks = [], cs_exclusive = False\<rparr> | Some p \<Rightarrow> po_spec (pc_policy p))"

definition safety :: "tracked_call \<Rightarrow> execution_safety" where
  "safety t = (case tc_prepared t of None \<Rightarrow> tc_hint t | Some p \<Rightarrow> po_safety (pc_policy p))"

section \<open>Starting what is ready\<close>

text \<open>\<open>_active_lease_conflict\<close>: only leases that still run are kept in the state.\<close>

definition active_lease_conflict :: "batch \<Rightarrow> concurrency_spec \<Rightarrow> bool" where
  "active_lease_conflict b s \<longleftrightarrow> list_ex (\<lambda>l. conflicts s (fst l)) (bt_leases b)"

definition lower_prepared :: "batch \<Rightarrow> tracked_call \<Rightarrow> bool" where
  "lower_prepared b t \<longleftrightarrow>
     list_all (\<lambda>o'. case at_ordinal b o' of None \<Rightarrow> False | Some i \<Rightarrow> tc_state (call_at b i) \<noteq> Preparing) [0..<tc_ordinal t]"

definition can_enter_phase :: "batch \<Rightarrow> nat \<Rightarrow> bool" where
  "can_enter_phase b i =
     (let t = call_at b i
      in if safety t \<noteq> FINAL_ONLY then tc_explicit t \<or> bt_validated b
         else if \<not> bt_validated b then False
         else if bt_allow_final b then True
         else if \<not> bt_parallel b then \<not> list_ex (\<lambda>u. tc_ordinal u < tc_ordinal t \<and> safety u = TRANSACTIONAL) (bt_calls b)
         else i \<in> set (bt_precommit_final b))"

definition dependency_failed :: "batch \<Rightarrow> tracked_call \<Rightarrow> nat \<Rightarrow> string option" where
  "dependency_failed b t j =
     (let d = call_at b j; hard = j \<in> set (tc_hard t)
      in if \<not> tc_done d then None
         else if (case tc_result d of None \<Rightarrow> False | Some r \<Rightarrow> cr_lease r) \<and> active_lease_conflict b (spec_of t)
           then Some ''DependencyStillRunning''
         else if hard \<and> tc_prepared d \<noteq> None \<and>
             (case tc_result d of None \<Rightarrow> False
              | Some r \<Rightarrow> (case map_of (bt_task_states b) (cr_task r) of None \<Rightarrow> False
                         | Some s \<Rightarrow> s \<notin> set [''pending'', ''running'', ''completed'']))
           then Some ''DependencyFailed''
         else if hard \<and> (case tc_result d of None \<Rightarrow> True | Some r \<Rightarrow> \<not> cr_ok r) then Some ''DependencyFailed''
         else None)"

definition dependency_failure :: "batch \<Rightarrow> tracked_call \<Rightarrow> string option" where
  "dependency_failure b t = List.find (\<lambda>_. True) (List.map_filter (dependency_failed b t) (tc_dependencies t))"

definition active_count :: "batch \<Rightarrow> nat" where
  "active_count b = length (filter (\<lambda>t. tc_state t = Running) (bt_calls b))"

definition launch :: "call_state \<Rightarrow> task \<Rightarrow> tracked_call \<Rightarrow> tracked_call" where
  "launch s k t = t\<lparr>tc_state := s, tc_task := Some k\<rparr>"

definition unresolved :: "batch \<Rightarrow> tracked_call \<Rightarrow> bool" where
  "unresolved b t \<longleftrightarrow> list_ex (\<lambda>j. \<not> tc_done (call_at b j)) (tc_dependencies t)"

definition start_one :: "nat \<Rightarrow> batch \<Rightarrow> batch" where
  "start_one i b =
     (let t = call_at b i
      in if tc_state t \<noteq> Queued \<or> tc_prepared t = None then b
         else if \<not> lower_prepared b t then b
         else if \<not> can_enter_phase b i then b
         else if tc_cancel t then change i (launch Cancelling Report_cancelled) b
         else if unresolved b t then b
         else (case dependency_failure b t of
             Some e \<Rightarrow> change i (launch Running (Skip_tool e)) b
           | None \<Rightarrow>
               if bt_workers b \<le> active_count b then b
               else if \<not> bt_parallel b \<and> 0 < active_count b then b
               else change i (launch Running Run_tool) b))"

definition start_ready :: "batch \<Rightarrow> batch" where
  "start_ready b = (if bt_aborted b \<or> bt_journal_error b then b else fold start_one (in_order b) b)"

text \<open>\<open>_rebuild_dependencies_locked\<close>.\<close>

definition earlier_conflicting :: "batch \<Rightarrow> nat \<Rightarrow> nat list" where
  "earlier_conflicting b i =
     filter (\<lambda>j. tc_prepared (call_at b j) \<noteq> None \<and> tc_ordinal (call_at b j) < tc_ordinal (call_at b i) \<and>
               conflicts (spec_of (call_at b j)) (spec_of (call_at b i))) (indices b)"

definition rebuild_one :: "batch \<Rightarrow> nat \<Rightarrow> tracked_call" where
  "rebuild_one b i =
     (let t = call_at b i; deps = earlier_conflicting b i
      in if tc_prepared t = None then t
         else t\<lparr>tc_dependencies := deps, tc_hard := filter (\<lambda>j. requires_success (spec_of (call_at b j)) (spec_of t)) deps\<rparr>)"

definition rebuild :: "batch \<Rightarrow> batch" where
  "rebuild b = b\<lparr>bt_calls := map (rebuild_one b) (indices b)\<rparr>"

section \<open>Completing and cancelling\<close>

definition finished :: "call_result option \<Rightarrow> bool \<Rightarrow> tracked_call \<Rightarrow> tracked_call" where
  "finished r raised t = t\<lparr>tc_result := r, tc_raised := raised, tc_state := Completed, tc_done := True\<rparr>"

definition complete :: "nat \<Rightarrow> call_result \<Rightarrow> batch \<Rightarrow> batch" where
  "complete i r b =
     (let t = call_at b i; leased = cr_lease r \<and> cr_task r \<noteq> [] \<and> tc_prepared t \<noteq> None
      in if tc_done t then b
         else start_ready ((change i (finished (Some (r\<lparr>cr_lease := leased\<rparr>)) False) b)
            \<lparr>bt_leases := (if leased then bt_leases b @ [(spec_of t, cr_task r)] else bt_leases b)\<rparr>))"

definition complete_error :: "nat \<Rightarrow> batch \<Rightarrow> batch" where
  "complete_error i b = (if tc_done (call_at b i) then b else start_ready (change i (finished None True) b))"

definition cancel_not_started :: "nat \<Rightarrow> batch \<Rightarrow> batch" where
  "cancel_not_started i b =
     (case tc_state (call_at b i) of
        Preparing \<Rightarrow> change i (tc_cancel_update (\<lambda>_. True)) b
      | Queued \<Rightarrow> change i (\<lambda>t. launch Cancelling Report_cancelled (t\<lparr>tc_cancel := True\<rparr>)) b
      | _ \<Rightarrow> b)"

definition mark_rolled_back :: "nat list \<Rightarrow> string \<Rightarrow> batch \<Rightarrow> batch" where
  "mark_rolled_back is e b = fold (\<lambda>i. change i (\<lambda>t. t\<lparr>tc_result :=
     map_option (\<lambda>r. if cr_ok r then r\<lparr>cr_ok := False, cr_error := e\<rparr> else r) (tc_result t)\<rparr>)) is b"

definition rollback_affected :: "batch \<Rightarrow> nat list \<Rightarrow> nat list" where
  "rollback_affected b is = is @ filter (\<lambda>i. i \<notin> set is \<and>
     (case tc_result (call_at b i) of None \<Rightarrow> False | Some r \<Rightarrow> cr_overlay r)) (indices b)"

definition skip_one :: "nat \<Rightarrow> batch \<Rightarrow> batch" where
  "skip_one i b = (if safety (call_at b i) \<noteq> FINAL_ONLY \<or> tc_done (call_at b i) then b
     else complete i (failure ''TransactionRolledBack'') b)"

definition skip_remaining_final :: "batch \<Rightarrow> batch" where
  "skip_remaining_final b = fold skip_one (indices b) b"

text \<open>\<open>abort\<close> and \<open>_invalidate_turn\<close> up to their wait. Calls that run are drained or cancelled
  cooperatively: either way their task reports a result.\<close>

definition invalidate :: "batch \<Rightarrow> batch" where
  "invalidate b = (fold cancel_not_started (indices b) (b\<lparr>bt_aborted := True\<rparr>))\<lparr>bt_phase := Invalidating\<rparr>"

section \<open>Submission and reconciliation\<close>

definition new_call :: "batch \<Rightarrow> tool_call \<Rightarrow> bool \<Rightarrow> nat \<Rightarrow> bool \<Rightarrow> tracked_call" where
  "new_call b c streamed ordinal explicit =
     \<lparr>tc_ordinal = ordinal, tc_call = c, tc_streamed = streamed, tc_explicit = explicit, tc_state = Preparing,
      tc_prepared = None, tc_result = None, tc_raised = False, tc_preparation = Not_begun, tc_task = None, tc_done = False,
      tc_cancel = False, tc_dependencies = [], tc_hard = [], tc_hint = bt_hint b (tl_name c), tc_left = False\<rparr>"

definition submit :: "tool_call \<Rightarrow> bool \<Rightarrow> nat \<Rightarrow> bool \<Rightarrow> batch \<Rightarrow> batch" where
  "submit c streamed ordinal explicit b = b\<lparr>bt_calls := bt_calls b @ [new_call b c streamed ordinal explicit]\<rparr>"

definition next_ordinal :: "batch \<Rightarrow> nat" where
  "next_ordinal b = fold max (map (\<lambda>t. Suc (tc_ordinal t)) (bt_calls b)) 0"

definition submit_streamed :: "tool_call \<Rightarrow> int option \<Rightarrow> batch \<Rightarrow> batch" where
  "submit_streamed c ordinal b =
     (if bt_aborted b \<or> tl_id c \<in> set [None, Some []] then b
      else (case at_id b (tl_id c) of
        Some i \<Rightarrow> if same_call (tc_call (call_at b i)) c then b else b\<lparr>bt_invalid := True\<rparr>
      | None \<Rightarrow>
          (let explicit = (ordinal \<noteq> None); o' = (case ordinal of None \<Rightarrow> int (next_ordinal b) | Some x \<Rightarrow> x)
           in if o' < 0 \<or> at_ordinal b (nat o') \<noteq> None then b\<lparr>bt_invalid := True\<rparr>
              else submit c True (nat o') explicit b)))"

definition bind_call :: "nat \<Rightarrow> tool_call \<Rightarrow> batch \<Rightarrow> batch" where
  "bind_call ordinal c b =
     (case at_id b (tl_id c) of
        Some i \<Rightarrow>
          (let t = call_at b i
           in if same_call (tc_call t) c \<and> (\<not> tc_explicit t \<or> tc_ordinal t = ordinal)
              then b\<lparr>bt_bindings := bt_bindings b @ [Some i]\<rparr>
              else (cancel_not_started i (b\<lparr>bt_invalid := True\<rparr>))\<lparr>bt_bindings := bt_bindings b @ [None]\<rparr>)
      | None \<Rightarrow>
          if at_ordinal b ordinal \<noteq> None then b\<lparr>bt_invalid := True, bt_bindings := bt_bindings b @ [None]\<rparr>
          else (submit c False ordinal True b)\<lparr>bt_bindings := bt_bindings b @ [Some (length (bt_calls b))]\<rparr>)"

fun bind_calls :: "nat \<Rightarrow> tool_call list \<Rightarrow> batch \<Rightarrow> batch" where
  "bind_calls n [] b = b"
| "bind_calls n (c # cs) b = bind_calls (Suc n) cs (bind_call n c b)"

definition given_ids :: "tool_call list \<Rightarrow> string list" where
  "given_ids cs = filter (\<lambda>s. s \<noteq> []) (List.map_filter tl_id cs)"

definition drop_orphan :: "string list \<Rightarrow> nat \<Rightarrow> batch \<Rightarrow> batch" where
  "drop_orphan ids i b =
     (let t = call_at b i
      in if tc_streamed t \<and> (case tl_id (tc_call t) of None \<Rightarrow> True | Some s \<Rightarrow> s \<notin> set ids)
         then cancel_not_started i (b\<lparr>bt_invalid := True\<rparr>) else b)"

definition reconcile :: "tool_call list \<Rightarrow> batch \<Rightarrow> batch" where
  "reconcile cs b =
     (let ids = given_ids cs;
          b1 = (if distinct ids then b else b\<lparr>bt_invalid := True\<rparr>);
          b2 = bind_calls 0 cs b1
      in fold (drop_orphan ids) (indices b2) b2)"

text \<open>\<open>finish\<close> up to the record that the turn is validated.\<close>

definition begin_finish :: "tool_call list \<Rightarrow> bool \<Rightarrow> batch \<Rightarrow> batch" where
  "begin_finish cs proven b =
     (if 1 < length cs \<and> list_ex (\<lambda>c. tl_name c \<in> set [''enter_worktree'', ''exit_worktree'']) cs
        then (invalidate b)\<lparr>bt_bindings := map (\<lambda>_. None) cs\<rparr>
      else if \<not> proven then (invalidate b)\<lparr>bt_bindings := map (\<lambda>c. at_id b (tl_id c)) cs\<rparr>
      else if cs = [] \<and> bt_calls b = [] then b\<lparr>bt_phase := Closed\<rparr>
      else (let b1 = reconcile cs b
            in if bt_invalid b1 then invalidate b1 else b1\<lparr>bt_phase := Validating\<rparr>))"

section \<open>The gate before side effects\<close>

text \<open>The calls that a transactional call waits for, directly or through others.\<close>

function ancestors :: "tracked_call list \<Rightarrow> nat list \<Rightarrow> nat list \<Rightarrow> nat list" where
  "ancestors calls [] seen = seen"
| "ancestors calls (i # pending) seen =
     (if i \<in> set seen \<or> length calls \<le> i then ancestors calls pending seen
      else ancestors calls (tc_dependencies (calls ! i) @ pending) (i # seen))"
  by pat_completeness auto
termination
proof (relation "measures [\<lambda>(calls, pending, seen). card ({..<length calls} - set seen), \<lambda>(calls, pending, seen). length pending]")
  fix calls :: "tracked_call list" and i pending seen
  assume "\<not> (i \<in> set seen \<or> length calls \<le> i)"
  then have i: "i \<in> {..<length calls} - set seen" by simp
  have "{..<length calls} - set (i # seen) = ({..<length calls} - set seen) - {i}" by auto
  then have "card ({..<length calls} - set (i # seen)) < card ({..<length calls} - set seen)"
    using card_Diff1_less [OF _ i] by simp
  then show "((calls, tc_dependencies (calls ! i) @ pending, i # seen), calls, i # pending, seen)
      \<in> measures [\<lambda>(calls, pending, seen). card ({..<length calls} - set seen), \<lambda>(calls, pending, seen). length pending]"
    by (intro measures_less) (simp only: prod.case)
qed simp_all

definition enter_gate :: "batch \<Rightarrow> batch" where
  "enter_gate b =
     (let b1 = rebuild b;
          tx = filter (\<lambda>i. safety (call_at b1 i) = TRANSACTIONAL) (indices b1)
      in if tx = [] then start_ready (b1\<lparr>bt_allow_final := True, bt_phase := Draining\<rparr>)
         else start_ready (b1\<lparr>bt_transactional := tx, bt_phase := Precommit, bt_precommit_final :=
           filter (\<lambda>i. safety (call_at b1 i) = FINAL_ONLY)
             (ancestors (bt_calls b1) (concat (map (\<lambda>i. tc_dependencies (call_at b1 i)) tx)) [])\<rparr>))"

definition precommit_reached :: "batch \<Rightarrow> bool" where
  "precommit_reached b \<longleftrightarrow> list_all (\<lambda>i. tc_done (call_at b i) \<or>
     \<not> (safety (call_at b i) \<noteq> FINAL_ONLY \<or> i \<in> set (bt_precommit_final b))) (indices b)"

definition result_ok :: "tracked_call \<Rightarrow> bool" where
  "result_ok t \<longleftrightarrow> (case tc_result t of None \<Rightarrow> False | Some r \<Rightarrow> cr_ok r)"

definition close_overlay :: "tracked_call \<Rightarrow> tracked_call" where
  "close_overlay t = t\<lparr>tc_result := map_option (\<lambda>r. r\<lparr>cr_overlay := False\<rparr>) (tc_result t)\<rparr>"

definition give_up :: "string \<Rightarrow> batch \<Rightarrow> batch" where
  "give_up e b = (skip_remaining_final (mark_rolled_back (rollback_affected b (bt_transactional b)) e b))\<lparr>bt_phase := Draining\<rparr>"

text \<open>The commit gate: whether the history record before the commit was written, what the commit
  did (an error type, or nothing), and whether the record after it was written.\<close>

definition commit_gate :: "bool \<Rightarrow> string option \<Rightarrow> bool \<Rightarrow> batch \<Rightarrow> batch" where
  "commit_gate recorded failed refreshed b =
     (if \<not> recorded then invalidate (b\<lparr>bt_journal_error := True\<rparr>)
      else if list_ex (\<lambda>i. \<not> result_ok (call_at b i)) (bt_transactional b) then give_up ''RolledBack'' b
      else (case failed of
          Some e \<Rightarrow> give_up e b
        | None \<Rightarrow> start_ready (b\<lparr>bt_calls := map close_overlay (bt_calls b),
            bt_journal_error := (bt_journal_error b \<or> \<not> refreshed), bt_allow_final := True, bt_phase := Draining\<rparr>)))"

section \<open>Events\<close>

text \<open>\<open>Timed_out\<close>: the time limit of a call, or of the whole turn, cancels the task that awaits the tool. The call
  completes with an error at once (with the type that names the case), while a default \<open>Tool.run\<close> leaves the
  worker thread of the tool running until \<open>Thread_over\<close> (\<open>cleanup_pending\<close>). A tool whose own coroutine
  is cancelled ends with \<open>Task_done\<close>. \<open>Journal_lost\<close>: the journal refuses the record that a submission writes. The calls that \<open>finish\<close>
  submits write one too; nothing looks at the error until the response is validated, so such a loss is
  the same as one just before \<open>Finish\<close>.\<close>

datatype outcome = Ready policy | Deferred | Rejected call_result | Stopped | Raised

datatype event =
    Submit tool_call "int option"
  | Begin_preparation nat
  | Enter_preparation nat
  | Prepare nat outcome bool bool
  | Task_done nat call_result
  | Timed_out nat string
  | Thread_over nat
  | Finish "tool_call list" bool
  | Abort
  | Validated bool
  | All_prepared
  | Authorize outcome bool
  | Gate bool
  | Commit bool "string option" bool
  | Drained
  | Lease_over string
  | Task_state string string
  | Journal_lost

definition previous_done :: "batch \<Rightarrow> nat \<Rightarrow> bool" where
  "previous_done b i = (case tc_preparation (call_at b i) of Waiting_for (Some j) \<Rightarrow> tc_done (call_at b j) | _ \<Rightarrow> True)"

definition begin_preparation :: "nat \<Rightarrow> batch \<Rightarrow> batch" where
  "begin_preparation i b =
     (let t = call_at b i
      in change i (tc_preparation_update (\<lambda>_. Waiting_for
           (if \<not> bt_parallel b \<and> 0 < tc_ordinal t then at_ordinal b (tc_ordinal t - 1) else None))) b)"

text \<open>The end of \<open>_prepare_call\<close>: \<open>stop\<close> is what the cancellation probes say, \<open>recorded\<close> whether the
  admission record was written.\<close>

definition admit :: "nat \<Rightarrow> prepared_call \<Rightarrow> bool \<Rightarrow> bool \<Rightarrow> batch \<Rightarrow> batch" where
  "admit i p stop recorded b =
     (if bt_aborted b \<or> tc_cancel (call_at b i) \<or> stop then change i (launch Cancelling Report_cancelled) b
      else start_ready (rebuild ((change i (\<lambda>t. t\<lparr>tc_prepared := Some p, tc_hint := po_safety (pc_policy p), tc_state := Queued\<rparr>) b)
        \<lparr>bt_journal_error := (bt_journal_error b \<or> \<not> recorded)\<rparr>)))"

definition end_preparation :: "nat \<Rightarrow> bool \<Rightarrow> outcome \<Rightarrow> bool \<Rightarrow> bool \<Rightarrow> batch \<Rightarrow> batch option" where
  "end_preparation i provisional r stop recorded b =
     (let b1 = change i (tc_preparation_update (\<lambda>_. Prepared)) b
      in case r of
           Ready p \<Rightarrow> Some (admit i \<lparr>pc_policy = admit_policy p, pc_provisional = provisional, pc_deferred = False\<rparr> stop recorded b1)
         | Deferred \<Rightarrow> if provisional
             then Some (admit i \<lparr>pc_policy = default_policy, pc_provisional = True, pc_deferred = True\<rparr> stop recorded b1) else None
         | Rejected res \<Rightarrow> Some (complete i res b1)
         | Stopped \<Rightarrow> Some (complete i (failure ''Cancelled'') b1)
         | Raised \<Rightarrow> Some (complete_error i b1))"

text \<open>One round of \<open>_authorize_provisional\<close>.\<close>

definition authorize :: "nat \<Rightarrow> outcome \<Rightarrow> bool \<Rightarrow> batch \<Rightarrow> batch option" where
  "authorize i r recorded b =
     (case tc_prepared (call_at b i) of
        None \<Rightarrow> Some b
      | Some p \<Rightarrow>
          if \<not> pc_provisional p then Some b
          else if pc_deferred p then
            (case r of
               Ready q \<Rightarrow> Some ((change i (\<lambda>t. t\<lparr>tc_prepared := Some \<lparr>pc_policy = admit_policy q, pc_provisional = False, pc_deferred = False\<rparr>,
                   tc_hint := po_safety (admit_policy q)\<rparr>) b)\<lparr>bt_journal_error := (bt_journal_error b \<or> \<not> recorded)\<rparr>)
             | Rejected res \<Rightarrow> Some (complete i res (change i (tc_prepared_update (\<lambda>_. None)) b))
             | _ \<Rightarrow> None)
          else Some ((change i (tc_prepared_update (\<lambda>_. Some (p\<lparr>pc_provisional := False\<rparr>))) b)
            \<lparr>bt_journal_error := (bt_journal_error b \<or> \<not> recorded)\<rparr>))"

definition task_result :: "task \<Rightarrow> call_result \<Rightarrow> call_result" where
  "task_result k r = (case k of Run_tool \<Rightarrow> r | Skip_tool e \<Rightarrow> failure e | Report_cancelled \<Rightarrow> failure ''Cancelled'')"

text \<open>The end of \<open>_execute\<close> when the time limit has cancelled the task that awaits the tool.\<close>

definition timed_out :: "nat \<Rightarrow> string \<Rightarrow> batch \<Rightarrow> batch" where
  "timed_out i e b = complete i (failure e) (change i (tc_left_update (\<lambda>_. True)) b)"

declare timed_out_def [simp]

definition all_done :: "batch \<Rightarrow> bool" where
  "all_done b \<longleftrightarrow> list_all tc_done (bt_calls b)"

fun batch_step :: "event \<Rightarrow> batch \<Rightarrow> batch option" where
  "batch_step (Submit c o') b = (if bt_phase b = Streaming then Some (submit_streamed c o' b) else None)"
| "batch_step (Begin_preparation i) b =
     (if i < length (bt_calls b) \<and> tc_preparation (call_at b i) = Not_begun then Some (begin_preparation i b) else None)"
| "batch_step (Enter_preparation i) b =
     (if i < length (bt_calls b) \<and> (case tc_preparation (call_at b i) of Waiting_for _ \<Rightarrow> previous_done b i | _ \<Rightarrow> False)
      then Some (change i (\<lambda>t. t\<lparr>tc_preparation := In_preparation (tc_streamed t \<and> \<not> bt_validated b)\<rparr>) b) else None)"
| "batch_step (Prepare i r stop recorded) b =
     (if i < length (bt_calls b)
      then (case tc_preparation (call_at b i) of
              In_preparation provisional \<Rightarrow> end_preparation i provisional r stop recorded b | _ \<Rightarrow> None)
      else None)"
| "batch_step (Task_done i r) b =
     (if i < length (bt_calls b) \<and> tc_state (call_at b i) \<in> {Running, Cancelling}
      then (case tc_task (call_at b i) of None \<Rightarrow> None | Some k \<Rightarrow> Some (complete i (task_result k r) b)) else None)"
| "batch_step (Timed_out i e) b =
     (if i < length (bt_calls b) \<and> tc_state (call_at b i) = Running \<and> tc_task (call_at b i) = Some Run_tool
      then Some (timed_out i e b) else None)"
| "batch_step (Thread_over i) b =
     (if i < length (bt_calls b) \<and> tc_left (call_at b i) then Some (change i (tc_left_update (\<lambda>_. False)) b) else None)"
| "batch_step (Finish cs proven) b = (if bt_phase b = Streaming then Some (begin_finish cs proven b) else None)"
| "batch_step Abort b = (if bt_phase b = Streaming then Some (invalidate b) else None)"
| "batch_step (Validated recorded) b =
     (if bt_phase b \<noteq> Validating then None
      else if recorded then Some (start_ready (b\<lparr>bt_validated := True, bt_phase := Awaiting_prepared\<rparr>))
      else Some (invalidate (b\<lparr>bt_journal_error := True\<rparr>)))"
| "batch_step All_prepared b =
     (if bt_phase b = Awaiting_prepared \<and> list_all (\<lambda>t. tc_state t \<noteq> Preparing) (bt_calls b)
      then Some (if bt_journal_error b then invalidate b else b\<lparr>bt_phase := Authorizing (in_order b)\<rparr>) else None)"
| "batch_step (Authorize r recorded) b =
     (case bt_phase b of
        Authorizing (i # is) \<Rightarrow> map_option (bt_phase_update (\<lambda>_. Authorizing is)) (authorize i r recorded b) | _ \<Rightarrow> None)"
| "batch_step (Gate recorded) b =
     (if bt_phase b \<noteq> Authorizing [] then None
      else if bt_journal_error b \<or> \<not> recorded then Some (invalidate (b\<lparr>bt_journal_error := True\<rparr>))
      else Some (enter_gate b))"
| "batch_step (Commit recorded failed refreshed) b =
     (if bt_phase b = Precommit \<and> precommit_reached b then Some (commit_gate recorded failed refreshed b) else None)"
| "batch_step Drained b =
     (if \<not> all_done b then None
      else if bt_phase b = Draining then Some (b\<lparr>bt_phase := Closed\<rparr>)
      else if bt_phase b = Invalidating
        then Some ((mark_rolled_back (rollback_affected b (filter (\<lambda>i. safety (call_at b i) = TRANSACTIONAL) (indices b))) ''RolledBack'' b)
          \<lparr>bt_phase := Closed\<rparr>)
      else None)"
| "batch_step (Lease_over x) b = Some (b\<lparr>bt_leases := filter (\<lambda>l. snd l \<noteq> x) (bt_leases b)\<rparr>)"
| "batch_step (Task_state x s) b = Some (b\<lparr>bt_task_states := (x, s) # bt_task_states b\<rparr>)"
| "batch_step Journal_lost b = (if bt_phase b = Streaming then Some (b\<lparr>bt_journal_error := True\<rparr>) else None)"

fun run_events :: "event list \<Rightarrow> batch \<Rightarrow> batch option" where
  "run_events [] b = Some b"
| "run_events (e # es) b = Option.bind (batch_step e b) (run_events es)"

end
