(* ===== verification/Batch_Safety.thy ===== *)
theory Batch_Safety
  imports Tool_Batch
begin

text \<open>
  What the scheduler of a tool round guarantees in every interleaving of its events: a call starts when the
  calls before it that it conflicts with have completed, the number of awaited tools is bounded, and with
  parallel tools nothing runs that a person has yet to approve. A tool that was left behind by a time-out
  counts as working until its thread ends: \<open>overlap_left\<close> says that only such a tool can work together with
  another one that it conflicts with.
\<close>

section \<open>The invariant of the calls\<close>

definition run_tool :: "tracked_call \<Rightarrow> bool" where
  "run_tool t \<longleftrightarrow> tc_state t = Running \<and> tc_task t = Some Run_tool"

text \<open>The tool of the call works: its task waits for it, or its thread was left behind by a time-out.\<close>

definition executing :: "tracked_call \<Rightarrow> bool" where
  "executing t \<longleftrightarrow> run_tool t \<or> tc_left t"

definition deferred :: "tracked_call \<Rightarrow> bool" where
  "deferred t \<longleftrightarrow> (case tc_prepared t of None \<Rightarrow> False | Some p \<Rightarrow> pc_deferred p)"

definition call_wf :: "tracked_call \<Rightarrow> bool" where
  "call_wf t \<longleftrightarrow> (tc_done t \<longleftrightarrow> tc_state t = Completed) \<and> (tc_state t = Preparing \<longleftrightarrow> tc_preparation t \<noteq> Prepared) \<and>
     (tc_state t = Preparing \<longrightarrow> tc_prepared t = None) \<and> (tc_state t = Queued \<longrightarrow> tc_prepared t \<noteq> None) \<and>
     (tc_state t \<in> {Running, Cancelling} \<longrightarrow> tc_task t \<noteq> None) \<and> (tc_left t \<longrightarrow> tc_done t) \<and> (run_tool t \<longrightarrow> tc_prepared t \<noteq> None) \<and>
     (deferred t \<longrightarrow> pc_policy (the (tc_prepared t)) = default_policy \<and> pc_provisional (the (tc_prepared t)))"

definition clash :: "tracked_call list \<Rightarrow> nat \<Rightarrow> nat \<Rightarrow> bool" where
  "clash cs j i \<longleftrightarrow> tc_ordinal (cs ! j) < tc_ordinal (cs ! i) \<and> tc_prepared (cs ! j) \<noteq> None \<and>
     conflicts (spec_of (cs ! j)) (spec_of (cs ! i))"

definition alone :: "tracked_call list \<Rightarrow> nat \<Rightarrow> bool" where
  "alone cs i \<longleftrightarrow> (\<forall>o' < tc_ordinal (cs ! i). o' \<in> tc_ordinal ` set cs) \<and>
     (\<forall>j < length cs. tc_ordinal (cs ! j) < tc_ordinal (cs ! i) \<longrightarrow>
        tc_state (cs ! j) \<noteq> Preparing \<and> (clash cs j i \<longrightarrow> tc_done (cs ! j)))"

definition calls_inv :: "tracked_call list \<Rightarrow> bool" where
  "calls_inv cs \<longleftrightarrow> distinct (map tc_ordinal cs) \<and> (\<forall>t\<in>set cs. call_wf t) \<and>
     (\<forall>i < length cs. tc_prepared (cs ! i) \<noteq> None \<longrightarrow> (\<forall>j < length cs. clash cs j i \<longrightarrow> j \<in> set (tc_dependencies (cs ! i)))) \<and>
     (\<forall>i < length cs. executing (cs ! i) \<longrightarrow> alone cs i)"

lemma calls_invD:
  assumes "calls_inv cs"
  shows "i < length cs \<Longrightarrow> call_wf (cs ! i)"
    and "i < length cs \<Longrightarrow> tc_prepared (cs ! i) \<noteq> None \<Longrightarrow> j < length cs \<Longrightarrow> clash cs j i \<Longrightarrow> j \<in> set (tc_dependencies (cs ! i))"
    and "i < length cs \<Longrightarrow> executing (cs ! i) \<Longrightarrow> alone cs i"
    and "distinct (map tc_ordinal cs)"
  using assms by (auto simp: calls_inv_def)

text \<open>A change of one call that leaves its place in the order and its resources alone.\<close>

lemma ordinal_nth: "tc_ordinal t' = tc_ordinal (cs ! i) \<Longrightarrow> tc_ordinal (cs[i := t'] ! j) = tc_ordinal (cs ! j)"
  by (cases "i < length cs"; cases "i = j") (auto simp: list_update_beyond)

lemma ordinals_update: "tc_ordinal t' = tc_ordinal (cs ! i) \<Longrightarrow> map tc_ordinal (cs[i := t']) = map tc_ordinal cs"
  by (rule nth_equalityI) (simp_all add: ordinal_nth)

lemma calls_inv_shrink:
  assumes inv: "calls_inv cs" and i: "i < length cs"
    and same: "tc_ordinal t' = tc_ordinal (cs ! i)" "tc_dependencies t' = tc_dependencies (cs ! i)"
    and prepared: "tc_prepared t' \<noteq> None \<Longrightarrow> tc_prepared (cs ! i) \<noteq> None"
    and clash: "\<And>j k. j < length cs \<Longrightarrow> k < length cs \<Longrightarrow> clash (cs[i := t']) j k \<Longrightarrow> clash cs j k"
    and wf: "call_wf t'" and state: "tc_state t' = Preparing \<Longrightarrow> tc_state (cs ! i) = Preparing"
    and don: "tc_done (cs ! i) \<Longrightarrow> tc_done t'" and run: "run_tool t' \<Longrightarrow> alone cs i"
    and left: "tc_left t' \<Longrightarrow> tc_left (cs ! i) \<or> run_tool (cs ! i)"
  shows "calls_inv (cs[i := t'])"
proof -
  let ?cs = "cs[i := t']"
  have ord: "tc_ordinal (?cs ! j) = tc_ordinal (cs ! j)" for j by (rule ordinal_nth) (rule same(1))
  have prep: "tc_prepared (?cs ! j) \<noteq> None \<Longrightarrow> tc_prepared (cs ! j) \<noteq> None" for j using i prepared by (cases "i = j") auto
  have deps: "tc_dependencies (?cs ! j) = tc_dependencies (cs ! j)" for j using i same(2) by (cases "i = j") auto
  have ords: "tc_ordinal ` set ?cs = tc_ordinal ` set cs"
    using ordinals_update [of t' cs i] same(1) by (metis set_map)
  have alone: "alone ?cs k" if k: "alone cs k" "k < length cs" for k
  proof -
    have "tc_state (?cs ! j) \<noteq> Preparing \<and> (clash ?cs j k \<longrightarrow> tc_done (?cs ! j))"
      if "j < length cs" "tc_ordinal (cs ! j) < tc_ordinal (cs ! k)" for j
      using k that state don clash [of j k] by (cases "i = j") (auto simp: alone_def)
    with k show ?thesis unfolding alone_def ord ords by simp
  qed
  show ?thesis unfolding calls_inv_def
  proof (intro conjI allI impI ballI)
    show "distinct (map tc_ordinal ?cs)" using ordinals_update [of t' cs i] same(1) calls_invD(4) [OF inv] by simp
  next
    fix t assume "t \<in> set ?cs"
    with set_update_subset_insert [of cs i t'] have "t = t' \<or> t \<in> set cs" by auto
    with wf inv show "call_wf t" by (auto simp: calls_inv_def)
  next
    fix k j assume "k < length ?cs" "tc_prepared (?cs ! k) \<noteq> None" "j < length ?cs" "clash ?cs j k"
    then show "j \<in> set (tc_dependencies (?cs ! k))"
      using calls_invD(2) [OF inv, of k j] clash [of j k] prep [of k] by (simp add: deps)
  next
    fix k assume k: "k < length ?cs" "executing (?cs ! k)"
    show "alone ?cs k"
    proof (cases "k = i")
      case True
      with k i have "executing t'" by simp
      then have "alone cs i" using run left calls_invD(3) [OF inv i] by (auto simp: executing_def)
      then show ?thesis unfolding True by (intro alone i)
    next
      case False
      with k show ?thesis using calls_invD(3) [OF inv, of k] by (intro alone) simp_all
    qed
  qed
qed

lemma clash_frame:
  assumes "tc_ordinal t' = tc_ordinal (cs ! i)" "tc_prepared t' = tc_prepared (cs ! i)"
  shows "clash (cs[i := t']) j k = clash cs j k"
proof -
  have prep: "tc_prepared (cs[i := t'] ! j) = tc_prepared (cs ! j)" for j
    using assms(2) by (cases "i < length cs"; cases "i = j") (auto simp: list_update_beyond)
  then show ?thesis unfolding clash_def spec_of_def ordinal_nth [OF assms(1)] by simp
qed

lemma calls_inv_frame:
  assumes "calls_inv cs" "i < length cs"
    and "tc_ordinal t' = tc_ordinal (cs ! i)" "tc_prepared t' = tc_prepared (cs ! i)" "tc_dependencies t' = tc_dependencies (cs ! i)"
    and "call_wf t'" "tc_state t' = Preparing \<Longrightarrow> tc_state (cs ! i) = Preparing"
    and "tc_done (cs ! i) \<Longrightarrow> tc_done t'" and "run_tool t' \<Longrightarrow> alone cs i" and "tc_left t' \<Longrightarrow> tc_left (cs ! i) \<or> run_tool (cs ! i)"
  shows "calls_inv (cs[i := t'])"
  using assms by (intro calls_inv_shrink) (simp_all add: clash_frame)

lemma calls_inv_submit:
  assumes inv: "calls_inv cs" and new: "tc_ordinal t \<notin> tc_ordinal ` set cs" "call_wf t" "tc_state t = Preparing"
  shows "calls_inv (cs @ [t])"
proof -
  let ?cs = "cs @ [t]"
  have t: "tc_prepared t = None" using new by (simp add: call_wf_def)
  have nth: "?cs ! j = (if j < length cs then cs ! j else t)" if "j < length ?cs" for j
    using that by (auto simp: nth_append)
  have clash: "clash ?cs j k = clash cs j k" if "j < length cs" "k < length cs" for j k
    using that by (simp add: clash_def nth_append)
  have alone: "alone ?cs k" if k: "k < length cs" "alone cs k" for k
    unfolding alone_def
  proof (intro conjI allI impI)
    fix o' assume "o' < tc_ordinal (?cs ! k)"
    with k show "o' \<in> tc_ordinal ` set ?cs" by (auto simp: nth_append alone_def)
  next
    fix j assume j: "j < length ?cs" "tc_ordinal (?cs ! j) < tc_ordinal (?cs ! k)"
    have "j < length cs"
    proof (rule ccontr)
      assume "\<not> j < length cs"
      with j k have "tc_ordinal t < tc_ordinal (cs ! k)" by (simp add: nth_append)
      with k new(1) show False by (auto simp: alone_def)
    qed
    with j k show "tc_state (?cs ! j) \<noteq> Preparing" by (auto simp: nth_append alone_def)
    assume "clash ?cs j k"
    with \<open>j < length cs\<close> j k show "tc_done (?cs ! j)" by (auto simp: nth_append alone_def clash)
  qed
  show ?thesis unfolding calls_inv_def
  proof (intro conjI allI impI ballI)
    show "distinct (map tc_ordinal ?cs)" using calls_invD(4) [OF inv] new(1) by simp
  next
    fix u assume "u \<in> set ?cs"
    then show "call_wf u" using inv new(2) by (auto simp: calls_inv_def)
  next
    fix k j assume k: "k < length ?cs" "tc_prepared (?cs ! k) \<noteq> None" "j < length ?cs" "clash ?cs j k"
    have "k < length cs" using k(1,2) t by (cases "k < length cs") (auto simp: nth_append)
    moreover have "j < length cs" using k(3,4) t by (cases "j < length cs") (auto simp: nth_append clash_def)
    ultimately show "j \<in> set (tc_dependencies (?cs ! k))"
      using k calls_invD(2) [OF inv, of k j] by (simp add: clash nth_append)
  next
    fix k assume k: "k < length ?cs" "executing (?cs ! k)"
    have "\<not> executing t" using new(2,3) by (auto simp: executing_def run_tool_def call_wf_def)
    then have "k < length cs" using k by (cases "k < length cs") (auto simp: nth_append)
    then show "alone ?cs k" using k calls_invD(3) [OF inv, of k] by (intro alone) (auto simp: nth_append)
  qed
qed

text \<open>Rebuilding the dependencies needs them not to be right before.\<close>

definition calls_pre :: "tracked_call list \<Rightarrow> bool" where
  "calls_pre cs \<longleftrightarrow> distinct (map tc_ordinal cs) \<and> (\<forall>t\<in>set cs. call_wf t) \<and> (\<forall>i < length cs. executing (cs ! i) \<longrightarrow> alone cs i)"

lemma rebuild_one_simps [simp]:
  "tc_ordinal (rebuild_one b i) = tc_ordinal (call_at b i)" "tc_prepared (rebuild_one b i) = tc_prepared (call_at b i)"
  "tc_state (rebuild_one b i) = tc_state (call_at b i)" "tc_done (rebuild_one b i) = tc_done (call_at b i)"
  "tc_task (rebuild_one b i) = tc_task (call_at b i)" "tc_preparation (rebuild_one b i) = tc_preparation (call_at b i)"
  "tc_explicit (rebuild_one b i) = tc_explicit (call_at b i)" "tc_hint (rebuild_one b i) = tc_hint (call_at b i)"
  "tc_cancel (rebuild_one b i) = tc_cancel (call_at b i)" "tc_result (rebuild_one b i) = tc_result (call_at b i)"
  "tc_left (rebuild_one b i) = tc_left (call_at b i)"
  by (simp_all add: rebuild_one_def Let_def)

lemma rebuild_one_more [simp]:
  "spec_of (rebuild_one b i) = spec_of (call_at b i)" "safety (rebuild_one b i) = safety (call_at b i)"
  "run_tool (rebuild_one b i) = run_tool (call_at b i)" "deferred (rebuild_one b i) = deferred (call_at b i)"
  "call_wf (rebuild_one b i) = call_wf (call_at b i)" "executing (rebuild_one b i) = executing (call_at b i)"
  by (simp_all add: executing_def spec_of_def safety_def run_tool_def deferred_def call_wf_def split: option.split)

lemma rebuild_one_dependencies:
  "tc_prepared (call_at b i) \<noteq> None \<Longrightarrow> tc_dependencies (rebuild_one b i) = earlier_conflicting b i"
  by (auto simp: rebuild_one_def Let_def)

lemma rebuild_simps [simp]:
  "length (bt_calls (rebuild b)) = length (bt_calls b)"
  "i < length (bt_calls b) \<Longrightarrow> call_at (rebuild b) i = rebuild_one b i"
  "bt_phase (rebuild b) = bt_phase b" "bt_aborted (rebuild b) = bt_aborted b" "bt_journal_error (rebuild b) = bt_journal_error b"
  "bt_validated (rebuild b) = bt_validated b" "bt_allow_final (rebuild b) = bt_allow_final b" "bt_parallel (rebuild b) = bt_parallel b"
  "bt_precommit_final (rebuild b) = bt_precommit_final b" "bt_workers (rebuild b) = bt_workers b"
  by (simp_all add: rebuild_def)

lemma set_calls_conv: "set (bt_calls b) = call_at b ` {..<length (bt_calls b)}"
  by (auto simp: set_conv_nth)

lemma calls_inv_rebuild:
  assumes "calls_pre (bt_calls b)"
  shows "calls_inv (bt_calls (rebuild b))"
proof -
  let ?cs = "bt_calls b" and ?ds = "bt_calls (rebuild b)"
  have ords: "map tc_ordinal ?ds = map tc_ordinal ?cs" by (rule nth_equalityI) simp_all
  have clash: "clash ?ds j k = clash ?cs j k" if "j < length ?cs" "k < length ?cs" for j k
    using that by (simp add: clash_def)
  have alone: "alone ?ds k = alone ?cs k" if "k < length ?cs" for k
    using that arg_cong [OF ords, of set] by (simp add: alone_def clash)
  show ?thesis unfolding calls_inv_def ords
  proof (intro conjI allI impI ballI)
    show "distinct (map tc_ordinal ?cs)" using assms by (simp add: calls_pre_def)
  next
    fix t assume "t \<in> set ?ds"
    with assms show "call_wf t" by (auto simp: set_calls_conv calls_pre_def)
  next
    fix k j assume "k < length ?ds" "tc_prepared (?ds ! k) \<noteq> None" "j < length ?ds" "clash ?ds j k"
    then show "j \<in> set (tc_dependencies (?ds ! k))"
      by (simp add: clash rebuild_one_dependencies) (simp add: earlier_conflicting_def clash_def)
  next
    fix k assume "k < length ?ds" "executing (?ds ! k)"
    with assms show "alone ?ds k" by (simp add: alone calls_pre_def)
  qed
qed

lemma calls_inv_pre: "calls_inv cs \<Longrightarrow> calls_pre cs"
  by (auto simp: calls_inv_def calls_pre_def)

lemma calls_pre_queue:
  assumes inv: "calls_inv cs" and i: "i < length cs" and state: "tc_state (cs ! i) = Preparing"
    and same: "tc_ordinal t' = tc_ordinal (cs ! i)" and wf: "call_wf t'" "tc_state t' = Queued"
  shows "calls_pre (cs[i := t'])"
proof -
  let ?cs = "cs[i := t']"
  have ord: "tc_ordinal (?cs ! j) = tc_ordinal (cs ! j)" for j by (rule ordinal_nth) (rule same)
  have ords: "tc_ordinal ` set ?cs = tc_ordinal ` set cs" using ordinals_update [of t' cs i] same by (metis set_map)
  have alone: "alone ?cs k" if k: "k < length cs" "k \<noteq> i" "alone cs k" for k
  proof -
    have j: "?cs ! j = cs ! j" if "j < length cs" "tc_ordinal (cs ! j) < tc_ordinal (cs ! k)" for j
      using that k state by (cases "i = j") (auto simp: alone_def)
    have "tc_state (?cs ! j) \<noteq> Preparing \<and> (clash ?cs j k \<longrightarrow> tc_done (?cs ! j))"
      if "j < length cs" "tc_ordinal (cs ! j) < tc_ordinal (cs ! k)" for j
      using that k by (simp add: j alone_def clash_def)
    with k show ?thesis unfolding alone_def ord ords by simp
  qed
  show ?thesis unfolding calls_pre_def
  proof (intro conjI allI impI ballI)
    show "distinct (map tc_ordinal ?cs)" using ordinals_update [of t' cs i] same calls_invD(4) [OF inv] by simp
  next
    fix t assume "t \<in> set ?cs"
    with set_update_subset_insert [of cs i t'] have "t = t' \<or> t \<in> set cs" by auto
    with wf inv show "call_wf t" by (auto simp: calls_inv_def)
  next
    fix k assume k: "k < length ?cs" "executing (?cs ! k)"
    have "k \<noteq> i" using k wf i by (auto simp: executing_def run_tool_def call_wf_def)
    with k show "alone ?cs k" using calls_invD(3) [OF inv, of k] by (intro alone) simp_all
  qed
qed

section \<open>The invariant of a batch\<close>

text \<open>Once the gate before final calls has been passed, every call is prepared and none waits for a
  person any more.\<close>

definition gated :: "batch \<Rightarrow> bool" where
  "gated b \<longleftrightarrow> bt_allow_final b \<or> bt_precommit_final b \<noteq> [] \<or> bt_phase b \<in> {Precommit, Draining}"

fun authorizing :: "phase \<Rightarrow> bool" where
  "authorizing (Authorizing is) \<longleftrightarrow> True"
| "authorizing _ \<longleftrightarrow> False"

definition gate_inv :: "batch \<Rightarrow> bool" where
  "gate_inv b \<longleftrightarrow>
     (bt_phase b \<in> {Streaming, Validating} \<longrightarrow> \<not> gated b \<and> \<not> bt_validated b) \<and>
     (authorizing (bt_phase b) \<or> gated b \<longrightarrow> (\<forall>t\<in>set (bt_calls b). tc_state t \<noteq> Preparing)) \<and>
     (gated b \<longrightarrow> (\<forall>t\<in>set (bt_calls b). \<not> deferred t)) \<and>
     (\<forall>is. bt_phase b = Authorizing is \<longrightarrow>
        set is \<subseteq> {..<length (bt_calls b)} \<and> (\<forall>i < length (bt_calls b). deferred (call_at b i) \<longrightarrow> i \<in> set is)) \<and>
     (authorizing (bt_phase b) \<or> bt_phase b \<in> {Awaiting_prepared, Precommit, Draining} \<longrightarrow> bt_validated b)"

definition may_run :: "batch \<Rightarrow> tracked_call \<Rightarrow> bool" where
  "may_run b t \<longleftrightarrow> (bt_parallel b \<longrightarrow> \<not> deferred t) \<and> (safety t = FINAL_ONLY \<or> \<not> tc_explicit t \<longrightarrow> bt_validated b)"

definition run_inv :: "batch \<Rightarrow> bool" where
  "run_inv b \<longleftrightarrow> (\<forall>t\<in>set (bt_calls b). run_tool t \<longrightarrow> may_run b t) \<and>
     length (filter run_tool (bt_calls b)) \<le> (if bt_parallel b then bt_workers b else 1) \<and>
     length (filter run_tool (bt_calls b)) \<le> bt_workers b"

definition batch_inv :: "batch \<Rightarrow> bool" where
  "batch_inv b \<longleftrightarrow> calls_inv (bt_calls b) \<and> gate_inv b \<and> run_inv b"

lemma length_filter_nth:
  "i < length xs \<Longrightarrow>
   length (filter P (xs[i := y])) + (if P (xs ! i) then 1 else 0) = length (filter P xs) + (if P y then 1 else 0)"
proof (induction xs arbitrary: i)
  case (Cons x xs)
  show ?case
  proof (cases i)
    case (Suc j)
    then show ?thesis using Cons.IH [of j] Cons.prems by (simp split: if_splits)
  qed simp
qed simp

lemma change_simps [simp]:
  "bt_calls (change i f b) = (bt_calls b)[i := f (call_at b i)]" "bt_phase (change i f b) = bt_phase b"
  "bt_allow_final (change i f b) = bt_allow_final b" "bt_precommit_final (change i f b) = bt_precommit_final b"
  "bt_validated (change i f b) = bt_validated b" "bt_parallel (change i f b) = bt_parallel b" "bt_workers (change i f b) = bt_workers b"
  "bt_aborted (change i f b) = bt_aborted b" "bt_journal_error (change i f b) = bt_journal_error b"
  "gated (change i f b) = gated b"
  by (simp_all add: change_def gated_def)

lemma set_update_cases: "t \<in> set (xs[i := y]) \<Longrightarrow> t = y \<or> t \<in> set xs"
  using set_update_subset_insert [of xs i y] by auto

text \<open>A change after which the call does not run.\<close>

lemma batch_inv_settle:
  assumes inv: "batch_inv b" and i: "i < length (bt_calls b)" and t': "t' = f (call_at b i)"
    and calls: "calls_inv ((bt_calls b)[i := t'])" and run: "\<not> run_tool t'"
    and state: "tc_state t' = Preparing \<Longrightarrow> tc_state (call_at b i) = Preparing"
    and def: "deferred t' \<Longrightarrow> deferred (call_at b i)"
  shows "batch_inv (change i f b)"
proof -
  have mem: "call_at b i \<in> set (bt_calls b)" using i by simp
  have "gate_inv (change i f b)"
    using inv i state def unfolding batch_inv_def gate_inv_def t' [symmetric]
    by (auto simp: t' [symmetric] nth_list_update dest!: set_update_cases)
  moreover have "may_run (change i f b) t = may_run b t" for t by (simp add: may_run_def)
  then have "run_inv (change i f b)"
    using inv run length_filter_nth [OF i, of run_tool t'] unfolding batch_inv_def run_inv_def
    by (auto simp: t' [symmetric] dest!: set_update_cases split: if_splits)
  ultimately show ?thesis using calls unfolding batch_inv_def by (simp add: t' [symmetric])
qed

lemma lower_prepared_alone:
  assumes inv: "calls_inv (bt_calls b)" and i: "i < length (bt_calls b)" and lower: "lower_prepared b (call_at b i)"
    and res: "\<not> unresolved b (call_at b i)" and p: "tc_prepared (call_at b i) \<noteq> None"
  shows "alone (bt_calls b) i"
proof -
  have at: "\<exists>j < length (bt_calls b). tc_ordinal (call_at b j) = o' \<and> tc_state (call_at b j) \<noteq> Preparing"
    if o': "o' < tc_ordinal (call_at b i)" for o'
  proof -
    from lower o' have "case at_ordinal b o' of None \<Rightarrow> False | Some j \<Rightarrow> tc_state (call_at b j) \<noteq> Preparing"
      by (auto simp: lower_prepared_def list_all_iff)
    then obtain j where "at_ordinal b o' = Some j" "tc_state (call_at b j) \<noteq> Preparing" by (auto split: option.splits)
    then show ?thesis by (auto simp: at_ordinal_def find_Some_iff)
  qed
  have "tc_state (call_at b j) \<noteq> Preparing \<and> (clash (bt_calls b) j i \<longrightarrow> tc_done (call_at b j))"
    if j: "j < length (bt_calls b)" "tc_ordinal (call_at b j) < tc_ordinal (call_at b i)" for j
  proof -
    from at [OF j(2)] obtain k where k: "k < length (bt_calls b)" "tc_ordinal (call_at b k) = tc_ordinal (call_at b j)"
      "tc_state (call_at b k) \<noteq> Preparing" by blast
    have "k = j" using calls_invD(4) [OF inv] k j by (metis nth_eq_iff_index_eq length_map nth_map)
    moreover have "clash (bt_calls b) j i \<Longrightarrow> tc_done (call_at b j)"
      using calls_invD(2) [OF inv i p j(1)] res by (auto simp: unresolved_def list_ex_iff)
    ultimately show ?thesis using k by blast
  qed
  moreover have "o' \<in> tc_ordinal ` set (bt_calls b)" if "o' < tc_ordinal (call_at b i)" for o'
    using at [OF that] by (auto simp: image_iff intro: nth_mem)
  ultimately show ?thesis by (simp add: alone_def)
qed

lemma length_filter_le_filter: "(\<And>x. P x \<Longrightarrow> Q x) \<Longrightarrow> length (filter P xs) \<le> length (filter Q xs)"
  by (induction xs) (auto simp: le_SucI)

lemma run_tool_active: "length (filter run_tool (bt_calls b)) \<le> active_count b"
  unfolding active_count_def by (rule length_filter_le_filter) (simp add: run_tool_def)

section \<open>Every step keeps the invariant\<close>

lemma batch_inv_cong:
  assumes "batch_inv b" "bt_calls b' = bt_calls b" "bt_phase b' = bt_phase b" "bt_allow_final b' = bt_allow_final b"
    "bt_precommit_final b' = bt_precommit_final b" "bt_validated b' = bt_validated b" "bt_parallel b' = bt_parallel b"
    "bt_workers b' = bt_workers b"
  shows "batch_inv b'"
proof -
  have "gated b' = gated b" "may_run b' = may_run b" using assms by (auto simp: gated_def may_run_def fun_eq_iff)
  then show ?thesis using assms(1) unfolding batch_inv_def gate_inv_def run_inv_def assms(2-8) by simp
qed

lemma batch_invD:
  assumes "batch_inv b"
  shows "calls_inv (bt_calls b)" and "i < length (bt_calls b) \<Longrightarrow> call_wf (call_at b i)"
    and "i < length (bt_calls b) \<Longrightarrow> gated b \<Longrightarrow> \<not> deferred (call_at b i)"
    and "i < length (bt_calls b) \<Longrightarrow> authorizing (bt_phase b) \<or> gated b \<Longrightarrow> tc_state (call_at b i) \<noteq> Preparing"
  using assms calls_invD(1) by (auto simp: batch_inv_def gate_inv_def)

lemma batch_inv_launch_other:
  assumes inv: "batch_inv b" and i: "i < length (bt_calls b)" and q: "tc_state (call_at b i) = Queued"
    and t': "t' = f (call_at b i)" and fields: "tc_ordinal t' = tc_ordinal (call_at b i)" "tc_prepared t' = tc_prepared (call_at b i)"
      "tc_dependencies t' = tc_dependencies (call_at b i)" "tc_done t' = tc_done (call_at b i)" "tc_preparation t' = tc_preparation (call_at b i)"
      "tc_task t' = Some k" "tc_left t' = tc_left (call_at b i)" "(tc_state t' = Cancelling \<or> tc_state t' = Running \<and> k \<noteq> Run_tool)"
  shows "batch_inv (change i f b)"
proof -
  have wf: "call_wf (call_at b i)" using batch_invD(2) [OF inv i] .
  have run: "\<not> run_tool t'" using fields by (auto simp: run_tool_def)
  have def: "deferred t' = deferred (call_at b i)" using fields by (simp add: deferred_def)
  have wf': "call_wf t'" using wf q fields run def by (auto simp: call_wf_def)
  have calls: "calls_inv ((bt_calls b)[i := t'])"
    by (rule calls_inv_frame [OF batch_invD(1) [OF inv] i fields(1-3) wf']) (use fields run q in \<open>auto simp: executing_def\<close>)
  show ?thesis
    by (rule batch_inv_settle [where f = f, OF inv i t' calls run]) (use fields def in auto)
qed

lemma default_policy_conflicts: "conflicts (po_spec default_policy) s" "conflicts s (po_spec default_policy)"
  "po_safety default_policy = FINAL_ONLY"
  by (auto simp: conflicts_def default_policy_def)

lemma start_tool_inv:
  assumes inv: "batch_inv b" and i: "i < length (bt_calls b)" and q: "tc_state (call_at b i) = Queued" "tc_prepared (call_at b i) \<noteq> None"
    and ready: "lower_prepared b (call_at b i)" "\<not> unresolved b (call_at b i)" "can_enter_phase b i"
    and room: "active_count b < bt_workers b" "bt_parallel b \<or> active_count b = 0"
  shows "batch_inv (change i (launch Running Run_tool) b)"
proof -
  let ?t = "launch Running Run_tool (call_at b i)"
  have wf: "call_wf (call_at b i)" using batch_invD(2) [OF inv i] .
  have same: "deferred ?t = deferred (call_at b i)" "safety ?t = safety (call_at b i)" "tc_explicit ?t = tc_explicit (call_at b i)"
    by (simp_all add: launch_def deferred_def safety_def split: option.split)
  have wf': "call_wf ?t" using wf q same(1) by (auto simp: call_wf_def launch_def run_tool_def)
  have calls: "calls_inv ((bt_calls b)[i := ?t])"
    by (rule calls_inv_frame [OF batch_invD(1) [OF inv] i])
      (use wf' lower_prepared_alone [OF batch_invD(1) [OF inv] i ready(1,2) q(2)] in \<open>auto simp: launch_def executing_def\<close>)
  have "safety (call_at b i) = FINAL_ONLY" if "deferred (call_at b i)"
  proof -
    from that obtain p where "tc_prepared (call_at b i) = Some p" by (auto simp: deferred_def split: option.splits)
    with that wf show ?thesis by (auto simp: call_wf_def safety_def default_policy_def)
  qed
  moreover have "gated b" if "bt_parallel b" "safety (call_at b i) = FINAL_ONLY"
    using ready(3) that by (auto simp: can_enter_phase_def gated_def Let_def split: if_splits)
  ultimately have "may_run b ?t"
    using ready(3) batch_invD(3) [OF inv i] unfolding may_run_def same
    by (auto simp: can_enter_phase_def Let_def split: if_splits)
  moreover have "may_run (change i f b) t = may_run b t" for f t by (simp add: may_run_def)
  moreover have "\<not> run_tool (call_at b i)" using q by (simp add: run_tool_def)
  ultimately have "run_inv (change i (launch Running Run_tool) b)"
    using inv room run_tool_active [of b] length_filter_nth [OF i, of run_tool ?t]
    unfolding batch_inv_def run_inv_def by (auto dest!: set_update_cases split: if_splits)
  moreover have "gate_inv (change i (launch Running Run_tool) b)"
    using inv i same(1) q unfolding batch_inv_def gate_inv_def
    by (auto simp: nth_list_update launch_def dest!: set_update_cases)
  ultimately show ?thesis using calls by (simp add: batch_inv_def)
qed

lemma start_one_inv:
  assumes "batch_inv b" "i < length (bt_calls b)"
  shows "batch_inv (start_one i b)"
  using assms start_tool_inv [OF assms] batch_inv_launch_other [OF assms, of _ "launch _ _"]
  by (auto simp: start_one_def Let_def launch_def split: option.split)

lemma start_one_fields [simp]:
  "length (bt_calls (start_one i b)) = length (bt_calls b)" "bt_phase (start_one i b) = bt_phase b"
  "bt_allow_final (start_one i b) = bt_allow_final b" "bt_precommit_final (start_one i b) = bt_precommit_final b"
  "bt_validated (start_one i b) = bt_validated b" "bt_parallel (start_one i b) = bt_parallel b" "bt_workers (start_one i b) = bt_workers b"
  "bt_aborted (start_one i b) = bt_aborted b" "bt_journal_error (start_one i b) = bt_journal_error b"
  by (auto simp: start_one_def Let_def split: option.split)

lemma fold_start_inv:
  "batch_inv b \<Longrightarrow> \<forall>i\<in>set is. i < length (bt_calls b) \<Longrightarrow> batch_inv (fold start_one is b)"
proof (induction "is" arbitrary: b)
  case (Cons i "is")
  then have "batch_inv (start_one i b)" by (intro start_one_inv) auto
  with Cons show ?case by simp
qed simp

lemma in_order_set [simp]: "set (in_order b) = {..<length (bt_calls b)}"
  by (auto simp: in_order_def)

lemma start_ready_inv: "batch_inv b \<Longrightarrow> batch_inv (start_ready b)"
  by (auto simp: start_ready_def intro!: fold_start_inv)

text \<open>Results have no influence on the invariant.\<close>

definition strip_results :: "tracked_call list \<Rightarrow> tracked_call list" where
  "strip_results cs = map (tc_result_update (\<lambda>_. None)) cs"

lemma strip_nth:
  assumes "i < length cs"
  shows "strip_results cs ! i = (cs ! i)\<lparr>tc_result := None\<rparr>"
  using assms by (simp add: strip_results_def)

lemma strip_call [simp]:
  "spec_of (t\<lparr>tc_result := r\<rparr>) = spec_of t" "run_tool (t\<lparr>tc_result := r\<rparr>) = run_tool t"
  "deferred (t\<lparr>tc_result := r\<rparr>) = deferred t" "call_wf (t\<lparr>tc_result := r\<rparr>) = call_wf t" "safety (t\<lparr>tc_result := r\<rparr>) = safety t"
  "may_run b (t\<lparr>tc_result := r\<rparr>) = may_run b t" "executing (t\<lparr>tc_result := r\<rparr>) = executing t"
  by (simp_all add: executing_def spec_of_def run_tool_def deferred_def call_wf_def safety_def may_run_def split: option.split)

lemma strip_length [simp]: "length (strip_results cs) = length cs"
  by (simp add: strip_results_def)

lemma strip_clash: "j < length cs \<Longrightarrow> i < length cs \<Longrightarrow> clash (strip_results cs) j i = clash cs j i"
  by (simp add: clash_def strip_nth)

lemma strip_ordinals: "map tc_ordinal (strip_results cs) = map tc_ordinal cs"
  by (simp add: strip_results_def)

lemma strip_ball: "(\<forall>t\<in>set (strip_results cs). P t) = (\<forall>t\<in>set cs. P (t\<lparr>tc_result := None\<rparr>))"
  by (simp add: strip_results_def)

lemma strip_alone: "i < length cs \<Longrightarrow> alone (strip_results cs) i = alone cs i"
  using strip_ordinals [of cs, THEN arg_cong, of set] by (simp add: alone_def strip_clash strip_nth)

lemma calls_inv_strip: "calls_inv (strip_results cs) = calls_inv cs"
  by (simp add: calls_inv_def strip_ordinals strip_ball strip_nth strip_clash strip_alone)

lemma filter_strip: "length (filter run_tool (strip_results cs)) = length (filter run_tool cs)"
  by (simp add: strip_results_def filter_map comp_def)

lemma batch_inv_strip: "batch_inv (b\<lparr>bt_calls := strip_results (bt_calls b)\<rparr>) = batch_inv b"
proof -
  have "gated (b\<lparr>bt_calls := strip_results (bt_calls b)\<rparr>) = gated b" "may_run (b\<lparr>bt_calls := strip_results (bt_calls b)\<rparr>) t = may_run b t" for t
    by (simp_all add: gated_def may_run_def)
  then show ?thesis
    by (simp add: batch_inv_def gate_inv_def run_inv_def calls_inv_strip strip_ball strip_nth filter_strip)
qed

definition same_but_results :: "batch \<Rightarrow> batch \<Rightarrow> bool" where
  "same_but_results b b' \<longleftrightarrow> strip_results (bt_calls b') = strip_results (bt_calls b) \<and> bt_phase b' = bt_phase b \<and>
     bt_allow_final b' = bt_allow_final b \<and> bt_precommit_final b' = bt_precommit_final b \<and>
     bt_validated b' = bt_validated b \<and> bt_parallel b' = bt_parallel b \<and> bt_workers b' = bt_workers b \<and>
     bt_aborted b' = bt_aborted b \<and> bt_journal_error b' = bt_journal_error b"

lemma batch_inv_results:
  assumes "batch_inv b" "same_but_results b b'"
  shows "batch_inv b'"
proof -
  have "batch_inv (b\<lparr>bt_calls := strip_results (bt_calls b)\<rparr>)" using assms(1) by (simp add: batch_inv_strip)
  then have "batch_inv (b'\<lparr>bt_calls := strip_results (bt_calls b')\<rparr>)"
    by (rule batch_inv_cong) (use assms(2) in \<open>simp_all add: same_but_results_def\<close>)
  then show ?thesis by (simp add: batch_inv_strip)
qed

lemma strip_change: "strip_results ((bt_calls b)[i := (call_at b i)\<lparr>tc_result := r\<rparr>]) = strip_results (bt_calls b)"
proof (rule nth_equalityI)
  fix j assume "j < length (strip_results ((bt_calls b)[i := (call_at b i)\<lparr>tc_result := r\<rparr>]))"
  then show "strip_results ((bt_calls b)[i := (call_at b i)\<lparr>tc_result := r\<rparr>]) ! j = strip_results (bt_calls b) ! j"
    by (cases "i = j") (simp_all add: strip_nth)
qed simp

lemma change_results: "same_but_results b (change i (\<lambda>t. t\<lparr>tc_result := g t\<rparr>) b)"
  by (simp add: same_but_results_def strip_change)

lemma same_but_trans: "same_but_results a b \<Longrightarrow> same_but_results b c \<Longrightarrow> same_but_results a c"
  by (simp add: same_but_results_def)

lemma fold_results: "same_but_results b (fold (\<lambda>i. change i (\<lambda>t. t\<lparr>tc_result := g t\<rparr>)) is b)"
proof (induction "is" arbitrary: b)
  case (Cons i "is")
  show ?case unfolding fold_Cons comp_apply by (rule same_but_trans [OF change_results Cons])
qed (simp add: same_but_results_def)

lemma mark_rolled_back_same: "same_but_results b (mark_rolled_back is e b)"
  unfolding mark_rolled_back_def by (rule fold_results)

lemma mark_rolled_back_inv: "batch_inv b \<Longrightarrow> batch_inv (mark_rolled_back is e b)"
  by (rule batch_inv_results [OF _ mark_rolled_back_same])

section \<open>Completion\<close>

lemma clash_drop:
  assumes "i < length cs" "tc_ordinal t' = tc_ordinal (cs ! i)" "tc_prepared t' = tc_prepared (cs ! i) \<or> tc_prepared t' = None"
    and "clash (cs[i := t']) j k"
  shows "clash cs j k"
proof (cases "tc_prepared t' = tc_prepared (cs ! i)")
  case True
  with assms clash_frame [of t' cs i] show ?thesis by simp
next
  case False
  with assms have none: "tc_prepared t' = None" by simp
  then have spec: "spec_of t' = \<lparr>cs_locks = [], cs_exclusive = False\<rparr>" by (simp add: spec_of_def)
  have weak: "conflicts s \<lparr>cs_locks = [], cs_exclusive = False\<rparr> \<Longrightarrow> conflicts s s'" for s s'
    by (simp add: conflicts_def list_ex_iff)
  have "j \<noteq> i" using assms(1,4) none by (auto simp: clash_def)
  then show ?thesis
    using assms(1,2,4) weak by (cases "k = i") (auto simp: clash_def spec)
qed

lemma change_change: "i < length (bt_calls b) \<Longrightarrow> change i f (change i g b) = change i (\<lambda>t. f (g t)) b"
  by (simp add: change_def)

text \<open>A call completes, possibly together with the end of its preparation or the loss of it.\<close>

lemma settle_completed:
  assumes inv: "batch_inv b" and i: "i < length (bt_calls b)" and t': "t' = f (call_at b i)"
    and fields: "tc_ordinal t' = tc_ordinal (call_at b i)" "tc_dependencies t' = tc_dependencies (call_at b i)"
      "tc_prepared t' = tc_prepared (call_at b i) \<or> tc_prepared t' = None"
      "tc_state t' = Completed" "tc_done t'" "tc_preparation t' = Prepared" "tc_left t' \<Longrightarrow> tc_left (call_at b i) \<or> run_tool (call_at b i)"
  shows "batch_inv (change i f b)"
proof -
  have wf: "call_wf (call_at b i)" using batch_invD(2) [OF inv i] .
  have run: "\<not> run_tool t'" using fields by (simp add: run_tool_def)
  have def: "deferred t' \<Longrightarrow> deferred (call_at b i) \<and> tc_prepared t' = tc_prepared (call_at b i)" using fields(3) by (auto simp: deferred_def)
  have wf': "call_wf t'" using wf fields run def by (auto simp: call_wf_def)
  have calls: "calls_inv ((bt_calls b)[i := t'])"
    by (rule calls_inv_shrink [OF batch_invD(1) [OF inv] i fields(1,2)])
      (use clash_drop [OF i fields(1,3)] wf' run fields in auto)
  show ?thesis by (rule batch_inv_settle [where f = f, OF inv i t' calls run]) (use fields def in auto)
qed

lemma complete_inv:
  assumes inv: "batch_inv b" and i: "i < length (bt_calls b)"
    and g: "tc_ordinal (g (call_at b i)) = tc_ordinal (call_at b i)" "tc_dependencies (g (call_at b i)) = tc_dependencies (call_at b i)"
      "tc_prepared (g (call_at b i)) = tc_prepared (call_at b i) \<or> tc_prepared (g (call_at b i)) = None"
      "tc_preparation (g (call_at b i)) = Prepared" "tc_done (g (call_at b i)) = tc_done (call_at b i)"
      "tc_state (g (call_at b i)) = tc_state (call_at b i)" "tc_left (g (call_at b i)) \<Longrightarrow> tc_left (call_at b i) \<or> run_tool (call_at b i)"
  shows "batch_inv (complete i r (change i g b))" and "batch_inv (complete_error i (change i g b))"
proof -
  let ?t = "g (call_at b i)"
  have at: "call_at (change i g b) i = ?t" using i by simp
  have don: "batch_inv (change i g b)" if "tc_done ?t"
    by (rule settle_completed [where f = g, OF inv i refl]) (use that g batch_invD(2) [OF inv i] in \<open>auto simp: call_wf_def\<close>)
  have fin: "batch_inv (change i (finished s x) (change i g b))" for s x
    unfolding change_change [OF i]
    by (rule settle_completed [where f = "\<lambda>t. finished s x (g t)", OF inv i refl]) (use g in \<open>auto simp: finished_def\<close>)
  show "batch_inv (complete i r (change i g b))"
    unfolding complete_def at Let_def using don
    by (auto intro!: start_ready_inv intro: batch_inv_cong [OF fin])
  show "batch_inv (complete_error i (change i g b))"
    unfolding complete_error_def at using don fin by (auto intro!: start_ready_inv)
qed

lemma complete_plain_inv:
  assumes "batch_inv b" "i < length (bt_calls b)" "tc_preparation (call_at b i) = Prepared"
  shows "batch_inv (complete i r b)"
proof -
  have "change i id b = b" using assms by (simp add: change_def list_update_id)
  with complete_inv(1) [OF assms(1,2), of id r] assms(3) show ?thesis by (simp add: executing_def)
qed

section \<open>The other operations\<close>

lemma batch_inv_swap:
  assumes inv: "batch_inv b" and i: "i < length (bt_calls b)" and t': "t' = f (call_at b i)"
    and calls: "calls_inv ((bt_calls b)[i := t'])" and run: "run_tool t' = run_tool (call_at b i)" "run_tool t' \<Longrightarrow> may_run b t'"
    and state: "tc_state t' = Preparing \<Longrightarrow> tc_state (call_at b i) = Preparing"
    and def: "deferred t' \<Longrightarrow> deferred (call_at b i)"
  shows "batch_inv (change i f b)"
proof -
  have "gate_inv (change i f b)"
    using inv i state def unfolding batch_inv_def gate_inv_def t' [symmetric]
    by (auto simp: t' [symmetric] nth_list_update dest!: set_update_cases)
  moreover have "may_run (change i f b) t = may_run b t" for t by (simp add: may_run_def)
  then have "run_inv (change i f b)"
    using inv run length_filter_nth [OF i, of run_tool t'] unfolding batch_inv_def run_inv_def
    by (auto simp: t' [symmetric] dest!: set_update_cases split: if_splits)
  ultimately show ?thesis using calls unfolding batch_inv_def by (simp add: t' [symmetric])
qed

lemma cancel_fields [simp]:
  "length (bt_calls (cancel_not_started i b)) = length (bt_calls b)" "bt_phase (cancel_not_started i b) = bt_phase b"
  by (auto simp: cancel_not_started_def split: call_state.split)

lemma cancel_inv:
  assumes inv: "batch_inv b" and i: "i < length (bt_calls b)"
  shows "batch_inv (cancel_not_started i b)"
proof (cases "tc_state (call_at b i)")
  case Preparing
  let ?t = "(call_at b i)\<lparr>tc_cancel := True\<rparr>"
  have def: "deferred ?t = deferred (call_at b i)" "run_tool ?t = run_tool (call_at b i)" by (simp_all add: deferred_def run_tool_def)
  have wf: "call_wf ?t" using batch_invD(2) [OF inv i] def by (auto simp: call_wf_def)
  have run: "\<not> run_tool ?t" using Preparing by (simp add: run_tool_def)
  have calls: "calls_inv ((bt_calls b)[i := ?t])"
    by (rule calls_inv_frame [OF batch_invD(1) [OF inv] i _ _ _ wf]) (use run in \<open>auto simp: executing_def\<close>)
  have "batch_inv (change i (tc_cancel_update (\<lambda>_. True)) b)"
    by (rule batch_inv_settle [where f = "tc_cancel_update (\<lambda>_. True)", OF inv i refl calls run]) (use def in simp_all)
  then show ?thesis using Preparing by (simp add: cancel_not_started_def)
next
  case Queued
  then have "batch_inv (change i (\<lambda>t. launch Cancelling Report_cancelled (t\<lparr>tc_cancel := True\<rparr>)) b)"
    by (intro batch_inv_launch_other [where f = "\<lambda>t. launch Cancelling Report_cancelled (t\<lparr>tc_cancel := True\<rparr>)", OF inv i Queued refl])
      (simp_all add: launch_def)
  then show ?thesis using Queued by (simp add: cancel_not_started_def)
qed (use inv in \<open>simp_all add: cancel_not_started_def\<close>)

lemma fold_cancel_inv:
  "batch_inv b \<Longrightarrow> \<forall>i\<in>set is. i < length (bt_calls b) \<Longrightarrow>
   batch_inv (fold cancel_not_started is b) \<and> length (bt_calls (fold cancel_not_started is b)) = length (bt_calls b) \<and>
   bt_phase (fold cancel_not_started is b) = bt_phase b"
proof (induction "is" arbitrary: b)
  case (Cons i "is")
  then have "batch_inv (cancel_not_started i b)" by (intro cancel_inv) auto
  with Cons show ?case by simp
qed simp

lemma run_inv_phase [simp]: "run_inv (b\<lparr>bt_phase := p\<rparr>) = run_inv b"
  by (simp add: run_inv_def may_run_def)

lemma end_phase_inv:
  assumes inv: "batch_inv b" and p: "p = Invalidating \<or> p = Closed"
  shows "batch_inv (b\<lparr>bt_phase := p\<rparr>)"
proof -
  have "gated (b\<lparr>bt_phase := p\<rparr>) \<Longrightarrow> gated b" using p by (auto simp: gated_def)
  then have "gated (b\<lparr>bt_phase := p\<rparr>) \<longrightarrow> (\<forall>t\<in>set (bt_calls b). tc_state t \<noteq> Preparing \<and> \<not> deferred t)"
    using inv unfolding batch_inv_def gate_inv_def by blast
  then have "gate_inv (b\<lparr>bt_phase := p\<rparr>)" using p by (elim disjE) (simp_all add: gate_inv_def)
  then show ?thesis using inv by (simp add: batch_inv_def)
qed

lemma invalidate_inv: "batch_inv b \<Longrightarrow> batch_inv (invalidate b)"
proof -
  assume inv: "batch_inv b"
  have "batch_inv (b\<lparr>bt_aborted := True\<rparr>)" by (rule batch_inv_cong [OF inv]) simp_all
  then have "batch_inv (fold cancel_not_started (indices b) (b\<lparr>bt_aborted := True\<rparr>))"
    using fold_cancel_inv [of "b\<lparr>bt_aborted := True\<rparr>" "indices b"] by simp
  then show ?thesis unfolding invalidate_def by (rule end_phase_inv) simp_all
qed

lemma at_ordinal_None: "at_ordinal b o' = None \<Longrightarrow> o' \<notin> tc_ordinal ` set (bt_calls b)"
  by (auto simp: at_ordinal_def find_None_iff in_set_conv_nth)

lemma submit_inv:
  assumes inv: "batch_inv b" and phase: "bt_phase b = Streaming" and free: "at_ordinal b ordinal = None"
  shows "batch_inv (submit c streamed ordinal explicit b)"
proof -
  let ?t = "new_call b c streamed ordinal explicit"
  have wf: "call_wf ?t" "\<not> deferred ?t" "\<not> run_tool ?t" by (simp_all add: call_wf_def new_call_def run_tool_def deferred_def)
  have "calls_inv (bt_calls b @ [?t])"
    by (rule calls_inv_submit [OF batch_invD(1) [OF inv]])
      (use at_ordinal_None [OF free] wf in \<open>simp_all add: new_call_def\<close>)
  moreover have "\<not> gated b" using inv phase by (simp add: batch_inv_def gate_inv_def)
  then have "gate_inv (submit c streamed ordinal explicit b)"
    using inv phase by (simp add: batch_inv_def gate_inv_def submit_def gated_def)
  moreover have "may_run (submit c streamed ordinal explicit b) t = may_run b t" for t by (simp add: may_run_def submit_def)
  then have "run_inv (submit c streamed ordinal explicit b)"
    using inv wf(3) by (simp add: batch_inv_def run_inv_def) (simp add: submit_def split: if_splits)
  ultimately show ?thesis by (simp add: batch_inv_def submit_def)
qed

lemma submit_streamed_inv:
  assumes "batch_inv b" "bt_phase b = Streaming"
  shows "batch_inv (submit_streamed c ordinal b)"
proof -
  have "batch_inv (b\<lparr>bt_invalid := True\<rparr>)" by (rule batch_inv_cong [OF assms(1)]) simp_all
  then show ?thesis
    using assms submit_inv [OF assms] by (auto simp: submit_streamed_def Let_def split: option.split)
qed

lemma bind_call_inv:
  assumes inv: "batch_inv b" and phase: "bt_phase b = Streaming"
  shows "batch_inv (bind_call ordinal c b) \<and> bt_phase (bind_call ordinal c b) = Streaming"
proof (cases "at_id b (tl_id c)")
  case None
  have "batch_inv (submit c False ordinal True b)" if "at_ordinal b ordinal = None"
    using submit_inv [OF inv phase that] .
  then show ?thesis using inv phase unfolding bind_call_def None
    by (auto simp: submit_def intro: batch_inv_cong)
next
  case (Some i)
  then have i: "i < length (bt_calls b)" by (auto simp: at_id_def find_Some_iff split: option.splits if_splits)
  have "batch_inv (cancel_not_started i (b\<lparr>bt_invalid := True\<rparr>))"
    by (rule cancel_inv) (use i in \<open>auto intro: batch_inv_cong [OF inv]\<close>)
  then show ?thesis using inv phase unfolding bind_call_def Some
    by (auto simp: Let_def intro: batch_inv_cong)
qed

lemma bind_calls_inv:
  "batch_inv b \<Longrightarrow> bt_phase b = Streaming \<Longrightarrow> batch_inv (bind_calls n cs b) \<and> bt_phase (bind_calls n cs b) = Streaming"
  by (induction n cs b rule: bind_calls.induct) (auto simp: bind_call_inv)

lemma drop_orphan_inv:
  assumes "batch_inv b" "i < length (bt_calls b)"
  shows "batch_inv (drop_orphan ids i b) \<and> length (bt_calls (drop_orphan ids i b)) = length (bt_calls b) \<and>
     bt_phase (drop_orphan ids i b) = bt_phase b"
proof -
  have "batch_inv (cancel_not_started i (b\<lparr>bt_invalid := True\<rparr>))"
    by (rule cancel_inv) (use assms(2) in \<open>auto intro: batch_inv_cong [OF assms(1)]\<close>)
  then show ?thesis using assms(1) by (simp add: drop_orphan_def Let_def)
qed

lemma fold_orphan_inv:
  "batch_inv b \<Longrightarrow> \<forall>i\<in>set is. i < length (bt_calls b) \<Longrightarrow>
   batch_inv (fold (drop_orphan ids) is b) \<and> bt_phase (fold (drop_orphan ids) is b) = bt_phase b"
proof (induction "is" arbitrary: b)
  case (Cons i "is")
  then show ?case using drop_orphan_inv [of b i ids] by simp
qed simp

lemma reconcile_inv:
  assumes "batch_inv b" "bt_phase b = Streaming"
  shows "batch_inv (reconcile cs b) \<and> bt_phase (reconcile cs b) = Streaming"
proof -
  let ?b = "if distinct (given_ids cs) then b else b\<lparr>bt_invalid := True\<rparr>"
  have "batch_inv ?b" "bt_phase ?b = Streaming" using assms by (auto intro: batch_inv_cong)
  from bind_calls_inv [OF this, of 0 cs] show ?thesis
    unfolding reconcile_def Let_def using fold_orphan_inv [of "bind_calls 0 cs ?b" "indices (bind_calls 0 cs ?b)" "given_ids cs"] by simp
qed

lemma begin_finish_inv:
  assumes inv: "batch_inv b" and phase: "bt_phase b = Streaming"
  shows "batch_inv (begin_finish cs proven b)"
proof -
  have bound: "batch_inv ((invalidate b)\<lparr>bt_bindings := x\<rparr>)" for x
    by (rule batch_inv_cong [OF invalidate_inv [OF inv]]) simp_all
  have "batch_inv (b\<lparr>bt_phase := Closed\<rparr>)" using inv by (rule end_phase_inv) simp
  moreover from reconcile_inv [OF assms, of cs] have r: "batch_inv (reconcile cs b)" "bt_phase (reconcile cs b) = Streaming" by simp_all
  moreover have "gated ((reconcile cs b)\<lparr>bt_phase := Validating\<rparr>) = gated (reconcile cs b)" using r(2) by (simp add: gated_def)
  then have "batch_inv ((reconcile cs b)\<lparr>bt_phase := Validating\<rparr>)"
    using r by (simp add: batch_inv_def gate_inv_def)
  ultimately show ?thesis using bound invalidate_inv [OF r(1)] by (simp add: begin_finish_def Let_def)
qed

lemma begin_preparation_inv:
  assumes inv: "batch_inv b" and i: "i < length (bt_calls b)" and p: "tc_preparation (call_at b i) \<noteq> Prepared" "p \<noteq> Prepared"
  shows "batch_inv (change i (tc_preparation_update (\<lambda>_. p)) b)"
proof -
  let ?t = "(call_at b i)\<lparr>tc_preparation := p\<rparr>"
  have wf: "call_wf (call_at b i)" using batch_invD(2) [OF inv i] .
  have def: "deferred ?t = deferred (call_at b i)" "run_tool ?t = run_tool (call_at b i)" by (simp_all add: deferred_def run_tool_def)
  have none: "tc_state (call_at b i) = Preparing" "tc_prepared (call_at b i) = None" using wf p by (auto simp: call_wf_def)
  then have run: "\<not> run_tool ?t" and nd: "\<not> deferred ?t" by (simp_all add: run_tool_def deferred_def)
  have wf': "call_wf ?t" using wf p none run nd by (auto simp: call_wf_def)
  have calls: "calls_inv ((bt_calls b)[i := ?t])"
    by (rule calls_inv_frame [OF batch_invD(1) [OF inv] i _ _ _ wf']) (use run in \<open>auto simp: executing_def\<close>)
  show ?thesis by (rule batch_inv_settle [where f = "tc_preparation_update (\<lambda>_. p)", OF inv i refl calls run]) (use def in simp_all)
qed

lemma rebuild_calls: "bt_calls (rebuild b) = map (rebuild_one b) (indices b)"
  by (simp add: rebuild_def)

lemma rebuild_run_inv: "run_inv (rebuild b) = run_inv b"
proof -
  have "may_run (rebuild b) (rebuild_one b i) = may_run b (call_at b i)" for i by (simp add: may_run_def)
  moreover have "filter run_tool (bt_calls (rebuild b)) = map (rebuild_one b) (filter (\<lambda>i. run_tool (call_at b i)) (indices b))"
    by (simp add: rebuild_calls filter_map comp_def)
  moreover have "length (filter (\<lambda>i. run_tool (call_at b i)) (indices b)) = length (filter run_tool (bt_calls b))"
    using arg_cong [OF map_nth [of "bt_calls b"], of "\<lambda>xs. length (filter run_tool xs)"] by (simp add: filter_map comp_def)
  ultimately show ?thesis by (simp add: run_inv_def rebuild_calls set_calls_conv atLeast0LessThan)
qed

lemma rebuild_gate_inv: "gate_inv (rebuild b) = gate_inv b"
proof -
  have "gated (rebuild b) = gated b" by (simp add: gated_def)
  moreover have "(\<forall>t\<in>set (bt_calls (rebuild b)). tc_state t \<noteq> Preparing) = (\<forall>t\<in>set (bt_calls b). tc_state t \<noteq> Preparing)"
    "(\<forall>t\<in>set (bt_calls (rebuild b)). \<not> deferred t) = (\<forall>t\<in>set (bt_calls b). \<not> deferred t)"
    by (auto simp: rebuild_calls set_calls_conv)
  ultimately show ?thesis by (simp add: gate_inv_def)
qed

lemma rebuild_inv: "batch_inv b \<Longrightarrow> batch_inv (rebuild b)"
  using calls_inv_rebuild [of b] calls_inv_pre by (simp add: batch_inv_def rebuild_run_inv rebuild_gate_inv)

lemma queue_inv:
  assumes inv: "batch_inv b" and i: "i < length (bt_calls b)" and p: "tc_state (call_at b i) = Preparing"
    and t': "t' = f (call_at b i)" and same: "tc_ordinal t' = tc_ordinal (call_at b i)" and wf: "call_wf t'" "tc_state t' = Queued"
  shows "batch_inv (rebuild (change i f b))"
proof -
  have open': "\<not> authorizing (bt_phase b)" "\<not> gated b" using batch_invD(4) [OF inv i] p by auto
  have "calls_pre (bt_calls (change i f b))"
    using calls_pre_queue [OF batch_invD(1) [OF inv] i p same wf] by (simp add: t')
  then have "calls_inv (bt_calls (rebuild (change i f b)))" by (rule calls_inv_rebuild)
  moreover have "gate_inv (change i f b)" using inv open' by (auto simp: batch_inv_def gate_inv_def)
  moreover have "run_inv (change i f b)"
  proof -
    have "may_run (change i f b) t = may_run b t" for t by (simp add: may_run_def)
    moreover have "\<not> run_tool t'" using wf(2) by (simp add: run_tool_def)
    ultimately show ?thesis
      using inv length_filter_nth [OF i, of run_tool t'] unfolding batch_inv_def run_inv_def
      by (auto simp: t' [symmetric] dest!: set_update_cases split: if_splits)
  qed
  ultimately show ?thesis by (simp add: batch_inv_def rebuild_gate_inv rebuild_run_inv)
qed

lemma rebuild_journal: "rebuild (b\<lparr>bt_journal_error := e\<rparr>) = (rebuild b)\<lparr>bt_journal_error := e\<rparr>"
  by (simp add: rebuild_def rebuild_one_def earlier_conflicting_def Let_def)

lemma admit_inv:
  assumes inv: "batch_inv b" and i: "i < length (bt_calls b)" and p: "tc_preparation (call_at b i) \<noteq> Prepared"
    and q: "pc_deferred q \<longrightarrow> pc_policy q = default_policy \<and> pc_provisional q"
  shows "batch_inv (admit i q stop recorded (change i (tc_preparation_update (\<lambda>_. Prepared)) b))"
proof -
  have wf: "call_wf (call_at b i)" using batch_invD(2) [OF inv i] .
  have state: "tc_state (call_at b i) = Preparing" "tc_prepared (call_at b i) = None" "\<not> tc_done (call_at b i)" "\<not> tc_left (call_at b i)"
    using wf p by (auto simp: call_wf_def)
  define f where "f = (\<lambda>t :: tracked_call. launch Cancelling Report_cancelled (t\<lparr>tc_preparation := Prepared\<rparr>))"
  define g where "g = (\<lambda>t :: tracked_call. t\<lparr>tc_preparation := Prepared, tc_prepared := Some q, tc_hint := po_safety (pc_policy q), tc_state := Queued\<rparr>)"
  have "batch_inv (change i f b)"
  proof -
    have run: "\<not> run_tool (f (call_at b i))" and def: "\<not> deferred (f (call_at b i))"
      using state by (simp_all add: f_def launch_def run_tool_def deferred_def)
    have wf': "call_wf (f (call_at b i))" using wf state run def by (simp add: call_wf_def f_def launch_def)
    have "calls_inv ((bt_calls b)[i := f (call_at b i)])"
      by (rule calls_inv_frame [OF batch_invD(1) [OF inv] i _ _ _ wf']) (use run in \<open>auto simp: f_def launch_def executing_def\<close>)
    then show ?thesis
      by (rule batch_inv_settle [where f = f, OF inv i refl _ run]) (use def in \<open>simp_all add: f_def launch_def\<close>)
  qed
  moreover have "batch_inv (rebuild (change i g b))"
  proof (rule queue_inv [OF inv i state(1) refl])
    have "\<not> run_tool (g (call_at b i))" by (simp add: g_def run_tool_def)
    then show "call_wf (g (call_at b i))" using state q by (simp add: call_wf_def g_def deferred_def)
  qed (simp_all add: g_def)
  then have "batch_inv ((rebuild (change i g b))\<lparr>bt_journal_error := e\<rparr>)" for e by (rule batch_inv_cong) simp_all
  ultimately show ?thesis
    unfolding admit_def change_change [OF i] f_def g_def using i
    by (simp add: rebuild_journal start_ready_inv)
qed

lemma end_preparation_inv:
  assumes inv: "batch_inv b" and i: "i < length (bt_calls b)" and p: "tc_preparation (call_at b i) \<noteq> Prepared"
    and b': "end_preparation i provisional r stop recorded b = Some b'"
  shows "batch_inv b'"
proof (cases r)
  case (Ready q)
  then show ?thesis using b' admit_inv [OF inv i p, of "\<lparr>pc_policy = admit_policy q, pc_provisional = provisional, pc_deferred = False\<rparr>"]
    by (simp add: end_preparation_def Let_def) blast
next
  case Deferred
  then show ?thesis using b' admit_inv [OF inv i p, of "\<lparr>pc_policy = default_policy, pc_provisional = True, pc_deferred = True\<rparr>"]
    by (simp add: end_preparation_def Let_def split: if_splits) blast
qed (use b' complete_inv [OF inv i, of "tc_preparation_update (\<lambda>_. Prepared)"] in \<open>auto simp: end_preparation_def Let_def\<close>)

lemma authorize_ready_inv:
  assumes inv: "batch_inv b" and i: "i < length (bt_calls b)" and auth: "authorizing (bt_phase b)"
    and p: "tc_prepared (call_at b i) = Some p" and weak: "pc_deferred p \<or> pc_policy q = pc_policy p" "\<not> pc_deferred q"
    and t': "t' = f (call_at b i)" and fields: "tc_ordinal t' = tc_ordinal (call_at b i)" "tc_dependencies t' = tc_dependencies (call_at b i)"
      "tc_prepared t' = Some q" "tc_state t' = tc_state (call_at b i)" "tc_done t' = tc_done (call_at b i)" "tc_left t' = tc_left (call_at b i)"
      "tc_task t' = tc_task (call_at b i)" "tc_preparation t' = tc_preparation (call_at b i)"
  shows "batch_inv (change i f b)"
proof -
  have wf: "call_wf (call_at b i)" using batch_invD(2) [OF inv i] .
  have run: "run_tool t' = run_tool (call_at b i)" and def: "\<not> deferred t'" using fields weak by (simp_all add: run_tool_def deferred_def)
  have wf': "call_wf t'" using wf p fields run def by (auto simp: call_wf_def)
  have "pc_policy p = default_policy" if "pc_deferred p"
    using wf p that by (simp add: call_wf_def deferred_def)
  with weak have confl: "conflicts s (po_spec (pc_policy q)) \<Longrightarrow> conflicts s (po_spec (pc_policy p))"
      "conflicts (po_spec (pc_policy q)) s \<Longrightarrow> conflicts (po_spec (pc_policy p)) s" for s
    by (auto simp: default_policy_conflicts)
  have spec: "spec_of t' = po_spec (pc_policy q)" "spec_of (call_at b i) = po_spec (pc_policy p)" using fields p by (simp_all add: spec_of_def)
  have clash: "clash (bt_calls b) j k" if "clash ((bt_calls b)[i := t']) j k" for j k
    using that confl i p fields by (cases "j = i"; cases "k = i") (auto simp: clash_def spec)
  have calls: "calls_inv ((bt_calls b)[i := t'])"
    by (rule calls_inv_shrink [OF batch_invD(1) [OF inv] i fields(1,2) _ clash wf'])
      (use p fields run calls_invD(3) [OF batch_invD(1) [OF inv] i] in \<open>auto simp: executing_def\<close>)
  have "may_run b t'" using inv auth def by (auto simp: may_run_def batch_inv_def gate_inv_def)
  then show ?thesis by (intro batch_inv_swap [where f = f, OF inv i t' calls run]) (use fields def in auto)
qed


lemma start_one_prepared: "tc_prepared (call_at (start_one i b) j) = tc_prepared (call_at b j)"
  by (cases "i < length (bt_calls b)"; cases "i = j")
    (auto simp: start_one_def Let_def launch_def list_update_beyond split: option.split)

lemma start_ready_fields [simp]:
  "length (bt_calls (start_ready b)) = length (bt_calls b)" "bt_phase (start_ready b) = bt_phase b"
  "tc_prepared (call_at (start_ready b) j) = tc_prepared (call_at b j)"
proof -
  have "length (bt_calls (fold start_one is b)) = length (bt_calls b) \<and> bt_phase (fold start_one is b) = bt_phase b \<and>
      tc_prepared (call_at (fold start_one is b) j) = tc_prepared (call_at b j)" for "is"
    by (induction "is" arbitrary: b) (simp_all add: start_one_prepared)
  then show "length (bt_calls (start_ready b)) = length (bt_calls b)" "bt_phase (start_ready b) = bt_phase b"
    "tc_prepared (call_at (start_ready b) j) = tc_prepared (call_at b j)"
    by (simp_all add: start_ready_def)
qed

lemma complete_fields [simp]:
  "length (bt_calls (complete i r b)) = length (bt_calls b)" "bt_phase (complete i r b) = bt_phase b"
  by (simp_all add: complete_def Let_def)

lemma complete_prepared: "tc_prepared (call_at (complete i r b) j) = tc_prepared (call_at b j)"
  by (cases "i < length (bt_calls b)"; cases "i = j") (simp_all add: complete_def Let_def finished_def list_update_beyond)

lemma deferred_cong: "tc_prepared t = tc_prepared u \<Longrightarrow> deferred t = deferred u"
  by (simp add: deferred_def)

lemma authorize_inv:
  assumes inv: "batch_inv b" and i: "i < length (bt_calls b)" and auth: "authorizing (bt_phase b)"
    and b': "authorize i r recorded b = Some b'"
  shows "batch_inv b' \<and> bt_phase b' = bt_phase b \<and> length (bt_calls b') = length (bt_calls b) \<and> \<not> deferred (call_at b' i)"
proof (cases "tc_prepared (call_at b i)")
  case None
  then show ?thesis using inv b' by (simp add: authorize_def deferred_def)
next
  case (Some p)
  have wf: "call_wf (call_at b i)" using batch_invD(2) [OF inv i] .
  have nd: "\<not> deferred (call_at b i)" if "\<not> pc_provisional p" using that wf Some by (auto simp: call_wf_def deferred_def)
  have prep: "tc_preparation (call_at b i) = Prepared" using wf batch_invD(4) [OF inv i] auth by (auto simp: call_wf_def)
  note ready = authorize_ready_inv [OF inv i auth Some]
  show ?thesis
  proof (cases "pc_provisional p")
    case False
    then show ?thesis using inv b' Some nd by (simp add: authorize_def)
  next
    case prov: True
    show ?thesis
    proof (cases "pc_deferred p")
      case False
      define f :: "tracked_call \<Rightarrow> tracked_call" where "f = tc_prepared_update (\<lambda>_. Some (p\<lparr>pc_provisional := False\<rparr>))"
      have "batch_inv (change i f b)"
        by (rule ready [where q = "p\<lparr>pc_provisional := False\<rparr>" and f = f, OF _ _ refl]) (use False in \<open>simp_all add: f_def\<close>)
      then have "batch_inv ((change i f b)\<lparr>bt_journal_error := e\<rparr>)" for e by (rule batch_inv_cong) simp_all
      then show ?thesis using b' Some prov False i by (auto simp: authorize_def f_def deferred_def)
    next
      case def: True
      then show ?thesis
      proof (cases r)
        case (Ready q)
        define f where "f = (\<lambda>t :: tracked_call. t\<lparr>tc_prepared := Some \<lparr>pc_policy = admit_policy q, pc_provisional = False, pc_deferred = False\<rparr>,
                   tc_hint := po_safety (admit_policy q)\<rparr>)"
        have "batch_inv (change i f b)"
          by (rule ready [where f = f, OF _ _ refl, of "\<lparr>pc_policy = admit_policy q, pc_provisional = False, pc_deferred = False\<rparr>"])
            (use def in \<open>simp_all add: f_def\<close>)
        then have "batch_inv ((change i f b)\<lparr>bt_journal_error := e\<rparr>)" for e by (rule batch_inv_cong) simp_all
        then show ?thesis using b' Some prov def Ready i by (auto simp: authorize_def f_def deferred_def)
      next
        case (Rejected res)
        have "batch_inv (complete i res (change i (tc_prepared_update (\<lambda>_. None)) b))"
          by (rule complete_inv(1) [OF inv i]) (use prep in simp_all)
        moreover have "\<not> deferred (call_at (complete i res (change i (tc_prepared_update (\<lambda>_. None)) b)) i)"
          using i by (simp add: deferred_def complete_prepared)
        ultimately show ?thesis using b' Some prov def Rejected by (auto simp: authorize_def)
      qed (use b' Some prov def in \<open>simp_all add: authorize_def\<close>)
    qed
  qed
qed

lemma batch_inv_phase:
  assumes inv: "batch_inv b" and g: "gate_inv (b\<lparr>bt_phase := p\<rparr>)"
  shows "batch_inv (b\<lparr>bt_phase := p\<rparr>)"
  using assms by (simp add: batch_inv_def)

lemma authorize_step_inv:
  assumes inv: "batch_inv b" and phase: "bt_phase b = Authorizing (i # is)" and b': "authorize i r recorded b = Some b'"
  shows "batch_inv (b'\<lparr>bt_phase := Authorizing is\<rparr>)"
proof (rule batch_inv_phase)
  have g: "gate_inv b" using inv by (simp add: batch_inv_def)
  with phase have i: "i < length (bt_calls b)" by (auto simp: gate_inv_def)
  from authorize_inv [OF inv i _ b'] phase
  have new: "batch_inv b'" "bt_phase b' = Authorizing (i # is)" "\<not> deferred (call_at b' i)" by simp_all
  then show "batch_inv b'" by simp
  have g': "gate_inv b'" using new by (simp add: batch_inv_def)
  have gated: "gated (b'\<lparr>bt_phase := Authorizing is\<rparr>) = gated b'" using new(2) by (simp add: gated_def)
  from g' new show "gate_inv (b'\<lparr>bt_phase := Authorizing is\<rparr>)" unfolding gate_inv_def gated by auto
qed

section \<open>The gate\<close>

lemma open_gate_inv:
  assumes inv: "batch_inv b" and settled: "\<forall>t\<in>set (bt_calls b). tc_state t \<noteq> Preparing \<and> \<not> deferred t" and v: "bt_validated b"
    and same: "bt_calls b' = bt_calls b" "bt_validated b' = bt_validated b" "bt_parallel b' = bt_parallel b" "bt_workers b' = bt_workers b"
    and phase: "bt_phase b' \<in> {Precommit, Draining}"
  shows "batch_inv b'"
proof -
  have "may_run b' = may_run b" using same by (simp add: may_run_def fun_eq_iff)
  then have "run_inv b'" using inv unfolding batch_inv_def run_inv_def same by simp
  moreover have "gate_inv b'" using settled v phase unfolding gate_inv_def same by (elim insertE emptyE) auto
  ultimately show ?thesis using inv by (simp add: batch_inv_def same)
qed

lemma gated_settled: "batch_inv b \<Longrightarrow> gated b \<Longrightarrow> \<forall>t\<in>set (bt_calls b). tc_state t \<noteq> Preparing \<and> \<not> deferred t"
  by (auto simp: batch_inv_def gate_inv_def)

lemma enter_gate_inv:
  assumes inv: "batch_inv b" and phase: "bt_phase b = Authorizing []"
  shows "batch_inv (enter_gate b)"
proof -
  have r: "batch_inv (rebuild b)" "bt_phase (rebuild b) = Authorizing []" using rebuild_inv [OF inv] phase by simp_all
  then have g: "gate_inv (rebuild b)" by (simp add: batch_inv_def)
  have settled: "\<forall>t\<in>set (bt_calls (rebuild b)). tc_state t \<noteq> Preparing \<and> \<not> deferred t"
    using g r(2) by (auto simp: gate_inv_def in_set_conv_nth)
  have v: "bt_validated (rebuild b)" using g r(2) by (simp add: gate_inv_def)
  have "batch_inv ((rebuild b)\<lparr>bt_allow_final := True, bt_phase := Draining\<rparr>)"
    by (rule open_gate_inv [OF r(1) settled v]) simp_all
  moreover have "batch_inv ((rebuild b)\<lparr>bt_transactional := x, bt_phase := Precommit, bt_precommit_final := y\<rparr>)" for x y
    by (rule open_gate_inv [OF r(1) settled v]) simp_all
  ultimately show ?thesis by (simp add: enter_gate_def Let_def start_ready_inv)
qed

lemma gated_phase: "bt_phase b = Precommit \<Longrightarrow> gated b"
  by (simp add: gated_def)

lemma skip_one_inv:
  assumes inv: "batch_inv b" and phase: "bt_phase b = Precommit" and i: "i < length (bt_calls b)"
  shows "batch_inv (skip_one i b) \<and> bt_phase (skip_one i b) = Precommit \<and> length (bt_calls (skip_one i b)) = length (bt_calls b)"
proof -
  have "tc_preparation (call_at b i) = Prepared"
    using batch_invD(2) [OF inv i] batch_invD(4) [OF inv i] gated_phase [OF phase] by (auto simp: call_wf_def)
  then show ?thesis using complete_plain_inv [OF inv i] inv phase by (simp add: skip_one_def)
qed

lemma fold_skip_inv:
  "batch_inv b \<Longrightarrow> bt_phase b = Precommit \<Longrightarrow> \<forall>i\<in>set is. i < length (bt_calls b) \<Longrightarrow>
   batch_inv (fold skip_one is b) \<and> bt_phase (fold skip_one is b) = Precommit"
proof (induction "is" arbitrary: b)
  case (Cons i "is")
  then show ?case using skip_one_inv [of b i] by simp
qed simp

lemma precommit_done_inv:
  assumes inv: "batch_inv b" and phase: "bt_phase b = Precommit"
    and same: "bt_calls b' = bt_calls b" "bt_validated b' = bt_validated b" "bt_parallel b' = bt_parallel b" "bt_workers b' = bt_workers b"
    and draining: "bt_phase b' = Draining"
  shows "batch_inv b'"
proof (rule open_gate_inv [OF inv gated_settled [OF inv gated_phase [OF phase]] _ same])
  show "bt_validated b" using inv phase by (simp add: batch_inv_def gate_inv_def)
qed (simp add: draining)

lemma give_up_inv:
  assumes inv: "batch_inv b" and phase: "bt_phase b = Precommit"
  shows "batch_inv (give_up e b)"
proof -
  let ?m = "mark_rolled_back (rollback_affected b (bt_transactional b)) e b"
  have "batch_inv ?m" "bt_phase ?m = Precommit"
    using mark_rolled_back_inv [OF inv] mark_rolled_back_same phase by (simp_all add: same_but_results_def)
  from fold_skip_inv [OF this, of "indices ?m"]
  have "batch_inv (skip_remaining_final ?m)" "bt_phase (skip_remaining_final ?m) = Precommit" by (simp_all add: skip_remaining_final_def)
  then show ?thesis unfolding give_up_def by (rule precommit_done_inv) simp_all
qed

lemma close_overlays_same: "same_but_results b (b\<lparr>bt_calls := map close_overlay (bt_calls b)\<rparr>)"
  by (simp add: same_but_results_def strip_results_def close_overlay_def comp_def)

lemma commit_gate_inv:
  assumes inv: "batch_inv b" and phase: "bt_phase b = Precommit"
  shows "batch_inv (commit_gate recorded failed refreshed b)"
proof -
  let ?c = "b\<lparr>bt_calls := map close_overlay (bt_calls b)\<rparr>"
  have j: "batch_inv (b\<lparr>bt_journal_error := True\<rparr>)" by (rule batch_inv_cong [OF inv]) simp_all
  have "batch_inv ?c" using batch_inv_results [OF inv close_overlays_same] .
  then have c: "batch_inv (b\<lparr>bt_calls := map close_overlay (bt_calls b), bt_journal_error := e, bt_allow_final := True, bt_phase := Draining\<rparr>)" for e
    by (rule precommit_done_inv) (simp_all add: phase)
  show ?thesis unfolding commit_gate_def
    using invalidate_inv [OF j] give_up_inv [OF assms] start_ready_inv [OF c] by (auto split: option.split)
qed

section \<open>Every reachable batch\<close>

lemma validated_inv:
  assumes inv: "batch_inv b" and phase: "bt_phase b = Validating"
  shows "batch_inv (b\<lparr>bt_validated := True, bt_phase := Awaiting_prepared\<rparr>)"
proof -
  let ?b = "b\<lparr>bt_validated := True, bt_phase := Awaiting_prepared\<rparr>"
  have "may_run b t \<Longrightarrow> may_run ?b t" for t by (auto simp: may_run_def)
  then have "run_inv ?b" using inv by (simp add: batch_inv_def run_inv_def split: if_splits)
  moreover have "\<not> gated ?b" using inv phase by (simp add: batch_inv_def gate_inv_def gated_def)
  then have "gate_inv ?b" by (simp add: gate_inv_def)
  ultimately show ?thesis using inv by (simp add: batch_inv_def)
qed

lemma all_prepared_inv:
  assumes inv: "batch_inv b" and phase: "bt_phase b = Awaiting_prepared" and all: "\<forall>t\<in>set (bt_calls b). tc_state t \<noteq> Preparing"
  shows "batch_inv (b\<lparr>bt_phase := Authorizing (in_order b)\<rparr>)"
proof (rule batch_inv_phase [OF inv])
  have "gated (b\<lparr>bt_phase := Authorizing (in_order b)\<rparr>) = gated b" using phase by (simp add: gated_def)
  then show "gate_inv (b\<lparr>bt_phase := Authorizing (in_order b)\<rparr>)"
    using inv phase all by (simp add: batch_inv_def gate_inv_def)
qed

lemma drained_inv: "batch_inv b \<Longrightarrow> batch_inv ((mark_rolled_back is e b)\<lparr>bt_phase := Closed\<rparr>)" and
  closed_inv: "batch_inv b \<Longrightarrow> batch_inv (b\<lparr>bt_phase := Closed\<rparr>)"
  by (simp_all add: end_phase_inv mark_rolled_back_inv)

lemma lease_inv: "batch_inv b \<Longrightarrow> batch_inv (b\<lparr>bt_leases := x\<rparr>)" and task_state_inv: "batch_inv b \<Longrightarrow> batch_inv (b\<lparr>bt_task_states := y\<rparr>)"
  and journal_inv: "batch_inv b \<Longrightarrow> batch_inv (b\<lparr>bt_journal_error := z\<rparr>)"
  by (erule batch_inv_cong; simp)+

lemma not_prepared_D: "tc_preparation t = Not_begun \<or> tc_preparation t = Waiting_for x \<or> tc_preparation t = In_preparation y \<Longrightarrow> tc_preparation t \<noteq> Prepared"
  by auto

lemma enter_preparation_inv:
  assumes "batch_inv b" "i < length (bt_calls b)" "tc_preparation (call_at b i) \<noteq> Prepared"
  shows "batch_inv (change i (\<lambda>t. t\<lparr>tc_preparation := In_preparation (tc_streamed t \<and> v)\<rparr>) b)"
proof -
  have "change i (\<lambda>t. t\<lparr>tc_preparation := In_preparation (tc_streamed t \<and> v)\<rparr>) b =
      change i (tc_preparation_update (\<lambda>_. In_preparation (tc_streamed (call_at b i) \<and> v))) b" by (simp add: change_def)
  with begin_preparation_inv [OF assms] show ?thesis by simp
qed

lemma task_done_inv:
  assumes inv: "batch_inv b" and i: "i < length (bt_calls b)" and s: "tc_state (call_at b i) \<in> {Running, Cancelling}"
  shows "batch_inv (complete i r b)"
proof -
  have "tc_preparation (call_at b i) = Prepared" using batch_invD(2) [OF inv i] s by (auto simp: call_wf_def)
  then show ?thesis by (rule complete_plain_inv [OF inv i])
qed

lemma timed_out_inv:
  assumes inv: "batch_inv b" and i: "i < length (bt_calls b)" and s: "tc_state (call_at b i) = Running" "tc_task (call_at b i) = Some Run_tool"
  shows "batch_inv (complete i r (change i (tc_left_update (\<lambda>_. True)) b))"
proof -
  have "tc_preparation (call_at b i) = Prepared" using batch_invD(2) [OF inv i] s by (auto simp: call_wf_def)
  then show ?thesis by (intro complete_inv(1) [OF inv i]) (simp_all add: executing_def run_tool_def s)
qed

lemma thread_over_inv:
  assumes inv: "batch_inv b" and i: "i < length (bt_calls b)" and left: "tc_left (call_at b i)"
  shows "batch_inv (change i (tc_left_update (\<lambda>_. False)) b)"
  by (rule settle_completed [where f = "tc_left_update (\<lambda>_. False)", OF inv i refl])
    (use batch_invD(2) [OF inv i] left in \<open>auto simp: call_wf_def\<close>)

theorem batch_step_inv:
  assumes inv: "batch_inv b" and step: "batch_step e b = Some b'"
  shows "batch_inv b'"
proof (cases e)
  case (Submit c o')
  then show ?thesis using step submit_streamed_inv [OF inv] by (simp split: if_splits) blast
next
  case (Begin_preparation i)
  then show ?thesis using step begin_preparation_inv [OF inv, of i]
    by (auto simp: begin_preparation_def Let_def split: if_splits)
next
  case (Enter_preparation i)
  then show ?thesis using step enter_preparation_inv [OF inv, of i]
    by (auto split: if_splits preparation.splits)
next
  case (Prepare i r stop recorded)
  then show ?thesis using step end_preparation_inv [OF inv, of i]
    by (auto split: if_splits preparation.splits)
next
  case (Task_done i r)
  then show ?thesis using step task_done_inv [OF inv, of i] by (auto split: if_splits option.splits)
next
  case (Timed_out i e)
  then show ?thesis using step timed_out_inv [OF inv, of i] by (auto split: if_splits)
next
  case (Thread_over i)
  then show ?thesis using step thread_over_inv [OF inv, of i] by (auto split: if_splits)
next
  case (Finish cs proven)
  then show ?thesis using step begin_finish_inv [OF inv] by (auto split: if_splits)
next
  case Abort
  then show ?thesis using step invalidate_inv [OF inv] by (auto split: if_splits)
next
  case (Validated recorded)
  then show ?thesis using step start_ready_inv [OF validated_inv [OF inv]] invalidate_inv [OF journal_inv [OF inv]]
    by (auto split: if_splits)
next
  case All_prepared
  then show ?thesis using step all_prepared_inv [OF inv] invalidate_inv [OF inv] by (auto simp: list_all_iff split: if_splits)
next
  case (Authorize r recorded)
  then show ?thesis using step authorize_step_inv [OF inv] by (auto split: phase.splits list.splits)
next
  case (Gate recorded)
  then show ?thesis using step enter_gate_inv [OF inv] invalidate_inv [OF journal_inv [OF inv]] by (auto split: if_splits)
next
  case (Commit recorded failed refreshed)
  then show ?thesis using step commit_gate_inv [OF inv] by (auto split: if_splits)
next
  case Drained
  then show ?thesis using step drained_inv [OF inv] closed_inv [OF inv] by (auto split: if_splits)
next
  case (Lease_over x)
  then show ?thesis using step lease_inv [OF inv] by auto
next
  case (Task_state x s)
  then show ?thesis using step task_state_inv [OF inv] by auto
next
  case Journal_lost
  then show ?thesis using step journal_inv [OF inv] by (auto split: if_splits)
qed

definition new_round :: "batch \<Rightarrow> bool" where
  "new_round b \<longleftrightarrow> (\<exists>par workers hint leases tasks. b = new_batch par workers hint leases tasks)"

definition batch_moves :: "batch \<Rightarrow> batch \<Rightarrow> bool" where
  "batch_moves b b' \<longleftrightarrow> (\<exists>e. batch_step e b = Some b')"

lemma new_round_inv: "new_round b \<Longrightarrow> batch_inv b"
  by (auto simp: new_round_def new_batch_def batch_inv_def calls_inv_def gate_inv_def gated_def run_inv_def)

interpretation round: invariant_system new_round batch_moves batch_inv
  by unfold_locales (auto simp: batch_moves_def new_round_inv intro: batch_step_inv)

lemma run_events_moves: "run_events es b = Some b' \<Longrightarrow> batch_moves\<^sup>*\<^sup>* b b'"
proof (induction es arbitrary: b)
  case (Cons e es)
  then obtain c where "batch_step e b = Some c" "run_events es c = Some b'" by (auto simp: bind_eq_Some_conv)
  with Cons.IH show ?case by (auto simp: batch_moves_def intro: converse_rtranclp_into_rtranclp)
qed simp

lemma locks_conflict_sym: "locks_conflict l r = locks_conflict r l"
  unfolding locks_conflict_def resource_keys_overlap_def Let_def by auto

lemma conflicts_sym: "conflicts l r = conflicts r l"
  unfolding conflicts_def list_ex_iff using locks_conflict_sym by blast

lemma runs_alone:
  assumes "new_round b0" "batch_moves\<^sup>*\<^sup>* b0 b" "i < length (bt_calls b)" "executing (call_at b i)"
  shows "alone (bt_calls b) i" and "run_tool (call_at b i) \<Longrightarrow> tc_prepared (call_at b i) \<noteq> None"
    and "tc_left (call_at b i) \<Longrightarrow> tc_state (call_at b i) = Completed"
proof -
  have inv: "batch_inv b" using assms(1,2) by (rule round.reachable_inv)
  show "alone (bt_calls b) i" using calls_invD(3) [OF batch_invD(1) [OF inv]] assms by blast
  show "run_tool (call_at b i) \<Longrightarrow> tc_prepared (call_at b i) \<noteq> None" "tc_left (call_at b i) \<Longrightarrow> tc_state (call_at b i) = Completed"
    using batch_invD(2) [OF inv assms(3)] by (auto simp: call_wf_def)
qed

text \<open>Of two tools that work at the same time with conflicting resources, the earlier one was left behind.\<close>

lemma overlap_left:
  assumes "new_round b0" "batch_moves\<^sup>*\<^sup>* b0 b" "i < length (bt_calls b)" "j < length (bt_calls b)"
    and "executing (call_at b i)" "executing (call_at b j)" "tc_ordinal (call_at b i) < tc_ordinal (call_at b j)"
    and "conflicts (spec_of (call_at b i)) (spec_of (call_at b j))"
  shows "tc_left (call_at b i)"
proof (rule ccontr)
  assume left: "\<not> tc_left (call_at b i)"
  with assms(5) have run: "run_tool (call_at b i)" by (simp add: executing_def)
  have "clash (bt_calls b) i j" using runs_alone(2) [OF assms(1-3,5) run] assms(7,8) by (simp add: clash_def)
  then have "tc_done (call_at b i)" using runs_alone(1) [OF assms(1,2,4,6)] assms(3,7) by (auto simp: alone_def)
  moreover have "call_wf (call_at b i)" using batch_invD(2) [OF round.reachable_inv [OF assms(1,2)] assms(3)] .
  ultimately show False using run by (auto simp: call_wf_def run_tool_def)
qed

lemma ordinals_differ:
  assumes "new_round b0" "batch_moves\<^sup>*\<^sup>* b0 b" "i < length (bt_calls b)" "j < length (bt_calls b)" "i \<noteq> j"
  shows "tc_ordinal (call_at b i) \<noteq> tc_ordinal (call_at b j)"
  using calls_invD(4) [OF batch_invD(1) [OF round.reachable_inv [OF assms(1,2)]]] assms(3-5)
  by (auto simp: distinct_conv_nth)

text \<open>C9. The order of the response is the order of effects: when the tool of a call runs, a call is
  prepared at every lower position (so none that arrives later can come before it), and every call at a
  lower position with conflicting resources has completed (as the code counts: one that exceeded its time
  limit is completed although its thread may go on, see \<open>conflicting_calls_never_overlap\<close>).\<close>

theorem earlier_conflicts_complete_first:
  assumes "new_round b0" and "batch_moves\<^sup>*\<^sup>* b0 b" and "i < length (bt_calls b)" and "run_tool (call_at b i)"
  shows "(\<forall>o' < tc_ordinal (call_at b i). \<exists>j < length (bt_calls b). tc_ordinal (call_at b j) = o' \<and> tc_state (call_at b j) \<noteq> Preparing) \<and>
     (\<forall>j < length (bt_calls b). tc_ordinal (call_at b j) < tc_ordinal (call_at b i) \<and> tc_prepared (call_at b j) \<noteq> None \<and>
        conflicts (spec_of (call_at b j)) (spec_of (call_at b i)) \<longrightarrow> tc_state (call_at b j) = Completed)"
proof -
  have al: "alone (bt_calls b) i" using runs_alone(1) [OF assms(1-3)] assms(4) by (simp add: executing_def)
  have compl: "tc_done (call_at b j) = (tc_state (call_at b j) = Completed)" if "j < length (bt_calls b)" for j
    using batch_invD(2) [OF round.reachable_inv [OF assms(1,2)] that] by (simp add: call_wf_def)
  have "\<exists>j < length (bt_calls b). tc_ordinal (call_at b j) = o' \<and> tc_state (call_at b j) \<noteq> Preparing"
    if o': "o' < tc_ordinal (call_at b i)" for o'
  proof -
    from al o' have "o' \<in> tc_ordinal ` set (bt_calls b)" by (simp add: alone_def)
    then obtain j where "j < length (bt_calls b)" "tc_ordinal (call_at b j) = o'" by (auto simp: in_set_conv_nth)
    with al o' show ?thesis by (auto simp: alone_def)
  qed
  with al compl show ?thesis unfolding alone_def clash_def by blast
qed

text \<open>C40. Never more than \<open>max_workers\<close> tasks await a tool at the same time, and never more than one when the
  tools are not parallel, in every interleaving of the events of a round. (A thread that a time-out has
  left behind is no longer awaited.)\<close>

theorem running_tools_bounded:
  assumes "new_round b0" and "batch_moves\<^sup>*\<^sup>* b0 b"
  shows "length (filter run_tool (bt_calls b)) \<le> (if bt_parallel b then bt_workers b else 1)"
  using round.reachable_inv [OF assms] by (simp add: batch_inv_def run_inv_def)

text \<open>C11. With parallel tools, the tool of a call whose permission has been deferred (to a person, while the
  model still streams) does not run before the permission is given; a call that is only allowed in the
  final response does not run before the response has been validated.\<close>

theorem nothing_runs_unapproved:
  assumes "new_round b0" and "batch_moves\<^sup>*\<^sup>* b0 b" and "bt_parallel b" and "t \<in> set (bt_calls b)" and "run_tool t"
  shows "\<not> deferred t \<and> (safety t = FINAL_ONLY \<or> \<not> tc_explicit t \<longrightarrow> bt_validated b)"
  using round.reachable_inv [OF assms(1,2)] assms(3-5) by (auto simp: batch_inv_def run_inv_def may_run_def)

end
