(* ===== verification/Batch_Effects.thy ===== *)
theory Batch_Effects
  imports Batch_Safety
begin

text \<open>
  Which calls a step of a tool round may start. \<open>starts\<close> relates a batch to the batch after any number of
  operations: a tool that runs afterwards ran before, or it was admitted by its phase in a round that had
  neither been aborted nor lost its journal.
\<close>

fun before_gate :: "phase \<Rightarrow> bool" where
  "before_gate Streaming \<longleftrightarrow> True"
| "before_gate Validating \<longleftrightarrow> True"
| "before_gate Awaiting_prepared \<longleftrightarrow> True"
| "before_gate (Authorizing is) \<longleftrightarrow> True"
| "before_gate _ \<longleftrightarrow> False"

definition admitted :: "batch \<Rightarrow> nat \<Rightarrow> bool" where
  "admitted b i \<longleftrightarrow> (bt_parallel b \<and> safety (call_at b i) = FINAL_ONLY \<longrightarrow> bt_allow_final b \<or> i \<in> set (bt_precommit_final b))"

definition stopped :: "batch \<Rightarrow> bool" where
  "stopped b \<longleftrightarrow> bt_aborted b \<or> bt_journal_error b"

text \<open>Nothing but the gate changes what it admits.\<close>

definition frame :: "batch \<Rightarrow> batch \<Rightarrow> bool" where
  "frame b b' \<longleftrightarrow> bt_parallel b' = bt_parallel b \<and> (bt_allow_final b \<longrightarrow> bt_allow_final b') \<and>
     set (bt_precommit_final b) \<subseteq> set (bt_precommit_final b') \<and> (stopped b \<longrightarrow> stopped b') \<and>
     (before_gate (bt_phase b') \<longrightarrow> before_gate (bt_phase b) \<and> bt_allow_final b' = bt_allow_final b \<and>
        bt_precommit_final b' = bt_precommit_final b)"

definition ran :: "batch \<Rightarrow> batch \<Rightarrow> nat \<Rightarrow> bool" where
  "ran b b' i \<longleftrightarrow> i < length (bt_calls b) \<and> run_tool (call_at b i) \<and>
     (safety (call_at b' i) = FINAL_ONLY \<longrightarrow> safety (call_at b i) = FINAL_ONLY)"

definition starts :: "batch \<Rightarrow> batch \<Rightarrow> bool" where
  "starts b b' \<longleftrightarrow> frame b b' \<and>
     (\<forall>i < length (bt_calls b'). run_tool (call_at b' i) \<longrightarrow> ran b b' i \<or> \<not> stopped b \<and> admitted b' i)"

lemma frame_refl [simp]: "frame b b"
  by (simp add: frame_def)

lemma frame_trans: "frame a b \<Longrightarrow> frame b c \<Longrightarrow> frame a c"
  by (auto simp: frame_def)

lemma starts_refl [simp]: "starts b b"
  by (simp add: starts_def ran_def)

lemma admitted_mono: "frame b c \<Longrightarrow> admitted b i \<Longrightarrow> (safety (call_at c i) = FINAL_ONLY \<Longrightarrow> safety (call_at b i) = FINAL_ONLY) \<Longrightarrow> admitted c i"
  by (auto simp: frame_def admitted_def)

lemma starts_trans:
  assumes "starts a b" "starts b c"
  shows "starts a c"
proof -
  have ab: "frame a b" and bc: "frame b c" using assms by (simp_all add: starts_def)
  have "ran a c i \<or> \<not> stopped a \<and> admitted c i" if i: "i < length (bt_calls c)" "run_tool (call_at c i)" for i
  proof -
    from assms(2) i have "ran b c i \<or> \<not> stopped b \<and> admitted c i" by (simp add: starts_def)
    moreover have "\<not> stopped b \<Longrightarrow> \<not> stopped a" using ab by (auto simp: frame_def)
    moreover have "ran a c i \<or> \<not> stopped a \<and> admitted c i" if r: "ran b c i"
    proof -
      from assms(1) r have "ran a b i \<or> \<not> stopped a \<and> admitted b i" by (simp add: starts_def ran_def)
      with r admitted_mono [OF bc, of i] show ?thesis by (auto simp: ran_def)
    qed
    ultimately show ?thesis by blast
  qed
  with frame_trans [OF ab bc] show ?thesis by (simp add: starts_def)
qed

lemma starts_same:
  assumes "frame b b'" "bt_calls b' = bt_calls b"
  shows "starts b b'"
  using assms by (simp add: starts_def ran_def)

lemma frame_change [simp]: "frame b (change i f b)"
  by (simp add: frame_def stopped_def)

text \<open>A change that starts no tool.\<close>

lemma starts_change:
  assumes i: "i < length (bt_calls b)" and run: "run_tool (f (call_at b i)) \<Longrightarrow> run_tool (call_at b i)"
    and safe: "run_tool (f (call_at b i)) \<Longrightarrow> safety (f (call_at b i)) = FINAL_ONLY \<Longrightarrow> safety (call_at b i) = FINAL_ONLY"
  shows "starts b (change i f b)"
  unfolding starts_def
proof (intro conjI allI impI)
  fix j assume j: "j < length (bt_calls (change i f b))" "run_tool (call_at (change i f b) j)"
  then show "ran b (change i f b) j \<or> \<not> stopped b \<and> admitted (change i f b) j"
    using i run safe by (cases "j = i") (auto simp: ran_def)
qed simp

lemma starts_update:
  "starts b (b\<lparr>bt_leases := x\<rparr>)" "starts b (b\<lparr>bt_task_states := y\<rparr>)" "starts b (b\<lparr>bt_invalid := z\<rparr>)"
  "starts b (b\<lparr>bt_bindings := v\<rparr>)" "starts b (b\<lparr>bt_validated := w\<rparr>)" "starts b (b\<lparr>bt_aborted := True\<rparr>)"
  "(bt_journal_error b \<Longrightarrow> e) \<Longrightarrow> starts b (b\<lparr>bt_journal_error := e\<rparr>)"
  "(before_gate p \<Longrightarrow> before_gate (bt_phase b)) \<Longrightarrow> starts b (b\<lparr>bt_phase := p\<rparr>)"
  by (auto intro!: starts_same simp: frame_def stopped_def)

section \<open>The operations\<close>

lemma can_enter_admitted: "can_enter_phase b i \<Longrightarrow> admitted b i"
  by (auto simp: can_enter_phase_def admitted_def Let_def split: if_splits)

lemma start_one_starts:
  assumes "i < length (bt_calls b)" "\<not> stopped b"
  shows "starts b (start_one i b)"
proof -
  have other: "starts b (change i (launch s k) b)" if "s \<noteq> Running \<or> k \<noteq> Run_tool" for s k
    by (rule starts_change) (use assms that in \<open>auto simp: run_tool_def launch_def\<close>)
  have tool: "starts b (change i (launch Running Run_tool) b)" if "can_enter_phase b i"
    unfolding starts_def
  proof (intro conjI allI impI)
    fix j assume "j < length (bt_calls (change i (launch Running Run_tool) b))" "run_tool (call_at (change i (launch Running Run_tool) b) j)"
    then show "ran b (change i (launch Running Run_tool) b) j \<or> \<not> stopped b \<and> admitted (change i (launch Running Run_tool) b) j"
      using assms can_enter_admitted [OF that]
      by (cases "j = i") (auto simp: ran_def admitted_def launch_def safety_def split: option.splits)
  qed simp
  from tool other show ?thesis by (auto simp: start_one_def Let_def split: option.split)
qed

lemma start_one_stopped [simp]: "stopped (start_one i b) = stopped b"
  by (simp add: stopped_def)

lemma fold_start_starts:
  "\<forall>i\<in>set is. i < length (bt_calls b) \<Longrightarrow> \<not> stopped b \<Longrightarrow> starts b (fold start_one is b)"
proof (induction "is" arbitrary: b)
  case (Cons i "is")
  then have "starts (start_one i b) (fold start_one is (start_one i b))" by (intro Cons.IH) simp_all
  with start_one_starts [of i b] Cons.prems show ?case by (auto intro: starts_trans)
qed simp

lemma start_ready_starts: "starts b (start_ready b)"
  using fold_start_starts [of "in_order b" b] by (auto simp: start_ready_def stopped_def)

lemma starts_then_ready: "starts b c \<Longrightarrow> starts b (start_ready c)"
  by (rule starts_trans [OF _ start_ready_starts])

lemma complete_starts:
  assumes "i < length (bt_calls b)"
  shows "starts b (complete i r b)" and "starts b (complete_error i b)"
proof -
  have fin: "starts b (change i (finished s x) b)" for s x
    by (rule starts_change) (use assms in \<open>auto simp: run_tool_def finished_def\<close>)
  show "starts b (complete i r b)"
    unfolding complete_def Let_def using starts_then_ready [OF starts_trans [OF fin starts_update(1)]] by simp
  show "starts b (complete_error i b)" unfolding complete_error_def using starts_then_ready [OF fin] by simp
qed

lemma timed_out_starts:
  assumes "i < length (bt_calls b)"
  shows "starts b (complete i r (change i (tc_left_update g) b))" and "starts b (change i (tc_left_update g) b)"
proof -
  show left: "starts b (change i (tc_left_update g) b)"
    by (rule starts_change) (use assms in \<open>simp_all add: run_tool_def safety_def split: option.splits\<close>)
  show "starts b (complete i r (change i (tc_left_update g) b))"
    by (rule starts_trans [OF left complete_starts(1)]) (simp add: assms)
qed

lemma cancel_starts: "i < length (bt_calls b) \<Longrightarrow> starts b (cancel_not_started i b)"
  by (auto simp: cancel_not_started_def run_tool_def launch_def safety_def split: call_state.split intro!: starts_change)

lemma fold_cancel_starts: "\<forall>i\<in>set is. i < length (bt_calls b) \<Longrightarrow> starts b (fold cancel_not_started is b)"
proof (induction "is" arbitrary: b)
  case (Cons i "is")
  then have "starts (cancel_not_started i b) (fold cancel_not_started is (cancel_not_started i b))" by (intro Cons.IH) simp
  with cancel_starts [of i b] Cons.prems show ?case by (auto intro: starts_trans)
qed simp

lemma invalidate_starts: "starts b (invalidate b)"
proof -
  have "starts (b\<lparr>bt_aborted := True\<rparr>) (fold cancel_not_started (indices b) (b\<lparr>bt_aborted := True\<rparr>))" by (rule fold_cancel_starts) simp
  then have "starts b (fold cancel_not_started (indices b) (b\<lparr>bt_aborted := True\<rparr>))" by (rule starts_trans [OF starts_update(6)])
  then show ?thesis unfolding invalidate_def by (rule starts_trans) (rule starts_update(8), simp)
qed

lemma submit_starts: "starts b (submit c streamed ordinal explicit b)"
  unfolding starts_def
proof (intro conjI allI impI)
  fix j assume "j < length (bt_calls (submit c streamed ordinal explicit b))" "run_tool (call_at (submit c streamed ordinal explicit b) j)"
  then show "ran b (submit c streamed ordinal explicit b) j \<or> \<not> stopped b \<and> admitted (submit c streamed ordinal explicit b) j"
    by (cases "j < length (bt_calls b)") (auto simp: submit_def ran_def nth_append new_call_def run_tool_def less_Suc_eq)
qed (simp add: frame_def submit_def stopped_def)

lemma submit_streamed_starts: "starts b (submit_streamed c o' b)"
  by (auto simp: submit_streamed_def Let_def submit_starts starts_update split: option.split)

lemma bind_call_starts: "starts b (bind_call ordinal c b)"
proof (cases "at_id b (tl_id c)")
  case None
  have "starts b ((submit c False ordinal True b)\<lparr>bt_bindings := x\<rparr>)" for x by (rule starts_trans [OF submit_starts starts_update(4)])
  moreover have "starts b (b\<lparr>bt_invalid := True, bt_bindings := x\<rparr>)" for x by (rule starts_trans [OF starts_update(3) starts_update(4)])
  ultimately show ?thesis by (simp add: bind_call_def None)
next
  case (Some i)
  then have i: "i < length (bt_calls (b\<lparr>bt_invalid := True\<rparr>))" by (auto simp: at_id_def find_Some_iff split: option.splits if_splits)
  have "starts b ((cancel_not_started i (b\<lparr>bt_invalid := True\<rparr>))\<lparr>bt_bindings := x\<rparr>)" for x
    by (rule starts_trans [OF starts_trans [OF starts_update(3) cancel_starts [OF i]] starts_update(4)])
  then show ?thesis by (simp add: bind_call_def Some Let_def starts_update)
qed

lemma bind_calls_starts: "starts b (bind_calls n cs b)"
  by (induction n cs b rule: bind_calls.induct) (auto intro: starts_trans [OF bind_call_starts])

lemma drop_orphan_starts:
  assumes "i < length (bt_calls b)"
  shows "starts b (drop_orphan ids i b)"
proof -
  have "starts (b\<lparr>bt_invalid := True\<rparr>) (cancel_not_started i (b\<lparr>bt_invalid := True\<rparr>))" using assms by (intro cancel_starts) simp
  then show ?thesis by (auto simp: drop_orphan_def Let_def intro: starts_trans [OF starts_update(3)])
qed

lemma drop_orphan_length [simp]: "length (bt_calls (drop_orphan ids i b)) = length (bt_calls b)"
  by (simp add: drop_orphan_def Let_def)

lemma fold_orphan_starts: "\<forall>i\<in>set is. i < length (bt_calls b) \<Longrightarrow> starts b (fold (drop_orphan ids) is b)"
proof (induction "is" arbitrary: b)
  case (Cons i "is")
  then have "starts (drop_orphan ids i b) (fold (drop_orphan ids) is (drop_orphan ids i b))" by (intro Cons.IH) simp
  with drop_orphan_starts [of i b ids] Cons.prems show ?case by (auto intro: starts_trans)
qed simp

lemma reconcile_starts: "starts b (reconcile cs b)"
proof -
  let ?b = "if distinct (given_ids cs) then b else b\<lparr>bt_invalid := True\<rparr>"
  have "starts b (bind_calls 0 cs ?b)" by (rule starts_trans [OF _ bind_calls_starts]) (simp add: starts_update)
  from starts_trans [OF this fold_orphan_starts] show ?thesis by (simp add: reconcile_def Let_def)
qed

lemma begin_finish_starts:
  assumes "batch_inv b" "bt_phase b = Streaming"
  shows "starts b (begin_finish cs proven b)"
proof -
  have inv: "starts b ((invalidate b)\<lparr>bt_bindings := x\<rparr>)" for x by (rule starts_trans [OF invalidate_starts starts_update(4)])
  have close: "starts b (b\<lparr>bt_phase := Closed\<rparr>)" by (rule starts_update(8)) simp
  have rec: "starts b (invalidate (reconcile cs b))" by (rule starts_trans [OF reconcile_starts invalidate_starts])
  have "starts b ((reconcile cs b)\<lparr>bt_phase := Validating\<rparr>)"
    by (rule starts_trans [OF reconcile_starts starts_update(8)]) (simp add: reconcile_inv [OF assms])
  with inv close rec show ?thesis by (auto simp: begin_finish_def Let_def)
qed

lemma rebuild_starts: "starts b (rebuild b)"
  by (simp add: starts_def frame_def ran_def stopped_def)

lemma begin_preparation_starts: "i < length (bt_calls b) \<Longrightarrow> starts b (change i (tc_preparation_update g) b)"
  by (rule starts_change) (auto simp: run_tool_def safety_def split: option.splits)

lemma admit_starts:
  assumes "i < length (bt_calls b)"
  shows "starts b (admit i q stop recorded b)"
proof -
  have "starts b (change i (launch Cancelling Report_cancelled) b)"
    by (rule starts_change) (use assms in \<open>simp_all add: run_tool_def launch_def\<close>)
  moreover have "starts b (change i (\<lambda>t. t\<lparr>tc_prepared := Some q, tc_hint := po_safety (pc_policy q), tc_state := Queued\<rparr>) b)"
    by (rule starts_change) (use assms in \<open>simp_all add: run_tool_def\<close>)
  then have "starts b (rebuild ((change i (\<lambda>t. t\<lparr>tc_prepared := Some q, tc_hint := po_safety (pc_policy q), tc_state := Queued\<rparr>) b)
        \<lparr>bt_journal_error := (bt_journal_error b \<or> \<not> recorded)\<rparr>))"
    by (rule starts_trans [OF _ starts_trans [OF starts_update(7) rebuild_starts]]) simp
  ultimately show ?thesis by (simp add: admit_def starts_then_ready)
qed

lemma end_preparation_starts:
  assumes i: "i < length (bt_calls b)" and b': "end_preparation i provisional r stop recorded b = Some b'"
  shows "starts b b'"
proof -
  let ?b = "change i (tc_preparation_update (\<lambda>_. Prepared)) b"
  have pre: "starts b ?b" using i by (rule begin_preparation_starts)
  have "i < length (bt_calls ?b)" using i by simp
  from starts_trans [OF pre admit_starts [OF this]] starts_trans [OF pre complete_starts(1) [OF this]] starts_trans [OF pre complete_starts(2) [OF this]]
  show ?thesis using b' by (auto simp: end_preparation_def Let_def split: outcome.splits if_splits)
qed

lemma authorize_starts:
  assumes inv: "batch_inv b" and i: "i < length (bt_calls b)" and auth: "authorize i r recorded b = Some b'"
  shows "starts b b'"
proof -
  have clear: "starts b (change i (tc_prepared_update (\<lambda>_. Some (p\<lparr>pc_provisional := False\<rparr>))) b)"
    if "tc_prepared (call_at b i) = Some p" for p
    by (rule starts_change) (use i that in \<open>simp_all add: run_tool_def safety_def\<close>)
  have "po_safety (pc_policy p) = FINAL_ONLY" if "tc_prepared (call_at b i) = Some p" "pc_deferred p" for p
    using batch_invD(2) [OF inv i] that by (simp add: call_wf_def deferred_def default_policy_conflicts)
  then have grant: "starts b (change i (\<lambda>t. t\<lparr>tc_prepared := Some q, tc_hint := h\<rparr>) b)"
    if "tc_prepared (call_at b i) = Some p" "pc_deferred p" for p q h
    by (intro starts_change) (use i that in \<open>simp_all add: run_tool_def safety_def\<close>)
  have drop: "starts b (complete i res (change i (tc_prepared_update (\<lambda>_. None)) b))"
    if "tc_prepared (call_at b i) = Some p" "pc_deferred p" for p res
  proof -
    let ?b = "change i (tc_prepared_update (\<lambda>_. None)) b"
    have "safety (call_at b i) = FINAL_ONLY"
      using batch_invD(2) [OF inv i] that by (simp add: call_wf_def deferred_def default_policy_conflicts safety_def)
    then have "starts b ?b" by (intro starts_change) (use i in \<open>simp_all add: run_tool_def\<close>)
    moreover have "starts ?b (complete i res ?b)" by (rule complete_starts) (simp add: i)
    ultimately show ?thesis by (rule starts_trans)
  qed
  have journal: "starts b c \<Longrightarrow> (bt_journal_error c \<Longrightarrow> e) \<Longrightarrow> starts b (c\<lparr>bt_journal_error := e\<rparr>)" for c e
    by (rule starts_trans [OF _ starts_update(7)])
  show ?thesis using auth clear grant drop
    by (auto simp: authorize_def intro!: journal split: option.splits if_splits outcome.splits)
qed

lemma starts_results: "same_but_results b b' \<Longrightarrow> starts b b'"
proof -
  assume same: "same_but_results b b'"
  then have len: "length (bt_calls b') = length (bt_calls b)" using strip_length by (metis same_but_results_def)
  have "run_tool (call_at b' i) = run_tool (call_at b i) \<and> safety (call_at b' i) = safety (call_at b i)" if "i < length (bt_calls b)" for i
  proof -
    have "(call_at b' i)\<lparr>tc_result := None\<rparr> = (call_at b i)\<lparr>tc_result := None\<rparr>"
      using same that len strip_nth [of i "bt_calls b"] strip_nth [of i "bt_calls b'"] by (simp add: same_but_results_def)
    then show ?thesis using strip_call(2,5) by metis
  qed
  then show ?thesis using same len by (simp add: starts_def ran_def frame_def same_but_results_def stopped_def)
qed

lemma skip_one_starts: "i < length (bt_calls b) \<Longrightarrow> starts b (skip_one i b)"
  by (simp add: skip_one_def complete_starts)

lemma skip_one_length [simp]: "length (bt_calls (skip_one i b)) = length (bt_calls b)"
  by (simp add: skip_one_def)

lemma fold_skip_starts: "\<forall>i\<in>set is. i < length (bt_calls b) \<Longrightarrow> starts b (fold skip_one is b)"
proof (induction "is" arbitrary: b)
  case (Cons i "is")
  then have "starts (skip_one i b) (fold skip_one is (skip_one i b))" by (intro Cons.IH) simp
  with skip_one_starts [of i b] Cons.prems show ?case by (auto intro: starts_trans)
qed simp

lemma give_up_starts: "starts b (give_up e b)"
proof -
  let ?m = "mark_rolled_back (rollback_affected b (bt_transactional b)) e b"
  have "starts ?m (skip_remaining_final ?m)" unfolding skip_remaining_final_def by (rule fold_skip_starts) simp
  with starts_results [OF mark_rolled_back_same] have "starts b (skip_remaining_final ?m)" by (rule starts_trans)
  then show ?thesis unfolding give_up_def by (rule starts_trans) (rule starts_update(8), simp)
qed

lemma commit_gate_starts: "starts b (commit_gate recorded failed refreshed b)"
proof -
  have "starts b (invalidate (b\<lparr>bt_journal_error := True\<rparr>))" by (rule starts_trans [OF starts_update(7) invalidate_starts]) simp
  moreover have "starts b (b\<lparr>bt_calls := map close_overlay (bt_calls b), bt_journal_error := bt_journal_error b \<or> x, bt_allow_final := True, bt_phase := Draining\<rparr>)" for x
  proof -
    let ?c = "b\<lparr>bt_calls := map close_overlay (bt_calls b)\<rparr>"
    have "frame ?c (?c\<lparr>bt_journal_error := bt_journal_error b \<or> x, bt_allow_final := True, bt_phase := Draining\<rparr>)"
      by (simp add: frame_def stopped_def)
    then have "starts ?c (?c\<lparr>bt_journal_error := bt_journal_error b \<or> x, bt_allow_final := True, bt_phase := Draining\<rparr>)"
      by (rule starts_same) simp
    with starts_results [OF close_overlays_same] have "starts b (?c\<lparr>bt_journal_error := bt_journal_error b \<or> x, bt_allow_final := True, bt_phase := Draining\<rparr>)"
      by (rule starts_trans)
    then show ?thesis by simp
  qed
  ultimately show ?thesis by (auto simp: commit_gate_def give_up_starts intro!: starts_then_ready split: option.split)
qed

lemma enter_gate_starts:
  assumes "bt_precommit_final b = []"
  shows "starts b (enter_gate b)"
proof -
  have "frame (rebuild b) ((rebuild b)\<lparr>bt_allow_final := True, bt_phase := Draining\<rparr>)"
    and "frame (rebuild b) ((rebuild b)\<lparr>bt_transactional := x, bt_phase := Precommit, bt_precommit_final := y\<rparr>)" for x y
    using assms by (simp_all add: frame_def stopped_def)
  then have "starts (rebuild b) ((rebuild b)\<lparr>bt_allow_final := True, bt_phase := Draining\<rparr>)"
    and "starts (rebuild b) ((rebuild b)\<lparr>bt_transactional := x, bt_phase := Precommit, bt_precommit_final := y\<rparr>)" for x y
    by (simp_all add: starts_same)
  then show ?thesis unfolding enter_gate_def Let_def
    by (auto intro!: starts_then_ready intro: starts_trans [OF rebuild_starts])
qed

section \<open>Every step\<close>

definition effects_inv :: "batch \<Rightarrow> bool" where
  "effects_inv b \<longleftrightarrow> batch_inv b \<and> (before_gate (bt_phase b) \<longrightarrow> \<not> bt_allow_final b \<and> bt_precommit_final b = []) \<and>
     (\<forall>i < length (bt_calls b). run_tool (call_at b i) \<longrightarrow> admitted b i)"

lemma batch_step_starts:
  assumes inv: "batch_inv b" and gate: "before_gate (bt_phase b) \<Longrightarrow> bt_precommit_final b = []" and step: "batch_step e b = Some b'"
  shows "starts b b'"
proof (cases e)
  case (Submit c o')
  then show ?thesis using step submit_streamed_starts by (auto split: if_splits)
next
  case (Begin_preparation i)
  then show ?thesis using step begin_preparation_starts by (auto simp: begin_preparation_def Let_def split: if_splits)
next
  case (Enter_preparation i)
  have "starts b (change i (\<lambda>t. t\<lparr>tc_preparation := p t\<rparr>) b)" if "i < length (bt_calls b)" for p
    by (rule starts_change) (use that in \<open>auto simp: run_tool_def safety_def split: option.splits\<close>)
  with Enter_preparation show ?thesis using step by (auto split: if_splits preparation.splits)
next
  case (Prepare i r stop recorded)
  then show ?thesis using step end_preparation_starts by (auto split: if_splits preparation.splits)
next
  case (Task_done i r)
  then show ?thesis using step complete_starts by (auto split: if_splits option.splits)
next
  case (Timed_out i e)
  then show ?thesis using step timed_out_starts by (auto split: if_splits)
next
  case (Thread_over i)
  then show ?thesis using step timed_out_starts(2) by (auto split: if_splits)
next
  case (Finish cs proven)
  then show ?thesis using step begin_finish_starts [OF inv] by (auto split: if_splits)
next
  case Abort
  then show ?thesis using step invalidate_starts by (auto split: if_splits)
next
  case (Validated recorded)
  have "starts b (b\<lparr>bt_validated := True, bt_phase := Awaiting_prepared\<rparr>)" if "bt_phase b = Validating"
    by (rule starts_trans [OF starts_update(5) starts_update(8)]) (simp add: that)
  moreover have "starts b (invalidate (b\<lparr>bt_journal_error := True\<rparr>))" by (rule starts_trans [OF starts_update(7) invalidate_starts]) simp
  ultimately show ?thesis using step Validated by (auto split: if_splits intro: starts_then_ready)
next
  case All_prepared
  then show ?thesis using step invalidate_starts starts_update(8) [of "Authorizing (in_order b)" b] by (auto split: if_splits)
next
  case (Authorize r recorded)
  then obtain i "is" c where i: "bt_phase b = Authorizing (i # is)" "authorize i r recorded b = Some c" "b' = c\<lparr>bt_phase := Authorizing is\<rparr>"
    using step by (auto split: phase.splits list.splits)
  have "i < length (bt_calls b)" using inv i(1) by (auto simp: batch_inv_def gate_inv_def)
  then have c: "starts b c" using authorize_starts [OF inv _ i(2)] by blast
  have "bt_phase c = bt_phase b" using authorize_inv [OF inv \<open>i < length (bt_calls b)\<close> _ i(2)] i(1) by simp
  then show ?thesis unfolding i(3) by (intro starts_trans [OF c starts_update(8)]) (simp add: i(1))
next
  case (Gate recorded)
  have "starts b (invalidate (b\<lparr>bt_journal_error := True\<rparr>))" by (rule starts_trans [OF starts_update(7) invalidate_starts]) simp
  then show ?thesis using step Gate enter_gate_starts [OF gate] by (auto split: if_splits)
next
  case (Commit recorded failed refreshed)
  then show ?thesis using step commit_gate_starts by (auto split: if_splits)
next
  case Drained
  have "starts b ((mark_rolled_back is x b)\<lparr>bt_phase := Closed\<rparr>)" for "is" x
    by (rule starts_trans [OF starts_results [OF mark_rolled_back_same] starts_update(8)]) simp
  moreover have "starts b (b\<lparr>bt_phase := Closed\<rparr>)" by (rule starts_update(8)) simp
  ultimately show ?thesis using step Drained by (auto split: if_splits)
qed (use step starts_update(1,2,7) in \<open>auto split: if_splits\<close>)

lemma effects_step:
  assumes inv: "effects_inv b" and step: "batch_step e b = Some b'"
  shows "effects_inv b'"
proof -
  have b: "batch_inv b" "before_gate (bt_phase b) \<Longrightarrow> bt_precommit_final b = []" using inv by (simp_all add: effects_inv_def)
  have s: "starts b b'" by (rule batch_step_starts [OF b step])
  then have f: "frame b b'" by (simp add: starts_def)
  have "admitted b' i" if "i < length (bt_calls b')" "run_tool (call_at b' i)" for i
  proof -
    from s that have "ran b b' i \<or> admitted b' i" by (auto simp: starts_def)
    then show ?thesis
    proof
      assume r: "ran b b' i"
      with inv have "admitted b i" by (simp add: effects_inv_def ran_def)
      then show ?thesis by (rule admitted_mono [OF f]) (use r in \<open>simp add: ran_def\<close>)
    qed
  qed
  with f inv batch_step_inv [OF b(1) step] show ?thesis by (simp add: effects_inv_def frame_def)
qed

interpretation effect: invariant_system new_round batch_moves effects_inv
proof
  fix b assume "new_round b"
  with new_round_inv show "effects_inv b" by (auto simp: effects_inv_def new_round_def new_batch_def)
qed (auto simp: batch_moves_def intro: effects_step)

text \<open>C35. A round that has been aborted, or whose journal can no longer be written, starts nothing: a tool
  that runs after a step ran before it, and such a round stays stopped.\<close>

theorem stopped_round_starts_nothing:
  assumes "new_round b0" and "batch_moves\<^sup>*\<^sup>* b0 b" and "bt_aborted b \<or> bt_journal_error b" and "batch_step e b = Some b'"
  shows "(bt_aborted b' \<or> bt_journal_error b') \<and>
     (\<forall>i < length (bt_calls b'). run_tool (call_at b' i) \<longrightarrow> i < length (bt_calls b) \<and> run_tool (call_at b i))"
proof -
  have "effects_inv b" using assms(1,2) by (rule effect.reachable_inv)
  then have "starts b b'" by (intro batch_step_starts [OF _ _ assms(4)]) (simp_all add: effects_inv_def)
  with assms(3) show ?thesis by (auto simp: starts_def frame_def stopped_def ran_def)
qed

end
