(* ===== verification/Batch_History.thy ===== *)
theory Batch_History
  imports Batch_Effects
begin

text \<open>
  What must have happened before a tool of a round works. The sequence of the events since the round began
  is part of the statements: two conflicting tools work at the same time only after the earlier one has
  timed out, and the tool of a call that is only allowed in the final response runs only after a workspace
  commit that succeeded, unless there is nothing to commit or an edit waits for it.
\<close>

section \<open>What the operations leave alone\<close>

lemma run_events_append: "run_events (es @ fs) b = Option.bind (run_events es b) (run_events fs)"
proof (induction es arbitrary: b)
  case (Cons e es)
  then show ?case by (cases "batch_step e b") (simp_all del: batch_step.simps)
qed simp

lemma map_update_same: "g t = g (xs ! i) \<Longrightarrow> map g (xs[i := t]) = map g xs"
  by (cases "i < length xs") (simp_all add: map_update list_update_beyond list_update_same_conv)

text \<open>A part of a call that starting, completing and cancelling it and its result do not touch.\<close>

locale stable_view =
  fixes g :: "tracked_call \<Rightarrow> 'a"
  assumes launch: "g (launch s k t) = g t" and finished: "g (finished r x t) = g t"
    and cancel: "g (t\<lparr>tc_cancel := c\<rparr>) = g t" and res: "g (t\<lparr>tc_result := r\<rparr>) = g t"
begin

lemma change_view: "g (f (call_at b i)) = g (call_at b i) \<Longrightarrow> map g (bt_calls (change i f b)) = map g (bt_calls b)"
  by (simp add: map_update_same)

lemma start_one_view: "map g (bt_calls (start_one i b)) = map g (bt_calls b)"
  by (simp add: start_one_def Let_def map_update_same launch split: option.split)

lemma start_ready_view: "map g (bt_calls (start_ready b)) = map g (bt_calls b)"
proof -
  have "map g (bt_calls (fold start_one is b)) = map g (bt_calls b)" for "is"
    by (induction "is" arbitrary: b) (simp_all add: start_one_view)
  then show ?thesis by (simp add: start_ready_def)
qed

lemma complete_view: "map g (bt_calls (complete i r b)) = map g (bt_calls b)"
  "map g (bt_calls (complete_error i b)) = map g (bt_calls b)"
  by (simp_all add: complete_def complete_error_def Let_def start_ready_view map_update_same finished)

lemma cancel_view: "map g (bt_calls (cancel_not_started i b)) = map g (bt_calls b)"
  by (simp add: cancel_not_started_def map_update_same launch cancel split: call_state.split)

lemma invalidate_view: "map g (bt_calls (invalidate b)) = map g (bt_calls b)"
proof -
  have "map g (bt_calls (fold cancel_not_started is b)) = map g (bt_calls b)" for "is" b
    by (induction "is" arbitrary: b) (simp_all add: cancel_view)
  then show ?thesis by (simp add: invalidate_def)
qed

lemma mark_view: "map g (bt_calls (mark_rolled_back is e b)) = map g (bt_calls b)"
  unfolding mark_rolled_back_def by (induction "is" arbitrary: b) (simp_all add: map_update_same res)

lemma skip_view: "map g (bt_calls (skip_remaining_final b)) = map g (bt_calls b)"
proof -
  have "map g (bt_calls (fold skip_one is b)) = map g (bt_calls b)" for "is" b
    by (induction "is" arbitrary: b) (simp_all add: skip_one_def complete_view)
  then show ?thesis by (simp add: skip_remaining_final_def)
qed

lemma commit_view: "map g (bt_calls (commit_gate recorded failed refreshed b)) = map g (bt_calls b)"
proof -
  have "map g (map close_overlay cs) = map g cs" for cs by (simp add: close_overlay_def res)
  then show ?thesis
    by (simp add: commit_gate_def give_up_def invalidate_view skip_view mark_view start_ready_view del: map_map split: option.split)
qed

end

interpretation left: stable_view tc_left
  by unfold_locales (simp_all add: launch_def finished_def)

interpretation needs: stable_view "\<lambda>t. (tc_prepared t, tc_hint t, tc_dependencies t)"
  by unfold_locales (simp_all add: launch_def finished_def)

section \<open>Threads that are left behind\<close>

definition left_kept :: "batch \<Rightarrow> batch \<Rightarrow> bool" where
  "left_kept b b' \<longleftrightarrow> (\<forall>i < length (bt_calls b'). tc_left (call_at b' i) \<longrightarrow> i < length (bt_calls b) \<and> tc_left (call_at b i))"

lemma left_kept_trans: "left_kept a b \<Longrightarrow> left_kept b c \<Longrightarrow> left_kept a c"
  by (auto simp: left_kept_def)

lemma left_kept_map: "map tc_left (bt_calls b') = map tc_left (bt_calls b) \<Longrightarrow> left_kept b b'"
  unfolding left_kept_def using nth_map map_eq_imp_length_eq by metis

lemma left_kept_refl [simp]: "left_kept b b"
  by (simp add: left_kept_map)

lemma left_kept_calls: "bt_calls b' = bt_calls c \<Longrightarrow> left_kept b c \<Longrightarrow> left_kept b b'"
  by (simp add: left_kept_def)

lemma submit_left: "left_kept b (submit c streamed ordinal explicit b)"
  by (auto simp: left_kept_def submit_def nth_append new_call_def)

lemma submit_streamed_left: "left_kept b (submit_streamed c o' b)"
proof -
  have "left_kept b (b\<lparr>bt_invalid := True\<rparr>)" by (simp add: left_kept_def)
  then show ?thesis by (simp add: submit_streamed_def Let_def submit_left split: option.split)
qed

lemma bind_call_left: "left_kept b (bind_call ordinal c b)"
proof (cases "at_id b (tl_id c)")
  case None
  have "left_kept b (submit c False ordinal True b)" by (rule submit_left)
  then show ?thesis by (simp add: bind_call_def None left_kept_def)
next
  case (Some i)
  have "left_kept b (cancel_not_started i (b\<lparr>bt_invalid := True\<rparr>))" by (rule left_kept_map) (simp add: left.cancel_view)
  then show ?thesis by (simp add: bind_call_def Some Let_def left_kept_def)
qed

lemma reconcile_left: "left_kept b (reconcile cs b)"
proof -
  have bind: "left_kept c (bind_calls n cs c)" for n c
    by (induction n cs c rule: bind_calls.induct) (auto intro: left_kept_trans [OF bind_call_left])
  have "map tc_left (bt_calls (fold (drop_orphan ids) is c)) = map tc_left (bt_calls c)" for ids "is" c
    by (induction "is" arbitrary: c) (simp_all add: drop_orphan_def Let_def left.cancel_view)
  then have drop: "left_kept c (fold (drop_orphan ids) is c)" for ids "is" c by (rule left_kept_map)
  let ?b = "if distinct (given_ids cs) then b else b\<lparr>bt_invalid := True\<rparr>"
  have "left_kept b ?b" by (simp add: left_kept_def)
  from left_kept_trans [OF left_kept_trans [OF this bind] drop] show ?thesis by (simp add: reconcile_def Let_def)
qed

lemma invalidate_left: "left_kept b c \<Longrightarrow> left_kept b (invalidate c)"
  by (erule left_kept_trans) (rule left_kept_map, rule left.invalidate_view)

lemma begin_finish_left: "left_kept b (begin_finish cs proven b)"
  using reconcile_left [of b cs] invalidate_left [of b b] invalidate_left [OF reconcile_left [of b cs]]
  by (auto simp: begin_finish_def Let_def left_kept_def)

lemma rebuild_left: "left_kept b (rebuild b)"
  by (simp add: left_kept_def)

lemma start_ready_left: "left_kept b c \<Longrightarrow> left_kept b (start_ready c)"
  by (erule left_kept_trans) (rule left_kept_map, rule left.start_ready_view)

lemma change_left: "tc_left (f (call_at b i)) = tc_left (call_at b i) \<Longrightarrow> left_kept b (change i f b)"
  by (rule left_kept_map) (rule left.change_view)

lemma complete_left: "left_kept b c \<Longrightarrow> left_kept b (complete i r c)" "left_kept b c \<Longrightarrow> left_kept b (complete_error i c)"
  by (erule left_kept_trans, rule left_kept_map, rule left.complete_view)+

lemma admit_left: "left_kept b (admit i p stop recorded b)"
proof -
  let ?f = "\<lambda>t. t\<lparr>tc_prepared := Some p, tc_hint := po_safety (pc_policy p), tc_state := Queued\<rparr>"
  have "left_kept b (change i ?f b)" by (rule change_left) simp
  then have "left_kept b ((change i ?f b)\<lparr>bt_journal_error := bt_journal_error b \<or> \<not> recorded\<rparr>)" by (simp add: left_kept_def)
  from start_ready_left [OF left_kept_trans [OF this rebuild_left]] show ?thesis
    unfolding admit_def using change_left [of "launch Cancelling Report_cancelled" b i] by (simp add: launch_def)
qed

lemma end_preparation_left:
  assumes "end_preparation i provisional r stop recorded b = Some b'"
  shows "left_kept b b'"
proof -
  let ?b = "change i (tc_preparation_update (\<lambda>_. Prepared)) b"
  have "left_kept b ?b" by (rule change_left) simp
  with assms show ?thesis
    by (auto simp: end_preparation_def Let_def intro: left_kept_trans admit_left complete_left split: outcome.splits if_splits)
qed

lemma authorize_left:
  assumes "authorize i r recorded b = Some b'"
  shows "left_kept b b'"
proof -
  have upd: "left_kept b (change i (tc_prepared_update h) b)" for h by (rule change_left) simp
  have grant: "left_kept b (change i (\<lambda>t. t\<lparr>tc_prepared := q, tc_hint := s\<rparr>) b)" for q s by (rule change_left) simp
  have journal: "left_kept b c \<Longrightarrow> left_kept b (c\<lparr>bt_journal_error := e\<rparr>)" for c e by (simp add: left_kept_def)
  show ?thesis using assms
    by (auto simp: authorize_def intro!: complete_left upd grant journal split: option.splits if_splits outcome.splits)
qed

lemma gate_left: "left_kept b (enter_gate b)" "left_kept b (commit_gate recorded failed refreshed b)"
proof -
  have upd: "left_kept b ((rebuild b)\<lparr>bt_allow_final := x, bt_phase := p\<rparr>)"
    "left_kept b ((rebuild b)\<lparr>bt_transactional := y, bt_phase := p, bt_precommit_final := z\<rparr>)" for x p y z
    using rebuild_left [of b] by (simp_all add: left_kept_def)
  then show "left_kept b (enter_gate b)" by (auto simp: enter_gate_def Let_def intro!: start_ready_left)
  show "left_kept b (commit_gate recorded failed refreshed b)" by (rule left_kept_map) (rule left.commit_view)
qed

lemma left_kept_updates [simp]:
  "left_kept b (c\<lparr>bt_leases := x\<rparr>) = left_kept b c" "left_kept b (c\<lparr>bt_task_states := y\<rparr>) = left_kept b c"
  "left_kept b (c\<lparr>bt_phase := z\<rparr>) = left_kept b c" "left_kept b (c\<lparr>bt_journal_error := v\<rparr>) = left_kept b c"
  "left_kept b (c\<lparr>bt_validated := w\<rparr>) = left_kept b c"
  by (simp_all add: left_kept_def)

lemma batch_step_left:
  assumes "batch_step e b = Some b'" "\<And>i x. e \<noteq> Timed_out i x"
  shows "left_kept b b'"
proof (cases e)
  case (Prepare i r stop recorded)
  then show ?thesis using assms(1) end_preparation_left by (auto split: if_splits preparation.splits)
next
  case (Enter_preparation i)
  have "left_kept b (change i (\<lambda>t. t\<lparr>tc_preparation := p t\<rparr>) b)" for p by (rule change_left) simp
  with Enter_preparation show ?thesis using assms(1) by (auto split: if_splits preparation.splits)
next
  case (Begin_preparation i)
  have "left_kept b (change i (tc_preparation_update p) b)" for p by (rule change_left) simp
  with Begin_preparation show ?thesis using assms(1) by (auto simp: begin_preparation_def Let_def split: if_splits)
next
  case (Authorize r recorded)
  then obtain i "is" c where c: "authorize i r recorded b = Some c" "b' = c\<lparr>bt_phase := Authorizing is\<rparr>"
    using assms(1) by (auto split: phase.splits list.splits)
  from authorize_left [OF c(1)] show ?thesis by (simp add: c(2) left_kept_def)
next
  case (Thread_over i)
  then show ?thesis using assms(1) by (auto simp: left_kept_def nth_list_update split: if_splits)
next
  case (Validated recorded)
  have "left_kept b (start_ready (b\<lparr>bt_validated := True, bt_phase := Awaiting_prepared\<rparr>))" by (rule start_ready_left) simp
  moreover have "left_kept b (invalidate (b\<lparr>bt_journal_error := True\<rparr>))" by (rule invalidate_left) simp
  ultimately show ?thesis using Validated assms(1) by (auto split: if_splits)
next
  case All_prepared
  have "left_kept b (invalidate b)" by (rule invalidate_left) simp
  with All_prepared show ?thesis using assms(1) by (auto split: if_splits)
next
  case (Gate recorded)
  have "left_kept b (invalidate (b\<lparr>bt_journal_error := True\<rparr>))" by (rule invalidate_left) simp
  with Gate show ?thesis using assms(1) gate_left(1) by (auto split: if_splits)
next
  case Drained
  have "left_kept b (mark_rolled_back is x b)" for "is" x by (rule left_kept_map) (rule left.mark_view)
  with Drained show ?thesis using assms(1) by (auto split: if_splits)
next
  case (Task_done i r)
  then show ?thesis using assms(1) by (auto intro: complete_left split: if_splits option.splits)
next
  case Abort
  have "left_kept b (invalidate b)" by (rule invalidate_left) simp
  with Abort show ?thesis using assms(1) by (auto split: if_splits)
next
  case (Commit recorded failed refreshed)
  then show ?thesis using assms(1) gate_left(2) by (auto split: if_splits)
next
  case (Submit c o')
  then show ?thesis using assms(1) submit_streamed_left by (auto split: if_splits)
next
  case (Finish cs proven)
  then show ?thesis using assms(1) begin_finish_left by (auto split: if_splits)
qed (use assms in \<open>auto split: if_splits\<close>)

lemma left_timed_out:
  assumes "new_round b0" "run_events es b0 = Some b" "k < length (bt_calls b)" "tc_left (call_at b k)"
  shows "\<exists>x. Timed_out k x \<in> set es"
  using assms(2-4)
proof (induction es arbitrary: b rule: rev_induct)
  case Nil
  with assms(1) show ?case by (auto simp: new_round_def new_batch_def)
next
  case (snoc e es)
  then obtain c where c: "run_events es b0 = Some c" "batch_step e c = Some b" by (auto simp: run_events_append bind_eq_Some_conv)
  show ?case
  proof (cases "\<exists>i x. e = Timed_out i x")
    case False
    with batch_step_left [OF c(2)] snoc.prems(2,3) have "k < length (bt_calls c)" "tc_left (call_at c k)" by (auto simp: left_kept_def)
    with snoc.IH [OF c(1)] show ?thesis by auto
  next
    case True
    then obtain i x where e: "e = Timed_out i x" by blast
    show ?thesis
    proof (cases "i = k")
      case True
      with e show ?thesis by auto
    next
      case False
      let ?c = "change i (tc_left_update (\<lambda>_. True)) c"
      have "b = complete i (failure x) ?c" using c(2) by (simp add: e split: if_splits)
      then have "left_kept ?c b" using complete_left(1) [of ?c ?c] by simp
      with snoc.prems(2,3) False have "k < length (bt_calls c)" "tc_left (call_at c k)" by (auto simp: left_kept_def)
      with snoc.IH [OF c(1)] show ?thesis by auto
    qed
  qed
qed

text \<open>C8. Mutual exclusion up to time-outs: in every interleaving of the events of a tool round (submissions
  while the model streams, preparations, results, time-outs, the final response, the commit, an abort),
  when the tools of two different calls with conflicting resources work at the same time, then the call of
  the lower position had exceeded its time limit earlier in the round: it counts as completed while its
  worker thread goes on. Without such a time-out two tools that work at the same time never conflict.\<close>

theorem conflicting_calls_never_overlap:
  assumes "new_round b0" and "run_events es b0 = Some b" and "i < length (bt_calls b)" and "j < length (bt_calls b)" and "i \<noteq> j"
    and "executing (call_at b i)" and "executing (call_at b j)" and "conflicts (spec_of (call_at b i)) (spec_of (call_at b j))"
  shows "\<exists>k\<in>{i, j}. tc_left (call_at b k) \<and> tc_state (call_at b k) = Completed \<and> (\<exists>x. Timed_out k x \<in> set es) \<and>
     (\<forall>l\<in>{i, j}. tc_ordinal (call_at b k) \<le> tc_ordinal (call_at b l))"
proof -
  have m: "batch_moves\<^sup>*\<^sup>* b0 b" using assms(2) by (rule run_events_moves)
  have goal: ?thesis if k: "k \<in> {i, j}" "l \<in> {i, j}" "k \<noteq> l" "tc_ordinal (call_at b k) < tc_ordinal (call_at b l)" for k l
  proof -
    have kl: "k < length (bt_calls b)" "l < length (bt_calls b)" "executing (call_at b k)" "executing (call_at b l)"
      "conflicts (spec_of (call_at b k)) (spec_of (call_at b l))"
      using k assms(3-8) conflicts_sym by auto
    have left: "tc_left (call_at b k)" using overlap_left [OF assms(1) m kl(1-4) k(4) kl(5)] .
    moreover have "tc_state (call_at b k) = Completed" using runs_alone(3) [OF assms(1) m kl(1,3) left] .
    ultimately show ?thesis using left_timed_out [OF assms(1,2) kl(1) left] k by (intro bexI [of _ k]) auto
  qed
  show ?thesis using ordinals_differ [OF assms(1) m assms(3-5)] goal [of i j] goal [of j i] assms(5) by fastforce
qed

section \<open>The gate before side effects\<close>

text \<open>What the gate has decided, and where \<open>finish\<close> is.\<close>

definition gate_of :: "batch \<Rightarrow> bool \<times> nat list \<times> nat list \<times> phase" where
  "gate_of b = (bt_allow_final b, bt_precommit_final b, bt_transactional b, bt_phase b)"

lemma gate_of_updates [simp]:
  "gate_of (b\<lparr>bt_leases := a1\<rparr>) = gate_of b" "gate_of (b\<lparr>bt_task_states := a2\<rparr>) = gate_of b" "gate_of (b\<lparr>bt_invalid := a3\<rparr>) = gate_of b"
  "gate_of (b\<lparr>bt_bindings := a4\<rparr>) = gate_of b" "gate_of (b\<lparr>bt_validated := a5\<rparr>) = gate_of b" "gate_of (b\<lparr>bt_aborted := a6\<rparr>) = gate_of b"
  "gate_of (b\<lparr>bt_journal_error := a7\<rparr>) = gate_of b" "gate_of (b\<lparr>bt_calls := a8\<rparr>) = gate_of b" "gate_of (change i f b) = gate_of b"
  "gate_of (rebuild b) = gate_of b" "gate_of (submit c streamed ordinal explicit b) = gate_of b"
  by (simp_all add: gate_of_def change_def rebuild_def submit_def)

lemma fold_gate_of: "(\<And>i b. gate_of (f i b) = gate_of b) \<Longrightarrow> gate_of (fold f is b) = gate_of b"
  by (induction "is" arbitrary: b) simp_all

lemma gate_of_operations [simp]:
  "gate_of (start_ready b) = gate_of b" "gate_of (complete i r b) = gate_of b" "gate_of (complete_error i b) = gate_of b"
  "gate_of (cancel_not_started i b) = gate_of b" "gate_of (mark_rolled_back is e b) = gate_of b"
  "gate_of (skip_remaining_final b) = gate_of b" "gate_of (submit_streamed c o' b) = gate_of b"
  "gate_of (bind_call n c b) = gate_of b" "gate_of (drop_orphan ids i b) = gate_of b"
proof -
  have "gate_of (start_one i b) = gate_of b" for i b by (simp add: start_one_def Let_def split: option.split)
  then show start: "gate_of (start_ready b) = gate_of b" for b by (simp add: start_ready_def fold_gate_of)
  show complete: "gate_of (complete i r b) = gate_of b" for i r b by (simp add: complete_def Let_def start)
  show "gate_of (complete_error i b) = gate_of b" by (simp add: complete_error_def start)
  show cancel: "gate_of (cancel_not_started i b) = gate_of b" for i b by (simp add: cancel_not_started_def split: call_state.split)
  show "gate_of (mark_rolled_back is e b) = gate_of b" by (simp add: mark_rolled_back_def fold_gate_of)
  show "gate_of (skip_remaining_final b) = gate_of b" by (simp add: skip_remaining_final_def fold_gate_of skip_one_def complete)
  show "gate_of (submit_streamed c o' b) = gate_of b" by (simp add: submit_streamed_def Let_def split: option.split)
  show "gate_of (bind_call n c b) = gate_of b" by (simp add: bind_call_def Let_def cancel split: option.split)
  show "gate_of (drop_orphan ids i b) = gate_of b" by (simp add: drop_orphan_def Let_def cancel)
qed

text \<open>\<open>abort\<close> and \<open>_invalidate_turn\<close> move \<open>finish\<close>, and decide nothing else.\<close>

definition ungated :: "batch \<Rightarrow> batch \<Rightarrow> bool" where
  "ungated b b' \<longleftrightarrow> bt_allow_final b' = bt_allow_final b \<and> bt_precommit_final b' = bt_precommit_final b \<and>
     bt_transactional b' = bt_transactional b \<and> (bt_phase b' = Precommit \<longrightarrow> bt_phase b = Precommit)"

lemma ungated_same: "gate_of b' = gate_of b \<Longrightarrow> ungated b b'"
  by (simp add: gate_of_def ungated_def)

lemma ungated_invalidate: "gate_of c = gate_of b \<Longrightarrow> ungated b (invalidate c)"
proof -
  assume "gate_of c = gate_of b"
  moreover have "gate_of (fold cancel_not_started is c) = gate_of c" for "is" c by (simp add: fold_gate_of)
  then have "gate_of (fold cancel_not_started (indices c) (c\<lparr>bt_aborted := True\<rparr>)) = gate_of c" by simp
  ultimately show ?thesis by (simp add: invalidate_def ungated_def gate_of_def)
qed

lemma ungated_phase: "gate_of c = gate_of b \<Longrightarrow> p \<noteq> Precommit \<Longrightarrow> ungated b (c\<lparr>bt_phase := p\<rparr>)"
  by (simp add: ungated_def gate_of_def)

lemma begin_finish_ungated: "ungated b (begin_finish cs proven b)"
proof -
  have "gate_of (bind_calls n cs c) = gate_of c" for n c by (induction n cs c rule: bind_calls.induct) simp_all
  then have rec: "gate_of (reconcile cs b) = gate_of b" by (simp add: reconcile_def Let_def fold_gate_of)
  have "ungated b c \<Longrightarrow> ungated b (c\<lparr>bt_bindings := x\<rparr>)" for c x by (simp add: ungated_def)
  then show ?thesis using rec ungated_invalidate [of b b] ungated_invalidate [OF rec]
    by (simp add: begin_finish_def Let_def ungated_phase)
qed

lemma preparation_gate_of: "end_preparation i provisional r stop recorded b = Some b' \<Longrightarrow> gate_of b' = gate_of b"
  by (auto simp: end_preparation_def admit_def Let_def split: outcome.splits if_splits)

lemma authorize_gate_of: "authorize i r recorded b = Some b' \<Longrightarrow> gate_of b' = gate_of b"
  by (auto simp: authorize_def split: option.splits outcome.splits if_splits)

text \<open>Every step but the passing of the gate and the commit.\<close>

lemma batch_step_ungated:
  assumes step: "batch_step e b = Some b'"
  shows "ungated b b' \<or> (\<exists>r. e = Gate r \<and> bt_phase b = Authorizing [] \<and> b' = enter_gate b) \<or>
     (\<exists>r f x. e = Commit r f x \<and> bt_phase b = Precommit \<and> b' = commit_gate r f x b)"
proof (cases e)
  case (Submit c o')
  then show ?thesis using step by (auto intro: ungated_same split: if_splits)
next
  case (Begin_preparation i)
  then show ?thesis using step by (auto simp: begin_preparation_def Let_def intro: ungated_same split: if_splits)
next
  case (Enter_preparation i)
  then show ?thesis using step by (auto intro: ungated_same split: if_splits preparation.splits)
next
  case (Prepare i r stop recorded)
  then show ?thesis using step preparation_gate_of by (auto intro: ungated_same split: if_splits preparation.splits)
next
  case (Task_done i r)
  then show ?thesis using step by (auto intro: ungated_same split: if_splits option.splits)
next
  case (Timed_out i x)
  then show ?thesis using step by (auto intro: ungated_same split: if_splits)
next
  case (Thread_over i)
  then show ?thesis using step by (auto intro: ungated_same split: if_splits)
next
  case (Finish cs proven)
  then show ?thesis using step begin_finish_ungated by (auto split: if_splits)
next
  case Abort
  then show ?thesis using step by (auto intro: ungated_invalidate split: if_splits)
next
  case (Validated recorded)
  have "ungated b (start_ready (b\<lparr>bt_validated := True, bt_phase := Awaiting_prepared\<rparr>))"
  proof -
    have "gate_of (start_ready c) = gate_of c" for c by simp
    from this [of "b\<lparr>bt_validated := True, bt_phase := Awaiting_prepared\<rparr>"] show ?thesis by (simp add: gate_of_def ungated_def)
  qed
  then show ?thesis using step Validated by (auto intro: ungated_invalidate split: if_splits)
next
  case All_prepared
  then show ?thesis using step by (auto intro: ungated_invalidate ungated_phase split: if_splits)
next
  case (Authorize r recorded)
  then obtain i "is" c where "authorize i r recorded b = Some c" "b' = c\<lparr>bt_phase := Authorizing is\<rparr>"
    using step by (auto split: phase.splits list.splits)
  then show ?thesis using authorize_gate_of by (auto intro: ungated_phase)
next
  case (Gate recorded)
  then show ?thesis using step by (auto intro: ungated_invalidate split: if_splits)
next
  case (Commit recorded failed refreshed)
  then show ?thesis using step by (auto split: if_splits)
next
  case Drained
  then show ?thesis using step by (auto intro: ungated_phase split: if_splits)
qed (use step in \<open>auto intro: ungated_same split: if_splits\<close>)

text \<open>Behind the gate every call is prepared: no step changes what the calls are and wait for.\<close>

lemma gated_step_needs:
  assumes inv: "batch_inv b" and gated: "gated b" and past: "\<not> before_gate (bt_phase b)" and step: "batch_step e b = Some b'"
  shows "map (\<lambda>t. (tc_prepared t, tc_hint t, tc_dependencies t)) (bt_calls b') =
    map (\<lambda>t. (tc_prepared t, tc_hint t, tc_dependencies t)) (bt_calls b)"
proof -
  have prep: "tc_preparation (call_at b i) = Prepared" if "i < length (bt_calls b)" for i
    using batch_invD(2) [OF inv that] batch_invD(4) [OF inv that] gated by (auto simp: call_wf_def)
  show ?thesis
  proof (cases e)
    case (Begin_preparation i)
    then show ?thesis using step prep [of i] by (simp split: if_splits)
  next
    case (Enter_preparation i)
    then show ?thesis using step prep [of i] by (simp split: if_splits)
  next
    case (Prepare i r stop recorded)
    then show ?thesis using step prep [of i] by (simp split: if_splits)
  next
    case (Task_done i r)
    then show ?thesis using step by (auto simp: needs.complete_view split: if_splits option.splits)
  next
    case (Timed_out i x)
    then show ?thesis using step by (auto simp: needs.complete_view map_update_same split: if_splits)
  next
    case (Thread_over i)
    then show ?thesis using step by (auto simp: map_update_same split: if_splits)
  next
    case (Commit recorded failed refreshed)
    then show ?thesis using step by (auto simp: needs.commit_view split: if_splits)
  next
    case Drained
    then show ?thesis using step by (auto simp: needs.mark_view split: if_splits)
  qed (use step past in \<open>auto split: if_splits phase.splits list.splits\<close>)
qed

section \<open>What a final call has waited for\<close>

text \<open>The call \<open>k\<close> waits for the call \<open>j\<close>.\<close>

definition waits_on :: "batch \<Rightarrow> nat \<Rightarrow> nat \<Rightarrow> bool" where
  "waits_on b k j \<longleftrightarrow> k < length (bt_calls b) \<and> j \<in> set (tc_dependencies (call_at b k))"

definition transactional :: "batch \<Rightarrow> nat \<Rightarrow> bool" where
  "transactional b k \<longleftrightarrow> k < length (bt_calls b) \<and> safety (call_at b k) = TRANSACTIONAL"

lemma needs_same:
  assumes "map (\<lambda>t. (tc_prepared t, tc_hint t, tc_dependencies t)) (bt_calls b') =
    map (\<lambda>t. (tc_prepared t, tc_hint t, tc_dependencies t)) (bt_calls b)"
  shows "waits_on b' = waits_on b" "transactional b' = transactional b" "length (bt_calls b') = length (bt_calls b)"
proof -
  show len: "length (bt_calls b') = length (bt_calls b)" using assms by (rule map_eq_imp_length_eq)
  have "tc_prepared (call_at b' k) = tc_prepared (call_at b k) \<and> tc_hint (call_at b' k) = tc_hint (call_at b k) \<and>
      tc_dependencies (call_at b' k) = tc_dependencies (call_at b k)" if "k < length (bt_calls b)" for k
    using arg_cong [OF assms, of "\<lambda>xs. xs ! k"] that len by simp
  then show "waits_on b' = waits_on b" "transactional b' = transactional b"
    by (auto simp: waits_on_def transactional_def safety_def len fun_eq_iff split: option.split)
qed

lemma ancestors_reachable:
  assumes "x \<in> set (ancestors (bt_calls b) pending seen)"
  shows "x \<in> set seen \<or> (\<exists>p\<in>set pending. (waits_on b)\<^sup>*\<^sup>* p x)"
  using assms
proof (induction "bt_calls b" pending seen rule: ancestors.induct)
  case (2 i pending seen)
  show ?case
  proof (cases "i \<in> set seen \<or> length (bt_calls b) \<le> i")
    case True
    with 2 show ?thesis by auto
  next
    case False
    with 2 consider "x = i" | "x \<in> set seen" | p where "p \<in> set (tc_dependencies (call_at b i)) \<union> set pending" "(waits_on b)\<^sup>*\<^sup>* p x" by auto
    then show ?thesis
    proof cases
      case 3
      moreover have "p \<in> set (tc_dependencies (call_at b i)) \<Longrightarrow> waits_on b i p" using False by (simp add: waits_on_def)
      ultimately show ?thesis by (auto intro: converse_rtranclp_into_rtranclp)
    qed auto
  qed
qed simp

text \<open>The commit of the round succeeded before, when every edit of the round had succeeded.\<close>

definition committed_before :: "event list \<Rightarrow> batch \<Rightarrow> batch \<Rightarrow> bool" where
  "committed_before es b0 b \<longleftrightarrow> (\<exists>es1 r es2 b1. es = es1 @ Commit True None r # es2 \<and> run_events es1 b0 = Some b1 \<and>
     length (bt_calls b1) = length (bt_calls b) \<and> (\<forall>k. transactional b k \<longrightarrow> result_ok (call_at b1 k)))"

lemma committed_later:
  "committed_before es b0 b \<Longrightarrow> transactional b' = transactional b \<Longrightarrow> length (bt_calls b') = length (bt_calls b) \<Longrightarrow>
   committed_before (es @ fs) b0 b'"
  unfolding committed_before_def by (metis append.assoc append_Cons)

definition history_inv :: "event list \<Rightarrow> batch \<Rightarrow> batch \<Rightarrow> bool" where
  "history_inv es b0 b \<longleftrightarrow>
     (bt_phase b = Precommit \<longrightarrow> (\<forall>k. transactional b k \<longrightarrow> k \<in> set (bt_transactional b))) \<and>
     (\<forall>i\<in>set (bt_precommit_final b). \<exists>k. transactional b k \<and> (waits_on b)\<^sup>+\<^sup>+ k i) \<and>
     (bt_allow_final b \<longrightarrow> (\<nexists>k. transactional b k) \<or> committed_before es b0 b)"

lemma history_keep:
  assumes "history_inv es b0 b" "ungated b b'" "waits_on b' = waits_on b" "transactional b' = transactional b"
    "length (bt_calls b') = length (bt_calls b)"
  shows "history_inv (es @ fs) b0 b'"
  using assms committed_later [of es b0 b b' fs] by (auto simp: history_inv_def ungated_def)

lemma start_ready_history:
  "waits_on (start_ready b) = waits_on b" "transactional (start_ready b) = transactional b"
  using needs_same [OF needs.start_ready_view] by blast+

lemma waits_on_updates [simp]:
  "waits_on (b\<lparr>bt_allow_final := x, bt_phase := p\<rparr>) = waits_on b" "transactional (b\<lparr>bt_allow_final := x, bt_phase := p\<rparr>) = transactional b"
  "waits_on (b\<lparr>bt_transactional := y, bt_phase := p, bt_precommit_final := z\<rparr>) = waits_on b"
  "transactional (b\<lparr>bt_transactional := y, bt_phase := p, bt_precommit_final := z\<rparr>) = transactional b"
  by (simp_all add: waits_on_def transactional_def fun_eq_iff)

lemma enter_gate_history:
  assumes "bt_precommit_final b = []" "\<not> bt_allow_final b"
  shows "history_inv es b0 (enter_gate b)"
proof -
  define c where "c = rebuild b"
  define tx where "tx = filter (\<lambda>i. safety (call_at c i) = TRANSACTIONAL) (indices c)"
  define anc where "anc = filter (\<lambda>i. safety (call_at c i) = FINAL_ONLY) (ancestors (bt_calls c) (concat (map (\<lambda>i. tc_dependencies (call_at c i)) tx)) [])"
  have gate: "enter_gate b = (if tx = [] then start_ready (c\<lparr>bt_allow_final := True, bt_phase := Draining\<rparr>)
      else start_ready (c\<lparr>bt_transactional := tx, bt_phase := Precommit, bt_precommit_final := anc\<rparr>))"
    by (simp only: enter_gate_def Let_def c_def tx_def anc_def)
  have mem: "k \<in> set tx \<longleftrightarrow> transactional c k" for k by (auto simp: tx_def transactional_def)
  have start: "gate_of (start_ready d) = gate_of d" for d by simp
  have reach: "\<exists>k. transactional c k \<and> (waits_on c)\<^sup>+\<^sup>+ k i" if "i \<in> set anc" for i
  proof -
    from that have "i \<in> set (ancestors (bt_calls c) (concat (map (\<lambda>i. tc_dependencies (call_at c i)) tx)) [])" by (simp add: anc_def)
    with ancestors_reachable obtain p k where k: "k \<in> set tx" "p \<in> set (tc_dependencies (call_at c k))" "(waits_on c)\<^sup>*\<^sup>* p i" by fastforce
    then have "transactional c k" "waits_on c k p" using mem by (auto simp: waits_on_def transactional_def)
    with k(3) show ?thesis by (blast intro: rtranclp_into_tranclp2)
  qed
  have c: "bt_precommit_final c = []" "\<not> bt_allow_final c" using assms by (simp_all add: c_def)
  show ?thesis
  proof (cases "tx = []")
    case True
    then have "\<nexists>k. transactional c k" using mem by auto
    then show ?thesis using True c start [of "c\<lparr>bt_allow_final := True, bt_phase := Draining\<rparr>"]
      by (simp add: gate history_inv_def start_ready_history gate_of_def)
  next
    case False
    then show ?thesis using c mem reach start [of "c\<lparr>bt_transactional := tx, bt_phase := Precommit, bt_precommit_final := anc\<rparr>"]
      by (simp add: gate history_inv_def start_ready_history gate_of_def)
  qed
qed

lemma result_ok_all: "\<not> list_ex (\<lambda>i. \<not> result_ok (call_at b i)) is \<longleftrightarrow> (\<forall>i\<in>set is. result_ok (call_at b i))"
  by (auto simp: list_ex_iff)

lemma commit_gate_history:
  assumes hist: "history_inv es b0 b" and run: "run_events es b0 = Some b" and phase: "bt_phase b = Precommit"
  shows "history_inv (es @ [Commit recorded failed refreshed]) b0 (commit_gate recorded failed refreshed b)" (is "history_inv ?es b0 ?b")
proof -
  have same: "waits_on ?b = waits_on b" "transactional ?b = transactional b" "length (bt_calls ?b) = length (bt_calls b)"
    using needs_same [OF needs.commit_view] by blast+
  show ?thesis
  proof (cases "recorded \<and> (\<forall>i\<in>set (bt_transactional b). result_ok (call_at b i)) \<and> failed = None")
    case True
    let ?c = "b\<lparr>bt_calls := map close_overlay (bt_calls b), bt_journal_error := bt_journal_error b \<or> \<not> refreshed,
      bt_allow_final := True, bt_phase := Draining\<rparr>"
    have b: "?b = start_ready ?c" using True by (simp add: commit_gate_def list_ex_iff)
    have "\<forall>k. transactional b k \<longrightarrow> result_ok (call_at b k)" using hist phase True by (auto simp: history_inv_def)
    then have "committed_before ?es b0 ?b" unfolding committed_before_def same using run True by blast
    moreover have "gate_of ?b = gate_of ?c" by (simp add: b)
    then have "bt_precommit_final ?b = bt_precommit_final b" "bt_phase ?b \<noteq> Precommit" by (simp_all add: gate_of_def)
    ultimately show ?thesis using hist unfolding history_inv_def same by simp
  next
    case False
    have give: "ungated b (give_up x b)" for x
      unfolding give_up_def by (rule ungated_phase) simp_all
    have "ungated b (invalidate (b\<lparr>bt_journal_error := True\<rparr>))" by (rule ungated_invalidate) simp
    with give False have "ungated b ?b"
      by (cases failed) (auto simp: commit_gate_def list_ex_iff)
    from history_keep [OF hist this same] show ?thesis .
  qed
qed

lemma history:
  assumes "new_round b0" "run_events es b0 = Some b"
  shows "history_inv es b0 b"
  using assms(2)
proof (induction es arbitrary: b rule: rev_induct)
  case Nil
  with assms(1) show ?case by (auto simp: history_inv_def new_round_def new_batch_def)
next
  case (snoc e es)
  then obtain c where c: "run_events es b0 = Some c" "batch_step e c = Some b" by (auto simp: run_events_append bind_eq_Some_conv)
  have hist: "history_inv es b0 c" by (rule snoc.IH [OF c(1)])
  have inv: "effects_inv c" using effect.reachable_inv [OF assms(1) run_events_moves [OF c(1)]] .
  from batch_step_ungated [OF c(2)] consider "ungated c b" | "bt_phase c = Authorizing []" "b = enter_gate c"
    | r f x where "e = Commit r f x" "bt_phase c = Precommit" "b = commit_gate r f x c" by blast
  then show ?case
  proof cases
    case 1
    show ?thesis
    proof (cases "gated c \<and> \<not> before_gate (bt_phase c)")
      case True
      then have "map (\<lambda>t. (tc_prepared t, tc_hint t, tc_dependencies t)) (bt_calls b) =
          map (\<lambda>t. (tc_prepared t, tc_hint t, tc_dependencies t)) (bt_calls c)"
        using inv c(2) by (intro gated_step_needs) (simp_all add: effects_inv_def)
      from history_keep [OF hist 1 needs_same [OF this]] show ?thesis .
    next
      case False
      then have "\<not> bt_allow_final c" "bt_precommit_final c = []" "bt_phase c \<noteq> Precommit"
        using inv by (auto simp: effects_inv_def gated_def)
      with 1 show ?thesis by (simp add: history_inv_def ungated_def)
    qed
  next
    case 2
    with inv show ?thesis by (auto simp: effects_inv_def intro: enter_gate_history)
  next
    case 3
    with commit_gate_history [OF hist c(1)] show ?thesis by simp
  qed
qed

text \<open>C10. Side effects wait for the commit: with parallel tools, when the tool of a call that is only allowed
  in the final response runs, then an earlier event of the round was a workspace commit that succeeded,
  at a moment when every edit of the round had succeeded; or the round has no edit to commit; or an edit
  of the round waits for this very call, directly or through other calls.\<close>

theorem side_effects_wait_for_commit:
  assumes "new_round b0" and "run_events es b0 = Some b" and "bt_parallel b" and "i < length (bt_calls b)"
    and "run_tool (call_at b i)" and "safety (call_at b i) = FINAL_ONLY"
  shows "(\<exists>es1 r es2 b1. es = es1 @ Commit True None r # es2 \<and> run_events es1 b0 = Some b1 \<and>
       length (bt_calls b1) = length (bt_calls b) \<and>
       (\<forall>k < length (bt_calls b). safety (call_at b k) = TRANSACTIONAL \<longrightarrow> result_ok (call_at b1 k))) \<or>
     (\<forall>k < length (bt_calls b). safety (call_at b k) \<noteq> TRANSACTIONAL) \<or>
     (\<exists>k < length (bt_calls b). safety (call_at b k) = TRANSACTIONAL \<and> (waits_on b)\<^sup>+\<^sup>+ k i)"
proof -
  have "effects_inv b" using effect.reachable_inv [OF assms(1) run_events_moves [OF assms(2)]] .
  with assms(3-6) have "bt_allow_final b \<or> i \<in> set (bt_precommit_final b)" by (auto simp: effects_inv_def admitted_def)
  moreover have "history_inv es b0 b" by (rule history [OF assms(1,2)])
  ultimately show ?thesis unfolding history_inv_def committed_before_def transactional_def by blast
qed

end
