(* ===== verification/Batch_Runs.thy ===== *)
theory Batch_Runs
  imports Batch_History
begin

text \<open>
  Rounds on concrete calls: they show that the guarantees of \<open>Batch_Safety\<close> are not empty, and they
  prove what the scheduler does not guarantee: conflicting tools work at the same time after a time-out,
  without parallel tools a call that waits for a person runs before it is approved, and a round can wait
  for itself.
\<close>

section \<open>Concrete calls\<close>

definition a_lock :: "string \<Rightarrow> lock_mode \<Rightarrow> bool \<Rightarrow> bool \<Rightarrow> resource_lock" where
  "a_lock k m sub req = \<lparr>lk_namespace = ''fs'', lk_key = k, lk_mode = m, lk_subtree = sub, lk_requires_success = req, lk_materialize = True\<rparr>"

definition a_policy :: "execution_safety \<Rightarrow> resource_lock \<Rightarrow> string option \<Rightarrow> policy" where
  "a_policy s l be = \<lparr>po_safety = s, po_spec = \<lparr>cs_locks = [l], cs_exclusive = False\<rparr>, po_backend = be\<rparr>"

definition an_edit :: policy where "an_edit = a_policy TRANSACTIONAL (a_lock ''/w/a.py'' Write_lock False False) (Some ''workspace'')"
definition a_shell :: policy where "a_shell = a_policy FINAL_ONLY (a_lock ''/w'' Write_lock True False) None"
definition a_read :: policy where "a_read = a_policy SPECULATIVE_SAFE (a_lock ''/w/a.py'' Read_lock True True) None"

definition a_call :: "string \<Rightarrow> string \<Rightarrow> tool_call" where
  "a_call x n = \<lparr>tl_id = Some x, tl_name = n, tl_arguments = []\<rparr>"

definition a_success :: call_result where
  "a_success = \<lparr>cr_ok = True, cr_error = [], cr_overlay = False, cr_task = [], cr_lease = False\<rparr>"

definition prepare_events :: "nat \<Rightarrow> outcome \<Rightarrow> event list" where
  "prepare_events i r = [Begin_preparation i, Enter_preparation i, Prepare i r False True]"

definition a_start :: "bool \<Rightarrow> batch" where
  "a_start par = new_batch par 4 (\<lambda>_. FINAL_ONLY) [] []"

definition a_run :: "bool \<Rightarrow> event list \<Rightarrow> batch" where
  "a_run par es = the (run_events es (a_start par))"

lemma a_start_new: "new_round (a_start par)"
  unfolding new_round_def a_start_def by blast

lemma a_run_moves: "run_events es (a_start par) \<noteq> None \<Longrightarrow> batch_moves\<^sup>*\<^sup>* (a_start par) (a_run par es)"
  by (auto simp: a_run_def intro: run_events_moves)

text \<open>Two reads of the same file stream in and run together.\<close>

definition two_reads :: "event list" where
  "two_reads = [Submit (a_call ''a'' ''read_file'') (Some 0), Submit (a_call ''b'' ''read_file'') (Some 1)] @
     prepare_events 0 (Ready a_read) @ prepare_events 1 (Ready a_read)"

lemma two_reads_run: "batch_moves\<^sup>*\<^sup>* (a_start True) (a_run True two_reads)"
  by (rule a_run_moves) code_simp

lemma two_reads_state: "length (bt_calls (a_run True two_reads)) = 2 \<and> list_all run_tool (bt_calls (a_run True two_reads)) \<and> bt_parallel (a_run True two_reads)"
  by code_simp

lemma two_reads_D: "0 < length (bt_calls (a_run True two_reads))" "1 < length (bt_calls (a_run True two_reads))"
  "run_tool (call_at (a_run True two_reads) 0)" "run_tool (call_at (a_run True two_reads) 1)"
  using two_reads_state by (simp_all add: list_all_length)

text \<open>Two edits of the same file; the first one exceeds its time limit. The second one starts at once, while
  the worker thread of the first one may still write.\<close>

definition two_edits :: "event list" where
  "two_edits = [Submit (a_call ''a'' ''edit_file'') (Some 0), Submit (a_call ''b'' ''edit_file'') (Some 1)] @
     prepare_events 0 (Ready an_edit) @ prepare_events 1 (Ready an_edit) @ [Timed_out 0 ''IndeterminateToolExecution'']"

lemma two_edits_run: "run_events two_edits (a_start True) = Some (a_run True two_edits)"
proof -
  have "run_events two_edits (a_start True) \<noteq> None" by code_simp
  then show ?thesis by (auto simp: a_run_def)
qed

theorem conflicting_tools_overlap_after_time_out:
  "length (bt_calls (a_run True two_edits)) = 2 \<and>
   executing (call_at (a_run True two_edits) 0) \<and> run_tool (call_at (a_run True two_edits) 1) \<and>
   conflicts (spec_of (call_at (a_run True two_edits) 0)) (spec_of (call_at (a_run True two_edits) 1))"
  by code_simp

lemma conflicting_calls_never_overlap_witness:
  "\<exists>k\<in>{0, 1}. tc_left (call_at (a_run True two_edits) k) \<and> tc_state (call_at (a_run True two_edits) k) = Completed"
proof -
  note o = conflicting_tools_overlap_after_time_out
  have "0 < length (bt_calls (a_run True two_edits))" "1 < length (bt_calls (a_run True two_edits))"
    "executing (call_at (a_run True two_edits) 0)" "executing (call_at (a_run True two_edits) 1)"
    "conflicts (spec_of (call_at (a_run True two_edits) 0)) (spec_of (call_at (a_run True two_edits) 1))"
    using o by (simp_all add: executing_def)
  from conflicting_calls_never_overlap [OF a_start_new two_edits_run this(1,2) _ this(3-5)] show ?thesis by auto
qed

lemma running_tools_bounded_witness: "length (filter run_tool (bt_calls (a_run True two_reads))) \<le> 4"
proof -
  have "bt_parallel (a_run True two_reads)" "bt_workers (a_run True two_reads) = 4" by code_simp+
  with running_tools_bounded [OF a_start_new two_reads_run] show ?thesis by simp
qed

text \<open>A shell command after an edit: it runs, alone, once the edit has been committed.\<close>

definition edit_then_shell :: "event list" where
  "edit_then_shell = [Submit (a_call ''a'' ''edit_file'') (Some 0)] @ prepare_events 0 (Ready an_edit) @
     [Finish [a_call ''a'' ''edit_file'', a_call ''b'' ''bash''] True, Validated True] @ prepare_events 1 (Ready a_shell) @
     [Task_done 0 a_success, All_prepared, Authorize Stopped True, Authorize Stopped True, Gate True, Commit True None True]"

lemma edit_then_shell_run: "batch_moves\<^sup>*\<^sup>* (a_start True) (a_run True edit_then_shell)"
  by (rule a_run_moves) code_simp

lemma edit_then_shell_state:
  "length (bt_calls (a_run True edit_then_shell)) = 2 \<and> run_tool (call_at (a_run True edit_then_shell) 1) \<and>
   bt_parallel (a_run True edit_then_shell) \<and> tc_ordinal (call_at (a_run True edit_then_shell) 1) = 1 \<and>
   tc_ordinal (call_at (a_run True edit_then_shell) 0) = 0 \<and> tc_prepared (call_at (a_run True edit_then_shell) 0) \<noteq> None \<and>
   conflicts (spec_of (call_at (a_run True edit_then_shell) 0)) (spec_of (call_at (a_run True edit_then_shell) 1)) \<and>
   safety (call_at (a_run True edit_then_shell) 1) = FINAL_ONLY"
  by code_simp

lemma earlier_conflicts_complete_first_witness: "tc_state (call_at (a_run True edit_then_shell) 0) = Completed"
proof -
  have one: "1 < length (bt_calls (a_run True edit_then_shell))" using edit_then_shell_state by simp
  show ?thesis
    using earlier_conflicts_complete_first [OF a_start_new edit_then_shell_run one] edit_then_shell_state by simp
qed

lemma nothing_runs_unapproved_witness:
  "\<not> deferred (call_at (a_run True edit_then_shell) 1) \<and> bt_validated (a_run True edit_then_shell)"
proof -
  have "call_at (a_run True edit_then_shell) 1 \<in> set (bt_calls (a_run True edit_then_shell))"
    using edit_then_shell_state by simp
  from nothing_runs_unapproved [OF a_start_new edit_then_shell_run _ this] edit_then_shell_state show ?thesis by simp
qed

lemma edit_then_shell_events: "run_events edit_then_shell (a_start True) = Some (a_run True edit_then_shell)"
proof -
  have "run_events edit_then_shell (a_start True) \<noteq> None" by code_simp
  then show ?thesis by (auto simp: a_run_def)
qed

lemma side_effects_wait_for_commit_witness:
  "(\<exists>es1 r es2 b1. edit_then_shell = es1 @ Commit True None r # es2 \<and> run_events es1 (a_start True) = Some b1) \<or>
   (\<exists>k. (waits_on (a_run True edit_then_shell))\<^sup>+\<^sup>+ k 1)"
proof -
  have tx: "safety (call_at (a_run True edit_then_shell) 0) = TRANSACTIONAL" by code_simp
  have one: "1 < length (bt_calls (a_run True edit_then_shell))" "0 < length (bt_calls (a_run True edit_then_shell))"
    using edit_then_shell_state by simp_all
  show ?thesis
    using side_effects_wait_for_commit [OF a_start_new edit_then_shell_events _ one(1)] edit_then_shell_state tx one(2) by fastforce
qed

text \<open>A stopped round: the record of the commit is not written while two reads run.\<close>

definition lost_journal :: "event list" where
  "lost_journal = [Submit (a_call ''a'' ''read_file'') (Some 0), Submit (a_call ''b'' ''edit_file'') (Some 1)] @
     prepare_events 0 (Ready a_read) @ [Begin_preparation 1, Enter_preparation 1, Prepare 1 (Ready an_edit) False False]"

lemma stopped_round_starts_nothing_witness:
  "\<exists>b'. batch_step (Task_done 0 a_success) (a_run True lost_journal) = Some b' \<and> bt_journal_error b' \<and> \<not> run_tool (call_at b' 1)"
proof -
  have run: "batch_moves\<^sup>*\<^sup>* (a_start True) (a_run True lost_journal)" by (rule a_run_moves) code_simp
  have "batch_step (Task_done 0 a_success) (a_run True lost_journal) \<noteq> None" by code_simp
  then obtain b' where b': "batch_step (Task_done 0 a_success) (a_run True lost_journal) = Some b'" by blast
  have err: "bt_journal_error (a_run True lost_journal)" and idle: "\<not> run_tool (call_at (a_run True lost_journal) 1)" by code_simp+
  have "length (bt_calls (the (batch_step (Task_done 0 a_success) (a_run True lost_journal)))) = 2" by code_simp
  then have len: "1 < length (bt_calls b')" by (simp add: b' del: batch_step.simps)
  have ab: "\<not> bt_aborted (the (batch_step (Task_done 0 a_success) (a_run True lost_journal)))" by code_simp
  from stopped_round_starts_nothing [OF a_start_new run _ b'] err
  have "bt_aborted b' \<or> bt_journal_error b'" "\<forall>i < length (bt_calls b'). run_tool (call_at b' i) \<longrightarrow> run_tool (call_at (a_run True lost_journal) i)"
    by simp_all
  with ab idle len show ?thesis by (auto simp: b' simp del: batch_step.simps)
qed

section \<open>A call runs before it is approved\<close>

lemma start_one_other: "i \<noteq> j \<Longrightarrow> call_at (start_one j b) i = call_at b i"
  by (auto simp: start_one_def Let_def split: option.split)

lemma fold_start_other: "i \<notin> set is \<Longrightarrow> call_at (fold start_one is b) i = call_at b i"
  by (induction "is" arbitrary: b) (simp_all add: start_one_other)

text \<open>The call at position 0 is looked at first.\<close>

lemma in_order_first:
  assumes "distinct (map tc_ordinal (bt_calls b))" "i < length (bt_calls b)" "tc_ordinal (call_at b i) = 0"
  shows "\<exists>is. in_order b = i # is \<and> i \<notin> set is"
proof -
  have mem: "i \<in> set (in_order b)" using assms(2) by simp
  then obtain k "is" where k: "in_order b = k # is" by (cases "in_order b") auto
  have "sorted (map (\<lambda>i. tc_ordinal (call_at b i)) (in_order b))" unfolding in_order_def by (rule sorted_sort_key)
  with k mem assms(3) have "tc_ordinal (call_at b k) = 0" by auto
  moreover have "k < length (bt_calls b)" using k in_order_set [of b] by auto
  ultimately have "k = i" using assms by (metis nth_eq_iff_index_eq length_map nth_map)
  moreover have "distinct (in_order b)" by (simp add: in_order_def)
  ultimately show ?thesis using k by auto
qed

text \<open>C36. Without parallel tools the guarantee of \<open>nothing_runs_unapproved\<close> fails: in every round whose
  response has been reconciled and is about to be validated (with no tool running, the journal sound and
  the round not aborted), a first call that waits for no other and whose permission was deferred while the
  model streamed runs as soon as the response is validated, before \<open>_authorize_provisional\<close> asks for the
  permission.\<close>

theorem sequential_call_runs_unapproved:
  assumes "new_round b0" and "batch_moves\<^sup>*\<^sup>* b0 b" and "\<not> bt_parallel b" and "0 < bt_workers b"
    and "bt_phase b = Validating" and "\<not> bt_aborted b" and "\<not> bt_journal_error b"
    and "i < length (bt_calls b)" and "tc_ordinal (call_at b i) = 0" and "tc_state (call_at b i) = Queued"
    and "deferred (call_at b i)" and "\<not> tc_cancel (call_at b i)" and "tc_dependencies (call_at b i) = []"
    and "\<forall>t\<in>set (bt_calls b). tc_state t \<noteq> Running"
  shows "\<exists>b'. batch_step (Validated True) b = Some b' \<and> bt_phase b' = Awaiting_prepared \<and>
     run_tool (call_at b' i) \<and> deferred (call_at b' i)"
proof -
  have inv: "batch_inv b" using round.reachable_inv [OF assms(1,2)] .
  define c where "c = b\<lparr>bt_validated := True, bt_phase := Awaiting_prepared\<rparr>"
  have calls: "bt_calls c = bt_calls b" by (simp add: c_def)
  from in_order_first [of c i] calls_invD(4) [OF batch_invD(1) [OF inv]] assms(8,9) obtain "is" where
    "is": "in_order c = i # is" "i \<notin> set is" by (auto simp: calls)
  from assms(11) obtain p where p: "tc_prepared (call_at b i) = Some p" by (auto simp: deferred_def split: option.splits)
  with batch_invD(2) [OF inv assms(8)] assms(11) have safe: "safety (call_at b i) = FINAL_ONLY"
    by (simp add: call_wf_def safety_def default_policy_conflicts)
  have idle: "active_count c = 0" using assms(14) by (simp add: active_count_def calls)
  have enter: "can_enter_phase c i" using assms(3,9) safe by (simp add: can_enter_phase_def calls Let_def list_ex_iff) (simp add: c_def)
  have "start_one i c = change i (launch Running Run_tool) c"
    using assms(3,4,9-10,12,13) p enter idle
    by (simp add: start_one_def calls lower_prepared_def unresolved_def dependency_failure_def List.map_filter_def) (simp add: c_def)
  then have "call_at (start_ready c) i = launch Running Run_tool (call_at b i)"
    using "is" assms(6-8) fold_start_other [OF "is"(2)] by (simp add: start_ready_def calls) (simp add: c_def)
  then have "run_tool (call_at (start_ready c) i)" "deferred (call_at (start_ready c) i)"
    using assms(11) by (simp_all add: run_tool_def deferred_def launch_def)
  moreover have "bt_phase (start_ready c) = Awaiting_prepared" by (simp add: c_def)
  moreover have "batch_step (Validated True) b = Some (start_ready c)" using assms(5) by (simp add: c_def)
  ultimately show ?thesis by blast
qed

definition unapproved :: "event list" where
  "unapproved = [Submit (a_call ''a'' ''bash'') (Some 0)] @ prepare_events 0 Deferred @ [Finish [a_call ''a'' ''bash''] True]"

lemma sequential_call_runs_unapproved_witness:
  "\<exists>b'. batch_step (Validated True) (a_run False unapproved) = Some b' \<and> bt_phase b' = Awaiting_prepared \<and>
     run_tool (call_at b' 0) \<and> deferred (call_at b' 0)"
proof (rule sequential_call_runs_unapproved [OF a_start_new a_run_moves])
  show "run_events unapproved (a_start False) \<noteq> None" by code_simp
  show "\<not> bt_parallel (a_run False unapproved)" "0 < bt_workers (a_run False unapproved)" "bt_phase (a_run False unapproved) = Validating"
    "\<not> bt_aborted (a_run False unapproved)" "\<not> bt_journal_error (a_run False unapproved)" by code_simp+
  show "0 < length (bt_calls (a_run False unapproved))" "tc_ordinal (call_at (a_run False unapproved) 0) = 0"
    "tc_state (call_at (a_run False unapproved) 0) = Queued" "deferred (call_at (a_run False unapproved) 0)"
    "\<not> tc_cancel (call_at (a_run False unapproved) 0)" "tc_dependencies (call_at (a_run False unapproved) 0) = []" by code_simp+
  show "\<forall>t\<in>set (bt_calls (a_run False unapproved)). tc_state t \<noteq> Running" by code_simp
qed

section \<open>Rounds that wait for themselves\<close>

text \<open>No call runs, and what \<open>finish\<close> and the preparations wait for has not happened.\<close>

definition waits :: "batch \<Rightarrow> tracked_call \<Rightarrow> bool" where
  "waits b t \<longleftrightarrow> tc_state t \<noteq> Running \<and> tc_state t \<noteq> Cancelling \<and> \<not> tc_left t \<and>
     (case tc_preparation t of Prepared \<Rightarrow> True | Waiting_for (Some j) \<Rightarrow> \<not> tc_done (call_at b j) | _ \<Rightarrow> False)"

definition blocked :: "batch \<Rightarrow> bool" where
  "blocked b \<longleftrightarrow> list_all (waits b) (bt_calls b) \<and>
     (case bt_phase b of
        Awaiting_prepared \<Rightarrow> list_ex (\<lambda>t. tc_state t = Preparing) (bt_calls b)
      | Precommit \<Rightarrow> \<not> precommit_reached b
      | Draining \<Rightarrow> \<not> all_done b
      | _ \<Rightarrow> False)"

lemma blocked_step:
  assumes "blocked b" "batch_step e b = Some b'"
  shows "blocked b' \<and> bt_calls b' = bt_calls b \<and> bt_phase b' = bt_phase b"
proof -
  have w: "waits b (call_at b i)" if "i < length (bt_calls b)" for i
    using assms(1) that by (simp add: blocked_def list_all_length)
  have same: "waits (b\<lparr>bt_leases := x\<rparr>) = waits b" "waits (b\<lparr>bt_task_states := y\<rparr>) = waits b" for x y
    by (auto simp: waits_def fun_eq_iff split: preparation.split option.split)
  have keep: "blocked (b\<lparr>bt_leases := x\<rparr>)" "blocked (b\<lparr>bt_task_states := y\<rparr>)" for x y
    using assms(1) by (simp_all add: blocked_def same precommit_reached_def all_done_def cong: phase.case_cong)
  show ?thesis
  proof (cases e)
    case (Begin_preparation i)
    then show ?thesis using assms(2) w [of i] by (simp add: waits_def split: if_splits)
  next
    case (Enter_preparation i)
    then show ?thesis using assms(2) w [of i] by (simp add: waits_def previous_done_def split: if_splits preparation.splits option.splits)
  next
    case (Prepare i r stop recorded)
    then show ?thesis using assms(2) w [of i] by (simp add: waits_def split: if_splits preparation.splits)
  next
    case (Task_done i r)
    then show ?thesis using assms(2) w [of i] by (auto simp: waits_def split: if_splits)
  next
    case (Timed_out i x)
    then show ?thesis using assms(2) w [of i] by (simp add: waits_def split: if_splits)
  next
    case (Thread_over i)
    then show ?thesis using assms(2) w [of i] by (simp add: waits_def split: if_splits)
  next
    case (Lease_over x)
    then show ?thesis using assms(2) keep by auto
  next
    case (Task_state x s)
    then show ?thesis using assms(2) keep by auto
  qed (use assms in \<open>auto simp: blocked_def all_done_def list_all_iff list_ex_iff split: if_splits phase.splits\<close>)
qed

lemma blocked_forever:
  "blocked b \<Longrightarrow> run_events es b = Some b' \<Longrightarrow> bt_calls b' = bt_calls b \<and> bt_phase b' = bt_phase b"
proof (induction es arbitrary: b)
  case (Cons e es)
  then obtain c where c: "batch_step e b = Some c" "run_events es c = Some b'" by (auto simp: bind_eq_Some_conv)
  from blocked_step [OF Cons.prems(1) c(1)] Cons.IH [of c] c(2) show ?case by simp
qed simp

lemma blocked_not_closed: "blocked b \<Longrightarrow> \<nexists>es b'. run_events es b = Some b' \<and> bt_phase b' = Closed"
proof (intro notI, elim exE conjE)
  fix es b' assume "blocked b" "run_events es b = Some b'" "bt_phase b' = Closed"
  with blocked_forever [of b es b'] show False by (simp add: blocked_def)
qed

definition edit_shell_read :: "event list" where
  "edit_shell_read = [Finish [a_call ''a'' ''edit_file'', a_call ''b'' ''bash'', a_call ''c'' ''read_file''] True, Validated True] @
     prepare_events 0 (Ready an_edit) @ prepare_events 1 (Ready a_shell) @ prepare_events 2 (Ready a_read) @
     [Task_done 0 a_success, All_prepared, Authorize Stopped True, Authorize Stopped True, Authorize Stopped True, Gate True]"

text \<open>C37. A response with an edit of a file, a shell command and a read of that file, in this order,
  hangs: \<open>_wait_precommit\<close> waits for the read, the read for the shell command, and the shell command for
  the commit behind \<open>_wait_precommit\<close>. No sequence of events ends the round.\<close>

theorem edit_shell_read_hangs:
  "run_events edit_shell_read (a_start True) = Some (a_run True edit_shell_read) \<and>
   map tc_state (bt_calls (a_run True edit_shell_read)) = [Completed, Queued, Queued] \<and>
   bt_phase (a_run True edit_shell_read) = Precommit \<and>
   (\<nexists>es b'. run_events es (a_run True edit_shell_read) = Some b' \<and> bt_phase b' = Closed)"
proof -
  have "run_events edit_shell_read (a_start True) \<noteq> None" by code_simp
  then have "run_events edit_shell_read (a_start True) = Some (a_run True edit_shell_read)" by (auto simp: a_run_def)
  moreover have "map tc_state (bt_calls (a_run True edit_shell_read)) = [Completed, Queued, Queued]" by code_simp
  moreover have "bt_phase (a_run True edit_shell_read) = Precommit" by code_simp
  moreover have "blocked (a_run True edit_shell_read)" by code_simp
  then have "\<nexists>es b'. run_events es (a_run True edit_shell_read) = Some b' \<and> bt_phase b' = Closed" by (rule blocked_not_closed)
  ultimately show ?thesis by blast
qed

definition sequential_middle :: "event list" where
  "sequential_middle = [Finish [a_call ''a'' ''edit_file'', a_call ''b'' ''bash'', a_call ''c'' ''read_file''] True, Validated True] @
     prepare_events 0 (Ready an_edit) @ [Task_done 0 a_success] @ prepare_events 1 (Ready a_shell) @ [Begin_preparation 2]"

text \<open>Without parallel tools the same response hangs earlier: the preparation of the read waits for
  the shell command to be done, which waits for the gate, which waits for every preparation.\<close>

theorem sequential_round_hangs:
  "run_events sequential_middle (a_start False) = Some (a_run False sequential_middle) \<and>
   map tc_state (bt_calls (a_run False sequential_middle)) = [Completed, Queued, Preparing] \<and>
   bt_phase (a_run False sequential_middle) = Awaiting_prepared \<and>
   (\<nexists>es b'. run_events es (a_run False sequential_middle) = Some b' \<and> bt_phase b' = Closed)"
proof -
  have "run_events sequential_middle (a_start False) \<noteq> None" by code_simp
  then have "run_events sequential_middle (a_start False) = Some (a_run False sequential_middle)" by (auto simp: a_run_def)
  moreover have "map tc_state (bt_calls (a_run False sequential_middle)) = [Completed, Queued, Preparing]" by code_simp
  moreover have "bt_phase (a_run False sequential_middle) = Awaiting_prepared" by code_simp
  moreover have "blocked (a_run False sequential_middle)" by code_simp
  then have "\<nexists>es b'. run_events es (a_run False sequential_middle) = Some b' \<and> bt_phase b' = Closed" by (rule blocked_not_closed)
  ultimately show ?thesis by blast
qed

end
